(* ===== verification/Dec.thy ===== *)
theory Dec
  imports Prelude
begin

text \<open>
  \<open>internal/proto/dec.go\<close>: the unsigned 64-bit integers that cross the wire as canonical decimal
  strings, with the parts of Go's \<open>strconv\<close> they rest on (\<open>ParseUint\<close> in base 10 and
  \<open>FormatUint\<close>).

  A \<open>Dec\<close> is a \<open>64 word\<close>; a Go \<open>int64\<close> stored in SQLite is an \<open>int\<close> whose range is checked
  where the code checks it. The lemmas show that parsing and printing are inverse to each other, so
  that a number has exactly one accepted spelling (the storage layer compares revisions as text),
  and that the two conversions to and from \<open>int64\<close> never wrap.
\<close>

type_synonym dec = "64 word"

datatype dec_error =
    NotCanonical | OutOfRange | NotPositive | ExceedsInt64 | NegativeStorage | NotJsonString

section \<open>strconv\<close>

datatype num_error = ErrSyntax | ErrRange

fun parse_uint_loop :: "nat \<Rightarrow> bytes \<Rightarrow> num_error + nat" where
  "parse_uint_loop n [] = Inr n"
| "parse_uint_loop n (c # cs) =
     (if \<not> is_digit c then Inl ErrSyntax
      else if 10 * n + digit_val c \<ge> 2 ^ 64 then Inl ErrRange
      else parse_uint_loop (10 * n + digit_val c) cs)"

definition parse_uint :: "bytes \<Rightarrow> num_error + nat" where
  "parse_uint s = (if s = [] then Inl ErrSyntax else parse_uint_loop 0 s)"

fun format_nat :: "nat \<Rightarrow> bytes" where
  "format_nat n = (if n < 10 then [digit_char n] else format_nat (n div 10) @ [digit_char (n mod 10)])"

declare format_nat.simps [simp del]

section \<open>Dec\<close>

definition MaxDec :: dec where
  "MaxDec = - 1"

definition isCanonicalDecimal :: "bytes \<Rightarrow> bool" where
  "isCanonicalDecimal s =
     (if s = '''' then False
      else if s = ''0'' then True
      else if hd s = CHR ''0'' then False
      else list_all is_digit s)"

definition ParseDec :: "bytes \<Rightarrow> dec_error + dec" where
  "ParseDec s =
     (if \<not> isCanonicalDecimal s then Inl NotCanonical
      else case parse_uint s of
             Inl _ \<Rightarrow> Inl OutOfRange
           | Inr v \<Rightarrow> Inr (of_nat v))"

definition ParseDecPositive :: "bytes \<Rightarrow> dec_error + dec" where
  "ParseDecPositive s =
     bindE (ParseDec s) (\<lambda>d. if d = 0 then Inl NotPositive else Inr d)"

definition DecString :: "dec \<Rightarrow> bytes" where
  "DecString d = format_nat (unat d)"

definition MaxInt64 :: int where
  "MaxInt64 = 2 ^ 63 - 1"

definition DecInt64 :: "dec \<Rightarrow> dec_error + int" where
  "DecInt64 d = (if uint d > MaxInt64 then Inl ExceedsInt64 else Inr (uint d))"

definition DecFromInt64 :: "int \<Rightarrow> dec_error + dec" where
  "DecFromInt64 v = (if v < 0 then Inl NegativeStorage else Inr (word_of_int v))"

definition MarshalJSON :: "dec \<Rightarrow> bytes" where
  "MarshalJSON d = [CHR 0x22] @ DecString d @ [CHR 0x22]"

section \<open>Printing\<close>

lemma format_nat_digits: "list_all is_digit (format_nat n)"
proof (induction n rule: format_nat.induct)
  case (1 n)
  then show ?case by (subst format_nat.simps) simp
qed

lemma format_nat_nonempty [simp]: "format_nat n \<noteq> []"
  by (subst format_nat.simps) simp

lemma format_nat_0: "format_nat 0 = ''0''"
  by (subst format_nat.simps) simp

lemma hd_format_nat: "0 < n \<Longrightarrow> hd (format_nat n) \<noteq> CHR ''0''"
proof (induction n rule: format_nat.induct)
  case (1 n)
  show ?case
  proof (cases "n < 10")
    case True
    with "1.prems" show ?thesis by (subst format_nat.simps) (simp add: digit_char_eq_0)
  next
    case False
    then have "hd (format_nat (n div 10)) \<noteq> CHR ''0''" by (intro "1.IH") auto
    with False show ?thesis by (subst format_nat.simps) simp
  qed
qed

lemma format_nat_eq_0_char: "0 < n \<Longrightarrow> format_nat n \<noteq> ''0''"
  using hd_format_nat [of n] by auto

lemma format_nat_canonical: "isCanonicalDecimal (format_nat n)"
proof (cases "n = 0")
  case True
  then show ?thesis by (simp add: format_nat_0 isCanonicalDecimal_def)
next
  case False
  then show ?thesis
    by (simp add: isCanonicalDecimal_def hd_format_nat format_nat_eq_0_char format_nat_digits)
qed

section \<open>Parsing\<close>

lemma parse_uint_loop_snoc:
  "parse_uint_loop n (xs @ [c]) =
     bindE (parse_uint_loop n xs)
       (\<lambda>m. if \<not> is_digit c then Inl ErrSyntax
            else if 10 * m + digit_val c \<ge> 2 ^ 64 then Inl ErrRange
            else Inr (10 * m + digit_val c))"
  by (induction n xs rule: parse_uint_loop.induct) simp_all

lemma parse_uint_loop_bound: "n < 2 ^ 64 \<Longrightarrow> parse_uint_loop n s = Inr m \<Longrightarrow> m < 2 ^ 64"
  by (induction n s rule: parse_uint_loop.induct) (auto split: if_splits)

lemma parse_uint_bound: "parse_uint s = Inr m \<Longrightarrow> m < 2 ^ 64"
  using parse_uint_loop_bound [of 0 s m] by (auto simp: parse_uint_def split: if_splits)

lemma parse_uint_format: "n < 2 ^ 64 \<Longrightarrow> parse_uint_loop 0 (format_nat n) = Inr n"
proof (induction n rule: format_nat.induct)
  case (1 n)
  show ?case
  proof (cases "n < 10")
    case True
    then show ?thesis by (subst format_nat.simps) simp
  next
    case False
    then have "parse_uint_loop 0 (format_nat (n div 10)) = Inr (n div 10)"
      using "1.prems" by (intro "1.IH") auto
    with False "1.prems" show ?thesis
      by (subst format_nat.simps) (simp add: parse_uint_loop_snoc)
  qed
qed

text \<open>
  The converse: a digit string without a leading zero is what its value prints as. The induction is
  from the right, where printing appends.
\<close>

lemma format_parse_uint:
  "s \<noteq> [] \<Longrightarrow> hd s \<noteq> CHR ''0'' \<Longrightarrow> parse_uint_loop 0 s = Inr n \<Longrightarrow> 0 < n \<and> format_nat n = s"
proof (induction s arbitrary: n rule: rev_induct)
  case Nil
  then show ?case by simp
next
  case (snoc c xs)
  from snoc.prems(3) obtain m where m: "parse_uint_loop 0 xs = Inr m"
    and dig: "is_digit c" and n: "n = 10 * m + digit_val c"
    by (auto simp: parse_uint_loop_snoc split: if_splits)
  have d: "digit_val c < 10" using dig by (rule digit_val_less)
  show ?case
  proof (cases "xs = []")
    case True
    then have "m = 0" using m by simp
    moreover have "digit_val c \<noteq> 0"
      using True snoc.prems(2) digit_char_eq_0 [OF d] dig by simp
    ultimately show ?thesis
      using True n d dig by (subst format_nat.simps) simp
  next
    case False
    with snoc m have IH: "0 < m \<and> format_nat m = xs" by simp
    then show ?thesis
      using n d dig by (subst format_nat.simps) simp
  qed
qed

lemma unat_DecString_bound: "unat (d :: dec) < 2 ^ 64"
  using unsigned_less [where ?'a = nat, of d] by simp

lemma ParseDec_DecString: "ParseDec (DecString d) = Inr d"
  using unat_DecString_bound [of d]
  by (simp add: ParseDec_def DecString_def format_nat_canonical parse_uint_def parse_uint_format)

lemma ParseDec_Inr_iff: "ParseDec s = Inr d \<longleftrightarrow> s = DecString d"
proof
  assume "s = DecString d"
  then show "ParseDec s = Inr d" by (simp add: ParseDec_DecString)
next
  assume P: "ParseDec s = Inr d"
  then obtain v where can: "isCanonicalDecimal s" and v: "parse_uint s = Inr v"
    and d: "d = of_nat v"
    by (auto simp: ParseDec_def split: if_splits sum.splits)
  have "unat d = v"
    using parse_uint_bound [OF v] d by (simp add: unat_of_nat take_bit_nat_eq_self)
  moreover have "format_nat v = s"
  proof (cases "s = ''0''")
    case True
    then show ?thesis
      using v by (simp add: parse_uint_def is_digit_def byte_simps digit_val_def format_nat_0)
  next
    case False
    then have "s \<noteq> []" and "hd s \<noteq> CHR ''0''"
      using can by (auto simp: isCanonicalDecimal_def split: if_splits)
    then show ?thesis
      using format_parse_uint v by (simp add: parse_uint_def)
  qed
  ultimately show "s = DecString d" by (simp add: DecString_def)
qed

lemma ParseDecPositive_Inr_iff: "ParseDecPositive s = Inr d \<longleftrightarrow> s = DecString d \<and> d \<noteq> 0"
  by (auto simp: ParseDecPositive_def ParseDec_Inr_iff split: if_splits)

lemma DecString_inject [simp]: "DecString a = DecString b \<longleftrightarrow> a = b"
  using ParseDec_DecString by (metis sum.inject(2))

lemma DecString_nonempty [simp]: "DecString d \<noteq> []"
  by (simp add: DecString_def)

lemma DecString_digits: "list_all is_digit (DecString d)"
  by (simp add: DecString_def format_nat_digits)

section \<open>Storage conversions\<close>

lemma DecInt64_range: "DecInt64 d = Inr v \<Longrightarrow> 0 \<le> v \<and> v \<le> MaxInt64 \<and> v = uint d"
  by (auto simp: DecInt64_def split: if_splits)

lemma DecFromInt64_nonneg [simp]: "0 \<le> v \<Longrightarrow> DecFromInt64 v = Inr (word_of_int v)"
  by (simp add: DecFromInt64_def)

lemma uint_of_int64: "0 \<le> v \<Longrightarrow> v \<le> MaxInt64 \<Longrightarrow> uint (word_of_int v :: dec) = v"
  by (simp add: uint_word_of_int MaxInt64_def)

lemma word_of_int_inject_int64:
  assumes "0 \<le> a" "a \<le> MaxInt64" "0 \<le> b" "b \<le> MaxInt64"
  shows "(word_of_int a :: dec) = word_of_int b \<longleftrightarrow> a = b"
  using assms uint_of_int64 by metis

section \<open>Properties of decimals\<close>

text \<open>
  C18: a decimal has one spelling. \<open>ParseDec\<close> accepts a string exactly when it is what \<open>String\<close> prints
  for some 64-bit value, and then returns that value: no leading zero, no sign, no empty string, nothing
  out of range, and every value round-trips.
\<close>

theorem decimal_has_one_spelling:
  "(ParseDec s = Inr d) = (s = DecString d) \<and> (ParseDecPositive s = Inr d) = (s = DecString d \<and> d \<noteq> 0)"
  by (simp add: ParseDec_Inr_iff ParseDecPositive_Inr_iff)

text \<open>
  Storage never wraps. Going to SQLite's signed integers and back is the identity wherever it is
  defined, and it is refused, rather than wrapped, exactly for the values that do not fit.
\<close>

theorem storage_conversion_never_wraps:
  "(case DecInt64 d of
      Inr v \<Rightarrow> v = uint d \<and> 0 \<le> v \<and> v \<le> MaxInt64 \<and> DecFromInt64 v = Inr d
    | Inl e \<Rightarrow> e = ExceedsInt64 \<and> MaxInt64 < uint d)
   \<and> (case DecFromInt64 v of Inr d' \<Rightarrow> 0 \<le> v \<and> d' = word_of_int v | Inl e \<Rightarrow> e = NegativeStorage \<and> v < 0)"
  by (simp add: DecInt64_def DecFromInt64_def)

end
