(* ===== verification/Errors.thy ===== *)
theory Errors
  imports Prelude
begin

text \<open>
  \<open>internal/proto/errors.go\<close>: the fixed vocabulary of rejection causes, and errors as values. A Go
  \<open>error\<close> is either a \<open>RejectError\<close>, which carries a reason and nothing else, or any other error,
  of which the program only ever uses that it is not a \<open>RejectError\<close> (its text goes to the log);
  the constructor \<open>OtherError\<close> keeps a tag so that the branches stay apart.
\<close>

datatype reject_reason =
    ReasonProtocolVersion | ReasonWrapperShape | ReasonDigestMismatch | ReasonBodyShape
  | ReasonUnknownKind | ReasonEntityRev | ReasonTooLarge | ReasonBadCursor | ReasonUserMismatch
  | ReasonUnauthorized | ReasonStorageFull | ReasonBadRequest | ReasonOverloaded | ReasonInternal

fun reason_string :: "reject_reason \<Rightarrow> bytes" where
  "reason_string ReasonProtocolVersion = ''protocol_version''"
| "reason_string ReasonWrapperShape = ''wrapper_shape''"
| "reason_string ReasonDigestMismatch = ''digest_mismatch''"
| "reason_string ReasonBodyShape = ''body_shape''"
| "reason_string ReasonUnknownKind = ''unknown_kind''"
| "reason_string ReasonEntityRev = ''entity_rev''"
| "reason_string ReasonTooLarge = ''too_large''"
| "reason_string ReasonBadCursor = ''bad_cursor''"
| "reason_string ReasonUserMismatch = ''user_mismatch''"
| "reason_string ReasonUnauthorized = ''unauthorized''"
| "reason_string ReasonStorageFull = ''storage_full''"
| "reason_string ReasonBadRequest = ''bad_request''"
| "reason_string ReasonOverloaded = ''overloaded''"
| "reason_string ReasonInternal = ''internal''"

datatype go_error = RejectError reject_reason | OtherError bytes

definition Reject :: "reject_reason \<Rightarrow> go_error" where
  "Reject r = RejectError r"

fun ReasonOf :: "go_error \<Rightarrow> reject_reason" where
  "ReasonOf (RejectError r) = r"
| "ReasonOf (OtherError _) = ReasonInternal"

lemma ReasonOf_Reject [simp]: "ReasonOf (Reject r) = r"
  by (simp add: Reject_def)

lemma Reject_inject [simp]: "Reject r = Reject r' \<longleftrightarrow> r = r'"
  by (simp add: Reject_def)

text \<open>The bytes of a reason: letters and underscores, so no quote and no escape is ever needed.\<close>

lemma reason_string_alphabet: "c \<in> set (reason_string r) \<Longrightarrow> CHR ''_'' \<le> c \<and> c \<le> CHR ''z''"
  by (cases r) (auto simp: byte_simps)

end
