(* ===== verification/Utf8.thy ===== *)
theory Utf8
  imports Prelude
begin

text \<open>
  The parts of Go's \<open>unicode/utf8\<close> and \<open>unicode/utf16\<close> that \<open>internal/proto/unquote.go\<close> and
  \<open>encoding/json\<close> call: decoding one rune with the byte ranges of the standard library's table
  (overlong forms, surrogates and values above U+10FFFF are refused one byte at a time), appending a
  rune, and joining a surrogate pair. Runes are natural numbers.

  The two lemmas the decoders rest on: re-encoding a decoded sequence gives back its bytes, and the
  number of bytes consumed never exceeds the input and is positive.
\<close>

definition RuneError :: nat where
  "RuneError = 0xFFFD"

definition RuneSelf :: nat where
  "RuneSelf = 0x80"

section \<open>utf8.DecodeRune\<close>

text \<open>Size of the sequence a lead byte announces, and the range its second byte must lie in.\<close>

definition lead_info :: "nat \<Rightarrow> (nat \<times> nat \<times> nat) option" where
  "lead_info b =
     (if b < 0xC2 then None
      else if b \<le> 0xDF then Some (2, 0x80, 0xBF)
      else if b = 0xE0 then Some (3, 0xA0, 0xBF)
      else if b = 0xED then Some (3, 0x80, 0x9F)
      else if b \<le> 0xEF then Some (3, 0x80, 0xBF)
      else if b = 0xF0 then Some (4, 0x90, 0xBF)
      else if b \<le> 0xF3 then Some (4, 0x80, 0xBF)
      else if b = 0xF4 then Some (4, 0x80, 0x8F)
      else None)"

definition continuation :: "char \<Rightarrow> bool" where
  "continuation c \<longleftrightarrow> 0x80 \<le> byte_val c \<and> byte_val c \<le> 0xBF"

fun decode_rune :: "bytes \<Rightarrow> nat \<times> nat" where
  "decode_rune [] = (RuneError, 0)"
| "decode_rune (c0 # cs) =
     (if byte_val c0 < RuneSelf then (byte_val c0, 1)
      else case lead_info (byte_val c0) of
        None \<Rightarrow> (RuneError, 1)
      | Some (n, lo, hi) \<Rightarrow>
          (case cs of
             [] \<Rightarrow> (RuneError, 1)
           | c1 # cs1 \<Rightarrow>
               if \<not> (lo \<le> byte_val c1 \<and> byte_val c1 \<le> hi) then (RuneError, 1)
               else if n = 2 then (byte_val c0 mod 32 * 64 + byte_val c1 mod 64, 2)
               else (case cs1 of
                  [] \<Rightarrow> (RuneError, 1)
                | c2 # cs2 \<Rightarrow>
                    if \<not> continuation c2 then (RuneError, 1)
                    else if n = 3 then
                      (byte_val c0 mod 16 * 4096 + byte_val c1 mod 64 * 64 + byte_val c2 mod 64, 3)
                    else (case cs2 of
                       [] \<Rightarrow> (RuneError, 1)
                     | c3 # _ \<Rightarrow>
                         if \<not> continuation c3 then (RuneError, 1)
                         else (byte_val c0 mod 8 * 262144 + byte_val c1 mod 64 * 4096
                                 + byte_val c2 mod 64 * 64 + byte_val c3 mod 64, 4)))))"

declare decode_rune.simps(2) [simp del]

section \<open>utf8.AppendRune\<close>

definition encode_rune :: "nat \<Rightarrow> bytes" where
  "encode_rune r0 =
     (let r = (if r0 > 0x10FFFF \<or> (0xD800 \<le> r0 \<and> r0 \<le> 0xDFFF) then RuneError else r0) in
      if r \<le> 0x7F then [byte_of r]
      else if r \<le> 0x7FF then [byte_of (0xC0 + r div 64), byte_of (0x80 + r mod 64)]
      else if r \<le> 0xFFFF then
        [byte_of (0xE0 + r div 4096), byte_of (0x80 + r div 64 mod 64), byte_of (0x80 + r mod 64)]
      else
        [byte_of (0xF0 + r div 262144), byte_of (0x80 + r div 4096 mod 64),
         byte_of (0x80 + r div 64 mod 64), byte_of (0x80 + r mod 64)])"

section \<open>utf16\<close>

definition IsSurrogate :: "nat \<Rightarrow> bool" where
  "IsSurrogate r \<longleftrightarrow> 0xD800 \<le> r \<and> r < 0xE000"

definition utf16_DecodeRune :: "nat \<Rightarrow> nat \<Rightarrow> nat" where
  "utf16_DecodeRune r1 r2 =
     (if 0xD800 \<le> r1 \<and> r1 < 0xDC00 \<and> 0xDC00 \<le> r2 \<and> r2 < 0xE000
      then (r1 - 0xD800) * 1024 + (r2 - 0xDC00) + 0x10000
      else RuneError)"

section \<open>Lemmas\<close>

lemma encode_rune_nonempty [simp]: "encode_rune r \<noteq> []"
  by (simp add: encode_rune_def Let_def)

lemma decode_rune_size: "0 < snd (decode_rune (c # cs)) \<and> snd (decode_rune (c # cs)) \<le> Suc (length cs)"
  by (auto simp: decode_rune.simps(2) split: option.splits list.splits)

lemma decode_rune_pos: "(r, n) = decode_rune (c # cs) \<Longrightarrow> 0 < n"
  using decode_rune_size [of c cs] by (metis snd_conv)

lemma decode_rune_ascii: "byte_val c < 0x80 \<Longrightarrow> decode_rune (c # cs) = (byte_val c, 1)"
  by (simp add: decode_rune.simps(2) RuneSelf_def)

text \<open>Arithmetic of the three sequence lengths, on the byte values.\<close>

lemma mod_offset:
  fixes a k m :: nat
  assumes "m dvd k" "k \<le> a" "a < k + m"
  shows "a mod m = a - k"
proof -
  obtain x where a: "a = k + x" using assms(2) le_Suc_ex by blast
  then have "x < m" using assms(3) by simp
  moreover have "(k + x) mod m = x mod m" using assms(1) by (metis mod_add_left_eq mod_0_imp_dvd add_0 dvd_imp_mod_0)
  ultimately show ?thesis using a by simp
qed

lemma encode_two:
  fixes a b :: nat
  assumes "194 \<le> a" "a \<le> 223" "128 \<le> b" "b \<le> 191"
  defines "r \<equiv> a mod 32 * 64 + b mod 64"
  shows "127 < r" "r \<le> 2047" "192 + r div 64 = a" "128 + r mod 64 = b"
proof -
  have a: "a mod 32 = a - 192" and b: "b mod 64 = b - 128"
    using assms(1-4) by (auto intro: mod_offset)
  have r: "r div 64 = a mod 32" "r mod 64 = b mod 64"
    by (simp_all add: r_def)
  show "192 + r div 64 = a" "128 + r mod 64 = b" using a b r assms(1-4) by simp_all
  show "127 < r" "r \<le> 2047" using assms(1-4) unfolding r_def a b by linarith+
qed

lemma encode_three:
  fixes a b c :: nat
  assumes "224 \<le> a" "a \<le> 239" "128 \<le> b" "b \<le> 191" "128 \<le> c" "c \<le> 191"
    and e0: "a = 224 \<Longrightarrow> 160 \<le> b" and ed: "a = 237 \<Longrightarrow> b \<le> 159"
  defines "r \<equiv> a mod 16 * 4096 + b mod 64 * 64 + c mod 64"
  shows "2047 < r" "r \<le> 65535" "\<not> (55296 \<le> r \<and> r \<le> 57343)"
    "224 + r div 4096 = a" "128 + r div 64 mod 64 = b" "128 + r mod 64 = c"
proof -
  have abc: "a mod 16 = a - 224" "b mod 64 = b - 128" "c mod 64 = c - 128"
    using assms(1-6) by (auto intro: mod_offset)
  have r: "r = (a mod 16 * 64 + b mod 64) * 64 + c mod 64" by (simp add: r_def)
  have r64: "r div 64 = a mod 16 * 64 + b mod 64" unfolding r by simp
  have r4096: "r div 4096 = r div 64 div 64" by (simp add: div_mult2_eq [symmetric])
  have 1: "r div 64 div 64 = a mod 16" and 2: "r div 64 mod 64 = b mod 64"
    unfolding r64 by simp_all
  have 3: "r mod 64 = c mod 64" unfolding r by (simp only: mod_mult_self3 mod_mod_trivial)
  show "224 + r div 4096 = a" unfolding r4096 1 abc using assms(1) by linarith
  show "128 + r div 64 mod 64 = b" unfolding 2 abc using assms(3) by linarith
  show "128 + r mod 64 = c" unfolding 3 abc using assms(5) by linarith
  show "2047 < r"
    using assms(1-6) e0 unfolding r_def abc by (cases "a = 224") linarith+
  show "r \<le> 65535"
    using assms(1-6) unfolding r_def abc by linarith
  consider "a < 237" | "a = 237" | "237 < a" by linarith
  then show "\<not> (55296 \<le> r \<and> r \<le> 57343)"
    using assms(1-6) ed unfolding r_def abc by cases linarith+
qed

lemma encode_four:
  fixes a b c d :: nat
  assumes "240 \<le> a" "a \<le> 244" "128 \<le> b" "b \<le> 191" "128 \<le> c" "c \<le> 191" "128 \<le> d" "d \<le> 191"
    and f0: "a = 240 \<Longrightarrow> 144 \<le> b" and f4: "a = 244 \<Longrightarrow> b \<le> 143"
  defines "r \<equiv> a mod 8 * 262144 + b mod 64 * 4096 + c mod 64 * 64 + d mod 64"
  shows "65535 < r" "r \<le> 1114111" "240 + r div 262144 = a" "128 + r div 4096 mod 64 = b"
    "128 + r div 64 mod 64 = c" "128 + r mod 64 = d"
proof -
  have abcd: "a mod 8 = a - 240" "b mod 64 = b - 128" "c mod 64 = c - 128" "d mod 64 = d - 128"
    using assms(1-8) by (auto intro: mod_offset)
  have r: "r = ((a mod 8 * 64 + b mod 64) * 64 + c mod 64) * 64 + d mod 64" by (simp add: r_def)
  have r64: "r div 64 = (a mod 8 * 64 + b mod 64) * 64 + c mod 64" unfolding r by simp
  have r4096: "r div 64 div 64 = a mod 8 * 64 + b mod 64" unfolding r64 by simp
  have split: "r div 4096 = r div 64 div 64" "r div 262144 = r div 64 div 64 div 64"
    by (simp_all add: div_mult2_eq [symmetric])
  have 1: "r div 64 div 64 div 64 = a mod 8" and 2: "r div 64 div 64 mod 64 = b mod 64"
    unfolding r4096 by simp_all
  have 3: "r div 64 mod 64 = c mod 64"
    unfolding r64 by (simp only: mod_mult_self3 mod_mod_trivial)
  have 4: "r mod 64 = d mod 64" unfolding r by (simp only: mod_mult_self3 mod_mod_trivial)
  show "240 + r div 262144 = a" unfolding split 1 abcd using assms(1) by linarith
  show "128 + r div 4096 mod 64 = b" unfolding split 2 abcd using assms(3) by linarith
  show "128 + r div 64 mod 64 = c" unfolding 3 abcd using assms(5) by linarith
  show "128 + r mod 64 = d" unfolding 4 abcd using assms(7) by linarith
  show "65535 < r"
    using assms(1-8) f0 unfolding r_def abcd by (cases "a = 240") linarith+
  show "r \<le> 1114111"
    using assms(1-8) f4 unfolding r_def abcd by (cases "a = 244") linarith+
qed

text \<open>\<open>encode_rune\<close> by the bytes it emits, for each sequence length.\<close>

lemma encode_rune_two:
  assumes "127 < r" "r \<le> 2047" "192 + r div 64 = byte_val a" "128 + r mod 64 = byte_val b"
  shows "encode_rune r = [a, b]"
proof -
  have "encode_rune r = [byte_of (192 + r div 64), byte_of (128 + r mod 64)]"
    using assms(1,2) by (simp add: encode_rune_def)
  then show ?thesis unfolding assms(3,4) by simp
qed

lemma encode_rune_three:
  assumes "2047 < r" "r \<le> 65535" "\<not> (55296 \<le> r \<and> r \<le> 57343)"
    "224 + r div 4096 = byte_val a" "128 + r div 64 mod 64 = byte_val b" "128 + r mod 64 = byte_val c"
  shows "encode_rune r = [a, b, c]"
proof -
  have "encode_rune r =
      [byte_of (224 + r div 4096), byte_of (128 + r div 64 mod 64), byte_of (128 + r mod 64)]"
    using assms(1-3) by (auto simp: encode_rune_def)
  then show ?thesis unfolding assms(4-6) by simp
qed

lemma encode_rune_four:
  assumes "65535 < r" "r \<le> 1114111"
    "240 + r div 262144 = byte_val a" "128 + r div 4096 mod 64 = byte_val b"
    "128 + r div 64 mod 64 = byte_val c" "128 + r mod 64 = byte_val d"
  shows "encode_rune r = [a, b, c, d]"
proof -
  have "encode_rune r = [byte_of (240 + r div 262144), byte_of (128 + r div 4096 mod 64),
      byte_of (128 + r div 64 mod 64), byte_of (128 + r mod 64)]"
    using assms(1,2) by (auto simp: encode_rune_def)
  then show ?thesis unfolding assms(3-6) by simp
qed

lemma lead_info_2:
  "lead_info b = Some (m, lo, hi) \<Longrightarrow> m = 2 \<Longrightarrow> 194 \<le> b \<and> b \<le> 223 \<and> lo = 128 \<and> hi = 191"
  by (auto simp: lead_info_def split: if_splits)

lemma lead_info_3:
  "lead_info b = Some (m, lo, hi) \<Longrightarrow> m = 3 \<Longrightarrow>
   224 \<le> b \<and> b \<le> 239 \<and> 128 \<le> lo \<and> hi \<le> 191 \<and> (b = 224 \<longrightarrow> 160 \<le> lo) \<and> (b = 237 \<longrightarrow> hi \<le> 159)"
  by (auto simp: lead_info_def split: if_splits)

lemma lead_info_4:
  "lead_info b = Some (m, lo, hi) \<Longrightarrow> m = 4 \<Longrightarrow>
   240 \<le> b \<and> b \<le> 244 \<and> 128 \<le> lo \<and> hi \<le> 191 \<and> (b = 240 \<longrightarrow> 144 \<le> lo) \<and> (b = 244 \<longrightarrow> hi \<le> 143)"
  by (auto simp: lead_info_def split: if_splits)

text \<open>The multi-byte sequences \<open>decode_rune\<close> accepts, as one inversion rule.\<close>

lemma decode_rune_multi:
  assumes "decode_rune s = (r, n)" "1 < n"
  obtains (two) c0 c1 rest where "s = c0 # c1 # rest" "n = 2"
      "194 \<le> byte_val c0" "byte_val c0 \<le> 223" "128 \<le> byte_val c1" "byte_val c1 \<le> 191"
      "r = byte_val c0 mod 32 * 64 + byte_val c1 mod 64"
  | (three) c0 c1 c2 rest where "s = c0 # c1 # c2 # rest" "n = 3"
      "224 \<le> byte_val c0" "byte_val c0 \<le> 239" "128 \<le> byte_val c1" "byte_val c1 \<le> 191"
      "128 \<le> byte_val c2" "byte_val c2 \<le> 191"
      "byte_val c0 = 224 \<Longrightarrow> 160 \<le> byte_val c1" "byte_val c0 = 237 \<Longrightarrow> byte_val c1 \<le> 159"
      "r = byte_val c0 mod 16 * 4096 + byte_val c1 mod 64 * 64 + byte_val c2 mod 64"
  | (four) c0 c1 c2 c3 rest where "s = c0 # c1 # c2 # c3 # rest" "n = 4"
      "240 \<le> byte_val c0" "byte_val c0 \<le> 244" "128 \<le> byte_val c1" "byte_val c1 \<le> 191"
      "128 \<le> byte_val c2" "byte_val c2 \<le> 191" "128 \<le> byte_val c3" "byte_val c3 \<le> 191"
      "byte_val c0 = 240 \<Longrightarrow> 144 \<le> byte_val c1" "byte_val c0 = 244 \<Longrightarrow> byte_val c1 \<le> 143"
      "r = byte_val c0 mod 8 * 262144 + byte_val c1 mod 64 * 4096
             + byte_val c2 mod 64 * 64 + byte_val c3 mod 64"
proof (cases s)
  case Nil
  with assms show ?thesis by simp
next
  case (Cons c0 cs)
  with assms have dec: "decode_rune (c0 # cs) = (r, n)" by simp
  from dec assms(2) obtain m lo hi where nr: "\<not> byte_val c0 < RuneSelf"
    and info: "lead_info (byte_val c0) = Some (m, lo, hi)"
    by (auto simp: decode_rune.simps(2) split: if_splits option.splits)
  from dec assms(2) nr info obtain c1 cs1 where cs: "cs = c1 # cs1"
    and rng: "lo \<le> byte_val c1" "byte_val c1 \<le> hi"
    by (auto simp: decode_rune.simps(2) split: if_splits list.splits)
  note step = decode_rune.simps(2) nr info
  consider "m = 2" | "m = 3" | "m = 4"
    using info by (auto simp: lead_info_def split: if_splits)
  then show ?thesis
  proof cases
    case 1
    with dec cs rng have "n = 2" "r = byte_val c0 mod 32 * 64 + byte_val c1 mod 64"
      by (simp_all add: step)
    with lead_info_2 [OF info 1] rng Cons cs show ?thesis
      by (intro two [of c0 c1 cs1]) simp_all
  next
    case 2
    with dec cs rng assms(2) obtain c2 cs2 where cs1: "cs1 = c2 # cs2"
      and c2: "128 \<le> byte_val c2" "byte_val c2 \<le> 191" and n: "n = 3"
      and r: "r = byte_val c0 mod 16 * 4096 + byte_val c1 mod 64 * 64 + byte_val c2 mod 64"
      by (auto simp: step continuation_def split: if_splits list.splits)
    from lead_info_3 [OF info 2] rng Cons cs cs1 c2 n r show ?thesis
      by (intro three [of c0 c1 c2 cs2]) simp_all
  next
    case 3
    with dec cs rng assms(2) obtain c2 c3 cs3 where cs1: "cs1 = c2 # c3 # cs3"
      and c23: "128 \<le> byte_val c2" "byte_val c2 \<le> 191" "128 \<le> byte_val c3" "byte_val c3 \<le> 191"
      and n: "n = 4"
      and r: "r = byte_val c0 mod 8 * 262144 + byte_val c1 mod 64 * 4096
             + byte_val c2 mod 64 * 64 + byte_val c3 mod 64"
      by (auto simp: step continuation_def split: if_splits list.splits)
    from lead_info_4 [OF info 3] rng Cons cs cs1 c23 n r show ?thesis
      by (intro four [of c0 c1 c2 c3 cs3]) simp_all
  qed
qed

lemma encode_decode_rune:
  assumes "decode_rune s = (r, n)" "1 < n"
  shows "encode_rune r = take n s"
  using assms
proof (cases rule: decode_rune_multi)
  case (two c0 c1 rest)
  have "encode_rune r = [c0, c1]"
    unfolding two(7) by (rule encode_rune_two [OF encode_two [OF two(3-6)]])
  then show ?thesis by (simp add: two(1,2))
next
  case (three c0 c1 c2 rest)
  have "encode_rune r = [c0, c1, c2]"
    unfolding three(11) by (rule encode_rune_three [OF encode_three [OF three(3-10)]])
  then show ?thesis by (simp add: three(1,2))
next
  case (four c0 c1 c2 c3 rest)
  have "encode_rune r = [c0, c1, c2, c3]"
    unfolding four(13) by (rule encode_rune_four [OF encode_four [OF four(3-12)]])
  then show ?thesis by (simp add: four(1,2))
qed

lemma decode_rune_high:
  assumes "decode_rune s = (r, n)" "1 < n"
  shows "list_all (\<lambda>c. 128 \<le> byte_val c) (take n s)"
  using assms
proof (cases rule: decode_rune_multi)
  case (two c0 c1 rest)
  from two(3-6) show ?thesis unfolding two(1,2) by simp
next
  case (three c0 c1 c2 rest)
  from three(3-8) show ?thesis unfolding three(1,2) by simp
next
  case (four c0 c1 c2 c3 rest)
  from four(3-10) show ?thesis unfolding four(1,2) by simp
qed

lemma decode_rune_nonascii:
  "decode_rune (c # cs) = (r, n) \<Longrightarrow> \<not> byte_val c < RuneSelf \<Longrightarrow> (r = RuneError \<and> n = 1) \<or> 1 < n"
  by (auto simp: decode_rune.simps(2) split: option.splits list.splits if_splits)

end
