(* ===== verification/Json.thy ===== *)
theory Json
  imports Utf8
begin

text \<open>
  What the program uses of Go's \<open>encoding/json\<close>. The scanner is the state machine of the standard
  library: a state, a stack that says what each open bracket is, one transition per byte and an
  operation code per transition, with the nesting limit of 10,000. Everything else reads bytes
  through it: \<open>read_value\<close> is \<open>Decoder.readValue\<close> (the text of the next value and the bytes
  after it), \<open>unmarshal_string\<close> is \<open>json.Unmarshal\<close> into a Go string (where a JSON \<open>null\<close> is
  accepted and leaves the string empty).

  Structural recursion over the bytes makes every reader total, so no fuel is needed. The lemmas
  show that a reader never returns more than it was given, and that the text of a string value scans
  back to itself whatever follows it: this is what lets a stored literal be written into a response
  and read again.
\<close>

section \<open>The scanner\<close>

datatype parse_state = ParseObjectKey | ParseObjectValue | ParseArrayValue

datatype scan_state =
    BeginValueOrEmpty | BeginValue | BeginStringOrEmpty | BeginString | EndValue | EndTop
  | InString | InStringEsc | InStringEscU | InStringEscU1 | InStringEscU12 | InStringEscU123
  | NumNeg | Num1 | Num0 | NumDot | NumDot0 | NumE | NumESign | NumE0
  | LitT | LitTr | LitTru | LitF | LitFa | LitFal | LitFals | LitN | LitNu | LitNul

datatype scan_op =
    ScanContinue | ScanBeginLiteral | ScanBeginObject | ScanObjectKey | ScanObjectValue
  | ScanEndObject | ScanBeginArray | ScanArrayValue | ScanEndArray | ScanSkipSpace | ScanEnd
  | ScanError

type_synonym scanner = "scan_state \<times> parse_state list"

definition maxNestingDepth :: nat where
  "maxNestingDepth = 10000"

definition is_space :: "char \<Rightarrow> bool" where
  "is_space c \<longleftrightarrow> c = CHR '' '' \<or> c = CHR 0x09 \<or> c = CHR 0x0D \<or> c = CHR 0x0A"

definition is_hex :: "char \<Rightarrow> bool" where
  "is_hex c \<longleftrightarrow> is_digit c \<or> (CHR ''a'' \<le> c \<and> c \<le> CHR ''f'') \<or> (CHR ''A'' \<le> c \<and> c \<le> CHR ''F'')"

definition push_state :: "scan_state \<Rightarrow> parse_state list \<Rightarrow> parse_state \<Rightarrow> scan_op
    \<Rightarrow> scan_op \<times> scanner" where
  "push_state st stk p opc =
     (if length stk < maxNestingDepth then (opc, st, p # stk) else (ScanError, st, p # stk))"

definition pop_state :: "parse_state list \<Rightarrow> scan_op \<Rightarrow> scan_op \<times> scanner" where
  "pop_state stk opc = (opc, if tl stk = [] then EndTop else EndValue, tl stk)"

definition end_top :: "parse_state list \<Rightarrow> scan_op \<times> scanner" where
  "end_top stk = (ScanEnd, EndTop, stk)"

definition end_value :: "parse_state list \<Rightarrow> char \<Rightarrow> scan_op \<times> scanner" where
  "end_value stk c =
     (case stk of
        [] \<Rightarrow> end_top stk
      | p # ps \<Rightarrow>
          if is_space c then (ScanSkipSpace, EndValue, stk)
          else case p of
            ParseObjectKey \<Rightarrow>
              if c = CHR '':'' then (ScanObjectKey, BeginValue, ParseObjectValue # ps)
              else (ScanError, EndValue, stk)
          | ParseObjectValue \<Rightarrow>
              if c = CHR '','' then (ScanObjectValue, BeginString, ParseObjectKey # ps)
              else if c = CHR ''}'' then pop_state stk ScanEndObject
              else (ScanError, EndValue, stk)
          | ParseArrayValue \<Rightarrow>
              if c = CHR '','' then (ScanArrayValue, BeginValue, stk)
              else if c = CHR '']'' then pop_state stk ScanEndArray
              else (ScanError, EndValue, stk))"

definition begin_value :: "parse_state list \<Rightarrow> char \<Rightarrow> scan_op \<times> scanner" where
  "begin_value stk c =
     (if is_space c then (ScanSkipSpace, BeginValue, stk)
      else if c = CHR ''{'' then push_state BeginStringOrEmpty stk ParseObjectKey ScanBeginObject
      else if c = CHR ''['' then push_state BeginValueOrEmpty stk ParseArrayValue ScanBeginArray
      else if c = CHR 0x22 then (ScanBeginLiteral, InString, stk)
      else if c = CHR ''-'' then (ScanBeginLiteral, NumNeg, stk)
      else if c = CHR ''0'' then (ScanBeginLiteral, Num0, stk)
      else if c = CHR ''t'' then (ScanBeginLiteral, LitT, stk)
      else if c = CHR ''f'' then (ScanBeginLiteral, LitF, stk)
      else if c = CHR ''n'' then (ScanBeginLiteral, LitN, stk)
      else if is_digit c then (ScanBeginLiteral, Num1, stk)
      else (ScanError, BeginValue, stk))"

definition begin_string :: "parse_state list \<Rightarrow> char \<Rightarrow> scan_op \<times> scanner" where
  "begin_string stk c =
     (if is_space c then (ScanSkipSpace, BeginString, stk)
      else if c = CHR 0x22 then (ScanBeginLiteral, InString, stk)
      else (ScanError, BeginString, stk))"

definition num_exp :: "parse_state list \<Rightarrow> char \<Rightarrow> scan_op \<times> scanner" where
  "num_exp stk c =
     (if is_digit c then (ScanContinue, NumE0, stk) else (ScanError, NumESign, stk))"

definition num_0 :: "parse_state list \<Rightarrow> char \<Rightarrow> scan_op \<times> scanner" where
  "num_0 stk c =
     (if c = CHR ''.'' then (ScanContinue, NumDot, stk)
      else if c = CHR ''e'' \<or> c = CHR ''E'' then (ScanContinue, NumE, stk)
      else end_value stk c)"

definition expect :: "parse_state list \<Rightarrow> bool \<Rightarrow> scan_state \<Rightarrow> scan_op \<times> scanner" where
  "expect stk b st = (if b then (ScanContinue, st, stk) else (ScanError, st, stk))"

fun scan_step :: "scan_state \<Rightarrow> parse_state list \<Rightarrow> char \<Rightarrow> scan_op \<times> scanner" where
  "scan_step BeginValueOrEmpty stk c =
     (if is_space c then (ScanSkipSpace, BeginValueOrEmpty, stk)
      else if c = CHR '']'' then end_value stk c else begin_value stk c)"
| "scan_step BeginValue stk c = begin_value stk c"
| "scan_step BeginStringOrEmpty stk c =
     (if is_space c then (ScanSkipSpace, BeginStringOrEmpty, stk)
      else if c = CHR ''}'' then end_value (ParseObjectValue # tl stk) c
      else begin_string stk c)"
| "scan_step BeginString stk c = begin_string stk c"
| "scan_step EndValue stk c = end_value stk c"
| "scan_step EndTop stk c = end_top stk"
| "scan_step InString stk c =
     (if c = CHR 0x22 then (ScanContinue, EndValue, stk)
      else if c = CHR 0x5C then (ScanContinue, InStringEsc, stk)
      else if c < CHR 0x20 then (ScanError, InString, stk)
      else (ScanContinue, InString, stk))"
| "scan_step InStringEsc stk c =
     (if c \<in> {CHR ''b'', CHR ''f'', CHR ''n'', CHR ''r'', CHR ''t'', CHR 0x5C, CHR ''/'', CHR 0x22}
      then (ScanContinue, InString, stk)
      else if c = CHR ''u'' then (ScanContinue, InStringEscU, stk)
      else (ScanError, InStringEsc, stk))"
| "scan_step InStringEscU stk c = expect stk (is_hex c) InStringEscU1"
| "scan_step InStringEscU1 stk c = expect stk (is_hex c) InStringEscU12"
| "scan_step InStringEscU12 stk c = expect stk (is_hex c) InStringEscU123"
| "scan_step InStringEscU123 stk c = expect stk (is_hex c) InString"
| "scan_step NumNeg stk c =
     (if c = CHR ''0'' then (ScanContinue, Num0, stk)
      else if is_digit c then (ScanContinue, Num1, stk)
      else (ScanError, NumNeg, stk))"
| "scan_step Num1 stk c = (if is_digit c then (ScanContinue, Num1, stk) else num_0 stk c)"
| "scan_step Num0 stk c = num_0 stk c"
| "scan_step NumDot stk c = expect stk (is_digit c) NumDot0"
| "scan_step NumDot0 stk c =
     (if is_digit c then (ScanContinue, NumDot0, stk)
      else if c = CHR ''e'' \<or> c = CHR ''E'' then (ScanContinue, NumE, stk)
      else end_value stk c)"
| "scan_step NumE stk c =
     (if c = CHR ''+'' \<or> c = CHR ''-'' then (ScanContinue, NumESign, stk) else num_exp stk c)"
| "scan_step NumESign stk c = num_exp stk c"
| "scan_step NumE0 stk c =
     (if is_digit c then (ScanContinue, NumE0, stk) else end_value stk c)"
| "scan_step LitT stk c = expect stk (c = CHR ''r'') LitTr"
| "scan_step LitTr stk c = expect stk (c = CHR ''u'') LitTru"
| "scan_step LitTru stk c = expect stk (c = CHR ''e'') EndValue"
| "scan_step LitF stk c = expect stk (c = CHR ''a'') LitFa"
| "scan_step LitFa stk c = expect stk (c = CHR ''l'') LitFal"
| "scan_step LitFal stk c = expect stk (c = CHR ''s'') LitFals"
| "scan_step LitFals stk c = expect stk (c = CHR ''e'') EndValue"
| "scan_step LitN stk c = expect stk (c = CHR ''u'') LitNu"
| "scan_step LitNu stk c = expect stk (c = CHR ''l'') LitNul"
| "scan_step LitNul stk c = expect stk (c = CHR ''l'') EndValue"

section \<open>Reading one value\<close>

text \<open>
  \<open>Decoder.readValue\<close>: feed bytes until the value is complete. A number or a literal is complete
  when the scanner reports \<open>ScanEnd\<close> on the byte after it, an object or an array when its closing
  bracket empties the stack. At the end of the input one space is fed, which completes a top-level
  number or literal.
\<close>

fun scan_text :: "scan_state \<Rightarrow> parse_state list \<Rightarrow> bytes \<Rightarrow> (bytes \<times> bytes) option" where
  "scan_text st stk [] =
     (if fst (scan_step st stk (CHR '' '')) = ScanEnd then Some ([], []) else None)"
| "scan_text st stk (c # cs) =
     (case scan_step st stk c of (opc, st', stk') \<Rightarrow>
        if opc = ScanError then None
        else if opc = ScanEnd then Some ([], c # cs)
        else if (opc = ScanEndObject \<or> opc = ScanEndArray) \<and> stk' = [] then Some ([c], cs)
        else map_option (apfst ((#) c)) (scan_text st' stk' cs))"

definition skip_space :: "bytes \<Rightarrow> bytes" where
  "skip_space s = dropWhile is_space s"

definition read_value :: "bytes \<Rightarrow> (bytes \<times> bytes) option" where
  "read_value s = map_option (apfst skip_space) (scan_text BeginValue [] s)"

text \<open>\<open>json.Unmarshal\<close> wants one value and nothing but white space after it.\<close>

definition whole_value :: "bytes \<Rightarrow> bytes option" where
  "whole_value s =
     (case read_value s of
        None \<Rightarrow> None
      | Some (v, r) \<Rightarrow> if skip_space r = [] then Some v else None)"

section \<open>Strings and integers\<close>

text \<open>\<open>getu4\<close>: four hex digits after a backslash and a \<open>u\<close>.\<close>

definition hex_val :: "char \<Rightarrow> nat" where
  "hex_val c =
     (if is_digit c then byte_val c - byte_val CHR ''0''
      else if CHR ''a'' \<le> c then byte_val c - byte_val CHR ''a'' + 10
      else byte_val c - byte_val CHR ''A'' + 10)"

fun getu4 :: "bytes \<Rightarrow> nat option" where
  "getu4 (b # u # h1 # h2 # h3 # h4 # _) =
     (if b = CHR 0x5C \<and> u = CHR ''u'' \<and> is_hex h1 \<and> is_hex h2 \<and> is_hex h3 \<and> is_hex h4
      then Some (((hex_val h1 * 16 + hex_val h2) * 16 + hex_val h3) * 16 + hex_val h4)
      else None)"
| "getu4 _ = None"

definition escape_char :: "char \<Rightarrow> char option" where
  "escape_char c =
     (if c = CHR 0x22 then Some (CHR 0x22)
      else if c = CHR 0x5C then Some (CHR 0x5C)
      else if c = CHR ''/'' then Some (CHR ''/'')
      else if c = CHR ''b'' then Some (CHR 0x08)
      else if c = CHR ''f'' then Some (CHR 0x0C)
      else if c = CHR ''n'' then Some (CHR 0x0A)
      else if c = CHR ''r'' then Some (CHR 0x0D)
      else if c = CHR ''t'' then Some (CHR 0x09)
      else None)"

text \<open>
  \<open>unquoteBytes\<close> on the text between the quotes. Go also accepts an escaped single quote here; the
  scanner never lets one through.
\<close>

function unquote_body :: "bytes \<Rightarrow> bytes option" where
  "unquote_body [] = Some []"
| "unquote_body (c # cs) =
     (if c = CHR 0x5C then
        (case cs of
           [] \<Rightarrow> None
         | e # cs' \<Rightarrow>
             if e = CHR 0x27 then map_option ((#) e) (unquote_body cs')
             else if e = CHR ''u'' then
               (case getu4 (c # cs) of
                  None \<Rightarrow> None
                | Some r1 \<Rightarrow>
                    if IsSurrogate r1 then
                      (case getu4 (drop 6 (c # cs)) of
                         Some r2 \<Rightarrow>
                           if utf16_DecodeRune r1 r2 \<noteq> RuneError
                           then map_option ((@) (encode_rune (utf16_DecodeRune r1 r2)))
                                  (unquote_body (drop 12 (c # cs)))
                           else map_option ((@) (encode_rune RuneError)) (unquote_body (drop 6 (c # cs)))
                       | None \<Rightarrow> map_option ((@) (encode_rune RuneError)) (unquote_body (drop 6 (c # cs))))
                    else map_option ((@) (encode_rune r1)) (unquote_body (drop 6 (c # cs))))
             else (case escape_char e of
                     None \<Rightarrow> None
                   | Some x \<Rightarrow> map_option ((#) x) (unquote_body cs')))
      else if c = CHR 0x22 \<or> c < CHR 0x20 then None
      else if byte_val c < RuneSelf then map_option ((#) c) (unquote_body cs)
      else (case decode_rune (c # cs) of (r, n) \<Rightarrow>
              map_option ((@) (encode_rune r)) (unquote_body (drop n (c # cs)))))"
  by pat_completeness auto
termination
  by (relation "measure length") (auto dest: decode_rune_pos)

declare unquote_body.simps(2) [simp del]

definition json_unquote :: "bytes \<Rightarrow> bytes option" where
  "json_unquote s =
     (if length s < 2 \<or> hd s \<noteq> CHR 0x22 \<or> last s \<noteq> CHR 0x22 then None
      else unquote_body (butlast (tl s)))"

text \<open>
  \<open>json.Unmarshal\<close> into a string variable that is empty before: a string literal sets it, \<open>null\<close>
  leaves it alone, every other kind of value is an error.
\<close>

definition unmarshal_string :: "bytes \<Rightarrow> bytes option" where
  "unmarshal_string s =
     (case whole_value s of
        None \<Rightarrow> None
      | Some v \<Rightarrow>
          if hd v = CHR 0x22 then json_unquote v
          else if hd v = CHR ''n'' then Some []
          else None)"

section \<open>Lemmas about the readers\<close>

lemma scan_text_append: "scan_text st stk s = Some (v, r) \<Longrightarrow> s = v @ r"
  by (induction st stk s arbitrary: v r rule: scan_text.induct)
    (auto split: if_splits prod.splits)

lemma begin_value_op: "fst (begin_value stk c) \<noteq> ScanEnd"
  by (simp add: begin_value_def push_state_def)

lemma begin_value_end: "fst (begin_value stk c) \<noteq> ScanEndObject \<and> fst (begin_value stk c) \<noteq> ScanEndArray"
  by (simp add: begin_value_def push_state_def)

lemma is_space_cases: "is_space CHR '' ''" "\<not> is_space CHR 0x22" "\<not> is_space CHR '':''"
  "\<not> is_space CHR '',''" "\<not> is_space CHR ''{''" "\<not> is_space CHR ''}''" "\<not> is_space CHR '']''"
  "\<not> is_space CHR ''n''"
  by (simp_all add: is_space_def)

declare is_space_cases [simp]

lemma skip_space_simps [simp]:
  "skip_space [] = []"
  "is_space c \<Longrightarrow> skip_space (c # cs) = skip_space cs"
  "\<not> is_space c \<Longrightarrow> skip_space (c # cs) = c # cs"
  by (simp_all add: skip_space_def)

lemma skip_space_length: "length (skip_space s) \<le> length s"
  by (simp add: skip_space_def length_dropWhile_le)

lemma read_value_Nil [simp]: "read_value [] = None"
  by (simp add: read_value_def begin_value_def)

lemma read_value_space [simp]: "is_space c \<Longrightarrow> read_value (c # cs) = read_value cs"
  by (simp add: read_value_def begin_value_def option.map_comp comp_def apfst_compose)

lemma read_value_Cons:
  assumes "\<not> is_space c"
  shows "read_value (c # cs) =
    (case begin_value [] c of (opc, st, stk) \<Rightarrow>
       if opc = ScanError then None
       else map_option (apfst ((#) c)) (scan_text st stk cs))"
  using assms begin_value_op [of "[]" c] begin_value_end [of "[]" c]
  by (auto simp: read_value_def option.map_comp comp_def apfst_compose split: prod.splits)

lemma read_value_skip: "read_value (skip_space s) = read_value s"
proof (induction s)
  case Nil
  then show ?case by simp
next
  case (Cons c s)
  then show ?case by (cases "is_space c") simp_all
qed

text \<open>What is read is the input without its leading white space, split in two.\<close>

lemma read_value_split:
  "read_value s = Some (v, r) \<Longrightarrow> skip_space s = v @ r \<and> v \<noteq> [] \<and> \<not> is_space (hd v)"
proof (induction s)
  case Nil
  then show ?case by simp
next
  case (Cons c s)
  show ?case
  proof (cases "is_space c")
    case True
    with Cons show ?thesis by simp
  next
    case False
    with Cons.prems show ?thesis
      by (auto simp: read_value_Cons split: prod.splits if_splits dest: scan_text_append)
  qed
qed

lemma read_value_length: "read_value s = Some (v, r) \<Longrightarrow> length r < length s"
  using read_value_split [of s v r] skip_space_length [of s] by (auto simp: neq_Nil_conv)

lemma whole_value_rest: "whole_value s = Some v \<Longrightarrow> \<exists>r. read_value s = Some (v, r) \<and> skip_space r = []"
  by (auto simp: whole_value_def split: option.splits if_splits)

section \<open>String literals\<close>

text \<open>The contents of a string literal the scanner accepts.\<close>

fun wf_body :: "bytes \<Rightarrow> bool" where
  "wf_body [] \<longleftrightarrow> True"
| "wf_body (c # cs) \<longleftrightarrow>
     (if c = CHR 0x5C then
        (case cs of
           [] \<Rightarrow> False
         | e # cs' \<Rightarrow>
             if e = CHR ''u'' then
               (case cs' of
                  h1 # h2 # h3 # h4 # cs'' \<Rightarrow>
                    is_hex h1 \<and> is_hex h2 \<and> is_hex h3 \<and> is_hex h4 \<and> wf_body cs''
                | _ \<Rightarrow> False)
             else escape_char e \<noteq> None \<and> wf_body cs')
      else c \<noteq> CHR 0x22 \<and> \<not> c < CHR 0x20 \<and> wf_body cs)"

declare wf_body.simps(2) [simp del]

lemma escape_char_scan:
  "e \<noteq> CHR ''u'' \<Longrightarrow> fst (scan_step InStringEsc stk e) \<noteq> ScanError \<longleftrightarrow> escape_char e \<noteq> None"
  by (simp add: escape_char_def)

lemma scan_step_esc:
  "escape_char e \<noteq> None \<Longrightarrow> scan_step InStringEsc stk e = (ScanContinue, InString, stk)"
  "scan_step InStringEsc stk CHR ''u'' = (ScanContinue, InStringEscU, stk)"
  by (auto simp: escape_char_def split: if_splits)

text \<open>
  The shape of a body: plain characters, short escapes, escapes of four hexadecimal digits.
\<close>

lemma wf_body_cases [consumes 1, case_names Nil plain short hex]:
  assumes "wf_body s"
  obtains "s = []"
  | c cs where "s = c # cs" "c \<noteq> CHR 0x5C" "c \<noteq> CHR 0x22" "\<not> c < CHR 0x20" "wf_body cs"
  | e t where "s = CHR 0x5C # e # t" "e \<noteq> CHR ''u''" "escape_char e \<noteq> None" "wf_body t"
  | h1 h2 h3 h4 t where "s = CHR 0x5C # CHR ''u'' # h1 # h2 # h3 # h4 # t"
      "is_hex h1" "is_hex h2" "is_hex h3" "is_hex h4" "wf_body t"
proof (cases s)
  case Nil
  then show thesis using that(1) by simp
next
  case (Cons c cs)
  show thesis
  proof (cases "c = CHR 0x5C")
    case False
    then show thesis using that(2) assms Cons by (simp add: wf_body.simps(2))
  next
    case True
    with assms Cons obtain e t where e: "cs = e # t" by (auto simp: wf_body.simps(2) split: list.splits)
    show thesis
    proof (cases "e = CHR ''u''")
      case False
      then show thesis using that(3) assms Cons True e by (simp add: wf_body.simps(2))
    next
      case u: True
      with assms Cons True e obtain h1 h2 h3 h4 t' where "t = h1 # h2 # h3 # h4 # t'"
        "is_hex h1" "is_hex h2" "is_hex h3" "is_hex h4" "wf_body t'"
        by (auto simp: wf_body.simps(2) split: list.splits)
      then show thesis using that(4) Cons True e u by simp
    qed
  qed
qed

lemma wf_body_induct [consumes 1, case_names Nil plain short hex]:
  assumes "wf_body s" "P []"
    and "\<And>c cs. c \<noteq> CHR 0x5C \<Longrightarrow> c \<noteq> CHR 0x22 \<Longrightarrow> \<not> c < CHR 0x20 \<Longrightarrow> wf_body cs \<Longrightarrow> P cs \<Longrightarrow> P (c # cs)"
    and "\<And>e t. e \<noteq> CHR ''u'' \<Longrightarrow> escape_char e \<noteq> None \<Longrightarrow> wf_body t \<Longrightarrow> P t \<Longrightarrow> P (CHR 0x5C # e # t)"
    and "\<And>h1 h2 h3 h4 t. is_hex h1 \<Longrightarrow> is_hex h2 \<Longrightarrow> is_hex h3 \<Longrightarrow> is_hex h4 \<Longrightarrow> wf_body t \<Longrightarrow> P t
      \<Longrightarrow> P (CHR 0x5C # CHR ''u'' # h1 # h2 # h3 # h4 # t)"
  shows "P s"
  using assms(1)
proof (induction s rule: length_induct)
  case (1 s)
  from "1.prems" show ?case
  proof (cases rule: wf_body_cases)
    case Nil
    with assms(2) show ?thesis by simp
  next
    case (plain c cs)
    with "1.IH" assms(3) show ?thesis by simp
  next
    case (short e t)
    with "1.IH" assms(4) show ?thesis by simp
  next
    case (hex h1 h2 h3 h4 t)
    with "1.IH" assms(5) show ?thesis by simp
  qed
qed

lemma scan_body:
  "wf_body body \<Longrightarrow>
   scan_text InString stk (body @ CHR 0x22 # rest) =
     map_option (apfst ((@) (body @ [CHR 0x22]))) (scan_text EndValue stk rest)"
proof (induction rule: wf_body_induct)
  case Nil
  show ?case by (simp add: comp_def)
next
  case (plain c cs)
  then show ?case by (simp add: option.map_comp apfst_compose comp_def)
next
  case (short e t)
  then show ?case
    by (simp add: scan_step_esc(1) option.map_comp apfst_compose comp_def del: scan_step.simps(8))
next
  case (hex h1 h2 h3 h4 t)
  then show ?case by (simp add: expect_def option.map_comp apfst_compose comp_def)
qed

lemma scan_esc_inv:
  assumes "scan_text InString stk (CHR 0x5C # cs) = Some (v, r)"
  obtains e t v1 where "cs = e # t" "e \<noteq> CHR ''u''" "escape_char e \<noteq> None" "v = CHR 0x5C # e # v1" "scan_text InString stk t = Some (v1, r)"
  | h1 h2 h3 h4 t v1 where "cs = CHR ''u'' # h1 # h2 # h3 # h4 # t" "is_hex h1" "is_hex h2" "is_hex h3" "is_hex h4"
      "v = CHR 0x5C # CHR ''u'' # h1 # h2 # h3 # h4 # v1" "scan_text InString stk t = Some (v1, r)"
proof -
  from assms obtain e t where cs: "cs = e # t" by (cases cs) auto
  show thesis
  proof (cases "e = CHR ''u''")
    case False
    with assms cs have e: "escape_char e \<noteq> None" by (auto simp: escape_char_def split: if_splits)
    with assms cs obtain v1 where "v = CHR 0x5C # e # v1" "scan_text InString stk t = Some (v1, r)"
      by (auto simp: scan_step_esc(1) simp del: scan_step.simps(8))
    with that(1) cs False e show thesis by blast
  next
    case True
    with assms cs obtain h1 h2 h3 h4 t' where t: "t = h1 # h2 # h3 # h4 # t'"
      by (cases t; cases "tl t"; cases "tl (tl t)"; cases "tl (tl (tl t))") (auto simp: expect_def split: if_splits)
    with True assms cs obtain v1 where "v = CHR 0x5C # CHR ''u'' # h1 # h2 # h3 # h4 # v1"
      "is_hex h1" "is_hex h2" "is_hex h3" "is_hex h4" "scan_text InString stk t' = Some (v1, r)"
      by (auto simp: expect_def split: if_splits)
    with that(2) cs True t show thesis by blast
  qed
qed

text \<open>What the scanner reads after an opening quote is a body and a closing quote.\<close>

definition reads_body :: "parse_state list \<Rightarrow> bytes \<Rightarrow> bytes \<Rightarrow> bytes \<Rightarrow> bool" where
  "reads_body stk s v r \<longleftrightarrow> (\<exists>body rest v'. s = body @ CHR 0x22 # rest \<and> wf_body body
     \<and> scan_text EndValue stk rest = Some (v', r) \<and> v = body @ CHR 0x22 # v')"

lemma reads_body_append:
  assumes "reads_body stk s v r" "\<And>b. wf_body b \<Longrightarrow> wf_body (p @ b)"
  shows "reads_body stk (p @ s) (p @ v) r"
proof -
  from assms(1) obtain body rest v' where "s = body @ CHR 0x22 # rest" "wf_body body"
    "scan_text EndValue stk rest = Some (v', r)" "v = body @ CHR 0x22 # v'"
    unfolding reads_body_def by blast
  then show ?thesis unfolding reads_body_def
    by (intro exI [of _ "p @ body"] exI [of _ rest] exI [of _ v']) (simp add: assms(2))
qed

lemma scan_reads_body: "scan_text InString stk s = Some (v, r) \<Longrightarrow> reads_body stk s v r"
proof (induction s arbitrary: v rule: length_induct)
  case (1 s)
  have IH: "reads_body stk t w r" if "length t < length s" "scan_text InString stk t = Some (w, r)" for t w
    using "1.IH" that by blast
  from "1.prems" obtain c cs where s: "s = c # cs" by (cases s) auto
  consider (quote) "c = CHR 0x22" | (esc) "c = CHR 0x5C"
    | (plain) "c \<noteq> CHR 0x22" "c \<noteq> CHR 0x5C" "\<not> c < CHR 0x20"
    using "1.prems" s by (cases "c = CHR 0x22"; cases "c = CHR 0x5C"; cases "c < CHR 0x20") auto
  then show ?case
  proof cases
    case quote
    with "1.prems" s obtain v' where "v = CHR 0x22 # v'" "scan_text EndValue stk cs = Some (v', r)"
      by auto
    with quote s show ?thesis
      unfolding reads_body_def by (intro exI [of _ "[]"] exI [of _ cs] exI [of _ v']) simp
  next
    case plain
    with "1.prems" s obtain v1 where v: "v = c # v1" and v1: "scan_text InString stk cs = Some (v1, r)"
      by auto
    from reads_body_append [OF IH [OF _ v1], of "[c]"] s v plain show ?thesis by (simp add: wf_body.simps(2))
  next
    case esc
    from "1.prems" [unfolded s esc] show ?thesis
    proof (cases rule: scan_esc_inv)
      case (1 e t v1)
      from reads_body_append [OF IH [OF _ 1(5)], of "[c, e]"] s 1 esc show ?thesis by (simp add: wf_body.simps(2))
    next
      case (2 h1 h2 h3 h4 t v1)
      from reads_body_append [OF IH [OF _ 2(7)], of "[c, CHR ''u'', h1, h2, h3, h4]"] s 2 esc show ?thesis
        by (simp add: wf_body.simps(2))
    qed
  qed
qed

lemma scan_body_inv:
  "scan_text InString stk s = Some (v, r) \<Longrightarrow>
   \<exists>body rest v'. s = body @ CHR 0x22 # rest \<and> wf_body body
     \<and> scan_text EndValue stk rest = Some (v', r) \<and> v = body @ CHR 0x22 # v'"
  using scan_reads_body unfolding reads_body_def .

definition is_literal :: "bytes \<Rightarrow> bool" where
  "is_literal v \<longleftrightarrow> v = [CHR 0x22] @ butlast (tl v) @ [CHR 0x22] \<and> wf_body (butlast (tl v))"

lemma is_literalI: "wf_body body \<Longrightarrow> is_literal ([CHR 0x22] @ body @ [CHR 0x22])"
  by (simp add: is_literal_def)

lemma is_literal_iff: "is_literal v \<longleftrightarrow> (\<exists>body. v = [CHR 0x22] @ body @ [CHR 0x22] \<and> wf_body body)"
  by (auto simp: is_literal_def)

lemma begin_value_quote: "begin_value stk CHR 0x22 = (ScanBeginLiteral, InString, stk)"
  by (simp add: begin_value_def)

lemma end_value_Nil [simp]: "end_value [] c = (ScanEnd, EndTop, [])"
  by (simp add: end_value_def end_top_def)

lemma scan_text_EndValue_Nil [simp]: "scan_text EndValue [] rest = Some ([], rest)"
  by (cases rest) simp_all

text \<open>A literal is read back exactly, whatever follows it; and only literals are.\<close>

lemma read_literal: "is_literal v \<Longrightarrow> read_value (v @ rest) = Some (v, rest)"
  by (auto simp: is_literal_iff read_value_Cons begin_value_quote scan_body)

lemma read_value_quote:
  assumes "read_value s = Some (v, r)" "hd v = CHR 0x22"
  shows "is_literal v"
proof -
  from read_value_split [OF assms(1)] assms(2) obtain cs
    where "skip_space s = CHR 0x22 # cs" and v: "v \<noteq> []" by (auto simp: neq_Nil_conv)
  then have "read_value (CHR 0x22 # cs) = Some (v, r)"
    using assms(1) read_value_skip by metis
  then show ?thesis
    by (auto simp: read_value_Cons begin_value_quote is_literal_iff dest!: scan_body_inv)
qed

lemma whole_literal [simp]: "is_literal v \<Longrightarrow> whole_value v = Some v"
  using read_literal [of v "[]"] by (simp add: whole_value_def)

end
