(* ===== verification/Unquote.thy ===== *)
theory Unquote
  imports Errors Json
begin

text \<open>
  \<open>internal/proto/unquote.go\<close>: the hand-written decoder of a JSON string literal, which replaces
  unpaired surrogates and invalid UTF-8 by U+FFFD the way Node does.

  The loop over the index \<open>i\<close> is recursion over the bytes from \<open>i\<close> on; what the code appends to
  \<open>out\<close> is what the recursion puts in front. The lemmas compare it with the decoder of
  \<open>encoding/json\<close>: on every literal the JSON scanner accepts both succeed and return the same bytes.
\<close>

section \<open>hex4 and decodeUnicodeEscape\<close>

definition hex_digit :: "char \<Rightarrow> nat option" where
  "hex_digit c =
     (if CHR ''0'' \<le> c \<and> c \<le> CHR ''9'' then Some (byte_val c - byte_val CHR ''0'')
      else if CHR ''a'' \<le> c \<and> c \<le> CHR ''f'' then Some (byte_val c - byte_val CHR ''a'' + 10)
      else if CHR ''A'' \<le> c \<and> c \<le> CHR ''F'' then Some (byte_val c - byte_val CHR ''A'' + 10)
      else None)"

text \<open>The four rounds of \<open>v = v<<4 | d\<close>; \<open>d\<close> is below 16, so the or is an addition.\<close>

fun hex4_loop :: "nat \<Rightarrow> nat \<Rightarrow> bytes \<Rightarrow> nat option" where
  "hex4_loop 0 v b = Some v"
| "hex4_loop (Suc n) v [] = None"
| "hex4_loop (Suc n) v (c # b) =
     (case hex_digit c of None \<Rightarrow> None | Some d \<Rightarrow> hex4_loop n (v * 16 + d) b)"

definition hex4 :: "bytes \<Rightarrow> nat option" where
  "hex4 b = (if length b < 4 then None else hex4_loop 4 0 b)"

definition decodeUnicodeEscape :: "bytes \<Rightarrow> go_error + nat \<times> nat" where
  "decodeUnicodeEscape b =
     (if length b < 6 then Inl (Reject ReasonBodyShape)
      else case hex4 (take 4 (drop 2 b)) of
        None \<Rightarrow> Inl (Reject ReasonBodyShape)
      | Some r1 \<Rightarrow>
          if \<not> IsSurrogate r1 then Inr (r1, 6)
          else if 12 \<le> length b \<and> b ! 6 = CHR 0x5C \<and> b ! 7 = CHR ''u'' then
            (case hex4 (take 4 (drop 8 b)) of
               Some r2 \<Rightarrow>
                 if utf16_DecodeRune r1 r2 \<noteq> RuneError then Inr (utf16_DecodeRune r1 r2, 12)
                 else Inr (RuneError, 6)
             | None \<Rightarrow> Inr (RuneError, 6))
          else Inr (RuneError, 6))"

section \<open>UnquoteJSONString\<close>

definition emit :: "bytes \<Rightarrow> go_error + bytes \<Rightarrow> go_error + bytes" where
  "emit x m = bindE m (\<lambda>out. Inr (x @ out))"

lemma decodeUnicodeEscape_size: "decodeUnicodeEscape b = Inr (r, n) \<Longrightarrow> n = 6 \<or> n = 12"
  by (auto simp: decodeUnicodeEscape_def split: if_splits option.splits)

function unquote_loop :: "bytes \<Rightarrow> go_error + bytes" where
  "unquote_loop [] = Inr []"
| "unquote_loop (c # cs) =
     (if c = CHR 0x22 then Inl (Reject ReasonBodyShape)
      else if c < CHR 0x20 then Inl (Reject ReasonBodyShape)
      else if c = CHR 0x5C then
        (case cs of
           [] \<Rightarrow> Inl (Reject ReasonBodyShape)
         | esc # cs' \<Rightarrow>
             if esc = CHR 0x22 then emit [CHR 0x22] (unquote_loop cs')
             else if esc = CHR 0x5C then emit [CHR 0x5C] (unquote_loop cs')
             else if esc = CHR ''/'' then emit ''/'' (unquote_loop cs')
             else if esc = CHR ''b'' then emit [CHR 0x08] (unquote_loop cs')
             else if esc = CHR ''f'' then emit [CHR 0x0C] (unquote_loop cs')
             else if esc = CHR ''n'' then emit [CHR 0x0A] (unquote_loop cs')
             else if esc = CHR ''r'' then emit [CHR 0x0D] (unquote_loop cs')
             else if esc = CHR ''t'' then emit [CHR 0x09] (unquote_loop cs')
             else if esc = CHR ''u'' then
               (case decodeUnicodeEscape (c # cs) of
                  Inl e \<Rightarrow> Inl e
                | Inr (r, n) \<Rightarrow> emit (encode_rune r) (unquote_loop (drop n (c # cs))))
             else Inl (Reject ReasonBodyShape))
      else if byte_val c < RuneSelf then emit [c] (unquote_loop cs)
      else (case decode_rune (c # cs) of (r, n) \<Rightarrow>
              if r = RuneError \<and> n \<le> 1 then emit (encode_rune RuneError) (unquote_loop cs)
              else emit (take n (c # cs)) (unquote_loop (drop n (c # cs)))))"
  by pat_completeness auto
termination
  by (relation "measure length") (auto dest: decode_rune_pos decodeUnicodeEscape_size)

declare unquote_loop.simps(2) [simp del]

definition UnquoteJSONString :: "bytes \<Rightarrow> go_error + bytes" where
  "UnquoteJSONString literal =
     (if length literal < 2 \<or> hd literal \<noteq> CHR 0x22 \<or> last literal \<noteq> CHR 0x22
      then Inl (Reject ReasonBodyShape)
      else unquote_loop (butlast (tl literal)))"

section \<open>Agreement with encoding/json\<close>

lemma emit_Inr [simp]: "emit x m = Inr y \<longleftrightarrow> (\<exists>out. m = Inr out \<and> y = x @ out)"
  by (auto simp: emit_def)

lemma hex_digit_iff: "hex_digit c = (if is_hex c then Some (hex_val c) else None)"
  by (auto simp: hex_digit_def is_hex_def hex_val_def is_digit_def byte_simps)

lemma hex4_four:
  "hex4 [a, b, c, d] =
     (if is_hex a \<and> is_hex b \<and> is_hex c \<and> is_hex d
      then Some (((hex_val a * 16 + hex_val b) * 16 + hex_val c) * 16 + hex_val d) else None)"
  by (simp add: hex4_def eval_nat_numeral hex_digit_iff)

lemma hex4_getu4:
  "hex4 [h1, h2, h3, h4] = getu4 (CHR 0x5C # CHR ''u'' # h1 # h2 # h3 # h4 # rest)"
  by (simp add: hex4_four)

lemma getu4_None_short: "length s < 6 \<Longrightarrow> getu4 s = None"
  by (cases s rule: getu4.cases) auto

text \<open>A surrogate joins to a rune that is never U+FFFD, and six characters are enough to look at.\<close>

lemma decodeUnicodeEscape_getu4:
  assumes "b = CHR 0x5C # CHR ''u'' # t"
  shows "decodeUnicodeEscape b =
    (case getu4 b of
       None \<Rightarrow> Inl (Reject ReasonBodyShape)
     | Some r1 \<Rightarrow>
         if IsSurrogate r1 then
           (case getu4 (drop 6 b) of
              Some r2 \<Rightarrow> if utf16_DecodeRune r1 r2 \<noteq> RuneError
                then Inr (utf16_DecodeRune r1 r2, 12) else Inr (RuneError, 6)
            | None \<Rightarrow> Inr (RuneError, 6))
         else Inr (r1, 6))"
proof (cases "length b < 6")
  case True
  then show ?thesis by (simp add: decodeUnicodeEscape_def getu4_None_short)
next
  case False
  then obtain h1 h2 h3 h4 u where b: "b = CHR 0x5C # CHR ''u'' # h1 # h2 # h3 # h4 # u"
    using assms by (auto simp: not_less numeral_eq_Suc Suc_le_length_iff)
  have first: "hex4 (take 4 (drop 2 b)) = getu4 b"
    by (simp add: b hex4_getu4 [of _ _ _ _ u])
  show ?thesis
  proof (cases "12 \<le> length b \<and> b ! 6 = CHR 0x5C \<and> b ! 7 = CHR ''u''")
    case True
    then obtain g1 g2 g3 g4 w where u: "u = CHR 0x5C # CHR ''u'' # g1 # g2 # g3 # g4 # w"
      unfolding b by (auto simp: numeral_eq_Suc Suc_le_length_iff)
    have "hex4 (take 4 (drop 8 b)) = getu4 (drop 6 b)"
      by (simp add: b u hex4_getu4 [of _ _ _ _ w])
    with True False first show ?thesis
      by (simp add: decodeUnicodeEscape_def split: option.splits)
  next
    case no: False
    have "getu4 (drop 6 b) = None"
    proof (rule ccontr)
      assume "getu4 (drop 6 b) \<noteq> None"
      then obtain g1 g2 g3 g4 w where "u = CHR 0x5C # CHR ''u'' # g1 # g2 # g3 # g4 # w"
        unfolding b by (cases u rule: getu4.cases) (auto split: if_splits)
      with no show False by (simp add: b)
    qed
    with no False first show ?thesis
      by (auto simp: decodeUnicodeEscape_def split: option.splits)
  qed
qed

text \<open>The escape letters other than \<open>u\<close>, as one case of the loop.\<close>

lemma unquote_loop_escape:
  "escape_char e = Some x \<Longrightarrow> unquote_loop (CHR 0x5C # e # cs) = emit [x] (unquote_loop cs)"
  by (auto simp: unquote_loop.simps(2) escape_char_def byte_simps split: if_splits)

lemma unquote_loop_bad_escape:
  "escape_char e = None \<Longrightarrow> e \<noteq> CHR ''u'' \<Longrightarrow>
   unquote_loop (CHR 0x5C # e # cs) = Inl (Reject ReasonBodyShape)"
  by (auto simp: unquote_loop.simps(2) escape_char_def byte_simps split: if_splits)

lemma unquote_loop_u:
  "unquote_loop (CHR 0x5C # CHR ''u'' # cs) =
     (case decodeUnicodeEscape (CHR 0x5C # CHR ''u'' # cs) of
        Inl e \<Rightarrow> Inl e
      | Inr (r, n) \<Rightarrow> emit (encode_rune r) (unquote_loop (drop n (CHR 0x5C # CHR ''u'' # cs))))"
  by (simp add: unquote_loop.simps(2) byte_simps)

lemma unquote_loop_bad:
  "c = CHR 0x22 \<or> c < CHR 0x20 \<Longrightarrow> unquote_loop (c # cs) = Inl (Reject ReasonBodyShape)"
  by (auto simp: unquote_loop.simps(2))

lemma escape_char_not_special: "escape_char CHR 0x27 = None" "escape_char CHR ''u'' = None"
  by (simp_all add: escape_char_def)

lemma unquote_u_json:
  assumes "unquote_loop s = Inr x" "s = CHR 0x5C # CHR ''u'' # cs"
    and IH: "\<And>t y. unquote_loop t = Inr y \<Longrightarrow> length t < length s \<Longrightarrow> unquote_body t = Some y"
  shows "unquote_body s = Some x"
proof -
  from assms(1,2) obtain r n out where d: "decodeUnicodeEscape s = Inr (r, n)"
    and out: "unquote_loop (drop n s) = Inr out" and x: "x = encode_rune r @ out"
    by (auto simp: unquote_loop_u split: sum.splits)
  have "n = 6 \<or> n = 12" using d by (rule decodeUnicodeEscape_size)
  then have "unquote_body (drop n s) = Some out" using assms(2) by (intro IH [OF out]) auto
  with d x show ?thesis
    unfolding decodeUnicodeEscape_getu4 [OF assms(2)]
    by (subst assms(2), subst unquote_body.simps(2)) (auto simp: assms(2) [symmetric] split: option.splits if_splits)
qed

lemma unquote_plain_json:
  assumes "unquote_loop (c # cs) = Inr x" "c \<noteq> CHR 0x5C"
    and IH: "\<And>t y. unquote_loop t = Inr y \<Longrightarrow> length t \<le> length cs \<Longrightarrow> unquote_body t = Some y"
  shows "unquote_body (c # cs) = Some x"
proof -
  have ok: "c \<noteq> CHR 0x22" "\<not> c < CHR 0x20" using assms(1) unquote_loop_bad [of c cs] by auto
  show ?thesis
  proof (cases "byte_val c < RuneSelf")
    case True
    with assms(1,2) ok obtain out where "unquote_loop cs = Inr out" "x = c # out"
      by (auto simp: unquote_loop.simps(2))
    with IH [of cs out] assms(2) ok True show ?thesis by (simp add: unquote_body.simps(2))
  next
    case high: False
    obtain r n where rn: "decode_rune (c # cs) = (r, n)" by fastforce
    from decode_rune_nonascii [OF rn high] consider (bad) "r = RuneError" "n = 1" | (multi) "1 < n" by blast
    then show ?thesis
    proof cases
      case bad
      with assms(1,2) ok high rn obtain out where "unquote_loop cs = Inr out" "x = encode_rune RuneError @ out"
        by (auto simp: unquote_loop.simps(2))
      with IH [of cs out] assms(2) ok high rn bad show ?thesis by (simp add: unquote_body.simps(2))
    next
      case multi
      with assms(1,2) ok high rn obtain out where
        out: "unquote_loop (drop n (c # cs)) = Inr out" and x: "x = take n (c # cs) @ out"
        by (auto simp: unquote_loop.simps(2))
      have "unquote_body (drop n (c # cs)) = Some out" using multi by (intro IH [OF out]) auto
      with x encode_decode_rune [OF rn multi] assms(2) ok high rn show ?thesis by (simp add: unquote_body.simps(2))
    qed
  qed
qed

lemma unquote_loop_json: "unquote_loop s = Inr x \<Longrightarrow> unquote_body s = Some x"
proof (induction s arbitrary: x rule: length_induct)
  case (1 s)
  have IH: "unquote_body t = Some y" if "unquote_loop t = Inr y" "length t < length s" for t y
    using "1.IH" that by blast
  show ?case
  proof (cases s)
    case Nil
    with "1.prems" show ?thesis by simp
  next
    case (Cons c cs)
    show ?thesis
    proof (cases "c = CHR 0x5C")
      case bs: True
      with "1.prems" Cons obtain e cs' where cs: "cs = e # cs'"
        by (cases cs) (auto simp: unquote_loop.simps(2) byte_simps)
      consider (u) "e = CHR ''u''" | (esc) y where "escape_char e = Some y" "e \<noteq> CHR ''u''" "e \<noteq> CHR 0x27"
        using "1.prems" Cons bs cs unquote_loop_bad_escape [of e cs'] escape_char_not_special
        by (cases "escape_char e"; cases "e = CHR 0x27"; cases "e = CHR ''u''") auto
      then show ?thesis
      proof cases
        case esc
        with "1.prems" Cons bs cs obtain out where "unquote_loop cs' = Inr out" "x = y # out"
          by (auto simp: unquote_loop_escape)
        with esc Cons bs cs IH [of cs' out] show ?thesis by (simp add: unquote_body.simps(2))
      next
        case u
        then have "s = CHR 0x5C # CHR ''u'' # cs'" using Cons bs cs by simp
        then show ?thesis by (rule unquote_u_json [OF "1.prems"]) (rule IH)
      qed
    next
      case False
      with "1.prems" IH show ?thesis unfolding Cons by (intro unquote_plain_json) simp_all
    qed
  qed
qed

text \<open>The loop succeeds on the contents of every literal the scanner accepts.\<close>

lemma wf_body_drop_high:
  "list_all (\<lambda>c. 128 \<le> byte_val c) u \<Longrightarrow> wf_body (u @ v) \<Longrightarrow> wf_body v"
  by (induction u) (auto simp: wf_body.simps(2) byte_simps split: if_splits)

lemma wf_body_u:
  "wf_body (CHR 0x5C # CHR ''u'' # t) \<longleftrightarrow>
     (\<exists>h1 h2 h3 h4 t'. t = h1 # h2 # h3 # h4 # t' \<and> is_hex h1 \<and> is_hex h2 \<and> is_hex h3 \<and> is_hex h4
        \<and> wf_body t')"
  by (auto simp: wf_body.simps(2) split: list.splits)

lemma getu4_Some_iff:
  "getu4 s = Some n \<longleftrightarrow>
     (\<exists>h1 h2 h3 h4 t. s = CHR 0x5C # CHR ''u'' # h1 # h2 # h3 # h4 # t
        \<and> is_hex h1 \<and> is_hex h2 \<and> is_hex h3 \<and> is_hex h4
        \<and> n = ((hex_val h1 * 16 + hex_val h2) * 16 + hex_val h3) * 16 + hex_val h4)"
  by (cases s rule: getu4.cases) auto

lemma decodeUnicodeEscape_wf:
  assumes "wf_body s" "s = CHR 0x5C # CHR ''u'' # t"
  shows "\<exists>r n. decodeUnicodeEscape s = Inr (r, n) \<and> wf_body (drop n s)"
proof -
  from assms obtain h1 h2 h3 h4 t' where s: "s = CHR 0x5C # CHR ''u'' # h1 # h2 # h3 # h4 # t'"
    and hex: "is_hex h1" "is_hex h2" "is_hex h3" "is_hex h4" and wf: "wf_body t'"
    by (auto simp: wf_body_u)
  from s hex obtain r1 where r1: "getu4 s = Some r1" by simp
  have drop6: "drop 6 s = t'" and drop12: "drop 12 s = drop 6 t'" by (simp_all add: s)
  have "wf_body (drop 6 t')" if "getu4 t' = Some r2" for r2
    using that wf by (auto simp: getu4_Some_iff wf_body_u)
  then show ?thesis
    unfolding decodeUnicodeEscape_getu4 [OF assms(2)] r1 drop6
    using wf drop6 drop12 by (auto split: option.splits)
qed

lemma unquote_loop_wf: "wf_body s \<Longrightarrow> \<exists>x. unquote_loop s = Inr x"
proof (induction s rule: length_induct)
  case (1 s)
  have IH: "\<exists>x. unquote_loop t = Inr x" if "wf_body t" "length t < length s" for t
    using "1.IH" that by blast
  from "1.prems" show ?case
  proof (cases rule: wf_body_cases)
    case Nil
    then show ?thesis by simp
  next
    case (plain c cs)
    obtain r n where rn: "decode_rune (c # cs) = (r, n)" by fastforce
    have "\<exists>x. unquote_loop (drop n (c # cs)) = Inr x" if "1 < n"
    proof (rule IH)
      have "take n (c # cs) @ drop n (c # cs) = s" by (simp only: append_take_drop_id plain(1))
      then show "wf_body (drop n (c # cs))"
        using decode_rune_high [OF rn that] "1.prems" wf_body_drop_high by metis
      show "length (drop n (c # cs)) < length s" using that plain(1) by simp
    qed
    with IH [of cs] plain decode_rune_nonascii [OF rn] rn show ?thesis
      by (auto simp: unquote_loop.simps(2) emit_def)
  next
    case (short e t)
    with IH [of t] show ?thesis by (auto simp: unquote_loop_escape emit_def)
  next
    case (hex h1 h2 h3 h4 t)
    from decodeUnicodeEscape_wf [OF "1.prems" hex(1)] obtain r n
      where d: "decodeUnicodeEscape s = Inr (r, n)" and wf: "wf_body (drop n s)" by blast
    from decodeUnicodeEscape_size [OF d] have "length (drop n s) < length s" by (auto simp: hex(1))
    with IH wf obtain x where "unquote_loop (drop n s) = Inr x" by blast
    with d have "unquote_loop s = Inr (encode_rune r @ x)"
      by (subst hex(1), subst unquote_loop_u) (simp add: hex(1) [symmetric] emit_def)
    then show ?thesis by blast
  qed
qed

lemma is_literal_shape:
  "is_literal v \<Longrightarrow> 2 \<le> length v \<and> hd v = CHR 0x22 \<and> last v = CHR 0x22"
  by (auto simp: is_literal_iff)

lemma Unquote_literal:
  assumes "is_literal v"
  shows "\<exists>x. UnquoteJSONString v = Inr x \<and> json_unquote v = Some x"
proof -
  have "wf_body (butlast (tl v))" using assms by (simp add: is_literal_def)
  then obtain x where x: "unquote_loop (butlast (tl v)) = Inr x" using unquote_loop_wf by blast
  with is_literal_shape [OF assms] show ?thesis
    by (auto simp: UnquoteJSONString_def json_unquote_def unquote_loop_json)
qed

section \<open>Properties of unquoting\<close>

text \<open>
  C17: the hub's unquoting agrees with the library's. On every JSON string literal,
  \<open>UnquoteJSONString\<close> succeeds and gives the bytes \<open>encoding/json\<close> gives, surrogate pairs, lone
  surrogates and invalid UTF-8 included; and whatever it accepts, on any input, is what the library's
  routine gives.
\<close>

theorem unquote_agrees_with_library:
  "(is_literal v \<longrightarrow> (\<exists>x. UnquoteJSONString v = Inr x \<and> json_unquote v = Some x))
    \<and> (UnquoteJSONString v = Inr y \<longrightarrow> json_unquote v = Some y)"
  using Unquote_literal [of v]
  by (auto simp: UnquoteJSONString_def json_unquote_def unquote_loop_json split: if_splits)

theorem unquote_agrees_with_library_witness:
  "json_unquote ([CHR 0x22] @ [CHR 0x5C, CHR ''n''] @ [CHR 0x22]) = Some [CHR 0x0A]"
proof -
  have l: "is_literal ([CHR 0x22] @ [CHR 0x5C, CHR ''n''] @ [CHR 0x22])" by code_simp
  have u: "UnquoteJSONString ([CHR 0x22] @ [CHR 0x5C, CHR ''n''] @ [CHR 0x22]) = Inr [CHR 0x0A]" by code_simp
  from unquote_agrees_with_library [of "[CHR 0x22] @ [CHR 0x5C, CHR ''n''] @ [CHR 0x22]" "[CHR 0x0A]"] l u
  show ?thesis by blast
qed

end
