(* ===== verification/Digest.thy ===== *)
theory Digest
  imports Prelude
begin

text \<open>
  \<open>internal/proto/digest.go\<close> and the two standard packages it calls: \<open>crypto/sha256\<close>
  (FIPS 180-4, on 32-bit words) and the unpadded base64url encoding of \<open>encoding/base64\<close>.

  The lemmas show that a digest always has the shape \<open>ValidDigest\<close> asks for, so the check in
  \<open>ParseOp\<close> can never refuse a digest this program computed.
\<close>

section \<open>SHA-256\<close>

type_synonym w32 = "32 word"

text \<open>
  The standard gives its constants as the first 32 bits of the fractional parts of the cube roots (round
  constants) and of the square roots (initial state) of the first primes; here they are computed from
  that description, by fixing the bits of the root from the highest down.
\<close>

fun root_bits :: "nat \<Rightarrow> nat \<Rightarrow> int \<Rightarrow> int \<Rightarrow> int" where
  "root_bits 0 k n x = x"
| "root_bits (Suc b) k n x = root_bits b k n (if (x + 2 ^ b) ^ k \<le> n then x + 2 ^ b else x)"

definition root_fraction :: "nat \<Rightarrow> int \<Rightarrow> w32" where
  "root_fraction k p = of_int (root_bits 37 k (p * 2 ^ (32 * k)) 0)"

definition primes64 :: "int list" where
  "primes64 = [2, 3, 5, 7, 11, 13, 17, 19, 23, 29, 31, 37, 41, 43, 47, 53, 59, 61, 67, 71, 73, 79, 83,
      89, 97, 101, 103, 107, 109, 113, 127, 131, 137, 139, 149, 151, 157, 163, 167, 173, 179,
      181, 191, 193, 197, 199, 211, 223, 227, 229, 233, 239, 241, 251, 257, 263, 269, 271, 277,
      281, 283, 293, 307, 311]"

definition sha_K :: "w32 list" where
  "sha_K = map (root_fraction 3) primes64"

definition sha_H0 :: "w32 list" where
  "sha_H0 = map (root_fraction 2) (take 8 primes64)"

lemma root_bits_floor:
  "x ^ k \<le> n \<Longrightarrow> n < (x + 2 ^ b) ^ k \<Longrightarrow>
    root_bits b k n x ^ k \<le> n \<and> n < (root_bits b k n x + 1) ^ k"
proof (induction b arbitrary: x)
  case (Suc b)
  have "x + 2 ^ Suc b = (x + 2 ^ b) + 2 ^ b" by simp
  with Suc show ?case by (simp only: root_bits.simps split: if_splits) auto
qed simp

lemma length_primes64: "length primes64 = 64"
  by (simp add: primes64_def)

definition small_sigma0 :: "w32 \<Rightarrow> w32" where
  "small_sigma0 x = xor (xor (word_rotr 7 x) (word_rotr 18 x)) (drop_bit 3 x)"

definition small_sigma1 :: "w32 \<Rightarrow> w32" where
  "small_sigma1 x = xor (xor (word_rotr 17 x) (word_rotr 19 x)) (drop_bit 10 x)"

definition big_sigma0 :: "w32 \<Rightarrow> w32" where
  "big_sigma0 x = xor (xor (word_rotr 2 x) (word_rotr 13 x)) (word_rotr 22 x)"

definition big_sigma1 :: "w32 \<Rightarrow> w32" where
  "big_sigma1 x = xor (xor (word_rotr 6 x) (word_rotr 11 x)) (word_rotr 25 x)"

definition sha_ch :: "w32 \<Rightarrow> w32 \<Rightarrow> w32 \<Rightarrow> w32" where
  "sha_ch x y z = xor (and x y) (and (not x) z)"

definition sha_maj :: "w32 \<Rightarrow> w32 \<Rightarrow> w32 \<Rightarrow> w32" where
  "sha_maj x y z = xor (xor (and x y) (and x z)) (and y z)"

text \<open>The message schedule, newest word first.\<close>

fun sha_schedule :: "nat \<Rightarrow> w32 list \<Rightarrow> w32 list" where
  "sha_schedule 0 ws = ws"
| "sha_schedule (Suc n) ws =
     sha_schedule n ((small_sigma1 (ws ! 1) + ws ! 6 + small_sigma0 (ws ! 14) + ws ! 15) # ws)"

fun sha_round :: "w32 list \<Rightarrow> w32 \<times> w32 \<Rightarrow> w32 list" where
  "sha_round [a, b, c, d, e, f, g, h] (k, w) =
     (let t1 = h + big_sigma1 e + sha_ch e f g + k + w;
          t2 = big_sigma0 a + sha_maj a b c
      in [t1 + t2, a, b, c, d + t1, e, f, g])"
| "sha_round st _ = st"

definition sha_block :: "w32 list \<Rightarrow> w32 list \<Rightarrow> w32 list" where
  "sha_block st block =
     map2 (+) st (foldl sha_round st (zip sha_K (rev (sha_schedule 48 (rev block)))))"

definition be32 :: "bytes \<Rightarrow> w32" where
  "be32 bs = foldl (\<lambda>acc c. acc * 256 + of_nat (byte_val c)) 0 bs"

fun words_of :: "bytes \<Rightarrow> w32 list" where
  "words_of (a # b # c # d # rest) = be32 [a, b, c, d] # words_of rest"
| "words_of _ = []"

definition bytes_of_word :: "w32 \<Rightarrow> bytes" where
  "bytes_of_word w =
     (let n = unat w in
      [byte_of (n div 2 ^ 24), byte_of (n div 2 ^ 16 mod 256), byte_of (n div 2 ^ 8 mod 256), byte_of (n mod 256)])"

definition be64 :: "nat \<Rightarrow> bytes" where
  "be64 n = map (\<lambda>i. byte_of (n div 2 ^ (8 * i) mod 256)) [7, 6, 5, 4, 3, 2, 1, 0]"

definition sha_pad :: "bytes \<Rightarrow> bytes" where
  "sha_pad b = b @ [CHR 0x80] @ replicate ((119 - length b mod 64) mod 64) (CHR 0x00) @ be64 (8 * length b)"

fun sha_blocks :: "w32 list \<Rightarrow> w32 list \<Rightarrow> w32 list" where
  "sha_blocks st ws =
     (if length ws < 16 then st else sha_blocks (sha_block st (take 16 ws)) (drop 16 ws))"

declare sha_blocks.simps [simp del]

definition sha256 :: "bytes \<Rightarrow> bytes" where
  "sha256 b = concat (map bytes_of_word (sha_blocks sha_H0 (words_of (sha_pad b))))"

section \<open>Unpadded base64url\<close>

definition b64_char :: "nat \<Rightarrow> char" where
  "b64_char n =
     (if n < 26 then byte_of (byte_val CHR ''A'' + n)
      else if n < 52 then byte_of (byte_val CHR ''a'' + (n - 26))
      else if n < 62 then byte_of (byte_val CHR ''0'' + (n - 52))
      else if n = 62 then CHR ''-'' else CHR ''_'')"

fun b64_encode :: "bytes \<Rightarrow> bytes" where
  "b64_encode [] = []"
| "b64_encode [a] = (let n = byte_val a * 16 in [b64_char (n div 64), b64_char (n mod 64)])"
| "b64_encode [a, b] =
     (let n = (byte_val a * 256 + byte_val b) * 4
      in [b64_char (n div 4096), b64_char (n div 64 mod 64), b64_char (n mod 64)])"
| "b64_encode (a # b # c # rest) =
     (let n = (byte_val a * 256 + byte_val b) * 256 + byte_val c
      in [b64_char (n div 262144), b64_char (n div 4096 mod 64), b64_char (n div 64 mod 64), b64_char (n mod 64)]
         @ b64_encode rest)"

section \<open>digest.go\<close>

definition DigestLen :: nat where
  "DigestLen = 43"

definition NullPayloadDigest :: bytes where
  "NullPayloadDigest = ''dCNOmK_nSY-12vHzasLXiswzlGT5UHA7jAGYkvmCuQs''"

definition Digest :: "bytes \<Rightarrow> bytes" where
  "Digest b = b64_encode (sha256 b)"

definition digest_char :: "char \<Rightarrow> bool" where
  "digest_char c \<longleftrightarrow>
     (CHR ''A'' \<le> c \<and> c \<le> CHR ''Z'') \<or> (CHR ''a'' \<le> c \<and> c \<le> CHR ''z'')
     \<or> (CHR ''0'' \<le> c \<and> c \<le> CHR ''9'') \<or> c = CHR ''-'' \<or> c = CHR ''_''"

definition ValidDigest :: "bytes \<Rightarrow> bool" where
  "ValidDigest s \<longleftrightarrow> length s = DigestLen \<and> list_all digest_char s"

section \<open>Shape of a digest\<close>

lemma digest_char_b64 [simp]: "n < 64 \<Longrightarrow> digest_char (b64_char n)"
  by (auto simp: b64_char_def digest_char_def byte_simps)

lemma b64_encode_chars: "list_all digest_char (b64_encode s)"
proof (induction s rule: b64_encode.induct)
  case 1
  then show ?case by simp
next
  case (2 a)
  then show ?case using byte_val_less [of a] by (simp add: Let_def less_mult_imp_div_less)
next
  case (3 a b)
  have "(byte_val a * 256 + byte_val b) * 4 div 4096 < 64"
    using byte_val_le [of a] byte_val_le [of b] by (intro less_mult_imp_div_less) simp
  then show ?case unfolding b64_encode.simps Let_def by simp
next
  case (4 a b c rest)
  have "((byte_val a * 256 + byte_val b) * 256 + byte_val c) div 262144 < 64"
    using byte_val_le [of a] byte_val_le [of b] byte_val_le [of c]
    by (intro less_mult_imp_div_less) simp
  with 4 show ?case unfolding b64_encode.simps Let_def by simp
qed

lemma b64_encode_length: "length (b64_encode s) = (length s * 4 + 2) div 3"
  by (induction s rule: b64_encode.induct) (simp_all add: Let_def)

lemma sha_round_length: "length (sha_round st p) = length st"
  by (cases "(st, p)" rule: sha_round.cases) (simp_all add: Let_def)

lemma sha_rounds_length: "length (foldl sha_round st ps) = length st"
  by (induction ps arbitrary: st) (simp_all add: sha_round_length)

lemma sha_blocks_length: "length (sha_blocks st ws) = length st"
proof (induction st ws rule: sha_blocks.induct)
  case (1 st ws)
  then show ?case
    by (subst sha_blocks.simps) (simp add: sha_block_def sha_rounds_length)
qed

lemma bytes_of_word_length [simp]: "length (bytes_of_word w) = 4"
  by (simp add: bytes_of_word_def Let_def)

lemma sha256_length: "length (sha256 b) = 32"
proof -
  have "length (concat (map bytes_of_word ws)) = 4 * length ws" for ws
    by (induction ws) simp_all
  then show ?thesis by (simp add: sha256_def sha_blocks_length sha_H0_def length_primes64)
qed

lemma ValidDigest_Digest: "ValidDigest (Digest b)"
  by (simp add: ValidDigest_def Digest_def DigestLen_def b64_encode_length sha256_length b64_encode_chars)

end
