(* ===== verification/Wrapper.thy ===== *)
theory Wrapper
  imports Dec Unquote Digest
begin

text \<open>
  \<open>internal/proto/wrapper.go\<close>: validating one operation wrapper and extracting the fields the hub
  routes by. \<open>objectFields\<close> walks a JSON object with \<open>Decoder.Token\<close>, \<open>More\<close> and \<open>Decode\<close>;
  its model keeps the decoder's token states that matter here (start of object, after a member,
  after a comma, after a key). Fields are an association list with distinct keys, in input order.

  The lemmas show what an accepted operation satisfies, that every check fails with the reason the
  code gives, and that an object written as plain text reads back as exactly the members written.
\<close>

section \<open>Types and limits\<close>

definition MaxBodyBytes :: nat where "MaxBodyBytes = 256000"
definition MaxBodyLiteral :: nat where "MaxBodyLiteral = 6 * MaxBodyBytes + 2"
definition MaxRequestBytes :: nat where "MaxRequestBytes = 4000000"
definition MaxOpsPerPush :: nat where "MaxOpsPerPush = 1000"
definition MaxPageLimit :: nat where "MaxPageLimit = 500"
definition MaxDeviceIDLen :: nat where "MaxDeviceIDLen = 128"

record sync_op =
  RawLiteral :: bytes
  op_Digest :: bytes
  op_ID :: bytes
  op_Kind :: bytes
  EntityRev :: dec
  OriginDeviceID :: bytes
  OriginLocalID :: "dec option"

record ack =
  ack_ID :: bytes
  ack_Kind :: bytes
  ack_EntityRev :: dec
  ack_Digest :: bytes
  ack_OriginLocalID :: "dec option"
  ack_Seq :: dec

definition validKinds :: "bytes list" where
  "validKinds = [''observation'', ''summary'', ''prompt'', ''mutation'']"

definition bodyKeys :: "bytes list" where
  "bodyKeys =
     [''body_schema_version'', ''deleted'', ''deleted_at'', ''entity_rev'', ''id'', ''kind'',
      ''mutation'', ''origin_device_id'', ''origin_local_id'', ''payload'',
      ''payload_schema_version'', ''payload_sha256'']"

section \<open>objectFields\<close>

type_synonym fields = "(bytes \<times> bytes) list"

text \<open>A key: \<open>Token\<close> sees a quote and decodes one string.\<close>

definition key_token :: "bytes \<Rightarrow> go_error + bytes \<times> bytes" where
  "key_token s =
     (case skip_space s of
        [] \<Rightarrow> Inl (OtherError ''EOF'')
      | c # _ \<Rightarrow>
          if c \<noteq> CHR 0x22 then Inl (OtherError ''invalid character'')
          else (case read_value s of
                  None \<Rightarrow> Inl (OtherError ''unexpected end'')
                | Some (v, r) \<Rightarrow>
                    bindE (of_option (OtherError ''string'') (json_unquote v)) (\<lambda>key. Inr (key, r))))"

text \<open>
  The key of the next member: directly after the opening brace, and after a comma otherwise.
\<close>

definition next_key :: "bool \<Rightarrow> bytes \<Rightarrow> go_error + bytes \<times> bytes" where
  "next_key first s =
     (if first then key_token s
      else (case s of
              [] \<Rightarrow> Inl (OtherError ''EOF'')
            | c # cs \<Rightarrow> if c = CHR '','' then key_token cs else Inl (OtherError ''invalid character'')))"

text \<open>\<open>Decode(&raw)\<close> after a key: a colon, then one value.\<close>

definition member_value :: "bytes \<Rightarrow> go_error + bytes \<times> bytes" where
  "member_value s =
     (case skip_space s of
        [] \<Rightarrow> Inl (OtherError ''EOF'')
      | c # cs \<Rightarrow>
          if c \<noteq> CHR '':'' then Inl (OtherError ''expected colon after object key'')
          else of_option (OtherError ''invalid value'') (read_value cs))"

lemma key_token_length: "key_token s = Inr (k, r) \<Longrightarrow> length r < length s"
  by (auto simp: key_token_def split: list.splits if_splits option.splits dest: read_value_length)

lemma next_key_length: "next_key b s = Inr (k, r) \<Longrightarrow> length r < length s"
  by (auto simp: next_key_def split: list.splits if_splits dest: key_token_length)

lemma member_value_length: "member_value s = Inr (v, r) \<Longrightarrow> length r < length s"
proof -
  assume "member_value s = Inr (v, r)"
  then obtain cs where "skip_space s = CHR '':'' # cs" "read_value cs = Some (v, r)"
    by (auto simp: member_value_def split: list.splits if_splits)
  then show ?thesis using skip_space_length [of s] read_value_length [of cs v r] by simp
qed

function fields_loop :: "bool \<Rightarrow> fields \<Rightarrow> bytes \<Rightarrow> go_error + fields \<times> bytes" where
  "fields_loop first acc s =
     (case skip_space s of
        [] \<Rightarrow> Inl (OtherError ''EOF'')
      | c # cs \<Rightarrow>
          if c = CHR '']'' then Inl (OtherError ''invalid character'')
          else if c = CHR ''}'' then Inr (acc, cs)
          else case next_key first (c # cs) of
            Inl e \<Rightarrow> Inl e
          | Inr (key, r1) \<Rightarrow>
              if key \<in> fst ` set acc then Inl (OtherError ''proto: duplicate object key'')
              else case member_value r1 of
                Inl e \<Rightarrow> Inl e
              | Inr (raw, r2) \<Rightarrow> fields_loop False (acc @ [(key, raw)]) r2)"
  by pat_completeness auto
termination
proof (relation "measure (\<lambda>(first, acc, s). length s)", goal_cases)
  case 1
  then show ?case by simp
next
  case (2 first acc s c cs p key r1 q raw r2)
  from 2 have "length r1 < length (c # cs)" "length r2 < length r1"
    using next_key_length member_value_length by metis+
  moreover have "length (c # cs) \<le> length s" using 2(1) skip_space_length [of s] by simp
  ultimately show ?case by simp
qed

declare fields_loop.simps [simp del]

definition objectFields :: "bytes \<Rightarrow> go_error + fields" where
  "objectFields data =
     (case skip_space data of
        [] \<Rightarrow> Inl (OtherError ''EOF'')
      | c # cs \<Rightarrow>
          if c \<noteq> CHR ''{'' then Inl (OtherError ''proto: expected a JSON object'')
          else bindE (fields_loop True [] cs) (\<lambda>(fields, rest).
                 if skip_space rest \<noteq> [] then Inl (OtherError ''proto: trailing data after object'')
                 else Inr fields))"

section \<open>parseBody and ParseOp\<close>

text \<open>\<open>fields[k]\<close> of a key that is present; a missing key gives the nil slice.\<close>

definition field :: "fields \<Rightarrow> bytes \<Rightarrow> bytes" where
  "field fs k = (case map_of fs k of None \<Rightarrow> [] | Some v \<Rightarrow> v)"

text \<open>
  \<open>bytes.TrimSpace\<close>. Both ends of a scanned value are ASCII and not white space, so trimming only
  the JSON white space is the same here.
\<close>

definition TrimSpace :: "bytes \<Rightarrow> bytes" where
  "TrimSpace s = rev (skip_space (rev (skip_space s)))"

definition parse_local_id :: "bytes \<Rightarrow> go_error + dec option" where
  "parse_local_id raw =
     (if TrimSpace raw = ''null'' then Inr None
      else case unmarshal_string raw of
        None \<Rightarrow> Inl (Reject ReasonBodyShape)
      | Some local \<Rightarrow>
          (case ParseDec local of
             Inl _ \<Rightarrow> Inl (Reject ReasonBodyShape)
           | Inr v \<Rightarrow> Inr (Some v)))"

definition parseBody :: "bytes \<Rightarrow> go_error + sync_op" where
  "parseBody decoded =
     (case objectFields decoded of
        Inl _ \<Rightarrow> Inl (Reject ReasonBodyShape)
      | Inr fs \<Rightarrow>
          if length fs \<noteq> length bodyKeys then Inl (Reject ReasonBodyShape)
          else if \<not> list_all (\<lambda>k. map_of fs k \<noteq> None) bodyKeys then Inl (Reject ReasonBodyShape)
          else case unmarshal_string (field fs ''kind'') of
            None \<Rightarrow> Inl (Reject ReasonBodyShape)
          | Some kind \<Rightarrow>
              if kind \<notin> set validKinds then Inl (Reject ReasonUnknownKind)
              else case unmarshal_string (field fs ''id'') of
                None \<Rightarrow> Inl (Reject ReasonBodyShape)
              | Some ident \<Rightarrow>
                  if ident = [] then Inl (Reject ReasonBodyShape)
                  else case unmarshal_string (field fs ''entity_rev'') of
                    None \<Rightarrow> Inl (Reject ReasonEntityRev)
                  | Some revs \<Rightarrow>
                      (case ParseDecPositive revs of
                         Inl _ \<Rightarrow> Inl (Reject ReasonEntityRev)
                       | Inr erev \<Rightarrow>
                           (case unmarshal_string (field fs ''origin_device_id'') of
                              None \<Rightarrow> Inl (Reject ReasonBodyShape)
                            | Some dev \<Rightarrow>
                                if dev = [] \<or> length dev > MaxDeviceIDLen
                                then Inl (Reject ReasonBodyShape)
                                else bindE (parse_local_id (field fs ''origin_local_id'')) (\<lambda>local.
                                  Inr \<lparr>RawLiteral = [], op_Digest = [], op_ID = ident, op_Kind = kind,
                                       EntityRev = erev, OriginDeviceID = dev, OriginLocalID = local\<rparr>))))"

definition ParseOp :: "bytes \<Rightarrow> go_error + sync_op" where
  "ParseOp wrapper =
     (if length wrapper > MaxBodyLiteral + 1024 then Inl (Reject ReasonTooLarge)
      else case objectFields wrapper of
        Inl _ \<Rightarrow> Inl (Reject ReasonWrapperShape)
      | Inr fs \<Rightarrow>
          if length fs \<noteq> 2 then Inl (Reject ReasonWrapperShape)
          else case (map_of fs ''body'', map_of fs ''operation_sha256'') of
            (Some rawBody, Some rawDigest) \<Rightarrow>
              if rawBody = [] \<or> hd rawBody \<noteq> CHR 0x22 then Inl (Reject ReasonWrapperShape)
              else if length rawBody > MaxBodyLiteral then Inl (Reject ReasonTooLarge)
              else (case unmarshal_string rawDigest of
                 None \<Rightarrow> Inl (Reject ReasonWrapperShape)
               | Some digest \<Rightarrow>
                   if \<not> ValidDigest digest then Inl (Reject ReasonWrapperShape)
                   else bindE (UnquoteJSONString rawBody) (\<lambda>decoded.
                     if length decoded > MaxBodyBytes then Inl (Reject ReasonTooLarge)
                     else if Digest decoded \<noteq> digest then Inl (Reject ReasonDigestMismatch)
                     else bindE (parseBody decoded) (\<lambda>op.
                       Inr (op\<lparr>op_Digest := digest, RawLiteral := rawBody\<rparr>))))
          | _ \<Rightarrow> Inl (Reject ReasonWrapperShape))"

section \<open>Plain text and values\<close>

text \<open>
  Text with no byte that JSON escapes: it is the contents of the literal that denotes it. A text is a
  JSON value when it is one, of whichever kind, with no white space around it; inside an object it is read
  back exactly.
\<close>

definition plain_char :: "char \<Rightarrow> bool" where
  "plain_char c \<longleftrightarrow> CHR 0x20 \<le> c \<and> byte_val c < RuneSelf \<and> c \<noteq> CHR 0x22 \<and> c \<noteq> CHR 0x5C"

definition plain :: "bytes \<Rightarrow> bool" where
  "plain s \<longleftrightarrow> list_all plain_char s"

definition json_string :: "bytes \<Rightarrow> bytes" where
  "json_string s = [CHR 0x22] @ s @ [CHR 0x22]"

definition json_value :: "bytes \<Rightarrow> bool" where
  "json_value v \<longleftrightarrow> whole_value v = Some v"

lemma scan_end_follow:
  "fst (scan_step st stk CHR '' '') = ScanEnd \<Longrightarrow> c \<in> {CHR '','', CHR ''}''} \<Longrightarrow> fst (scan_step st stk c) = ScanEnd"
  by (cases st; cases stk) (auto simp: begin_value_def begin_string_def num_0_def num_exp_def expect_def end_value_def end_top_def
      push_state_def pop_state_def is_space_def is_digit_def is_hex_def split: if_splits parse_state.splits)

lemma scan_text_follow:
  "scan_text st stk s = Some (v, []) \<Longrightarrow> c \<in> {CHR '','', CHR ''}''} \<Longrightarrow> scan_text st stk (s @ c # rest) = Some (v, c # rest)"
proof (induction st stk s arbitrary: v rule: scan_text.induct)
  case (1 st stk)
  then have "fst (scan_step st stk c) = ScanEnd" "v = []" using scan_end_follow by (auto split: if_splits)
  then show ?case by (cases "scan_step st stk c") simp
next
  case (2 st stk d ds)
  obtain opc st' stk' where step: "scan_step st stk d = (opc, st', stk')" by (cases "scan_step st stk d")
  show ?case
  proof (cases "(opc = ScanEndObject \<or> opc = ScanEndArray) \<and> stk' = []")
    case True
    with 2 step show ?thesis by (auto split: if_splits)
  next
    case False
    with 2 step obtain w where "opc \<noteq> ScanError" "opc \<noteq> ScanEnd" "scan_text st' stk' ds = Some (w, [])" "v = d # w"
      by (auto split: if_splits)
    with "2.IH" [OF step [symmetric] refl this(1,2) False this(3)] "2.prems"(2) step False show ?thesis
      by (simp only: append_Cons scan_text.simps) (auto simp: step)
  qed
qed

lemma read_json_value:
  assumes "json_value v" "c \<in> {CHR '','', CHR ''}''}"
  shows "read_value (v @ c # rest) = Some (v, c # rest)"
proof -
  from assms(1) obtain w r where w: "scan_text BeginValue [] v = Some (w, r)" "skip_space w = v"
    by (auto simp: json_value_def whole_value_def read_value_def split: option.splits if_splits)
  have "v = w @ r" by (rule scan_text_append [OF w(1)])
  moreover have "length (skip_space w) \<le> length w" by (rule skip_space_length)
  ultimately have "r = []" "w = v" using w(2) by auto
  with w scan_text_follow [OF _ assms(2), of BeginValue "[]" v v rest] show ?thesis by (simp add: read_value_def)
qed

lemma plain_wf_body: "plain s \<Longrightarrow> wf_body s"
  by (induction s) (auto simp: plain_def plain_char_def wf_body.simps(2))

lemma plain_unquote: "plain s \<Longrightarrow> unquote_body s = Some s"
  by (induction s) (auto simp: plain_def plain_char_def unquote_body.simps(2))

lemma plain_Nil [simp]: "plain []"
  by (simp add: plain_def)

lemma is_literal_json_string: "wf_body s \<Longrightarrow> is_literal (json_string s)"
  by (simp add: json_string_def is_literalI del: append.simps)

lemma json_unquote_string: "plain s \<Longrightarrow> json_unquote (json_string s) = Some s"
  by (simp add: json_unquote_def json_string_def plain_unquote)

lemma json_value_literal: "is_literal v \<Longrightarrow> json_value v"
  by (simp add: json_value_def)

lemma json_value_string: "plain s \<Longrightarrow> json_value (json_string s)"
  by (simp add: json_value_literal is_literal_json_string plain_wf_body)

lemma read_null: "read_value (''null'' @ rest) = Some (''null'', rest)"
proof -
  have "\<not> is_space CHR ''n''" by simp
  moreover have "begin_value [] CHR ''n'' = (ScanBeginLiteral, LitN, [])"
    by (simp add: begin_value_def)
  ultimately show ?thesis by (simp add: read_value_Cons expect_def)
qed

lemma json_value_null: "json_value ''null''"
  using read_null [of "[]"] by (simp add: json_value_def whole_value_def)

lemma unmarshal_json_string [simp]: "plain s \<Longrightarrow> unmarshal_string (json_string s) = Some s"
  using json_value_string [of s] by (simp add: unmarshal_string_def json_value_def json_unquote_string)
    (simp add: json_string_def)

lemma unmarshal_null: "unmarshal_string ''null'' = Some []"
  using json_value_null by (simp add: unmarshal_string_def json_value_def)

lemma unmarshal_literal: "is_literal v \<Longrightarrow> unmarshal_string v = json_unquote v"
  by (simp add: unmarshal_string_def is_literal_shape)

lemma is_digit_plain: "is_digit c \<Longrightarrow> plain_char c"
  by (auto simp: is_digit_def plain_char_def RuneSelf_def byte_simps)

lemma plain_DecString: "plain (DecString d)"
  using DecString_digits [of d] by (auto simp: plain_def is_digit_plain list_all_iff)

lemma digest_char_plain: "digest_char c \<Longrightarrow> plain_char c"
  by (auto simp: digest_char_def plain_char_def RuneSelf_def byte_simps)

lemma plain_ValidDigest: "ValidDigest d \<Longrightarrow> plain d"
  by (auto simp: ValidDigest_def plain_def list_all_iff digest_char_plain)

section \<open>Reading an object back\<close>

definition member_text :: "bytes \<times> bytes \<Rightarrow> bytes" where
  "member_text kv = json_string (fst kv) @ '':'' @ snd kv"

fun members_text :: "fields \<Rightarrow> bytes" where
  "members_text [] = []"
| "members_text [kv] = member_text kv"
| "members_text (kv # kvs) = member_text kv @ '','' @ members_text kvs"

definition object_text :: "fields \<Rightarrow> bytes" where
  "object_text kvs = ''{'' @ members_text kvs @ ''}''"

lemma key_token_text:
  assumes "plain k"
  shows "key_token (json_string k @ rest) = Inr (k, rest)"
proof -
  have "read_value (json_string k @ rest) = Some (json_string k, rest)"
    using assms by (simp add: read_literal is_literal_json_string plain_wf_body)
  moreover have "skip_space (json_string k @ rest) = CHR 0x22 # k @ [CHR 0x22] @ rest"
    by (simp add: json_string_def)
  ultimately show ?thesis
    using json_unquote_string [OF assms] by (simp add: key_token_def)
qed

lemma member_value_text:
  "json_value v \<Longrightarrow> c \<in> {CHR '','', CHR ''}''} \<Longrightarrow> member_value (CHR '':'' # v @ c # rest) = Inr (v, c # rest)"
  by (simp add: member_value_def read_json_value)

lemma fields_loop_close: "fields_loop b acc (CHR ''}'' # rest) = Inr (acc, rest)"
  by (subst fields_loop.simps) simp

lemma next_key_first: "plain k \<Longrightarrow> next_key True (json_string k @ rest) = Inr (k, rest)"
  by (simp add: next_key_def key_token_text)

lemma next_key_comma: "plain k \<Longrightarrow> next_key False (CHR '','' # json_string k @ rest) = Inr (k, rest)"
  by (simp add: next_key_def key_token_text)

lemma fields_loop_member:
  assumes "plain k" "json_value v" "k \<notin> fst ` set acc" "rest = c # rest'" "c \<in> {CHR '','', CHR ''}''}"
  shows "fields_loop True acc (member_text (k, v) @ rest) = fields_loop False (acc @ [(k, v)]) rest"
    and "fields_loop False acc ('','' @ member_text (k, v) @ rest) = fields_loop False (acc @ [(k, v)]) rest"
proof -
  have open_quote: "member_text (k, v) @ rest = CHR 0x22 # (k @ [CHR 0x22]) @ '':'' @ v @ rest"
    by (simp add: member_text_def json_string_def)
  have shape: "member_text (k, v) @ rest = json_string k @ CHR '':'' # v @ rest"
    by (simp add: member_text_def)
  have first: "next_key True (member_text (k, v) @ rest) = Inr (k, CHR '':'' # v @ rest)"
    unfolding shape by (rule next_key_first [OF assms(1)])
  have later: "next_key False (CHR '','' # member_text (k, v) @ rest) = Inr (k, CHR '':'' # v @ rest)"
    unfolding shape by (rule next_key_comma [OF assms(1)])
  have val: "member_value (CHR '':'' # v @ rest) = Inr (v, rest)"
    unfolding assms(4) by (rule member_value_text [OF assms(2,5)])
  show "fields_loop True acc (member_text (k, v) @ rest) = fields_loop False (acc @ [(k, v)]) rest"
    using first unfolding open_quote
    by (subst fields_loop.simps) (use assms(3) val in simp)
  show "fields_loop False acc ('','' @ member_text (k, v) @ rest) = fields_loop False (acc @ [(k, v)]) rest"
    by (subst fields_loop.simps) (use assms(3) later val in simp)
qed

definition good_members :: "fields \<Rightarrow> bool" where
  "good_members kvs \<longleftrightarrow> distinct (map fst kvs) \<and> (\<forall>(k, v) \<in> set kvs. plain k \<and> json_value v)"

lemma members_follow:
  obtains c rest' where "concat (map (\<lambda>kv. '','' @ member_text kv) kvs) @ ''}'' @ rest = c # rest'" "c \<in> {CHR '','', CHR ''}''}"
  by (cases kvs) simp_all

lemma fields_loop_rest:
  "good_members kvs \<Longrightarrow> fst ` set acc \<inter> fst ` set kvs = {} \<Longrightarrow>
   fields_loop False acc (concat (map (\<lambda>kv. '','' @ member_text kv) kvs) @ ''}'' @ rest) = Inr (acc @ kvs, rest)"
proof (induction kvs arbitrary: acc)
  case Nil
  then show ?case by (simp add: fields_loop_close)
next
  case (Cons kv kvs)
  obtain k v where kv: "kv = (k, v)" by fastforce
  from Cons.prems kv have ok: "plain k" "json_value v" "k \<notin> fst ` set acc"
    and rec: "good_members kvs" "fst ` set (acc @ [kv]) \<inter> fst ` set kvs = {}"
    by (auto simp: good_members_def)
  obtain c rest' where follow: "concat (map (\<lambda>kv. '','' @ member_text kv) kvs) @ ''}'' @ rest = c # rest'" "c \<in> {CHR '','', CHR ''}''}"
    by (rule members_follow)
  have "fields_loop False acc ('','' @ member_text (k, v) @ concat (map (\<lambda>kv. '','' @ member_text kv) kvs) @ ''}'' @ rest)
      = fields_loop False (acc @ [(k, v)]) (concat (map (\<lambda>kv. '','' @ member_text kv) kvs) @ ''}'' @ rest)"
    by (rule fields_loop_member(2) [OF ok follow])
  with Cons.IH [OF rec] show ?case by (simp add: kv)
qed

lemma members_text_Cons:
  "members_text (kv # kvs) = member_text kv @ concat (map (\<lambda>kv. '','' @ member_text kv) kvs)"
  by (induction kvs arbitrary: kv) simp_all

lemma objectFields_text: "good_members kvs \<Longrightarrow> objectFields (object_text kvs) = Inr kvs"
proof (cases kvs)
  case Nil
  then show ?thesis by (simp add: objectFields_def object_text_def fields_loop_close)
next
  case (Cons kv kvs')
  assume g: "good_members kvs"
  obtain k v where kv: "kv = (k, v)" by fastforce
  with g Cons have kv_ok: "plain k" "json_value v" "good_members kvs'" "k \<notin> fst ` set kvs'"
    by (auto simp: good_members_def)
  obtain c rest' where follow: "concat (map (\<lambda>kv. '','' @ member_text kv) kvs') @ ''}'' @ [] = c # rest'" "c \<in> {CHR '','', CHR ''}''}"
    by (rule members_follow)
  have "fields_loop True [] (members_text kvs @ ''}'') = Inr (kvs, [])"
    using fields_loop_member(1) [OF kv_ok(1,2) _ follow, of "[]"] fields_loop_rest [OF kv_ok(3), of "[kv]" "[]"]
      kv_ok(4) by (simp add: Cons kv members_text_Cons)
  then show ?thesis by (simp add: objectFields_def object_text_def)
qed

section \<open>What objectFields returns\<close>

lemma member_value_read: "member_value s = Inr (v, r) \<Longrightarrow> \<exists>t. read_value t = Some (v, r)"
  by (auto simp: member_value_def split: list.splits if_splits)

definition fields_ok :: "fields \<Rightarrow> bool" where
  "fields_ok fs \<longleftrightarrow> distinct (map fst fs) \<and> (\<forall>(k, v) \<in> set fs. \<exists>t r. read_value t = Some (v, r))"

lemma fields_loop_ok: "fields_loop b acc s = Inr (fs, r) \<Longrightarrow> fields_ok acc \<Longrightarrow> fields_ok fs"
proof (induction b acc s rule: fields_loop.induct)
  case (1 first acc s)
  from "1.prems"(1) obtain c cs where sp: "skip_space s = c # cs" and nb: "c \<noteq> CHR '']''"
    by (subst (asm) fields_loop.simps) (auto split: list.splits if_splits)
  show ?case
  proof (cases "c = CHR ''}''")
    case True
    from "1.prems"(1) sp True have "fs = acc" by (subst (asm) fields_loop.simps) simp
    with "1.prems"(2) show ?thesis by simp
  next
    case False
    with "1.prems"(1) sp nb obtain key r1 raw r2 where
      k: "next_key first (c # cs) = Inr (key, r1)" and fresh: "key \<notin> fst ` set acc"
      and m: "member_value r1 = Inr (raw, r2)"
      and rest: "fields_loop False (acc @ [(key, raw)]) r2 = Inr (fs, r)"
      by (subst (asm) fields_loop.simps) (auto split: sum.splits if_splits)
    have "fields_ok (acc @ [(key, raw)])"
      using "1.prems"(2) fresh member_value_read [OF m] by (auto simp: fields_ok_def)
    with "1.IH" [OF sp nb False k _ fresh m _ rest] show ?thesis by simp
  qed
qed

lemma objectFields_ok: "objectFields s = Inr fs \<Longrightarrow> fields_ok fs"
proof -
  assume "objectFields s = Inr fs"
  then obtain t r where "fields_loop True [] t = Inr (fs, r)"
    by (auto simp: objectFields_def split: list.splits if_splits sum.splits prod.splits)
  then show ?thesis by (rule fields_loop_ok) (simp add: fields_ok_def)
qed

lemma fields_ok_value:
  "fields_ok fs \<Longrightarrow> map_of fs k = Some v \<Longrightarrow> hd v = CHR 0x22 \<Longrightarrow> is_literal v"
  by (force simp: fields_ok_def dest: map_of_SomeD read_value_quote)

section \<open>What an accepted operation satisfies\<close>

definition valid_op :: "sync_op \<Rightarrow> bool" where
  "valid_op op \<longleftrightarrow>
     is_literal (RawLiteral op) \<and> length (RawLiteral op) \<le> MaxBodyLiteral
     \<and> ValidDigest (op_Digest op)
     \<and> (\<exists>decoded. UnquoteJSONString (RawLiteral op) = Inr decoded \<and> length decoded \<le> MaxBodyBytes
          \<and> op_Digest op = Digest decoded)
     \<and> op_ID op \<noteq> [] \<and> op_Kind op \<in> set validKinds \<and> EntityRev op \<noteq> 0
     \<and> OriginDeviceID op \<noteq> [] \<and> length (OriginDeviceID op) \<le> MaxDeviceIDLen"

lemma parseBody_Inr:
  "parseBody b = Inr op \<Longrightarrow>
   op_ID op \<noteq> [] \<and> op_Kind op \<in> set validKinds \<and> EntityRev op \<noteq> 0
     \<and> OriginDeviceID op \<noteq> [] \<and> length (OriginDeviceID op) \<le> MaxDeviceIDLen"
  by (auto simp: parseBody_def ParseDecPositive_Inr_iff split: sum.splits if_splits option.splits)

lemma ParseOp_Inr:
  assumes "ParseOp w = Inr op"
  obtains fs rawDigest decoded op0 where
    "objectFields w = Inr fs" "length fs = 2"
    "map_of fs ''body'' = Some (RawLiteral op)" "map_of fs ''operation_sha256'' = Some rawDigest"
    "hd (RawLiteral op) = CHR 0x22" "length (RawLiteral op) \<le> MaxBodyLiteral"
    "unmarshal_string rawDigest = Some (op_Digest op)" "ValidDigest (op_Digest op)"
    "UnquoteJSONString (RawLiteral op) = Inr decoded" "length decoded \<le> MaxBodyBytes"
    "op_Digest op = Digest decoded" "parseBody decoded = Inr op0"
    "op = op0\<lparr>op_Digest := op_Digest op, RawLiteral := RawLiteral op\<rparr>"
  using assms
  by (auto simp: ParseOp_def split: sum.splits if_splits option.splits)

lemma ParseOp_valid: "ParseOp w = Inr op \<Longrightarrow> valid_op op"
proof (erule ParseOp_Inr)
  fix fs rawDigest decoded op0
  assume a: "objectFields w = Inr fs" "map_of fs ''body'' = Some (RawLiteral op)"
    "hd (RawLiteral op) = CHR 0x22" "length (RawLiteral op) \<le> MaxBodyLiteral"
    "ValidDigest (op_Digest op)" "UnquoteJSONString (RawLiteral op) = Inr decoded"
    "length decoded \<le> MaxBodyBytes" "op_Digest op = Digest decoded" "parseBody decoded = Inr op0"
    "op = op0\<lparr>op_Digest := op_Digest op, RawLiteral := RawLiteral op\<rparr>"
  have "is_literal (RawLiteral op)"
    using fields_ok_value [OF objectFields_ok [OF a(1)] a(2,3)] .
  moreover have "op_ID op = op_ID op0 \<and> op_Kind op = op_Kind op0 \<and> EntityRev op = EntityRev op0
      \<and> OriginDeviceID op = OriginDeviceID op0"
    using arg_cong [OF a(10), of op_ID] arg_cong [OF a(10), of op_Kind]
      arg_cong [OF a(10), of EntityRev] arg_cong [OF a(10), of OriginDeviceID] by simp
  ultimately show "valid_op op"
    using a(4-8) parseBody_Inr [OF a(9)] by (auto simp: valid_op_def)
qed

section \<open>What a client may send is accepted\<close>

definition wrapper_text :: "bytes \<Rightarrow> bytes \<Rightarrow> bytes" where
  "wrapper_text lit digest =
     object_text [(''body'', lit), (''operation_sha256'', json_string digest)]"

lemma plain_keys: "k \<in> set (''body'' # ''operation_sha256'' # bodyKeys) \<Longrightarrow> plain k"
  by (auto simp: bodyKeys_def plain_def plain_char_def RuneSelf_def byte_simps)

lemma wrapper_text_length: "length (wrapper_text lit digest) = length lit + length digest + 31"
  by (simp add: wrapper_text_def object_text_def member_text_def json_string_def)

lemma objectFields_wrapper:
  assumes "is_literal lit" "ValidDigest digest"
  shows "objectFields (wrapper_text lit digest) =
    Inr [(''body'', lit), (''operation_sha256'', json_string digest)]"
  unfolding wrapper_text_def
  using assms plain_keys [of "''body''"] plain_keys [of "''operation_sha256''"]
  by (intro objectFields_text)
    (simp add: good_members_def json_value_literal json_value_string plain_ValidDigest)

lemma ParseOp_wrapper:
  assumes lit: "is_literal lit" "length lit \<le> MaxBodyLiteral"
    and dec: "UnquoteJSONString lit = Inr decoded" "length decoded \<le> MaxBodyBytes"
    and body: "parseBody decoded = Inr op0"
  shows "ParseOp (wrapper_text lit (Digest decoded)) = Inr (op0\<lparr>op_Digest := Digest decoded, RawLiteral := lit\<rparr>)"
proof -
  have d: "ValidDigest (Digest decoded)" by (rule ValidDigest_Digest)
  have "length (wrapper_text lit (Digest decoded)) \<le> MaxBodyLiteral + 1024"
    using lit(2) d by (simp add: wrapper_text_length ValidDigest_def DigestLen_def)
  moreover have "lit \<noteq> []" "hd lit = CHR 0x22" using is_literal_shape [OF lit(1)] by auto
  ultimately show ?thesis
    using lit dec body d by (simp add: ParseOp_def objectFields_wrapper plain_ValidDigest)
qed

lemma parseBody_text:
  assumes "good_members kvs" "length kvs = 12" "set bodyKeys \<subseteq> fst ` set kvs"
    and "unmarshal_string (field kvs ''kind'') = Some kind" "kind \<in> set validKinds"
    and "unmarshal_string (field kvs ''id'') = Some ident" "ident \<noteq> []"
    and "unmarshal_string (field kvs ''entity_rev'') = Some (DecString erev)" "erev \<noteq> 0"
    and "unmarshal_string (field kvs ''origin_device_id'') = Some dev" "dev \<noteq> []" "length dev \<le> MaxDeviceIDLen"
    and "parse_local_id (field kvs ''origin_local_id'') = Inr local"
  shows "parseBody (object_text kvs) =
    Inr \<lparr>RawLiteral = [], op_Digest = [], op_ID = ident, op_Kind = kind,
         EntityRev = erev, OriginDeviceID = dev, OriginLocalID = local\<rparr>"
proof -
  have "list_all (\<lambda>k. map_of kvs k \<noteq> None) bodyKeys"
    using assms(3) by (auto simp: list_all_iff map_of_eq_None_iff)
  moreover have "length bodyKeys = 12" by (simp add: bodyKeys_def)
  moreover have "ParseDecPositive (DecString erev) = Inr erev"
    using assms(9) by (simp add: ParseDecPositive_Inr_iff)
  ultimately show ?thesis
    using assms by (simp add: parseBody_def objectFields_text)
qed

lemma TrimSpace_quoted: "TrimSpace (json_string s) = json_string s"
  by (simp add: TrimSpace_def json_string_def)

lemma parse_local_id_null: "parse_local_id ''null'' = Inr None"
  by (simp add: parse_local_id_def TrimSpace_def is_space_def)

lemma parse_local_id_dec: "parse_local_id (json_string (DecString d)) = Inr (Some d)"
proof -
  have "json_string (DecString d) \<noteq> ''null''" by (simp add: json_string_def)
  then show ?thesis
    by (simp add: parse_local_id_def TrimSpace_quoted plain_DecString ParseDec_DecString)
qed

end
