(* ===== verification/Emit.thy ===== *)
theory Emit
  imports Wrapper
begin

text \<open>
  \<open>internal/proto/emit.go\<close>: writing one entry of a changes page and one acknowledgement, with
  \<open>strconv.Quote\<close>. Both functions write to a \<open>bytes.Buffer\<close> (which cannot fail), so the model
  returns the bytes that are appended.

  \<open>strconv.Quote\<close> asks a Unicode table which runes above U+00FF are printable; the table is the
  parameter \<open>up\<close>, and nothing proved here depends on what it says. Everything below U+0100 is
  written out.

  The lemmas: a stored literal comes out of a page entry byte for byte; an acknowledgement reads
  back to its six fields whenever \<open>Quote\<close> writes JSON; and \<open>Quote\<close> does so for runes that are
  plain, a quote, a backslash or one of the five controls JSON has a short escape for, and does not
  for the others.
\<close>

section \<open>strconv.Quote\<close>

definition IsPrint :: "(nat \<Rightarrow> bool) \<Rightarrow> nat \<Rightarrow> bool" where
  "IsPrint up r =
     (if r \<le> 0xFF then (0x20 \<le> r \<and> r < 0x7F) \<or> (0xA1 \<le> r \<and> r \<noteq> 0xAD) else up r)"

definition backslash :: "bytes \<Rightarrow> bytes" where
  "backslash s = CHR 0x5C # s"

definition escaped_rune :: "(nat \<Rightarrow> bool) \<Rightarrow> nat \<Rightarrow> bytes" where
  "escaped_rune up r =
     (if r = 0x22 \<or> r = 0x5C then backslash [byte_of r]
      else if IsPrint up r then encode_rune r
      else if r = 0x07 then backslash ''a''
      else if r = 0x08 then backslash ''b''
      else if r = 0x0C then backslash ''f''
      else if r = 0x0A then backslash ''n''
      else if r = 0x0D then backslash ''r''
      else if r = 0x09 then backslash ''t''
      else if r = 0x0B then backslash ''v''
      else if r < 0x20 \<or> r = 0x7F then backslash (''x'' @ hex_digits 2 r)
      else if r < 0x10000 then backslash (''u'' @ hex_digits 4 r)
      else backslash (''U'' @ hex_digits 8 r))"

function quote_body :: "(nat \<Rightarrow> bool) \<Rightarrow> bytes \<Rightarrow> bytes" where
  "quote_body up [] = []"
| "quote_body up (c # cs) =
     (case decode_rune (c # cs) of (r, n) \<Rightarrow>
        if RuneSelf \<le> byte_val c \<and> n = 1
        then backslash (''x'' @ hex_digits 2 (byte_val c)) @ quote_body up cs
        else escaped_rune up r @ quote_body up (drop n (c # cs)))"
  by pat_completeness auto
termination
  by (relation "measure (\<lambda>(up, s). length s)") (auto dest: decode_rune_pos)

declare quote_body.simps(2) [simp del]

definition Quote :: "(nat \<Rightarrow> bool) \<Rightarrow> bytes \<Rightarrow> bytes" where
  "Quote up s = [CHR 0x22] @ quote_body up s @ [CHR 0x22]"

section \<open>emit.go\<close>

definition EmitChangeOp :: "(nat \<Rightarrow> bool) \<Rightarrow> dec \<Rightarrow> dec \<Rightarrow> sync_op \<Rightarrow> bytes" where
  \<open>EmitChangeOp up sq serverTS op =
     ''{"seq":"'' @ DecString sq @ ''","server_ts":"'' @ DecString serverTS @ ''","body":''
       @ RawLiteral op @ '',"operation_sha256":'' @ Quote up (op_Digest op) @ ''}''\<close>

definition EmitAck :: "(nat \<Rightarrow> bool) \<Rightarrow> ack \<Rightarrow> bytes" where
  \<open>EmitAck up a =
     ''{"id":'' @ Quote up (ack_ID a) @ '',"kind":'' @ Quote up (ack_Kind a)
       @ '',"entity_rev":"'' @ DecString (ack_EntityRev a)
       @ ''","operation_sha256":'' @ Quote up (ack_Digest a)
       @ '',"seq":"'' @ DecString (ack_Seq a) @ ''","origin_local_id":''
       @ (case ack_OriginLocalID a of
            None \<Rightarrow> ''null''
          | Some v \<Rightarrow> [CHR 0x22] @ DecString v @ [CHR 0x22])
       @ ''}''\<close>

section \<open>When Quote writes JSON\<close>

text \<open>The runes \<open>Quote\<close> writes in a form JSON has, and the strings made of them only.\<close>

definition json_rune :: "(nat \<Rightarrow> bool) \<Rightarrow> nat \<Rightarrow> bool" where
  "json_rune up r \<longleftrightarrow> r \<in> {0x08, 0x09, 0x0A, 0x0C, 0x0D} \<or> IsPrint up r \<or> (0x80 \<le> r \<and> r < 0x10000)"

function quotable :: "(nat \<Rightarrow> bool) \<Rightarrow> bytes \<Rightarrow> bool" where
  "quotable up [] \<longleftrightarrow> True"
| "quotable up (c # cs) \<longleftrightarrow>
     (case decode_rune (c # cs) of (r, n) \<Rightarrow>
        \<not> (RuneSelf \<le> byte_val c \<and> n = 1) \<and> json_rune up r \<and> quotable up (drop n (c # cs)))"
  by pat_completeness auto
termination
  by (relation "measure (\<lambda>(up, s). length s)") (auto dest: decode_rune_pos)

declare quotable.simps(2) [simp del]

lemma decode_rune_prefix:
  "decode_rune s = (r, n) \<Longrightarrow> 1 < n \<Longrightarrow> decode_rune (take n s @ rest) = (r, n)"
  by (cases s) (auto simp: decode_rune.simps(2) split: if_splits option.splits list.splits)

lemma decode_rune_high_rune:
  assumes "decode_rune s = (r, n)" "1 < n"
  shows "0x80 \<le> r \<and> \<not> IsSurrogate r \<and> n \<le> length s"
  using assms
proof (cases rule: decode_rune_multi)
  case (two c0 c1 rest)
  from encode_two(1) [OF two(3-6)] show ?thesis
    unfolding two(7) using encode_two(2) [OF two(3-6)] by (simp add: two(1,2) IsSurrogate_def)
next
  case (three c0 c1 c2 rest)
  from encode_three(1,3) [OF three(3-10)] show ?thesis
    unfolding three(1,2,11) IsSurrogate_def by auto
next
  case (four c0 c1 c2 c3 rest)
  from encode_four(1) [OF four(3-12)] show ?thesis
    unfolding four(13) by (simp add: four(1,2) IsSurrogate_def)
qed

lemma wf_body_verbatim:
  "list_all (\<lambda>c. 128 \<le> byte_val c) u \<Longrightarrow> wf_body (u @ v) \<longleftrightarrow> wf_body v"
  by (induction u) (auto simp: wf_body.simps(2) byte_simps)

lemma hex_char_hex:
  assumes "n < 16"
  shows "is_hex (hex_char n)" "hex_val (hex_char n) = n"
proof -
  have "n < 10 \<or> n \<in> {10, 11, 12, 13, 14, 15}" using assms by auto
  then show "is_hex (hex_char n)" "hex_val (hex_char n) = n"
    by (auto simp: hex_char_def is_hex_def hex_val_def is_digit_val digit_char_def byte_simps)
qed

lemma hex_digits_4:
  "hex_digits 4 r = [hex_char (r div 16 div 16 div 16 mod 16), hex_char (r div 16 div 16 mod 16),
     hex_char (r div 16 mod 16), hex_char (r mod 16)]"
proof -
  have "(4 :: nat) = Suc (Suc (Suc (Suc 0)))" by simp
  then have "hex_digits 4 r = hex_digits (Suc (Suc (Suc (Suc 0)))) r" by (rule arg_cong)
  then show ?thesis by (simp only: hex_digits.simps append.simps)
qed

lemma nibbles:
  fixes r :: nat
  assumes "r < 0x10000"
  shows "((r div 16 div 16 div 16 mod 16 * 16 + r div 16 div 16 mod 16) * 16 + r div 16 mod 16) * 16 + r mod 16 = r"
proof -
  have "r div 16 div 16 div 16 < 16" using assms by (simp add: div_mult2_eq [symmetric] less_mult_imp_div_less)
  then have "r div 16 div 16 div 16 mod 16 * 16 + r div 16 div 16 mod 16 = r div 16 div 16"
    by simp
  moreover have "r div 16 div 16 * 16 + r div 16 mod 16 = r div 16" by simp
  ultimately show ?thesis by simp
qed

lemma getu4_hex: "r < 0x10000 \<Longrightarrow> getu4 (backslash (''u'' @ hex_digits 4 r) @ rest) = Some r"
  unfolding hex_digits_4 backslash_def by (simp add: hex_char_hex nibbles del: mod_div_trivial)

lemma escape_char_quoted:
  "escape_char CHR 0x22 = Some CHR 0x22" "escape_char CHR 0x5C = Some CHR 0x5C"
  "escape_char CHR ''x'' = None" "escape_char CHR ''a'' = None"
  "escape_char CHR ''v'' = None" "escape_char CHR ''U'' = None"
  "escape_char CHR ''b'' = Some CHR 0x08" "escape_char CHR ''f'' = Some CHR 0x0C"
  "escape_char CHR ''n'' = Some CHR 0x0A" "escape_char CHR ''r'' = Some CHR 0x0D"
  "escape_char CHR ''t'' = Some CHR 0x09"
  by (simp_all add: escape_char_def)

lemma wf_body_backslash:
  "e \<noteq> CHR ''u'' \<Longrightarrow>
   wf_body (backslash (e # s) @ rest) \<longleftrightarrow> escape_char e \<noteq> None \<and> wf_body (s @ rest)"
  by (simp add: backslash_def wf_body.simps(2))

lemma wf_body_escaped:
  assumes "IsPrint up r \<Longrightarrow> r < 0x80 \<or> list_all (\<lambda>c. 128 \<le> byte_val c) (encode_rune r)"
  shows "wf_body (escaped_rune up r @ rest) \<longleftrightarrow> json_rune up r \<and> wf_body rest"
proof (cases "IsPrint up r")
  case True
  show ?thesis
  proof (cases "r < 0x80")
    case small: True
    with True have "0x20 \<le> r" by (auto simp: IsPrint_def)
    moreover have "byte_val (byte_of r) = r" using small by simp
    ultimately show ?thesis
      using True small
      by (auto simp: escaped_rune_def json_rune_def backslash_def encode_rune_def wf_body.simps(2)
          escape_char_def byte_simps byte_val_eq [symmetric])
  next
    case False
    with True assms show ?thesis
      by (simp add: escaped_rune_def json_rune_def wf_body_verbatim)
  qed
next
  case False
  then have ne: "r \<noteq> 0x22" "r \<noteq> 0x5C" by (auto simp: IsPrint_def)
  show ?thesis
  proof (cases "0x80 \<le> r \<and> r < 0x10000")
    case True
    with False ne show ?thesis
      by (simp add: escaped_rune_def json_rune_def backslash_def hex_digits_4 wf_body_u hex_char_hex)
  next
    case nb: False
    with False consider "r < 0x20" | "r = 0x7F" | "0x10000 \<le> r"
      by (auto simp: IsPrint_def)
    then show ?thesis
      using False ne nb
      by cases (simp_all add: escaped_rune_def json_rune_def wf_body_backslash escape_char_quoted)
  qed
qed

lemma unquote_body_escape:
  "escape_char e = Some x \<Longrightarrow>
   unquote_body (backslash [e] @ rest) = map_option ((#) x) (unquote_body rest)"
  by (auto simp: unquote_body.simps(2) backslash_def escape_char_def)

lemma unquote_body_uescape:
  assumes "r < 0x10000" "\<not> IsSurrogate r"
  shows "unquote_body (backslash (''u'' @ hex_digits 4 r) @ rest)
    = map_option ((@) (encode_rune r)) (unquote_body rest)"
proof -
  have "getu4 (backslash (''u'' @ hex_digits 4 r) @ rest) = Some r"
    by (rule getu4_hex [OF assms(1)])
  then show ?thesis
    using assms(2) by (simp add: backslash_def unquote_body.simps(2) hex_digits_4)
qed

text \<open>One step of \<open>Quote\<close>: what was decoded, and where the input goes on.\<close>

lemma quote_step:
  assumes "decode_rune (c # cs) = (r, n)" "\<not> (RuneSelf \<le> byte_val c \<and> n = 1)"
  shows "encode_rune r = take n (c # cs)" "\<not> IsSurrogate r"
    and "r < 0x80 \<or> list_all (\<lambda>c. 128 \<le> byte_val c) (encode_rune r)"
proof -
  have "encode_rune r = take n (c # cs) \<and> \<not> IsSurrogate r
      \<and> (r < 0x80 \<or> list_all (\<lambda>c. 128 \<le> byte_val c) (encode_rune r))"
  proof (cases "byte_val c < RuneSelf")
    case True
    then have "(r, n) = (byte_val c, 1)" using assms(1) by (simp add: decode_rune.simps(2))
    with True show ?thesis
      by (simp add: encode_rune_def IsSurrogate_def RuneSelf_def)
  next
    case False
    with assms decode_rune_nonascii [OF assms(1)] have n: "1 < n" by auto
    show ?thesis
      using encode_decode_rune [OF assms(1) n] decode_rune_high [OF assms(1) n]
        decode_rune_high_rune [OF assms(1) n] by simp
  qed
  then show "encode_rune r = take n (c # cs)" "\<not> IsSurrogate r"
    "r < 0x80 \<or> list_all (\<lambda>c. 128 \<le> byte_val c) (encode_rune r)" by blast+
qed

lemma wf_body_quote: "wf_body (quote_body up s) \<longleftrightarrow> quotable up s"
proof (induction up s rule: quote_body.induct)
  case (1 up)
  then show ?case by simp
next
  case (2 up c cs)
  obtain r n where rn: "decode_rune (c # cs) = (r, n)" by fastforce
  show ?case
  proof (cases "RuneSelf \<le> byte_val c \<and> n = 1")
    case True
    with rn show ?thesis
      by (simp add: quote_body.simps(2) quotable.simps(2) wf_body_backslash escape_char_quoted)
  next
    case False
    with 2 rn wf_body_escaped [OF quote_step(3) [OF rn False]] show ?thesis
      by (auto simp add: quote_body.simps(2) quotable.simps(2))
  qed
qed

lemma byte_of_short:
  "byte_of 0x22 = CHR 0x22" "byte_of 0x5C = CHR 0x5C" "byte_of 0x08 = CHR 0x08" "byte_of 0x09 = CHR 0x09"
  "byte_of 0x0A = CHR 0x0A" "byte_of 0x0C = CHR 0x0C" "byte_of 0x0D = CHR 0x0D"
  by (simp_all add: byte_val_eq [symmetric])

lemma escaped_short:
  "escaped_rune up 0x22 = backslash [CHR 0x22]" "escaped_rune up 0x5C = backslash [CHR 0x5C]"
  "escaped_rune up 0x08 = backslash [CHR ''b'']" "escaped_rune up 0x09 = backslash [CHR ''t'']"
  "escaped_rune up 0x0A = backslash [CHR ''n'']" "escaped_rune up 0x0C = backslash [CHR ''f'']"
  "escaped_rune up 0x0D = backslash [CHR ''r'']"
  by (simp_all add: escaped_rune_def IsPrint_def byte_of_short)

lemma append_singleton: "(@) [c] = (#) c"
  by (rule ext) simp

lemma unquote_body_rune:
  assumes "decode_rune (c # cs) = (r, n)" "\<not> (RuneSelf \<le> byte_val c \<and> n = 1)" "json_rune up r"
  shows "unquote_body (escaped_rune up r @ rest) = map_option ((@) (take n (c # cs))) (unquote_body rest)"
proof (cases "byte_val c < RuneSelf")
  case True
  then have rn: "r = byte_val c" "n = 1" using assms(1) by (simp_all add: decode_rune.simps(2))
  then have enc: "encode_rune r = [c]" "byte_of r = c"
    using True by (simp_all add: encode_rune_def RuneSelf_def)
  show ?thesis
  proof (cases "IsPrint up r \<and> r \<noteq> 0x22 \<and> r \<noteq> 0x5C")
    case p: True
    then have "\<not> c < CHR 0x20" "c \<noteq> CHR 0x22" "c \<noteq> CHR 0x5C"
      using True rn by (auto simp: IsPrint_def byte_simps RuneSelf_def)
    with p rn enc True show ?thesis
      by (simp add: escaped_rune_def unquote_body.simps(2) append_singleton)
  next
    case False
    then have "r \<in> {0x22, 0x5C, 0x08, 0x09, 0x0A, 0x0C, 0x0D}"
      using assms(3) True rn by (auto simp: json_rune_def RuneSelf_def)
    then have "\<exists>e. escaped_rune up r = backslash [e] \<and> escape_char e = Some (byte_of r)"
      by (elim insertE emptyE) (simp_all add: escaped_short escape_char_quoted byte_of_short backslash_def)
    then show ?thesis using enc rn unquote_body_escape by (auto simp: append_singleton)
  qed
next
  case False
  with assms decode_rune_nonascii [OF assms(1)] have n: "1 < n" by auto
  note high = decode_rune_high_rune [OF assms(1) n] and enc = encode_decode_rune [OF assms(1) n]
  show ?thesis
  proof (cases "IsPrint up r")
    case True
    have "decode_rune (take n (c # cs) @ rest) = (r, n)"
      by (rule decode_rune_prefix [OF assms(1) n])
    then have "decode_rune (c # take (n - 1) cs @ rest) = (r, n)" using n by (cases n) simp_all
    moreover have "drop (n - 1) (take (n - 1) cs @ rest) = rest" using high n by (cases n) simp_all
    moreover have "c \<noteq> CHR 0x5C" "c \<noteq> CHR 0x22" "\<not> c < CHR 0x20"
      using False by (auto simp: RuneSelf_def byte_simps)
    ultimately show ?thesis
      using True False enc high n
      by (cases n) (simp_all add: escaped_rune_def unquote_body.simps(2))
  next
    case np: False
    then have "r < 0x10000" using assms(3) high by (auto simp: json_rune_def)
    with np high enc have "escaped_rune up r = backslash (''u'' @ hex_digits 4 r)"
      by (simp add: escaped_rune_def)
    with unquote_body_uescape [OF \<open>r < 0x10000\<close>, of rest] high enc show ?thesis by simp
  qed
qed

lemma unquote_body_quote: "quotable up s \<Longrightarrow> unquote_body (quote_body up s) = Some s"
proof (induction up s rule: quote_body.induct)
  case (1 up)
  then show ?case by simp
next
  case (2 up c cs)
  obtain r n where rn: "decode_rune (c # cs) = (r, n)" by fastforce
  with "2.prems" have q: "\<not> (RuneSelf \<le> byte_val c \<and> n = 1)" "json_rune up r" "quotable up (drop n (c # cs))"
    by (simp_all add: quotable.simps(2))
  from "2.IH"(2) [OF rn [symmetric] q(1,3)]
  have "unquote_body (quote_body up (drop n (c # cs))) = Some (drop n (c # cs))" .
  then have "unquote_body (escaped_rune up r @ quote_body up (drop n (c # cs)))
      = Some (take n (c # cs) @ drop n (c # cs))"
    using unquote_body_rune [OF rn q(1,2)] by simp
  then show ?case
    using rn q(1) by (auto simp: quote_body.simps(2) simp del: take_Suc_Cons drop_Suc_Cons)
qed

lemma is_literal_Quote: "is_literal (Quote up s) \<longleftrightarrow> quotable up s"
  by (simp add: is_literal_def Quote_def wf_body_quote)

lemma json_unquote_Quote: "quotable up s \<Longrightarrow> json_unquote (Quote up s) = Some s"
  by (simp add: json_unquote_def Quote_def unquote_body_quote)

text \<open>Printable ASCII without a quote or a backslash is written as it is.\<close>

definition verbatim :: "bytes \<Rightarrow> bool" where
  "verbatim s \<longleftrightarrow> list_all (\<lambda>c. plain_char c \<and> c \<noteq> CHR 0x7F) s"

lemma verbatim_plain: "verbatim s \<Longrightarrow> plain s"
  by (auto simp: verbatim_def plain_def list_all_iff)

lemma Quote_verbatim: "verbatim s \<Longrightarrow> Quote up s = json_string s"
  unfolding Quote_def json_string_def
proof (induction s)
  case Nil
  then show ?case by simp
next
  case (Cons c s)
  then have "byte_val c \<noteq> 0x22" "byte_val c \<noteq> 0x5C" "byte_val c \<noteq> 0x7F"
    "0x20 \<le> byte_val c" "byte_val c < 0x80"
    using byte_val_eq [of c "CHR 0x22"] byte_val_eq [of c "CHR 0x5C"] byte_val_eq [of c "CHR 0x7F"]
    by (auto simp: verbatim_def plain_char_def RuneSelf_def byte_simps)
  with Cons show ?case
    by (simp add: verbatim_def quote_body.simps(2) decode_rune_ascii RuneSelf_def escaped_rune_def
        IsPrint_def encode_rune_def)
qed

lemma verbatim_Kind: "k \<in> set validKinds \<Longrightarrow> verbatim k"
  by (auto simp: validKinds_def verbatim_def plain_char_def RuneSelf_def byte_simps)

lemma verbatim_ValidDigest: "ValidDigest d \<Longrightarrow> verbatim d"
  by (auto simp: ValidDigest_def verbatim_def list_all_iff digest_char_plain digest_char_def byte_simps)

section \<open>Reading what was emitted\<close>

lemma EmitChangeOp_object:
  assumes "ValidDigest (op_Digest op)"
  shows "EmitChangeOp up sq ts op = object_text
    [(''seq'', json_string (DecString sq)), (''server_ts'', json_string (DecString ts)),
     (''body'', RawLiteral op), (''operation_sha256'', json_string (op_Digest op))]"
  by (simp add: EmitChangeOp_def Quote_verbatim verbatim_ValidDigest assms object_text_def member_text_def
      json_string_def)

definition local_id_text :: "dec option \<Rightarrow> bytes" where
  "local_id_text l = (case l of None \<Rightarrow> ''null'' | Some v \<Rightarrow> json_string (DecString v))"

definition ack_fields :: "(nat \<Rightarrow> bool) \<Rightarrow> ack \<Rightarrow> fields" where
  "ack_fields up a =
     [(''id'', Quote up (ack_ID a)), (''kind'', json_string (ack_Kind a)),
      (''entity_rev'', json_string (DecString (ack_EntityRev a))),
      (''operation_sha256'', json_string (ack_Digest a)),
      (''seq'', json_string (DecString (ack_Seq a))),
      (''origin_local_id'', local_id_text (ack_OriginLocalID a))]"

lemma EmitAck_object:
  assumes "ValidDigest (ack_Digest a)" "ack_Kind a \<in> set validKinds"
  shows "EmitAck up a = object_text (ack_fields up a)"
  using assms
  by (simp add: EmitAck_def ack_fields_def Quote_verbatim verbatim_ValidDigest verbatim_Kind
      object_text_def member_text_def json_string_def local_id_text_def split: option.splits)

lemma plain_emit_keys:
  "k \<in> {''seq'', ''server_ts'', ''body'', ''operation_sha256'', ''id'', ''kind'', ''entity_rev'',
    ''origin_local_id''} \<Longrightarrow> plain k"
  by (auto simp: plain_def plain_char_def RuneSelf_def byte_simps)

lemma good_change_fields:
  assumes "is_literal lit" "ValidDigest d"
  shows "good_members
    [(''seq'', json_string (DecString sq)), (''server_ts'', json_string (DecString ts)),
     (''body'', lit), (''operation_sha256'', json_string d)]"
  using assms
  by (simp add: good_members_def plain_emit_keys json_value_string plain_DecString plain_ValidDigest
      json_value_literal)

lemma plain_Kind: "k \<in> set validKinds \<Longrightarrow> plain k"
  by (rule verbatim_plain, rule verbatim_Kind)

lemma good_ack_fields:
  assumes "ValidDigest (ack_Digest a)" "ack_Kind a \<in> set validKinds" "quotable up (ack_ID a)"
  shows "good_members (ack_fields up a)"
  using assms
  by (simp add: good_members_def ack_fields_def plain_emit_keys json_value_string plain_DecString
      plain_ValidDigest plain_Kind json_value_literal is_literal_Quote local_id_text_def json_value_null
      split: option.splits)

lemma objectFields_EmitAck:
  assumes "ValidDigest (ack_Digest a)" "ack_Kind a \<in> set validKinds" "quotable up (ack_ID a)"
  shows "objectFields (EmitAck up a) = Inr (ack_fields up a)"
  using objectFields_text [OF good_ack_fields [OF assms]] EmitAck_object [OF assms(1,2)] by simp

section \<open>Text that Quote leaves readable\<close>

definition printable_ascii :: "bytes \<Rightarrow> bool" where
  "printable_ascii s \<longleftrightarrow> list_all (\<lambda>c. 0x20 \<le> byte_val c \<and> byte_val c < 0x7F) s"

lemma quotable_ascii: "printable_ascii s \<Longrightarrow> quotable up s"
proof (induction s)
  case (Cons c cs)
  then have c: "0x20 \<le> byte_val c" "byte_val c < 0x7F" and q: "quotable up cs"
    by (simp_all add: printable_ascii_def)
  then have "decode_rune (c # cs) = (byte_val c, 1)" by (simp add: decode_rune_ascii)
  with c q show ?case
    by (simp add: quotable.simps(2) json_rune_def IsPrint_def RuneSelf_def)
qed simp

lemma printable_append [simp]: "printable_ascii (a @ b) \<longleftrightarrow> printable_ascii a \<and> printable_ascii b"
  by (simp add: printable_ascii_def)

section \<open>Operations that are sent and accepted\<close>

text \<open>
  A body as a client writes it, as in the example of the protocol's documentation: schema versions are numbers,
  \<open>deleted\<close> is a boolean and the payload an object.
\<close>

definition sample_payload :: bytes where
  "sample_payload = ''{'' @ json_string ''text'' @ '':'' @ json_string ''lorem'' @ ''}''"

definition sample_body :: fields where
  "sample_body =
     [(''body_schema_version'', ''1''), (''deleted'', ''false''), (''deleted_at'', ''null''),
      (''entity_rev'', json_string ''7''), (''id'', json_string ''obs-1''), (''kind'', json_string ''observation''),
      (''mutation'', ''null''), (''origin_device_id'', json_string ''laptop''), (''origin_local_id'', ''null''),
      (''payload'', sample_payload), (''payload_schema_version'', ''2''), (''payload_sha256'', json_string ''dugj'')]"

lemma sample_values: "json_value ''1''" "json_value ''2''" "json_value ''false''" "json_value sample_payload"
  by (simp_all add: json_value_def whole_value_def read_value_def sample_payload_def json_string_def begin_value_def begin_string_def
      push_state_def pop_state_def end_value_def end_top_def expect_def num_0_def is_digit_def is_space_def skip_space_def maxNestingDepth_def)

lemma sample_body_good [simp]: "good_members sample_body" "length sample_body = 12" "set bodyKeys \<subseteq> fst ` set sample_body"
proof -
  have p: "list_all plain ([''7'', ''obs-1'', ''observation'', ''laptop'', ''dugj''] @ map fst sample_body)"
    by (simp add: sample_body_def plain_def plain_char_def RuneSelf_def)
  then show "good_members sample_body"
    by (simp add: good_members_def sample_body_def json_value_string json_value_null sample_values)
qed (simp_all add: sample_body_def bodyKeys_def)

lemma DecString_7: "DecString 7 = ''7''"
  by (simp add: DecString_def format_nat.simps [of 7] digit_char_def) code_simp

lemma sample_body_fields [simp]:
  "unmarshal_string (field sample_body ''kind'') = Some ''observation''"
  "unmarshal_string (field sample_body ''id'') = Some ''obs-1''"
  "unmarshal_string (field sample_body ''entity_rev'') = Some (DecString 7)"
  "unmarshal_string (field sample_body ''origin_device_id'') = Some ''laptop''"
  "parse_local_id (field sample_body ''origin_local_id'') = Inr None"
  by (simp_all add: sample_body_def field_def DecString_7 parse_local_id_null plain_def plain_char_def RuneSelf_def)

definition sample_literal :: bytes where
  "sample_literal = Quote (\<lambda>_. True) (object_text sample_body)"

lemma sample_text_printable: "printable_ascii (object_text sample_body)"
  by (simp add: object_text_def member_text_def sample_body_def sample_payload_def json_string_def printable_ascii_def)

lemma sample_literal_ok [simp]:
  "is_literal sample_literal" "UnquoteJSONString sample_literal = Inr (object_text sample_body)"
proof -
  have q: "quotable (\<lambda>_. True) (object_text sample_body)" by (rule quotable_ascii, rule sample_text_printable)
  then show l: "is_literal sample_literal" by (simp add: sample_literal_def is_literal_Quote)
  from Unquote_literal [OF l] json_unquote_Quote [OF q]
  show "UnquoteJSONString sample_literal = Inr (object_text sample_body)" by (auto simp: sample_literal_def)
qed

lemma quote_ascii_length: "printable_ascii s \<Longrightarrow> length (quote_body up s) \<le> 2 * length s"
proof (induction s)
  case (Cons c cs)
  then have c: "0x20 \<le> byte_val c" "byte_val c < 0x7F" and l: "length (quote_body up cs) \<le> 2 * length cs"
    by (simp_all add: printable_ascii_def)
  then have "decode_rune (c # cs) = (byte_val c, 1)" by (simp add: decode_rune_ascii)
  with c l show ?case
    by (simp add: quote_body.simps(2) escaped_rune_def IsPrint_def RuneSelf_def backslash_def encode_rune_def)
qed simp

lemma sample_sizes [simp]: "length sample_literal \<le> MaxBodyLiteral" "length (object_text sample_body) \<le> MaxBodyBytes"
proof -
  have n: "length (object_text sample_body) \<le> 400"
    by (simp add: object_text_def member_text_def sample_body_def sample_payload_def json_string_def)
  then show "length (object_text sample_body) \<le> MaxBodyBytes" by (simp add: MaxBodyBytes_def)
  from quote_ascii_length [OF sample_text_printable, of "\<lambda>_. True"] n show "length sample_literal \<le> MaxBodyLiteral"
    by (simp add: sample_literal_def Quote_def MaxBodyLiteral_def MaxBodyBytes_def)
qed

definition sample_accepted :: sync_op where
  "sample_accepted =
     \<lparr>RawLiteral = sample_literal, op_Digest = Digest (object_text sample_body), op_ID = ''obs-1'',
      op_Kind = ''observation'', EntityRev = 7, OriginDeviceID = ''laptop'', OriginLocalID = None\<rparr>"

text \<open>
  C13: a client's operation is accepted. For every body with the twelve keys in any order, written without
  white space between the members, each value any JSON value (a number, an object, a string, ...), with a known
  kind, an id, a positive revision, a device id within the limit and a local id or \<open>null\<close>, every literal that
  denotes it and is within the limits, and its digest: \<open>ParseOp\<close> returns exactly those fields, with the
  literal as it was written.
\<close>

theorem client_op_is_accepted:
  assumes "good_members kvs" "length kvs = 12" "set bodyKeys \<subseteq> fst ` set kvs"
    and "unmarshal_string (field kvs ''kind'') = Some kind" "kind \<in> set validKinds"
    and "unmarshal_string (field kvs ''id'') = Some ident" "ident \<noteq> []"
    and "unmarshal_string (field kvs ''entity_rev'') = Some (DecString erev)" "erev \<noteq> 0"
    and "unmarshal_string (field kvs ''origin_device_id'') = Some dev" "dev \<noteq> []" "length dev \<le> MaxDeviceIDLen"
    and "parse_local_id (field kvs ''origin_local_id'') = Inr local"
    and "is_literal lit" "length lit \<le> MaxBodyLiteral"
    and "UnquoteJSONString lit = Inr (object_text kvs)" "length (object_text kvs) \<le> MaxBodyBytes"
  shows "ParseOp (wrapper_text lit (Digest (object_text kvs))) =
    Inr \<lparr>RawLiteral = lit, op_Digest = Digest (object_text kvs), op_ID = ident, op_Kind = kind,
         EntityRev = erev, OriginDeviceID = dev, OriginLocalID = local\<rparr>"
  using ParseOp_wrapper [OF assms(14-17) parseBody_text [OF assms(1-13)]] by simp

theorem client_op_is_accepted_witness:
  "ParseOp (wrapper_text sample_literal (Digest (object_text sample_body))) = Inr sample_accepted"
  unfolding sample_accepted_def
  by (rule client_op_is_accepted) (simp_all add: validKinds_def MaxDeviceIDLen_def)

lemma sample_accepts: "ParseOp (wrapper_text sample_literal (Digest (object_text sample_body))) = Inr sample_accepted"
proof -
  have "parseBody (object_text sample_body) =
      Inr \<lparr>RawLiteral = [], op_Digest = [], op_ID = ''obs-1'', op_Kind = ''observation'',
         EntityRev = 7, OriginDeviceID = ''laptop'', OriginLocalID = None\<rparr>"
    by (rule parseBody_text) (simp_all add: validKinds_def MaxDeviceIDLen_def)
  from ParseOp_wrapper [OF _ _ _ _ this, of sample_literal] show ?thesis by (simp add: sample_accepted_def)
qed

text \<open>
  C12: what is accepted is sound. Every operation \<open>ParseOp\<close> returns carries a JSON string literal within the
  limit, whose decoded bytes are within the limit and have the digest stored with it; the fields the
  hub routes by are read from those decoded bytes and from nothing else; its kind is known, its id
  and device id are not empty, the device id is at most 128 bytes and the revision is positive.
\<close>

theorem accepted_op_is_sound:
  assumes "ParseOp w = Inr op"
  shows "is_literal (RawLiteral op) \<and> length (RawLiteral op) \<le> MaxBodyLiteral
    \<and> (\<exists>decoded op0. UnquoteJSONString (RawLiteral op) = Inr decoded \<and> length decoded \<le> MaxBodyBytes
         \<and> op_Digest op = Digest decoded \<and> parseBody decoded = Inr op0
         \<and> op = op0\<lparr>op_Digest := Digest decoded, RawLiteral := RawLiteral op\<rparr>)
    \<and> op_ID op \<noteq> [] \<and> op_Kind op \<in> set validKinds \<and> EntityRev op \<noteq> 0
    \<and> OriginDeviceID op \<noteq> [] \<and> length (OriginDeviceID op) \<le> MaxDeviceIDLen"
  using ParseOp_valid [OF assms] by (auto simp: valid_op_def intro: ParseOp_Inr [OF assms])

theorem accepted_op_is_sound_witness:
  "\<exists>decoded. UnquoteJSONString sample_literal = Inr decoded \<and> op_Digest sample_accepted = Digest decoded"
  using accepted_op_is_sound [OF sample_accepts] by (auto simp: sample_accepted_def)

text \<open>
  A body that does not match its digest is rejected as such, whatever it contains: the digest is
  checked before any field of the body is looked at.
\<close>

theorem tampered_body_is_rejected:
  assumes "is_literal lit" "length lit \<le> MaxBodyLiteral" "UnquoteJSONString lit = Inr decoded"
    and "length decoded \<le> MaxBodyBytes" "ValidDigest d" "d \<noteq> Digest decoded"
  shows "ParseOp (wrapper_text lit d) = Inl (Reject ReasonDigestMismatch)"
proof -
  have "length (wrapper_text lit d) \<le> MaxBodyLiteral + 1024"
    using assms(2,5) by (simp add: wrapper_text_length ValidDigest_def DigestLen_def)
  moreover have "lit \<noteq> [] \<and> hd lit = CHR 0x22" using is_literal_shape [OF assms(1)] by auto
  ultimately show ?thesis
    using assms by (auto simp: ParseOp_def objectFields_wrapper plain_ValidDigest)
qed

theorem tampered_body_is_rejected_witness:
  "\<exists>d. ParseOp (wrapper_text sample_literal d) = Inl (Reject ReasonDigestMismatch)"
proof -
  define d where "d = (if hd (Digest (object_text sample_body)) = CHR ''A'' then replicate 43 CHR ''B'' else replicate 43 CHR ''A'')"
  have v: "ValidDigest d" by (auto simp: d_def ValidDigest_def DigestLen_def list_all_iff digest_char_def)
  have ne: "d \<noteq> Digest (object_text sample_body)" by (auto simp: d_def dest: arg_cong [where f = hd])
  from tampered_body_is_rejected [OF _ _ _ _ v ne, of sample_literal] show ?thesis by auto
qed

section \<open>Properties of what is emitted\<close>

text \<open>
  An acknowledgement reads back. For an operation that was accepted and whose id Go can print, the
  bytes written are one JSON object with exactly six members, and reading the id, kind, revision,
  digest and number out of it gives those of the acknowledgement.
\<close>

theorem emitted_ack_reads_back:
  assumes "ValidDigest (ack_Digest a)" "ack_Kind a \<in> set validKinds" "quotable up (ack_ID a)"
  shows "\<exists>fs. objectFields (EmitAck up a) = Inr fs \<and> length fs = 6
    \<and> unmarshal_string (field fs ''id'') = Some (ack_ID a)
    \<and> unmarshal_string (field fs ''kind'') = Some (ack_Kind a)
    \<and> unmarshal_string (field fs ''entity_rev'') = Some (DecString (ack_EntityRev a))
    \<and> unmarshal_string (field fs ''operation_sha256'') = Some (ack_Digest a)
    \<and> unmarshal_string (field fs ''seq'') = Some (DecString (ack_Seq a))
    \<and> parse_local_id (field fs ''origin_local_id'') = Inr (ack_OriginLocalID a)"
proof -
  have "parse_local_id (local_id_text (ack_OriginLocalID a)) = Inr (ack_OriginLocalID a)"
    by (cases "ack_OriginLocalID a") (simp_all add: local_id_text_def parse_local_id_null parse_local_id_dec)
  moreover have "unmarshal_string (Quote up (ack_ID a)) = Some (ack_ID a)"
    using assms(3) by (simp add: unmarshal_literal is_literal_Quote json_unquote_Quote)
  ultimately show ?thesis
    using objectFields_EmitAck [OF assms] assms(1,2)
    by (simp add: ack_fields_def field_def plain_Kind plain_ValidDigest plain_DecString)
qed

definition sample_ack :: "bytes \<Rightarrow> ack" where
  "sample_ack ident = \<lparr>ack_ID = ident, ack_Kind = ''prompt'', ack_EntityRev = 7, ack_Digest = Digest [],
     ack_OriginLocalID = Some 3, ack_Seq = 9\<rparr>"

theorem emitted_ack_reads_back_witness:
  "\<exists>fs. objectFields (EmitAck (\<lambda>_. True) (sample_ack ''a b'')) = Inr fs \<and> unmarshal_string (field fs ''id'') = Some ''a b''"
proof -
  have "quotable (\<lambda>_. True) ''a b''" by (rule quotable_ascii) (simp add: printable_ascii_def)
  with emitted_ack_reads_back [of "sample_ack ''a b''" "\<lambda>_. True"] show ?thesis
    by (auto simp: sample_ack_def ValidDigest_Digest validKinds_def)
qed

lemma bad_escape_unreadable: "read_value (CHR 0x22 # CHR 0x5C # CHR ''x'' # rest) = None"
  by (simp add: read_value_Cons begin_value_quote)

text \<open>
  An id that Go escapes its own way breaks the acknowledgement. The id consisting of the control
  character 1 is one a client may send (JSON writes it as a \<open>u\<close> escape and \<open>ParseOp\<close> only asks that it is not
  empty), but the acknowledgement of it is not a JSON object.
\<close>

theorem ack_of_control_id_is_not_json:
  "ack_ID a = [CHR 0x01] \<Longrightarrow> \<exists>e. objectFields (EmitAck up a) = Inl e"
proof -
  assume "ack_ID a = [CHR 0x01]"
  then obtain rest where e: "EmitAck up a = CHR ''{'' # json_string ''id'' @ CHR '':'' # CHR 0x22 # CHR 0x5C # CHR ''x'' # rest"
    by (simp add: EmitAck_def Quote_def quote_body.simps(2) decode_rune_ascii escaped_rune_def IsPrint_def RuneSelf_def
        backslash_def json_string_def)
  have k: "next_key True (json_string ''id'' @ s) = Inr (''id'', s)" for s
    by (rule next_key_first) (simp add: plain_def plain_char_def RuneSelf_def)
  have s: "skip_space (json_string ''id'' @ s) = json_string ''id'' @ s" for s
    by (simp add: json_string_def)
  show ?thesis
    unfolding e objectFields_def
    by (simp add: fields_loop.simps [of True] s k member_value_def bad_escape_unreadable)
      (simp add: json_string_def k [unfolded json_string_def, simplified] member_value_def bad_escape_unreadable)
qed

theorem ack_of_control_id_is_not_json_witness:
  "\<exists>e. objectFields (EmitAck (\<lambda>_. True) (sample_ack [CHR 0x01])) = Inl e"
  using ack_of_control_id_is_not_json [of "sample_ack [CHR 0x01]"] by (simp add: sample_ack_def)

end
