(* ===== verification/Db.thy ===== *)
theory Db
  imports Wrapper
begin

text \<open>
  \<open>internal/store/schema.go\<close> and what the store uses of \<open>database/sql\<close> on SQLite. A database is a
  record of tables; a table is the list of its rows in insertion order; a statement reads or writes
  the tables and enforces the keys of the schema (an \<open>INSERT\<close> that violates a primary key or a
  unique index is an error). Integers are SQLite's 64-bit integers, kept as \<open>int\<close>.

  Every call into the database or the file system may fail. \<open>env_fault k\<close> says whether the
  \<open>k\<close>-th call of an operation does; the counter is threaded through the operation, so every
  pattern of failures is an instance. Outside a transaction a statement commits on its own;
  \<open>transaction\<close> is \<open>BeginTx\<close>, the body, \<open>Commit\<close>, with the deferred \<open>Rollback\<close> that puts the tables
  back whenever the body or the commit fails.

  The lemmas are the rules by which the operations are unfolded: what a success of a composition
  says, and that a transaction that fails leaves the tables alone.
\<close>

section \<open>Tables\<close>

record op_row =
  row_user :: bytes
  row_seq :: int
  entity_id :: bytes
  entity_rev :: bytes
  row_kind :: bytes
  origin_device_id :: bytes
  operation_sha256 :: bytes
  row_body :: bytes
  server_ts :: int

record meta_row =
  meta_user :: bytes
  meta_epoch :: bytes
  head_seq :: int

record device_row =
  dev_user :: bytes
  dev_id :: bytes
  dev_name :: "bytes option"
  first_seen :: int
  last_seen :: int
  revoked_at :: "int option"

record db =
  user_version :: int
  has_tables :: bool
  ops_table :: "op_row list"
  meta_table :: "meta_row list"
  devices_table :: "device_row list"

definition schemaVersion :: int where
  "schemaVersion = 1"

definition empty_db :: db where
  "empty_db = \<lparr>user_version = 0, has_tables = False, ops_table = [], meta_table = [], devices_table = []\<rparr>"

section \<open>Calls that may fail\<close>

text \<open>
  What the surroundings decide: the clock (\<open>now().UnixMilli()\<close>), which calls fail, the hook that
  tests install into a push, and the bytes \<open>crypto/rand\<close> returns (for the hub id and the epoch).
\<close>

record env =
  env_now :: int
  env_fault :: "nat \<Rightarrow> bool"
  env_hook :: "(db \<Rightarrow> go_error option) option"
  env_rand_id :: "bytes option"
  env_rand_epoch :: "nat option"

type_synonym ('s, 'a) action = "nat \<times> 's \<Rightarrow> (go_error + 'a) \<times> nat \<times> 's"
type_synonym 'a io = "(db, 'a) action"

definition returnI :: "'a \<Rightarrow> ('s, 'a) action" where
  "returnI x = (\<lambda>st. (Inr x, st))"

definition failI :: "go_error \<Rightarrow> ('s, 'a) action" where
  "failI e = (\<lambda>st. (Inl e, st))"

definition bindI :: "('s, 'a) action \<Rightarrow> ('a \<Rightarrow> ('s, 'b) action) \<Rightarrow> ('s, 'b) action" where
  "bindI m f = (\<lambda>st. case m st of (Inl e, st') \<Rightarrow> (Inl e, st') | (Inr x, st') \<Rightarrow> f x st')"

definition liftI :: "go_error + 'a \<Rightarrow> ('s, 'a) action" where
  "liftI r = (\<lambda>st. (r, st))"

definition sql_error :: go_error where
  "sql_error = OtherError ''sql''"

definition stmt :: "env \<Rightarrow> ('s \<Rightarrow> (go_error + 'a) \<times> 's) \<Rightarrow> ('s, 'a) action" where
  "stmt env f = (\<lambda>(k, db).
     if env_fault env k then (Inl sql_error, Suc k, db)
     else case f db of (r, db') \<Rightarrow> (r, Suc k, db'))"

text \<open>A statement that only reads, and one that only writes.\<close>

definition query :: "env \<Rightarrow> ('s \<Rightarrow> 'a) \<Rightarrow> ('s, 'a) action" where
  "query env f = stmt env (\<lambda>db. (Inr (f db), db))"

definition exec :: "env \<Rightarrow> ('s \<Rightarrow> 's) \<Rightarrow> ('s, unit) action" where
  "exec env f = stmt env (\<lambda>db. (Inr (), f db))"

definition transaction :: "env \<Rightarrow> ('s, 'a) action \<Rightarrow> ('s, 'a) action" where
  "transaction env body = (\<lambda>(k, db).
     if env_fault env k then (Inl sql_error, Suc k, db)
     else case body (Suc k, db) of
       (Inl e, k', _) \<Rightarrow> (Inl e, k', db)
     | (Inr x, k', db') \<Rightarrow>
         if env_fault env k' then (Inl sql_error, Suc k', db) else (Inr x, Suc k', db'))"

text \<open>Running one operation of the store: its result and the tables it leaves.\<close>

definition run :: "('s, 'a) action \<Rightarrow> 's \<Rightarrow> (go_error + 'a) \<times> 's" where
  "run m db = (case m (0, db) of (r, k, db') \<Rightarrow> (r, db'))"

section \<open>Statements\<close>

text \<open>\<open>INSERT INTO ops\<close>, with the primary key and the unique index of the schema.\<close>

definition insert_op :: "op_row \<Rightarrow> db \<Rightarrow> (go_error + unit) \<times> db" where
  "insert_op r db =
     (if list_ex (\<lambda>q. row_user q = row_user r
           \<and> (row_seq q = row_seq r \<or> (entity_id q = entity_id r \<and> entity_rev q = entity_rev r)))
         (ops_table db)
      then (Inl (OtherError ''UNIQUE constraint failed''), db)
      else (Inr (), db\<lparr>ops_table := ops_table db @ [r]\<rparr>))"

definition insert_meta :: "meta_row \<Rightarrow> db \<Rightarrow> (go_error + unit) \<times> db" where
  "insert_meta r db =
     (if list_ex (\<lambda>q. meta_user q = meta_user r) (meta_table db)
      then (Inl (OtherError ''UNIQUE constraint failed''), db)
      else (Inr (), db\<lparr>meta_table := meta_table db @ [r]\<rparr>))"

definition update_where :: "('r \<Rightarrow> bool) \<Rightarrow> ('r \<Rightarrow> 'r) \<Rightarrow> 'r list \<Rightarrow> 'r list" where
  "update_where p f rows = map (\<lambda>r. if p r then f r else r) rows"

text \<open>\<open>QueryRow(...).Scan(...)\<close>: the first row of the answer, or \<open>sql.ErrNoRows\<close>.\<close>

definition ErrNoRows :: go_error where
  "ErrNoRows = OtherError ''sql: no rows in result set''"

definition find_head :: "bytes \<Rightarrow> db \<Rightarrow> int option" where
  "find_head u db = map_option head_seq (find (\<lambda>m. meta_user m = u) (meta_table db))"

section \<open>migrate\<close>

text \<open>
  The schema is created only when the file is older than version 1; \<open>CREATE TABLE\<close> fails when the
  tables are already there. The version is stamped in the same transaction.
\<close>

definition create_schema :: "db \<Rightarrow> (go_error + unit) \<times> db" where
  "create_schema db =
     (if has_tables db then (Inl (OtherError ''table ops already exists''), db)
      else (Inr (), db\<lparr>has_tables := True, ops_table := [], meta_table := [], devices_table := []\<rparr>))"

definition migrate :: "env \<Rightarrow> unit io" where
  "migrate env =
     bindI (query env user_version) (\<lambda>current.
       if current > schemaVersion then failI (OtherError ''store: upgrade cmemlan'')
       else if current = schemaVersion then returnI ()
       else transaction env
         (bindI (if current < 1 then stmt env create_schema else returnI ()) (\<lambda>_.
            exec env (\<lambda>db. db\<lparr>user_version := schemaVersion\<rparr>))))"

section \<open>Rules\<close>

named_theorems io_simps \<open>what a successful composition of calls did\<close>

lemma returnI_eq [simp]: "returnI x st = (Inr x, st)"
  by (simp add: returnI_def)

lemma failI_eq [simp]: "failI e st = (Inl e, st)"
  by (simp add: failI_def)

lemma liftI_eq [simp]: "liftI r st = (r, st)"
  by (simp add: liftI_def)

lemma bindI_Inr [io_simps]:
  "bindI m f st = (Inr y, st') \<longleftrightarrow> (\<exists>x st1. m st = (Inr x, st1) \<and> f x st1 = (Inr y, st'))"
  by (auto simp: bindI_def split: prod.splits sum.splits)

lemma bindI_step: "m st = (Inr x, st1) \<Longrightarrow> bindI m f st = f x st1"
  by (simp add: bindI_def)

lemma stmt_Inr [io_simps]:
  "stmt env f (k, db) = (Inr x, k', db') \<longleftrightarrow> \<not> env_fault env k \<and> k' = Suc k \<and> f db = (Inr x, db')"
  by (auto simp: stmt_def split: prod.splits)

lemma query_Inr [io_simps]:
  "query env f (k, db) = (Inr x, k', db') \<longleftrightarrow> \<not> env_fault env k \<and> k' = Suc k \<and> x = f db \<and> db' = db"
  by (auto simp: query_def io_simps)

lemma exec_Inr [io_simps]:
  "exec env f (k, db) = (Inr x, k', db') \<longleftrightarrow> \<not> env_fault env k \<and> k' = Suc k \<and> db' = f db"
  by (auto simp: exec_def io_simps)

lemma transaction_Inr [io_simps]:
  "transaction env body (k, db) = (Inr x, k', db') \<longleftrightarrow>
     (\<exists>k1. \<not> env_fault env k \<and> body (Suc k, db) = (Inr x, k1, db') \<and> \<not> env_fault env k1 \<and> k' = Suc k1)"
  by (auto simp: transaction_def split: prod.splits sum.splits if_splits)

lemma transaction_Inl: "transaction env body (k, db) = (Inl e, k', db') \<Longrightarrow> db' = db"
  by (auto simp: transaction_def split: prod.splits sum.splits if_splits)

lemma query_db: "query env f (k, db) = (r, k', db') \<Longrightarrow> db' = db"
  by (auto simp: query_def stmt_def split: if_splits)

lemma transaction_cases:
  obtains (fails) e k' where "transaction env body (k, db) = (Inl e, k', db)"
  | (commits) x k' db' where "transaction env body (k, db) = (Inr x, k', db')"
  by (cases "transaction env body (k, db)"; cases "fst (transaction env body (k, db))")
    (auto dest: transaction_Inl)

lemma run_eq: "run m db = (r, db') \<longleftrightarrow> (\<exists>k. m (0, db) = (r, k, db'))"
  by (auto simp: run_def split: prod.splits)

text \<open>When no call fails, every composition takes its straight path.\<close>

lemma stmt_ok [simp]: "\<not> env_fault env k \<Longrightarrow> stmt env f (k, db) = (case f db of (r, db') \<Rightarrow> (r, Suc k, db'))"
  by (simp add: stmt_def)

lemma query_ok [simp]: "\<not> env_fault env k \<Longrightarrow> query env f (k, db) = (Inr (f db), Suc k, db)"
  by (simp add: query_def)

lemma exec_ok [simp]: "\<not> env_fault env k \<Longrightarrow> exec env f (k, db) = (Inr (), Suc k, f db)"
  by (simp add: exec_def)

lemma insert_op_Inr:
  "insert_op r db = (Inr u, db') \<longleftrightarrow>
     db' = db\<lparr>ops_table := ops_table db @ [r]\<rparr>
     \<and> (\<forall>q \<in> set (ops_table db). row_user q = row_user r \<longrightarrow>
          row_seq q \<noteq> row_seq r \<and> (entity_id q, entity_rev q) \<noteq> (entity_id r, entity_rev r))"
  by (auto simp: insert_op_def list_ex_iff)

end
