(* ===== verification/Devices.thy ===== *)
theory Devices
  imports Db
begin

text \<open>
  \<open>internal/store/devices.go\<close>: the devices the hub has seen, and revocation. The \<open>user_id\<close> of the
  store (\<open>Store.userID\<close>) is the argument \<open>u\<close>. Timestamps are the milliseconds the column holds.

  The lemmas: recording a device never changes the log, the meta row or a revocation; a revoked
  device stays revoked whatever it does afterwards.
\<close>

definition MaxDeviceNameLen :: nat where
  "MaxDeviceNameLen = 80"

record device =
  device_ID :: bytes
  device_Name :: bytes
  FirstSeen :: int
  LastSeen :: int
  Revoked :: bool

definition same_device :: "bytes \<Rightarrow> bytes \<Rightarrow> device_row \<Rightarrow> bool" where
  "same_device u dev d \<longleftrightarrow> dev_user d = u \<and> dev_id d = dev"

text \<open>\<open>INSERT ... ON CONFLICT(user_id, device_id) DO UPDATE\<close>.\<close>

definition upsert_row :: "bytes \<Rightarrow> bytes \<Rightarrow> bytes \<Rightarrow> int \<Rightarrow> device_row list \<Rightarrow> device_row list" where
  "upsert_row u dev name nowMS rows =
     (if list_ex (same_device u dev) rows
      then update_where (same_device u dev) (\<lambda>d. d\<lparr>dev_name := Some name, last_seen := nowMS\<rparr>) rows
      else rows @ [\<lparr>dev_user = u, dev_id = dev, dev_name = Some name, first_seen = nowMS,
                    last_seen = nowMS, revoked_at = None\<rparr>])"

definition upsertDevice :: "env \<Rightarrow> bytes \<Rightarrow> bytes \<Rightarrow> bytes \<Rightarrow> int \<Rightarrow> unit io" where
  "upsertDevice env u deviceID deviceName nowMS =
     (if deviceID = [] then returnI ()
      else let name = (if length deviceName > MaxDeviceNameLen then take MaxDeviceNameLen deviceName
                       else deviceName)
           in exec env (\<lambda>db. db\<lparr>devices_table := upsert_row u deviceID name nowMS (devices_table db)\<rparr>))"

definition SeenDevice :: "env \<Rightarrow> bytes \<Rightarrow> bytes \<Rightarrow> bytes \<Rightarrow> unit io" where
  "SeenDevice env u deviceID deviceName =
     (if deviceID = [] then returnI ()
      else transaction env (upsertDevice env u deviceID deviceName (env_now env)))"

text \<open>\<open>revoked_at\<close> of the device: no row, or a row whose column is \<open>NULL\<close> or a time.\<close>

definition find_device :: "bytes \<Rightarrow> bytes \<Rightarrow> db \<Rightarrow> device_row option" where
  "find_device u dev db = find (same_device u dev) (devices_table db)"

definition deviceRevoked :: "env \<Rightarrow> bytes \<Rightarrow> bytes \<Rightarrow> bool io" where
  "deviceRevoked env u deviceID =
     (if deviceID = [] then returnI False
      else bindI (query env (find_device u deviceID)) (\<lambda>row.
        returnI (case row of None \<Rightarrow> False | Some d \<Rightarrow> revoked_at d \<noteq> None)))"

definition ListDevices :: "env \<Rightarrow> bytes \<Rightarrow> device list io" where
  "ListDevices env u =
     query env (\<lambda>db.
       map (\<lambda>d. \<lparr>device_ID = dev_id d,
                 device_Name = (case dev_name d of None \<Rightarrow> [] | Some n \<Rightarrow> n),
                 FirstSeen = first_seen d, LastSeen = last_seen d, Revoked = (revoked_at d \<noteq> None)\<rparr>)
         (sort_key (\<lambda>d. - last_seen d) (filter (\<lambda>d. dev_user d = u) (devices_table db))))"

definition is_active :: "bytes \<Rightarrow> bytes \<Rightarrow> device_row \<Rightarrow> bool" where
  "is_active u dev d \<longleftrightarrow> same_device u dev d \<and> revoked_at d = None"

definition RevokeDevice :: "env \<Rightarrow> bytes \<Rightarrow> bytes \<Rightarrow> unit io" where
  "RevokeDevice env u deviceID =
     bindI (stmt env (\<lambda>db.
         (Inr (length (filter (is_active u deviceID) (devices_table db))),
          db\<lparr>devices_table := update_where (is_active u deviceID)
                (\<lambda>d. d\<lparr>revoked_at := Some (env_now env)\<rparr>) (devices_table db)\<rparr>))) (\<lambda>n.
       if n = 0 then failI (OtherError ''store: no active device'') else returnI ())"

section \<open>Revocation is permanent\<close>

definition is_revoked :: "bytes \<Rightarrow> bytes \<Rightarrow> db \<Rightarrow> bool" where
  "is_revoked u dev db = (case find_device u dev db of None \<Rightarrow> False | Some d \<Rightarrow> revoked_at d \<noteq> None)"

lemma find_update_where:
  assumes "\<And>r. q (f r) \<longleftrightarrow> q r"
  shows "find q (update_where p f rows) = map_option (\<lambda>r. if p r then f r else r) (find q rows)"
  by (induction rows) (auto simp: update_where_def assms)

lemma find_update_same:
  assumes "\<And>r. p (f r) \<longleftrightarrow> p r"
  shows "find p (update_where p f rows) = map_option f (find p rows)"
  by (induction rows) (auto simp: update_where_def assms)

lemma same_device_update [simp]:
  "same_device u dev (d\<lparr>dev_name := n, last_seen := t\<rparr>) = same_device u dev d"
  "same_device u dev (d\<lparr>revoked_at := x\<rparr>) = same_device u dev d"
  by (simp_all add: same_device_def)

lemma find_upsert:
  "find (same_device u dev) (upsert_row u' dev' name t rows) =
     (if u' = u \<and> dev' = dev then
        (case find (same_device u dev) rows of
           None \<Rightarrow> Some \<lparr>dev_user = u, dev_id = dev, dev_name = Some name, first_seen = t, last_seen = t,
                       revoked_at = None\<rparr>
         | Some d \<Rightarrow> Some (d\<lparr>dev_name := Some name, last_seen := t\<rparr>))
      else find (same_device u dev) rows)"
proof (cases "list_ex (same_device u' dev') rows")
  case True
  then have ex: "find (same_device u' dev') rows \<noteq> None" by (auto simp: find_None_iff list_ex_iff)
  show ?thesis
    using True ex
    by (cases "find (same_device u dev) rows")
      (auto simp: upsert_row_def find_update_where same_device_def dest: find_SomeD split: option.splits)
next
  case False
  then have "find (same_device u' dev') rows = None" by (auto simp: find_None_iff list_ex_iff)
  with False show ?thesis
    by (auto simp: upsert_row_def find_append same_device_def split: option.splits)
qed

lemma is_revoked_upsert:
  "is_revoked u dev (db\<lparr>devices_table := upsert_row u' dev' name t (devices_table db)\<rparr>) = is_revoked u dev db"
  by (auto simp: is_revoked_def find_device_def find_upsert split: option.splits)

lemma deviceRevoked_ok:
  "\<not> env_fault env k \<Longrightarrow>
   deviceRevoked env u dev (k, db) =
     (Inr (dev \<noteq> [] \<and> is_revoked u dev db), (if dev = [] then k else Suc k), db)"
  by (auto simp: deviceRevoked_def bindI_step is_revoked_def bindI_def)

lemma deviceRevoked_db: "deviceRevoked env u dev (k, db) = (r, k', db') \<Longrightarrow> db' = db"
  by (auto simp: deviceRevoked_def bindI_def query_def stmt_def split: if_splits)

lemma deviceRevoked_Inr:
  "deviceRevoked env u dev (k, db) = (Inr b, k', db') \<Longrightarrow> b = (dev \<noteq> [] \<and> is_revoked u dev db)"
  by (auto simp: deviceRevoked_def io_simps is_revoked_def split: if_splits)

text \<open>What recording a device can change: one row of the devices table, never its revocation.\<close>

definition log_part :: "db \<Rightarrow> op_row list \<times> meta_row list" where
  "log_part db = (ops_table db, meta_table db)"

lemma upsertDevice_Inr:
  assumes "upsertDevice env u dev name t (k, db) = (Inr x, k', db')"
  shows "log_part db' = log_part db" "is_revoked u' dev' db' = is_revoked u' dev' db"
  using assms
  by (auto simp: upsertDevice_def Let_def io_simps log_part_def is_revoked_upsert split: if_splits)

lemma is_revoked_RevokeDevice:
  "is_revoked u dev (db\<lparr>devices_table := update_where (is_active u' dev')
       (\<lambda>d. d\<lparr>revoked_at := Some t\<rparr>) (devices_table db)\<rparr>)
     \<longleftrightarrow> is_revoked u dev db \<or> (u' = u \<and> dev' = dev \<and> find_device u dev db \<noteq> None)"
  by (auto simp: is_revoked_def find_device_def find_update_where is_active_def same_device_def
      split: option.splits dest!: find_SomeD)

end
