(* ===== verification/Push.thy ===== *)
theory Push
  imports Devices
begin

text \<open>
  \<open>internal/store/ops.go\<close>: appending a batch of operations to the log and acknowledging each of
  them. The whole push runs under the store's mutex and in one immediate transaction, so it is one
  step of the database; \<open>push_loop\<close> is the \<open>for\<close> loop of the code with its local variables
  (\<open>head\<close>, \<open>batch\<close>, \<open>acks\<close>) as arguments.

  The abstract log is the list of entries in sequence order: an entry's sequence number is its
  position, so a gap cannot even be written down. \<open>spec_push\<close> says what a push of a batch means on
  it. The lemmas prove that \<open>Push\<close> on the tables implements \<open>spec_push\<close>, keeps the numbering
  invariant \<open>gapless\<close>, changes nothing when it fails, and succeeds when no call fails.
\<close>

section \<open>The code\<close>

record push_result =
  Acks :: "ack list"
  HeadSeq :: dec
  ProjectedSeq :: dec

text \<open>The batch key: \<open>op.ID + "\x00" + op.EntityRev.String()\<close>.\<close>

definition op_key :: "sync_op \<Rightarrow> bytes" where
  "op_key op = op_ID op @ [CHR 0x00] @ DecString (EntityRev op)"

definition same_entity :: "bytes \<Rightarrow> bytes \<Rightarrow> bytes \<Rightarrow> op_row \<Rightarrow> bool" where
  "same_entity u eid rv r \<longleftrightarrow> row_user r = u \<and> entity_id r = eid \<and> entity_rev r = rv"

definition existingSeq :: "env \<Rightarrow> bytes \<Rightarrow> bytes \<Rightarrow> bytes \<Rightarrow> int option io" where
  "existingSeq env u eid rv =
     query env (\<lambda>db. map_option row_seq (find (same_entity u eid rv) (ops_table db)))"

text \<open>\<open>True\<close> when the warning is logged: the stored digest differs from the one sent.\<close>

definition warnOnDigestConflict :: "env \<Rightarrow> bytes \<Rightarrow> sync_op \<Rightarrow> int \<Rightarrow> bool io" where
  "warnOnDigestConflict env u op sq =
     query env (\<lambda>db.
       case find (\<lambda>r. row_user r = u \<and> row_seq r = sq) (ops_table db) of
         None \<Rightarrow> False
       | Some r \<Rightarrow> operation_sha256 r \<noteq> op_Digest op)"

definition row_of :: "bytes \<Rightarrow> int \<Rightarrow> int \<Rightarrow> sync_op \<Rightarrow> op_row" where
  "row_of u now sq op =
     \<lparr>row_user = u, row_seq = sq, entity_id = op_ID op, entity_rev = DecString (EntityRev op),
      row_kind = op_Kind op, origin_device_id = OriginDeviceID op, operation_sha256 = op_Digest op,
      row_body = RawLiteral op, server_ts = now\<rparr>"

type_synonym batch = "bytes \<rightharpoonup> int"

text \<open>The sequence number of one operation: from the batch, from the table, or a new one.\<close>

definition next_seq :: "env \<Rightarrow> bytes \<Rightarrow> int \<Rightarrow> sync_op \<Rightarrow> int \<Rightarrow> batch \<Rightarrow> (int \<times> int \<times> batch) io" where
  "next_seq env u now op head batch =
     (case batch (op_key op) of
        Some sq \<Rightarrow> returnI (sq, head, batch)
      | None \<Rightarrow>
          bindI (existingSeq env u (op_ID op) (DecString (EntityRev op))) (\<lambda>found. case found of
            Some stored \<Rightarrow> returnI (stored, head, batch(op_key op \<mapsto> stored))
          | None \<Rightarrow>
              if head = MaxInt64 then failI (OtherError ''store: sequence space exhausted'')
              else bindI (stmt env (insert_op (row_of u now (head + 1) op))) (\<lambda>_.
                     returnI (head + 1, head + 1, batch(op_key op \<mapsto> head + 1)))))"

definition dec_of :: "int \<Rightarrow> go_error + dec" where
  "dec_of v = (case DecFromInt64 v of Inl _ \<Rightarrow> Inl (OtherError ''dec'') | Inr d \<Rightarrow> Inr d)"

definition ack_of :: "sync_op \<Rightarrow> dec \<Rightarrow> ack" where
  "ack_of op sq =
     \<lparr>ack_ID = op_ID op, ack_Kind = op_Kind op, ack_EntityRev = EntityRev op, ack_Digest = op_Digest op,
      ack_OriginLocalID = OriginLocalID op, ack_Seq = sq\<rparr>"

fun push_loop :: "env \<Rightarrow> bytes \<Rightarrow> int \<Rightarrow> sync_op list \<Rightarrow> int \<Rightarrow> batch \<Rightarrow> ack list \<Rightarrow> (int \<times> ack list) io" where
  "push_loop env u now [] head batch acks = returnI (head, acks)"
| "push_loop env u now (op # ops) head batch acks =
     bindI (next_seq env u now op head batch) (\<lambda>(sq, head', batch').
     bindI (warnOnDigestConflict env u op sq) (\<lambda>_.
     bindI (liftI (dec_of sq)) (\<lambda>seqDec.
       push_loop env u now ops head' batch' (acks @ [ack_of op seqDec]))))"

definition update_head :: "bytes \<Rightarrow> int \<Rightarrow> db \<Rightarrow> db" where
  "update_head u head db =
     db\<lparr>meta_table := update_where (\<lambda>m. meta_user m = u) (\<lambda>m. m\<lparr>head_seq := head\<rparr>) (meta_table db)\<rparr>"

definition run_hook :: "env \<Rightarrow> unit io" where
  "run_hook env =
     (case env_hook env of
        None \<Rightarrow> returnI ()
      | Some hook \<Rightarrow>
          (\<lambda>(k, db). case hook db of None \<Rightarrow> (Inr (), k, db) | Some e \<Rightarrow> (Inl e, k, db)))"

definition push_tx :: "env \<Rightarrow> bytes \<Rightarrow> sync_op list \<Rightarrow> bytes \<Rightarrow> bytes \<Rightarrow> (int \<times> ack list) io" where
  "push_tx env u ops deviceID deviceName =
     bindI (query env (find_head u)) (\<lambda>found. case found of
       None \<Rightarrow> failI ErrNoRows
     | Some head0 \<Rightarrow>
         bindI (push_loop env u (env_now env) ops head0 Map.empty []) (\<lambda>(head, acks).
         bindI (exec env (update_head u head)) (\<lambda>_.
         bindI (upsertDevice env u deviceID deviceName (env_now env)) (\<lambda>_.
         bindI (run_hook env) (\<lambda>_.
           returnI (head, acks))))))"

definition Push :: "env \<Rightarrow> bytes \<Rightarrow> sync_op list \<Rightarrow> bytes \<Rightarrow> bytes \<Rightarrow> push_result io" where
  "Push env u ops deviceID deviceName =
     bindI (deviceRevoked env u deviceID) (\<lambda>revoked.
       if revoked then failI (Reject ReasonUnauthorized)
       else bindI (transaction env (push_tx env u ops deviceID deviceName)) (\<lambda>(head, acks).
            bindI (liftI (dec_of head)) (\<lambda>headDec.
              returnI \<lparr>Acks = acks, HeadSeq = headDec, ProjectedSeq = headDec\<rparr>)))"

definition read_HeadSeq :: "env \<Rightarrow> bytes \<Rightarrow> dec io" where
  "read_HeadSeq env u =
     bindI (query env (find_head u)) (\<lambda>found. case found of
       None \<Rightarrow> failI ErrNoRows
     | Some head \<Rightarrow> liftI (dec_of head))"

section \<open>The abstract log\<close>

type_synonym entity = "bytes \<times> bytes"

record entry =
  e_entity :: entity
  e_kind :: bytes
  e_origin :: bytes
  e_digest :: bytes
  e_body :: bytes
  e_ts :: int

definition op_entity :: "sync_op \<Rightarrow> entity" where
  "op_entity op = (op_ID op, DecString (EntityRev op))"

definition entry_of :: "int \<Rightarrow> sync_op \<Rightarrow> entry" where
  "entry_of now op =
     \<lparr>e_entity = op_entity op, e_kind = op_Kind op, e_origin = OriginDeviceID op,
      e_digest = op_Digest op, e_body = RawLiteral op, e_ts = now\<rparr>"

text \<open>The sequence number of an entity in a log, counted from 1.\<close>

fun position :: "entity \<Rightarrow> entry list \<Rightarrow> nat option" where
  "position x [] = None"
| "position x (e # es) = (if e_entity e = x then Some 1 else map_option Suc (position x es))"

definition spec_step :: "int \<Rightarrow> sync_op \<Rightarrow> entry list \<Rightarrow> nat \<times> entry list" where
  "spec_step now op log =
     (case position (op_entity op) log of
        Some n \<Rightarrow> (n, log)
      | None \<Rightarrow> (Suc (length log), log @ [entry_of now op]))"

fun spec_push :: "int \<Rightarrow> sync_op list \<Rightarrow> entry list \<Rightarrow> nat list \<times> entry list" where
  "spec_push now [] log = ([], log)"
| "spec_push now (op # ops) log =
     (case spec_step now op log of (n, log1) \<Rightarrow> apfst ((#) n) (spec_push now ops log1))"

definition user_ops :: "bytes \<Rightarrow> db \<Rightarrow> op_row list" where
  "user_ops u db = filter (\<lambda>r. row_user r = u) (ops_table db)"

definition row_entity :: "op_row \<Rightarrow> entity" where
  "row_entity r = (entity_id r, entity_rev r)"

definition row_entry :: "op_row \<Rightarrow> entry" where
  "row_entry r =
     \<lparr>e_entity = row_entity r, e_kind = row_kind r, e_origin = origin_device_id r,
      e_digest = operation_sha256 r, e_body = row_body r, e_ts = server_ts r\<rparr>"

definition abs_log :: "bytes \<Rightarrow> db \<Rightarrow> entry list" where
  "abs_log u db = map row_entry (user_ops u db)"

text \<open>
  The rows of the hub's user are numbered 1 to \<open>head\<close> in insertion order, with one row for each
  entity revision; \<open>gapless\<close> adds that the counter row says the same.
\<close>

definition numbered :: "bytes \<Rightarrow> int \<Rightarrow> db \<Rightarrow> bool" where
  "numbered u head db \<longleftrightarrow>
     head = int (length (user_ops u db)) \<and> map row_seq (user_ops u db) = [1..head]
     \<and> head \<le> MaxInt64 \<and> distinct (map row_entity (user_ops u db))"

definition gapless :: "bytes \<Rightarrow> db \<Rightarrow> bool" where
  "gapless u db \<longleftrightarrow> (case find_head u db of None \<Rightarrow> False | Some head \<Rightarrow> numbered u head db)"

section \<open>Lemmas on the abstract log\<close>

lemma e_entity_simps [simp]:
  "e_entity (row_entry r) = row_entity r"
  "e_entity (entry_of now op) = op_entity op"
  "row_entity (row_of u now sq op) = op_entity op"
  by (simp_all add: row_entry_def entry_of_def row_of_def row_entity_def op_entity_def)

lemma position_append:
  "position x (xs @ ys) =
     (case position x xs of Some n \<Rightarrow> Some n | None \<Rightarrow> map_option (\<lambda>n. length xs + n) (position x ys))"
  by (induction xs; cases "position x ys") (auto split: option.splits)

lemma position_bounds: "position x log = Some n \<Longrightarrow> 1 \<le> n \<and> n \<le> length log"
  by (induction log arbitrary: n) (auto split: if_splits)

lemma position_entity: "position x log = Some n \<Longrightarrow> e_entity (log ! (n - 1)) = x"
  by (induction log arbitrary: n) (auto split: if_splits dest: position_bounds simp: nth_Cons')

lemma position_None: "position x log = None \<longleftrightarrow> x \<notin> e_entity ` set log"
  by (induction log) auto

lemma position_inj: "position x log = Some n \<Longrightarrow> position y log = Some n \<Longrightarrow> x = y"
  using position_entity by blast

lemma position_keep: "position x log = Some n \<Longrightarrow> position x (log @ es) = Some n"
  by (simp add: position_append)

lemma spec_step_log: "spec_step now op log = (n, log') \<Longrightarrow> \<exists>es. log' = log @ es"
  by (auto simp: spec_step_def split: option.splits)

lemma spec_step_position: "spec_step now op log = (n, log') \<Longrightarrow> position (op_entity op) log' = Some n"
  by (auto simp: spec_step_def position_append entry_of_def split: option.splits)

lemma spec_push_Cons:
  "spec_push now (op # ops) log = (ns, log') \<longleftrightarrow>
     (\<exists>n log1 ns'. spec_step now op log = (n, log1) \<and> spec_push now ops log1 = (ns', log') \<and> ns = n # ns')"
  by (auto simp: apfst_def map_prod_def split: prod.splits)

declare spec_push.simps(2) [simp del]

lemma spec_push_log: "spec_push now ops log = (ns, log') \<Longrightarrow> \<exists>es. log' = log @ es"
proof (induction ops arbitrary: log ns)
  case Nil
  then show ?case by simp
next
  case (Cons op ops)
  then obtain n log1 ns' where "spec_step now op log = (n, log1)" "spec_push now ops log1 = (ns', log')"
    by (auto simp: spec_push_Cons)
  with Cons.IH spec_step_log show ?case by fastforce
qed

lemma spec_push_length: "spec_push now ops log = (ns, log') \<Longrightarrow> length ns = length ops"
  by (induction ops arbitrary: log ns) (auto simp: spec_push_Cons)

text \<open>Every number handed out is the position of its operation in the log after the push.\<close>

lemma spec_push_positions:
  "spec_push now ops log = (ns, log') \<Longrightarrow>
   list_all2 (\<lambda>op n. position (op_entity op) log' = Some n) ops ns"
proof (induction ops arbitrary: log ns)
  case Nil
  then show ?case by simp
next
  case (Cons op ops)
  then obtain n log1 ns' where st: "spec_step now op log = (n, log1)"
    and rest: "spec_push now ops log1 = (ns', log')" and ns: "ns = n # ns'"
    by (auto simp: spec_push_Cons)
  from spec_push_log [OF rest] obtain es where "log' = log1 @ es" by blast
  with spec_step_position [OF st] have "position (op_entity op) log' = Some n"
    by (simp add: position_keep)
  with Cons.IH [OF rest] ns show ?case by simp
qed

lemma spec_push_ts:
  "spec_push now ops log = (ns, log') \<Longrightarrow> e \<in> set log' \<Longrightarrow> e \<in> set log \<or> e_ts e = now"
proof (induction ops arbitrary: log ns)
  case Nil
  then show ?case by simp
next
  case (Cons op ops)
  then obtain n log1 ns' where "spec_step now op log = (n, log1)" "spec_push now ops log1 = (ns', log')"
    by (auto simp: spec_push_Cons)
  with Cons.IH Cons.prems(2) show ?case
    by (fastforce simp: spec_step_def entry_of_def split: option.splits)
qed

lemma spec_push_entities:
  "spec_push now ops log = (ns, log') \<Longrightarrow> e_entity ` set log' = e_entity ` set log \<union> op_entity ` set ops"
proof (induction ops arbitrary: log ns)
  case Nil
  then show ?case by simp
next
  case (Cons op ops)
  then obtain n log1 ns' where st: "spec_step now op log = (n, log1)"
    and rest: "spec_push now ops log1 = (ns', log')"
    by (auto simp: spec_push_Cons)
  have "e_entity ` set log1 = insert (op_entity op) (e_entity ` set log)"
    using st position_None [of "op_entity op" log]
    by (auto simp: spec_step_def entry_of_def split: option.splits)
  with Cons.IH [OF rest] show ?case by auto
qed

text \<open>Pushing what the log already holds changes nothing and gives the same numbers again.\<close>

lemma spec_push_known:
  "list_all2 (\<lambda>op n. position (op_entity op) log = Some n) ops ns \<Longrightarrow> spec_push now ops log = (ns, log)"
  by (induction rule: list_all2_induct) (auto simp: spec_push_Cons spec_step_def)

lemma spec_push_retry:
  "spec_push now ops log = (ns, log') \<Longrightarrow> spec_push now' ops log' = (ns, log')"
  by (rule spec_push_known) (rule spec_push_positions)

section \<open>From the tables to the abstract log\<close>

lemma length_abs_log [simp]: "length (abs_log u db) = length (user_ops u db)"
  by (simp add: abs_log_def)

lemma numbered_position:
  "map row_seq rows = [1..int (length rows)] \<Longrightarrow>
   map_option row_seq (find (\<lambda>r. row_entity r = x) rows) = map_option int (position x (map row_entry rows))"
proof (induction rows rule: rev_induct)
  case Nil
  then show ?case by simp
next
  case (snoc r rows)
  have "[1..int (length rows) + 1] = [1..int (length rows)] @ [int (length rows) + 1]"
    using upto_rec2 [of 1 "int (length rows) + 1"] by simp
  with snoc.prems have "map row_seq rows = [1..int (length rows)]" and sq: "row_seq r = int (length rows) + 1"
    by (simp_all add: add.commute)
  with snoc.IH show ?case
    by (cases "position x (map row_entry rows)") (auto simp: find_append position_append split: option.splits)
qed

lemma find_user_ops:
  "find (same_entity u eid rv) (ops_table db) = find (\<lambda>r. row_entity r = (eid, rv)) (user_ops u db)"
proof -
  have "find (same_entity u eid rv) rows
      = find (\<lambda>r. row_entity r = (eid, rv)) (filter (\<lambda>r. row_user r = u) rows)" for rows
    by (induction rows) (auto simp: same_entity_def row_entity_def)
  then show ?thesis by (simp add: user_ops_def)
qed

lemma existing_position:
  "numbered u head db \<Longrightarrow>
   map_option row_seq (find (same_entity u eid rv) (ops_table db))
     = map_option int (position (eid, rv) (abs_log u db))"
  by (simp add: numbered_def find_user_ops abs_log_def numbered_position)

lemma user_ops_append [simp]:
  "user_ops u (db\<lparr>ops_table := ops_table db @ [r]\<rparr>) = user_ops u db @ (if row_user r = u then [r] else [])"
  by (simp add: user_ops_def)

lemma abs_log_append:
  "abs_log u (db\<lparr>ops_table := ops_table db @ [row_of u now sq op]\<rparr>) = abs_log u db @ [entry_of now op]"
  by (simp add: abs_log_def row_of_def row_entry_def row_entity_def entry_of_def op_entity_def)

lemma numbered_append:
  assumes "numbered u head db" "head \<noteq> MaxInt64" "position (op_entity op) (abs_log u db) = None"
  shows "numbered u (head + 1) (db\<lparr>ops_table := ops_table db @ [row_of u now (head + 1) op]\<rparr>)"
proof -
  have "[1..head + 1] = [1..head] @ [head + 1]"
    using assms(1) upto_rec2 [of 1 "head + 1"] by (simp add: numbered_def)
  moreover have "op_entity op \<notin> row_entity ` set (user_ops u db)"
    using assms(3) by (auto simp: position_None abs_log_def image_image)
  ultimately show ?thesis
    using assms(1,2) by (auto simp: numbered_def add.commute) (simp_all add: row_of_def)
qed

lemma insert_fresh:
  assumes "numbered u head db" "position (op_entity op) (abs_log u db) = None"
  shows "insert_op (row_of u now (head + 1) op) db =
    (Inr (), db\<lparr>ops_table := ops_table db @ [row_of u now (head + 1) op]\<rparr>)"
proof -
  have "row_seq q \<noteq> head + 1 \<and> row_entity q \<noteq> op_entity op"
    if "q \<in> set (ops_table db)" "row_user q = u" for q
  proof -
    from that have q: "q \<in> set (user_ops u db)" by (simp add: user_ops_def)
    have "map row_seq (user_ops u db) = [1..head]" using assms(1) by (simp add: numbered_def)
    then have "row_seq ` set (user_ops u db) = {1..head}" by (metis set_map set_upto)
    with q have "row_seq q \<noteq> head + 1" by force
    moreover from assms(2) have "op_entity op \<notin> row_entity ` set (user_ops u db)"
      by (auto simp: position_None abs_log_def image_image)
    ultimately show ?thesis using q by force
  qed
  then show ?thesis
    by (simp add: insert_op_Inr) (auto simp: row_of_def row_entity_def op_entity_def)
qed

text \<open>Two operations have the same batch key exactly when they are the same entity revision.\<close>

lemma split_at_nul:
  fixes a b x y :: bytes
  assumes "a @ CHR 0x00 # x = b @ CHR 0x00 # y" "CHR 0x00 \<notin> set x" "CHR 0x00 \<notin> set y"
  shows "a = b \<and> x = y"
proof -
  have "takeWhile (\<lambda>c. c \<noteq> CHR 0x00) (rev (a @ CHR 0x00 # x)) = rev x"
    using assms(2) by (simp add: takeWhile_tail) metis
  moreover have "takeWhile (\<lambda>c. c \<noteq> CHR 0x00) (rev (b @ CHR 0x00 # y)) = rev y"
    using assms(3) by (simp add: takeWhile_tail) metis
  ultimately have "rev x = rev y" using assms(1) by simp
  with assms(1) show ?thesis by simp
qed

lemma DecString_no_nul: "CHR 0x00 \<notin> set (DecString d)"
  using DecString_digits [of d] by (auto simp: list_all_iff is_digit_def byte_simps)

lemma op_key_inject: "op_key op = op_key op' \<longleftrightarrow> op_entity op = op_entity op'"
proof
  assume "op_key op = op_key op'"
  then have "op_ID op @ CHR 0x00 # DecString (EntityRev op) = op_ID op' @ CHR 0x00 # DecString (EntityRev op')"
    by (simp add: op_key_def)
  from split_at_nul [OF this DecString_no_nul DecString_no_nul] show "op_entity op = op_entity op'"
    by (simp add: op_entity_def)
next
  assume "op_entity op = op_entity op'"
  then show "op_key op = op_key op'" by (simp add: op_key_def op_entity_def)
qed

section \<open>Push implements the specification\<close>

text \<open>The batch map only says what the table says.\<close>

definition batch_ok :: "batch \<Rightarrow> entry list \<Rightarrow> bool" where
  "batch_ok batch log \<longleftrightarrow>
     (\<forall>op sq. batch (op_key op) = Some sq \<longrightarrow> map_option int (position (op_entity op) log) = Some sq)"

lemma batch_ok_empty [simp]: "batch_ok Map.empty log"
  by (simp add: batch_ok_def)

lemma batch_ok_update:
  assumes "batch_ok batch log" "position (op_entity op) (log @ es) = Some n"
  shows "batch_ok (batch(op_key op \<mapsto> int n)) (log @ es)"
  unfolding batch_ok_def
proof (intro allI impI)
  fix op' sq
  assume b: "(batch(op_key op \<mapsto> int n)) (op_key op') = Some sq"
  show "map_option int (position (op_entity op') (log @ es)) = Some sq"
  proof (cases "op_entity op' = op_entity op")
    case True
    with b assms(2) show ?thesis by (simp add: op_key_inject)
  next
    case False
    with b assms(1) obtain m where "position (op_entity op') log = Some m" "sq = int m"
      by (auto simp: batch_ok_def op_key_inject)
    then show ?thesis by (simp add: position_keep)
  qed
qed

text \<open>The parts of the database a push of \<open>u\<close> leaves alone while it runs.\<close>

definition same_rest :: "bytes \<Rightarrow> db \<Rightarrow> db \<Rightarrow> bool" where
  "same_rest u db db' \<longleftrightarrow>
     meta_table db' = meta_table db \<and> devices_table db' = devices_table db
     \<and> user_version db' = user_version db \<and> has_tables db' = has_tables db
     \<and> (\<exists>new. ops_table db' = ops_table db @ new \<and> (\<forall>r \<in> set new. row_user r = u))"

lemma same_rest_refl [simp]: "same_rest u db db"
  by (simp add: same_rest_def)

lemma same_rest_trans: "same_rest u a b \<Longrightarrow> same_rest u b c \<Longrightarrow> same_rest u a c"
  by (auto simp: same_rest_def)

lemma next_seq_cases:
  assumes "numbered u head db" "batch_ok batch (abs_log u db)"
  obtains (batched) n where "batch (op_key op) = Some (int n)" "position (op_entity op) (abs_log u db) = Some n"
  | (stored) n where "batch (op_key op) = None" "position (op_entity op) (abs_log u db) = Some n"
      "map_option row_seq (find (same_entity u (op_ID op) (DecString (EntityRev op))) (ops_table db)) = Some (int n)"
  | (fresh) "batch (op_key op) = None" "position (op_entity op) (abs_log u db) = None"
      "find (same_entity u (op_ID op) (DecString (EntityRev op))) (ops_table db) = None"
proof -
  have e: "map_option row_seq (find (same_entity u (op_ID op) (DecString (EntityRev op))) (ops_table db))
      = map_option int (position (op_entity op) (abs_log u db))"
    using existing_position [OF assms(1)] by (simp add: op_entity_def)
  show ?thesis
  proof (cases "batch (op_key op)")
    case None
    with e stored fresh show ?thesis by (cases "position (op_entity op) (abs_log u db)") auto
  next
    case (Some sq)
    with assms(2) batched show ?thesis by (auto simp: batch_ok_def)
  qed
qed

lemma next_seq_sim:
  assumes run: "next_seq env u now op head batch (k, db) = (Inr (sq, head', batch'), k', db')"
    and inv: "numbered u head db" "batch_ok batch (abs_log u db)"
  shows "\<exists>n. spec_step now op (abs_log u db) = (n, abs_log u db') \<and> sq = int n
     \<and> numbered u head' db' \<and> batch_ok batch' (abs_log u db') \<and> same_rest u db db'"
  using inv
proof (cases rule: next_seq_cases [where op = op])
  case (batched n)
  with run inv show ?thesis by (auto simp: next_seq_def spec_step_def)
next
  case (stored n)
  with run have "sq = int n" "head' = head" "db' = db" "batch' = batch(op_key op \<mapsto> int n)"
    by (auto simp: next_seq_def existingSeq_def io_simps)
  with stored inv batch_ok_update [OF inv(2), of op "[]" n] show ?thesis by (simp add: spec_step_def)
next
  case fresh
  let ?db = "db\<lparr>ops_table := ops_table db @ [row_of u now (head + 1) op]\<rparr>"
  from run fresh have "head \<noteq> MaxInt64" and out: "sq = head + 1" "head' = head + 1" "db' = ?db"
      "batch' = batch(op_key op \<mapsto> head + 1)"
    using insert_fresh [OF inv(1) fresh(2), of now]
    by (auto simp: next_seq_def existingSeq_def io_simps split: if_splits)
  have log: "abs_log u db' = abs_log u db @ [entry_of now op]" by (simp add: out abs_log_append)
  have head: "head + 1 = int (Suc (length (abs_log u db)))" using inv(1) by (simp add: numbered_def)
  have pos: "position (op_entity op) (abs_log u db @ [entry_of now op]) = Some (Suc (length (abs_log u db)))"
    using fresh(2) by (simp add: position_append)
  have "batch_ok batch' (abs_log u db')"
    using batch_ok_update [OF inv(2) pos] by (simp only: out(4) log head)
  moreover have "numbered u head' db'"
    using numbered_append [OF inv(1) \<open>head \<noteq> MaxInt64\<close> fresh(2)] by (simp add: out)
  moreover have "same_rest u db db'" by (simp add: out same_rest_def row_of_def)
  ultimately show ?thesis
    using fresh(2) log head out(1) by (simp add: spec_step_def)
qed

lemma dec_of_int [simp]: "dec_of (int n) = Inr (of_nat n)"
  by (simp add: dec_of_def DecFromInt64_def)

lemma warn_db: "warnOnDigestConflict env u op sq (k, db) = (r, k', db') \<Longrightarrow> db' = db"
  unfolding warnOnDigestConflict_def by (rule query_db)

text \<open>One turn of the loop, as one rule.\<close>

lemma push_loop_Cons:
  assumes "push_loop env u now (op # ops) head batch acks (k, db) = (Inr (head', acks'), k', db')"
    and inv: "numbered u head db" "batch_ok batch (abs_log u db)"
  obtains n head1 batch1 k1 db1 where
    "spec_step now op (abs_log u db) = (n, abs_log u db1)" "same_rest u db db1"
    "numbered u head1 db1" "batch_ok batch1 (abs_log u db1)"
    "push_loop env u now ops head1 batch1 (acks @ [ack_of op (of_nat n)]) (k1, db1)
       = (Inr (head', acks'), k', db')"
proof -
  from assms(1) obtain sq head1 batch1 k1 db1 w k2 db2 d where
    a: "next_seq env u now op head batch (k, db) = (Inr (sq, head1, batch1), k1, db1)"
    and w: "warnOnDigestConflict env u op sq (k1, db1) = (Inr w, k2, db2)" and d: "dec_of sq = Inr d"
    and r: "push_loop env u now ops head1 batch1 (acks @ [ack_of op d]) (k2, db2) = (Inr (head', acks'), k', db')"
    by (auto simp: io_simps)
  from next_seq_sim [OF a inv] obtain n where n: "spec_step now op (abs_log u db) = (n, abs_log u db1)"
    "sq = int n" "numbered u head1 db1" "batch_ok batch1 (abs_log u db1)" "same_rest u db db1" by blast
  from d n(2) have "d = of_nat n" by simp
  with warn_db [OF w] r n that show ?thesis by blast
qed

lemma push_loop_sim:
  "push_loop env u now ops head batch acks (k, db) = (Inr (head', acks'), k', db') \<Longrightarrow>
   numbered u head db \<Longrightarrow> batch_ok batch (abs_log u db) \<Longrightarrow>
   \<exists>ns. spec_push now ops (abs_log u db) = (ns, abs_log u db')
     \<and> acks' = acks @ map2 (\<lambda>op n. ack_of op (of_nat n)) ops ns
     \<and> numbered u head' db' \<and> same_rest u db db'"
proof (induction ops arbitrary: head batch acks k db)
  case Nil
  then show ?case by auto
next
  case (Cons op ops)
  from Cons.prems obtain n head1 batch1 k1 db1 where
    st: "spec_step now op (abs_log u db) = (n, abs_log u db1)" "same_rest u db db1"
    and inv: "numbered u head1 db1" "batch_ok batch1 (abs_log u db1)"
    and r: "push_loop env u now ops head1 batch1 (acks @ [ack_of op (of_nat n)]) (k1, db1)
       = (Inr (head', acks'), k', db')"
    by (rule push_loop_Cons)
  from Cons.IH [OF r inv] obtain ns where ns: "spec_push now ops (abs_log u db1) = (ns, abs_log u db')"
    "acks' = acks @ ack_of op (of_nat n) # map2 (\<lambda>op n. ack_of op (of_nat n)) ops ns"
    "numbered u head' db'" "same_rest u db1 db'" by auto
  then have "spec_push now (op # ops) (abs_log u db) = (n # ns, abs_log u db')"
    using st(1) by (simp add: spec_push_Cons)
  with ns st(2) show ?case by (auto intro: same_rest_trans)
qed

lemma no_fault_loop:
  assumes ok: "\<And>k. \<not> env_fault env k"
  shows "numbered u head db \<Longrightarrow> batch_ok batch (abs_log u db) \<Longrightarrow> head + int (length ops) \<le> MaxInt64 \<Longrightarrow>
   \<exists>head' acks' k' db'. push_loop env u now ops head batch acks (k, db) = (Inr (head', acks'), k', db')"
proof (induction ops arbitrary: head batch acks k db)
  case Nil
  then show ?case by simp
next
  case (Cons op ops)
  have "head \<noteq> MaxInt64" using Cons.prems(3) by simp
  have step: "\<exists>sq head1 batch1 k1 db1. next_seq env u now op head batch (k, db) = (Inr (sq, head1, batch1), k1, db1)
      \<and> head1 \<le> head + 1"
    using Cons.prems(1,2)
  proof (cases rule: next_seq_cases [where op = op])
    case (batched n)
    then show ?thesis by (simp add: next_seq_def)
  next
    case (stored n)
    then show ?thesis by (auto simp: next_seq_def existingSeq_def bindI_def ok)
  next
    case fresh
    then show ?thesis
      using insert_fresh [OF Cons.prems(1) fresh(2), of now] \<open>head \<noteq> MaxInt64\<close>
      by (simp add: next_seq_def existingSeq_def bindI_def ok)
  qed
  then obtain sq head1 batch1 k1 db1 where
    a: "next_seq env u now op head batch (k, db) = (Inr (sq, head1, batch1), k1, db1)" and h: "head1 \<le> head + 1"
    by blast
  from next_seq_sim [OF a Cons.prems(1,2)] obtain n where "sq = int n" "numbered u head1 db1"
    "batch_ok batch1 (abs_log u db1)" by blast
  with Cons.IH [of head1 db1 batch1 "acks @ [ack_of op (of_nat n)]" "Suc k1"] h Cons.prems(3) a
  show ?case by (simp add: bindI_def warnOnDigestConflict_def ok)
qed

lemma find_update_head:
  "find_head u db = Some h0 \<Longrightarrow> find_head u (update_head u h db) = Some h"
  by (auto simp: find_head_def update_head_def find_update_same)

lemma update_head_simps [simp]:
  "ops_table (update_head u h db) = ops_table db"
  "devices_table (update_head u h db) = devices_table db"
  "user_ops u' (update_head u h db) = user_ops u' db"
  "abs_log u' (update_head u h db) = abs_log u' db"
  "numbered u' h' (update_head u h db) = numbered u' h' db"
  by (simp_all add: update_head_def user_ops_def abs_log_def numbered_def)

lemma log_part_cong:
  assumes "log_part db' = log_part db"
  shows "user_ops u db' = user_ops u db" "abs_log u db' = abs_log u db" "find_head u db' = find_head u db"
    "numbered u h db' = numbered u h db" "gapless u db' = gapless u db"
proof -
  show u: "user_ops u db' = user_ops u db" for u using assms by (simp add: log_part_def user_ops_def)
  then show "abs_log u db' = abs_log u db" by (simp add: abs_log_def)
  show h: "find_head u db' = find_head u db" using assms by (simp add: log_part_def find_head_def)
  show n: "numbered u h db' = numbered u h db" for h by (simp add: numbered_def u)
  show "gapless u db' = gapless u db" by (auto simp: gapless_def h n split: option.splits)
qed

lemma gapless_head: "gapless u db \<Longrightarrow> find_head u db = Some (int (length (abs_log u db)))"
  by (auto simp: gapless_def numbered_def split: option.splits)

lemma gapless_numbered: "gapless u db \<Longrightarrow> numbered u (int (length (abs_log u db))) db"
  by (auto simp: gapless_def numbered_def split: option.splits)

lemma gaplessI: "find_head u db = Some h \<Longrightarrow> numbered u h db \<Longrightarrow> gapless u db"
  by (simp add: gapless_def)

text \<open>Whose meta rows there are, with their epochs: a push leaves both.\<close>

definition meta_ids :: "db \<Rightarrow> (bytes \<times> bytes) list" where
  "meta_ids db = map (\<lambda>m. (meta_user m, meta_epoch m)) (meta_table db)"

lemma meta_ids_update_head [simp]: "meta_ids (update_head u h db) = meta_ids db"
  by (simp add: meta_ids_def update_head_def update_where_def)

text \<open>What a successful push transaction did.\<close>

lemma run_hook_db: "run_hook env (k, db) = (r, k', db') \<Longrightarrow> db' = db"
  by (auto simp: run_hook_def split: option.splits)

lemma push_tx_Inr:
  assumes "push_tx env u ops dev name (k, db) = (Inr (head, acks), k', db')" and inv: "gapless u db"
  obtains ns where "spec_push (env_now env) ops (abs_log u db) = (ns, abs_log u db')"
    "acks = map2 (\<lambda>op n. ack_of op (of_nat n)) ops ns"
    "head = int (length (abs_log u db'))" "gapless u db'"
    "is_revoked u' dev' db' = is_revoked u' dev' db" "meta_ids db' = meta_ids db"
proof -
  let ?h0 = "int (length (abs_log u db))"
  from assms(1) obtain k1 k2 k3 k4 db2 db4 x1 x2 x3 where
    loop: "push_loop env u (env_now env) ops ?h0 Map.empty [] (k1, db) = (Inr (head, acks), k2, db2)"
    and dev: "upsertDevice env u dev name (env_now env) (k3, update_head u head db2) = (Inr x2, k4, db4)"
    and hook: "run_hook env (k4, db4) = (Inr x3, k', db')"
    by (auto simp: push_tx_def io_simps gapless_head [OF inv])
  from push_loop_sim [OF loop gapless_numbered [OF inv] batch_ok_empty] obtain ns where
    ns: "spec_push (env_now env) ops (abs_log u db) = (ns, abs_log u db2)"
      "acks = map2 (\<lambda>op n. ack_of op (of_nat n)) ops ns" "numbered u head db2" "same_rest u db db2"
    by auto
  from ns(4) have "find_head u db2 = find_head u db" and d2: "devices_table db2 = devices_table db"
    by (simp_all add: same_rest_def find_head_def)
  then have "find_head u (update_head u head db2) = Some head"
    using gapless_head [OF inv] by (simp add: find_update_head)
  then have g: "gapless u (update_head u head db2)" using ns(3) by (simp add: gaplessI)
  have db': "db' = db4" using run_hook_db [OF hook] .
  note up = upsertDevice_Inr [OF dev]
  have "abs_log u db' = abs_log u db2" "gapless u db'"
    using log_part_cong(2,5) [OF up(1)] g by (simp_all add: db')
  moreover have "is_revoked u' dev' db' = is_revoked u' dev' db"
    using up(2) [of u' dev'] d2 by (simp add: db' is_revoked_def find_device_def)
  moreover have "head = int (length (abs_log u db'))"
    using gapless_head [OF calculation(2)] log_part_cong(3) [OF up(1), of u]
      \<open>find_head u (update_head u head db2) = Some head\<close> by (simp add: db')
  moreover have "meta_ids db' = meta_ids db"
  proof -
    have "meta_ids db' = meta_ids (update_head u head db2)"
      using up(1) by (simp add: db' log_part_def meta_ids_def)
    also have "\<dots> = meta_ids db2" by simp
    finally show ?thesis using ns(4) by (simp add: same_rest_def meta_ids_def)
  qed
  ultimately show ?thesis using that ns(1,2) by simp
qed

section \<open>Push as one step\<close>

lemma Push_Inl:
  assumes "run (Push env u ops dev name) db = (Inl e, db')" "gapless u db"
  shows "db' = db"
proof -
  from assms(1) obtain k where "Push env u ops dev name (0, db) = (Inl e, k, db')" by (auto simp: run_eq)
  moreover obtain r k1 db1 where dr: "deviceRevoked env u dev (0, db) = (r, k1, db1)" by (metis prod.exhaust)
  moreover have "db1 = db" using deviceRevoked_db [OF dr] .
  moreover have "db' = db" if tx: "bindI (transaction env (push_tx env u ops dev name)) (\<lambda>(head, acks).
        bindI (liftI (dec_of head)) (\<lambda>d. returnI \<lparr>Acks = acks, HeadSeq = d, ProjectedSeq = d\<rparr>)) (k1, db)
      = (Inl e, k, db')"
  proof (cases rule: transaction_cases [of env "push_tx env u ops dev name" k1 db])
    case (fails e' k')
    with tx show ?thesis by (simp add: bindI_def)
  next
    case (commits x k' dbc)
    obtain head acks where x: "x = (head, acks)" by fastforce
    from commits obtain k2 where "push_tx env u ops dev name (Suc k1, db) = (Inr (head, acks), k2, dbc)"
      by (auto simp: io_simps x)
    then obtain ns where "head = int (length (abs_log u dbc))"
      using push_tx_Inr [OF _ assms(2)] by metis
    with tx commits show ?thesis by (simp add: bindI_def x)
  qed
  ultimately show ?thesis
    by (auto simp: Push_def bindI_def split: sum.splits if_splits)
qed

lemma Push_Inr:
  assumes "run (Push env u ops dev name) db = (Inr res, db')" and inv: "gapless u db"
  obtains ns where "spec_push (env_now env) ops (abs_log u db) = (ns, abs_log u db')"
    "res = \<lparr>Acks = map2 (\<lambda>op n. ack_of op (of_nat n)) ops ns, HeadSeq = of_nat (length (abs_log u db')),
            ProjectedSeq = of_nat (length (abs_log u db'))\<rparr>"
    "gapless u db'" "\<not> (dev \<noteq> [] \<and> is_revoked u dev db)"
    "is_revoked u' dev' db' = is_revoked u' dev' db" "meta_ids db' = meta_ids db"
proof -
  from assms(1) obtain k where "Push env u ops dev name (0, db) = (Inr res, k, db')" by (auto simp: run_eq)
  then obtain b k1 db1 head acks k2 d where dr: "deviceRevoked env u dev (0, db) = (Inr b, k1, db1)"
    and nb: "\<not> b" and tx: "push_tx env u ops dev name (Suc k1, db1) = (Inr (head, acks), k2, db')"
    and d: "dec_of head = Inr d" and res: "res = \<lparr>Acks = acks, HeadSeq = d, ProjectedSeq = d\<rparr>"
    by (auto simp: Push_def io_simps split: if_splits)
  have db1: "db1 = db" using deviceRevoked_db [OF dr] .
  from push_tx_Inr [OF tx [unfolded db1] inv] obtain ns where
    ns: "spec_push (env_now env) ops (abs_log u db) = (ns, abs_log u db')"
      "acks = map2 (\<lambda>op n. ack_of op (of_nat n)) ops ns" "head = int (length (abs_log u db'))" "gapless u db'"
      "is_revoked u' dev' db' = is_revoked u' dev' db" "meta_ids db' = meta_ids db" by metis
  with d have "d = of_nat (length (abs_log u db'))" by simp
  with ns that res deviceRevoked_Inr [OF dr] nb show ?thesis by blast
qed

lemma Push_ok:
  assumes ok: "\<And>k. \<not> env_fault env k" "env_hook env = None"
    and inv: "gapless u db" "int (length (abs_log u db)) + int (length ops) \<le> MaxInt64"
    and dev: "\<not> (dev \<noteq> [] \<and> is_revoked u dev db)"
  shows "\<exists>res db'. run (Push env u ops dev name) db = (Inr res, db')"
proof -
  let ?h0 = "int (length (abs_log u db))"
  have "\<exists>head acks k' db'. push_tx env u ops dev name (k, db) = (Inr (head, acks), k', db')" for k
  proof -
    obtain head acks k1 db1 where
      loop: "push_loop env u (env_now env) ops ?h0 Map.empty [] (Suc k, db) = (Inr (head, acks), k1, db1)"
      using no_fault_loop [OF ok(1) gapless_numbered [OF inv(1)] batch_ok_empty inv(2)] by metis
    then show ?thesis
      by (simp add: push_tx_def bindI_def ok gapless_head [OF inv(1)] run_hook_def upsertDevice_def Let_def)
  qed
  then obtain head acks k' db' where
    tx: "push_tx env u ops dev name (Suc (if dev = [] then 0 else Suc 0), db) = (Inr (head, acks), k', db')"
    by metis
  with push_tx_Inr [OF tx inv(1)] have "head = int (length (abs_log u db'))" by metis
  with tx dev show ?thesis
    by (auto simp: run_def Push_def bindI_def deviceRevoked_ok ok transaction_def)
qed

section \<open>Properties of a push\<close>

text \<open>A quiet environment, a device's operation and a new database: the input of the witnesses.\<close>

definition quiet_env :: env where
  "quiet_env = \<lparr>env_now = 1700000000000, env_fault = (\<lambda>_. False), env_hook = None,
     env_rand_id = Some [CHR 0x07], env_rand_epoch = Some 5\<rparr>"

definition sample_op :: "bytes \<Rightarrow> sync_op" where
  "sample_op ident =
     \<lparr>RawLiteral = [CHR 0x22, CHR 0x22], op_Digest = ''d'', op_ID = ident, op_Kind = ''observation'',
      EntityRev = 1, OriginDeviceID = ''laptop'', OriginLocalID = None\<rparr>"

definition new_db :: db where
  "new_db = \<lparr>user_version = 1, has_tables = True, ops_table = [],
     meta_table = [\<lparr>meta_user = ''hub'', meta_epoch = ''5'', head_seq = 0\<rparr>], devices_table = []\<rparr>"

lemma quiet_env_simps [simp]:
  "env_fault quiet_env k = False" "env_hook quiet_env = None" "env_now quiet_env = 1700000000000"
  by (simp_all add: quiet_env_def)

lemma new_db_gapless [simp]: "gapless ''hub'' new_db"
  by (simp add: gapless_def numbered_def find_head_def user_ops_def new_db_def MaxInt64_def)

lemma new_db_simps [simp]: "abs_log u new_db = []" "is_revoked u dev new_db = False"
  by (simp_all add: abs_log_def user_ops_def is_revoked_def find_device_def new_db_def)

lemma sample_push_runs:
  assumes "int (length ops) \<le> MaxInt64"
  obtains res db' where "run (Push quiet_env ''hub'' ops dev name) new_db = (Inr res, db')"
  using Push_ok [of quiet_env "''hub''" new_db ops dev name] assms by auto

lemma log_word_inject:
  assumes "gapless u db" "m \<le> length (abs_log u db)" "n \<le> length (abs_log u db)"
  shows "(of_nat m :: dec) = of_nat n \<longleftrightarrow> m = n"
proof -
  have "int (length (abs_log u db)) \<le> MaxInt64"
    using gapless_numbered [OF assms(1)] by (simp add: numbered_def)
  then show ?thesis
    using word_of_int_inject_int64 [of "int m" "int n"] assms(2,3) by simp
qed

lemma Push_revoked:
  assumes "\<And>k. \<not> env_fault env k" "dev \<noteq> []" "is_revoked u dev db"
  shows "run (Push env u ops dev name) db = (Inl (Reject ReasonUnauthorized), db)"
  using assms by (simp add: run_def Push_def bindI_def deviceRevoked_ok)

text \<open>
  C1: a push implements the abstract log. When it succeeds on a numbered log, the new log is the
  one \<open>spec_push\<close> computes from the old, the acknowledged numbers are the positions it computes,
  in the order of the operations, the reported head is the length of the new log, and the
  numbering invariant still holds.
\<close>

theorem Push_refines_spec:
  assumes "run (Push env u ops dev name) db = (Inr res, db')" "gapless u db"
  shows "\<exists>ns. spec_push (env_now env) ops (abs_log u db) = (ns, abs_log u db')
    \<and> Acks res = map2 (\<lambda>op n. ack_of op (of_nat n)) ops ns
    \<and> HeadSeq res = of_nat (length (abs_log u db')) \<and> ProjectedSeq res = HeadSeq res
    \<and> gapless u db'"
  by (rule Push_Inr [OF assms]) auto

theorem Push_refines_spec_witness:
  "\<exists>res db' ns. run (Push quiet_env ''hub'' [sample_op ''a'', sample_op ''b''] ''laptop'' ''x'') new_db = (Inr res, db')
    \<and> spec_push 1700000000000 [sample_op ''a'', sample_op ''b''] [] = (ns, abs_log ''hub'' db')"
proof -
  obtain res db' where r: "run (Push quiet_env ''hub'' [sample_op ''a'', sample_op ''b''] ''laptop'' ''x'') new_db = (Inr res, db')"
    by (rule sample_push_runs [of "[sample_op ''a'', sample_op ''b'']"]) (simp add: MaxInt64_def)
  from Push_refines_spec [OF r new_db_gapless] r show ?thesis by auto
qed

text \<open>
  C2: a push that fails leaves no trace. Whichever call fails (the revocation query, a statement of
  the transaction, its begin or its commit) and whatever the failure hook does, the tables are
  exactly what they were: no operation, no gap in the numbering, no device row.
\<close>

theorem failed_push_leaves_no_trace:
  assumes "run (Push env u ops dev name) db = (Inl e, db')" "gapless u db"
  shows "db' = db"
  using assms by (rule Push_Inl)

theorem failed_push_leaves_no_trace_witness:
  "\<exists>e. run (Push (quiet_env\<lparr>env_hook := Some (\<lambda>_. Some sql_error)\<rparr>) ''hub'' [sample_op ''a''] ''laptop'' ''x'') new_db
     = (Inl e, new_db)"
proof (cases "run (Push (quiet_env\<lparr>env_hook := Some (\<lambda>_. Some sql_error)\<rparr>) ''hub'' [sample_op ''a''] ''laptop'' ''x'') new_db")
  case (Pair r db')
  show ?thesis
  proof (cases r)
    case (Inl e)
    with failed_push_leaves_no_trace [OF _ new_db_gapless] Pair show ?thesis by simp
  next
    case (Inr res)
    with Pair have False
      by (auto simp: run_eq Push_def push_tx_def run_hook_def io_simps split: if_splits option.splits prod.splits)
    then show ?thesis ..
  qed
qed

text \<open>
  When no call fails and there are numbers left, a push succeeds exactly when the device is
  not revoked; a revoked device gets \<open>unauthorized\<close> and changes nothing.
\<close>

theorem push_succeeds_unless_revoked:
  assumes "\<And>k. \<not> env_fault env k" "env_hook env = None" "gapless u db"
    and "int (length (abs_log u db)) + int (length ops) \<le> MaxInt64"
  shows "if dev \<noteq> [] \<and> is_revoked u dev db
    then run (Push env u ops dev name) db = (Inl (Reject ReasonUnauthorized), db)
    else \<exists>res db'. run (Push env u ops dev name) db = (Inr res, db')"
  using Push_ok [OF assms, of dev name] Push_revoked [OF assms(1), where dev = dev and u = u and db = db] by auto

theorem push_succeeds_unless_revoked_witness:
  "\<exists>res db'. run (Push quiet_env ''hub'' [sample_op ''a''] ''laptop'' ''x'') new_db = (Inr res, db')"
  using push_succeeds_unless_revoked [of quiet_env "''hub''" new_db "[sample_op ''a'']" "''laptop''" "''x''"]
  by (simp add: MaxInt64_def)

text \<open>
  Acknowledgements. A successful push acknowledges every operation, in order, echoing its id,
  kind, revision, local id and the digest the client sent; the number it reports is the position of
  that entity revision in the log; and two operations get the same number exactly when they are the
  same entity revision.
\<close>

theorem push_acknowledges_every_op:
  assumes "run (Push env u ops dev name) db = (Inr res, db')" "gapless u db"
  shows "length (Acks res) = length ops
    \<and> (\<forall>i < length ops. \<exists>n. Acks res ! i = ack_of (ops ! i) (of_nat n)
          \<and> position (op_entity (ops ! i)) (abs_log u db') = Some n)
    \<and> (\<forall>i < length ops. \<forall>j < length ops.
          ack_Seq (Acks res ! i) = ack_Seq (Acks res ! j) \<longleftrightarrow> op_entity (ops ! i) = op_entity (ops ! j))"
proof -
  from assms obtain ns where sp: "spec_push (env_now env) ops (abs_log u db) = (ns, abs_log u db')"
    and acks: "Acks res = map2 (\<lambda>op n. ack_of op (of_nat n)) ops ns" and g: "gapless u db'"
    by (auto elim: Push_Inr)
  note len = spec_push_length [OF sp]
  have pos: "i < length ops \<Longrightarrow> position (op_entity (ops ! i)) (abs_log u db') = Some (ns ! i)" for i
    using spec_push_positions [OF sp] by (simp add: list_all2_conv_all_nth)
  have nth: "i < length ops \<Longrightarrow> Acks res ! i = ack_of (ops ! i) (of_nat (ns ! i))" for i
    using len by (simp add: acks)
  have "length (Acks res) = length ops" using len by (simp add: acks)
  moreover have "\<exists>n. Acks res ! i = ack_of (ops ! i) (of_nat n)
          \<and> position (op_entity (ops ! i)) (abs_log u db') = Some n" if "i < length ops" for i
    using pos nth that by blast
  moreover have "ack_Seq (Acks res ! i) = ack_Seq (Acks res ! j) \<longleftrightarrow> op_entity (ops ! i) = op_entity (ops ! j)"
    if "i < length ops" "j < length ops" for i j
  proof -
    have "of_nat (ns ! i) = (of_nat (ns ! j) :: dec) \<longleftrightarrow> ns ! i = ns ! j"
      using log_word_inject [OF g] pos that position_bounds by blast
    moreover have "ns ! i = ns ! j \<longleftrightarrow> op_entity (ops ! i) = op_entity (ops ! j)"
      using pos that position_inj by (metis option.inject)
    ultimately show ?thesis using nth that by (simp add: ack_of_def)
  qed
  ultimately show ?thesis by blast
qed

theorem push_acknowledges_every_op_witness:
  "\<exists>res db'. run (Push quiet_env ''hub'' [sample_op ''a'', sample_op ''b'', sample_op ''a''] ''laptop'' ''x'') new_db = (Inr res, db')
    \<and> length (Acks res) = 3 \<and> ack_Seq (Acks res ! 0) = ack_Seq (Acks res ! 2)
    \<and> ack_Seq (Acks res ! 0) \<noteq> ack_Seq (Acks res ! 1)"
proof -
  let ?ops = "[sample_op ''a'', sample_op ''b'', sample_op ''a'']"
  obtain res db' where r: "run (Push quiet_env ''hub'' ?ops ''laptop'' ''x'') new_db = (Inr res, db')"
    by (rule sample_push_runs [of ?ops]) (simp add: MaxInt64_def)
  note p = push_acknowledges_every_op [OF r new_db_gapless]
  have "ack_Seq (Acks res ! 0) = ack_Seq (Acks res ! 2)" "ack_Seq (Acks res ! 0) \<noteq> ack_Seq (Acks res ! 1)"
    using p by (simp_all add: op_entity_def sample_op_def)
  with r p show ?thesis by auto
qed

text \<open>
  A retry is harmless. Pushing the same operations again, at any later time and from any
  device, acknowledges the same numbers with the same head and leaves the log as it was.
\<close>

theorem push_retry_idempotent:
  assumes "run (Push env u ops dev name) db = (Inr res, db')" "gapless u db"
    and "run (Push env' u ops dev' name') db' = (Inr res', db'')"
  shows "Acks res' = Acks res \<and> HeadSeq res' = HeadSeq res \<and> abs_log u db'' = abs_log u db'"
proof -
  from assms(1,2) obtain ns where sp: "spec_push (env_now env) ops (abs_log u db) = (ns, abs_log u db')"
    and res: "res = \<lparr>Acks = map2 (\<lambda>op n. ack_of op (of_nat n)) ops ns, HeadSeq = of_nat (length (abs_log u db')),
            ProjectedSeq = of_nat (length (abs_log u db'))\<rparr>" and g: "gapless u db'"
    by (rule Push_Inr)
  from assms(3) g obtain ns' where sp': "spec_push (env_now env') ops (abs_log u db') = (ns', abs_log u db'')"
    and res': "res' = \<lparr>Acks = map2 (\<lambda>op n. ack_of op (of_nat n)) ops ns', HeadSeq = of_nat (length (abs_log u db'')),
            ProjectedSeq = of_nat (length (abs_log u db''))\<rparr>"
    by (rule Push_Inr)
  from spec_push_retry [OF sp, of "env_now env'"] sp' have "ns' = ns \<and> abs_log u db'' = abs_log u db'" by simp
  with res res' show ?thesis by simp
qed

theorem push_retry_idempotent_witness:
  "\<exists>res db' res' db''. run (Push quiet_env ''hub'' [sample_op ''a''] ''laptop'' ''x'') new_db = (Inr res, db')
    \<and> run (Push quiet_env ''hub'' [sample_op ''a''] ''desk'' ''y'') db' = (Inr res', db'') \<and> Acks res' = Acks res"
proof -
  obtain res db' where r: "run (Push quiet_env ''hub'' [sample_op ''a''] ''laptop'' ''x'') new_db = (Inr res, db')"
    by (rule sample_push_runs [of "[sample_op ''a'']"]) (simp add: MaxInt64_def)
  obtain ns where g: "gapless ''hub'' db'" and n: "\<not> is_revoked ''hub'' ''desk'' db'"
    and sp: "spec_push 1700000000000 [sample_op ''a''] [] = (ns, abs_log ''hub'' db')"
    by (rule Push_Inr [OF r new_db_gapless]) auto
  have "length (abs_log ''hub'' db') \<le> 1"
    using sp by (auto simp: spec_push_Cons spec_step_def simp del: length_abs_log dest: sym)
  with Push_ok [of quiet_env "''hub''" db' "[sample_op ''a'']" "''desk''" "''y''"] g n
  obtain res' db'' where "run (Push quiet_env ''hub'' [sample_op ''a''] ''desk'' ''y'') db' = (Inr res', db'')"
    by (auto simp: MaxInt64_def)
  with r push_retry_idempotent [OF r new_db_gapless this] show ?thesis by blast
qed

end
