(* ===== verification/Paging.thy ===== *)
theory Paging
  imports Prelude
begin

text \<open>
  The interface between a log that is served in pages and a reader that follows it, as the pull side
  of the protocol does: ask for the page after the cursor, append it, advance the cursor by the
  number of entries received, and go on while the page says there is more. The store's \<open>Changes\<close>
  provides it (theory \<open>Changes\<close>).
\<close>

fun drain :: "(nat \<Rightarrow> ('o list \<times> bool) option) \<Rightarrow> nat \<Rightarrow> nat \<Rightarrow> 'o list option" where
  "drain page 0 c = None"
| "drain page (Suc fuel) c =
     (case page c of
        None \<Rightarrow> None
      | Some (ops, mo) \<Rightarrow>
          if mo then map_option ((@) ops) (drain page fuel (c + length ops)) else Some ops)"

locale paged_log =
  fixes inv :: "'s \<Rightarrow> bool" and up :: "'s \<Rightarrow> bool" and len :: "'s \<Rightarrow> nat"
    and seg :: "'s \<Rightarrow> nat \<Rightarrow> nat \<Rightarrow> 'o list" and page :: "'s \<Rightarrow> nat \<Rightarrow> ('o list \<times> bool) option"
  assumes seg_length: "c + n \<le> len s \<Longrightarrow> length (seg s c n) = n"
    and seg_append: "c + (m + n) \<le> len s \<Longrightarrow> seg s c m @ seg s (c + m) n = seg s c (m + n)"
    and page_sound: "inv s \<Longrightarrow> c \<le> len s \<Longrightarrow> page s c = Some (ops, mo) \<Longrightarrow>
          \<exists>n. ops = seg s c n \<and> c + n \<le> len s \<and> (mo \<longleftrightarrow> c + n < len s) \<and> (c < len s \<longrightarrow> 0 < n)"
    and page_answers: "inv s \<Longrightarrow> up s \<Longrightarrow> c \<le> len s \<Longrightarrow> page s c \<noteq> None"
begin

lemma page_nonempty:
  "inv s \<Longrightarrow> c < len s \<Longrightarrow> page s c = Some (ops, mo) \<Longrightarrow> ops \<noteq> []"
  using page_sound [of s c ops mo] seg_length by fastforce

text \<open>No page leaves the cursor where it was while entries remain, so following \<open>mo\<close> ends.\<close>

lemma drain_all:
  "inv s \<Longrightarrow> up s \<Longrightarrow> c \<le> len s \<Longrightarrow> len s - c < fuel \<Longrightarrow>
   drain (page s) fuel c = Some (seg s c (len s - c))"
proof (induction fuel arbitrary: c)
  case 0
  then show ?case by simp
next
  case (Suc fuel)
  from page_answers [OF Suc.prems(1-3)] obtain ops mo where p: "page s c = Some (ops, mo)" by auto
  from page_sound [OF Suc.prems(1,3) p] obtain n where ops: "ops = seg s c n" and n: "c + n \<le> len s"
    and mo: "mo \<longleftrightarrow> c + n < len s" and pos: "c < len s \<longrightarrow> 0 < n" by blast
  show ?case
  proof (cases mo)
    case False
    with mo n have "len s - c = n" by linarith
    with False p ops show ?thesis by simp
  next
    case True
    with mo have lt: "c + n < len s" by simp
    with pos have "0 < n" by simp
    have "drain (page s) fuel (c + n) = Some (seg s (c + n) (len s - (c + n)))"
      using Suc.prems lt \<open>0 < n\<close> by (intro Suc.IH) linarith+
    moreover have "seg s c n @ seg s (c + n) (len s - (c + n)) = seg s c (n + (len s - (c + n)))"
      using lt by (intro seg_append) linarith
    moreover have "n + (len s - (c + n)) = len s - c" using lt by linarith
    ultimately show ?thesis using True p ops n by (simp add: seg_length)
  qed
qed

end

end
