(* ===== verification/Changes.thy ===== *)
theory Changes
  imports Push Paging
begin

text \<open>
  \<open>internal/store/changes.go\<close>: one page of the log after a cursor, with the head and the epoch, all
  read in one transaction (one snapshot of the database). \<open>page_loop\<close> is the \<open>for rows.Next()\<close> loop
  with \<open>res.Ops\<close> and \<open>bytesSoFar\<close> as arguments; \<open>limit\<close> and \<open>maxBytes\<close> are Go \<open>int\<close>s, so a
  negative one is a value the clamping must handle.

  The lemmas: a page is a contiguous segment of the log that starts right after the cursor, it is
  empty only at the end of the log, \<open>More\<close> tells exactly whether something is left, and a page is
  produced when no call fails. The locale \<open>paged_log\<close> draws the conclusion for a reader that follows
  \<open>More\<close>: it ends and has read everything.
\<close>

section \<open>The code\<close>

record change_op =
  co_Seq :: dec
  co_ServerTS :: dec
  co_RawLiteral :: bytes
  co_Digest :: bytes

record changes_result =
  cr_Ops :: "change_op list"
  More :: bool
  cr_HeadSeq :: dec
  cr_Epoch :: dec

definition DefaultMaxPageBytes :: int where
  "DefaultMaxPageBytes = 8 * 2 ^ 20"

definition change_of :: "op_row \<Rightarrow> dec \<Rightarrow> dec \<Rightarrow> change_op" where
  "change_of r sq ts =
     \<lparr>co_Seq = sq, co_ServerTS = ts, co_RawLiteral = row_body r, co_Digest = operation_sha256 r\<rparr>"

fun page_loop :: "env \<Rightarrow> int \<Rightarrow> int \<Rightarrow> op_row list \<Rightarrow> change_op list \<Rightarrow> int \<Rightarrow> (change_op list \<times> bool) io" where
  "page_loop env limit maxBytes [] acc bytesSoFar =
     bindI (query env (\<lambda>_. ())) (\<lambda>_. returnI (acc, False))"
| "page_loop env limit maxBytes (r # rs) acc bytesSoFar =
     bindI (query env (\<lambda>_. ())) (\<lambda>_.
       if int (length acc) = limit
       then bindI (query env (\<lambda>_. ())) (\<lambda>_. returnI (acc, True))
       else if acc \<noteq> [] \<and> bytesSoFar + int (length (row_body r)) > maxBytes
       then bindI (query env (\<lambda>_. ())) (\<lambda>_. returnI (acc, True))
       else bindI (liftI (dec_of (row_seq r))) (\<lambda>seqDec.
            bindI (liftI (dec_of (server_ts r))) (\<lambda>tsDec.
              page_loop env limit maxBytes rs (acc @ [change_of r seqDec tsDec])
                (bytesSoFar + int (length (row_body r))))))"

text \<open>\<open>SELECT ... WHERE user_id = ? AND seq > ? ORDER BY seq LIMIT ?\<close>.\<close>

definition select_after :: "bytes \<Rightarrow> int \<Rightarrow> int \<Rightarrow> db \<Rightarrow> op_row list" where
  "select_after u since limit db =
     take (nat limit) (sort_key row_seq (filter (\<lambda>r. row_user r = u \<and> since < row_seq r) (ops_table db)))"

definition clamp_limit :: "int \<Rightarrow> int" where
  "clamp_limit limit = (if limit \<le> 0 \<or> limit > int MaxPageLimit then int MaxPageLimit else limit)"

definition clamp_bytes :: "int \<Rightarrow> int" where
  "clamp_bytes maxBytes = (if maxBytes \<le> 0 then DefaultMaxPageBytes else maxBytes)"

definition find_meta :: "bytes \<Rightarrow> db \<Rightarrow> (int \<times> bytes) option" where
  "find_meta u db = map_option (\<lambda>m. (head_seq m, meta_epoch m)) (find (\<lambda>m. meta_user m = u) (meta_table db))"

definition epoch_of :: "bytes \<Rightarrow> go_error + dec" where
  "epoch_of s = (case ParseDecPositive s of
     Inl _ \<Rightarrow> Inl (OtherError ''store: stored epoch is invalid'') | Inr d \<Rightarrow> Inr d)"

definition Changes :: "env \<Rightarrow> bytes \<Rightarrow> dec \<Rightarrow> int \<Rightarrow> int \<Rightarrow> changes_result io" where
  "Changes env u since limit0 maxBytes0 =
     (let limit = clamp_limit limit0; maxBytes = clamp_bytes maxBytes0 in
      case DecInt64 since of
        Inl _ \<Rightarrow> failI (Reject ReasonBadCursor)
      | Inr sinceInt \<Rightarrow>
          bindI (query env (\<lambda>_. ())) (\<lambda>_.
          bindI (query env (find_meta u)) (\<lambda>found. case found of
            None \<Rightarrow> failI ErrNoRows
          | Some (head, epochStr) \<Rightarrow>
              bindI (liftI (epoch_of epochStr)) (\<lambda>epoch.
              bindI (query env (select_after u sinceInt (limit + 1))) (\<lambda>rows.
              bindI (liftI (dec_of head)) (\<lambda>headDec.
              bindI (page_loop env limit maxBytes rows [] 0) (\<lambda>(ops, mo).
                returnI \<lparr>cr_Ops = ops, More = mo, cr_HeadSeq = headDec, cr_Epoch = epoch\<rparr>)))))))"

section \<open>Rows and pages\<close>

lemma filter_after:
  assumes "map row_seq rows = [1..int (length rows)]" "0 \<le> s"
  shows "filter (\<lambda>r. s < row_seq r) rows = drop (nat s) rows"
  using assms(1)
proof (induction rows rule: rev_induct)
  case Nil
  then show ?case by simp
next
  case (snoc r rows)
  from snoc.prems have "map row_seq rows = [1..int (length rows)]" and sq: "row_seq r = int (length rows) + 1"
    using upto_rec2 [of 1 "int (length rows) + 1"] by (simp_all add: add.commute)
  with snoc.IH assms(2) show ?case by auto
qed

lemma select_after_rows:
  assumes "numbered u head db" "0 \<le> s"
  shows "select_after u s l db = take (nat l) (drop (nat s) (user_ops u db))"
proof -
  have n: "map row_seq (user_ops u db) = [1..int (length (user_ops u db))]"
    using assms(1) by (simp add: numbered_def)
  have "filter (\<lambda>r. row_user r = u \<and> s < row_seq r) (ops_table db)
      = filter (\<lambda>r. s < row_seq r) (user_ops u db)"
    by (simp add: user_ops_def conj_commute)
  also have "\<dots> = drop (nat s) (user_ops u db)" by (rule filter_after [OF n assms(2)])
  finally have f: "filter (\<lambda>r. row_user r = u \<and> s < row_seq r) (ops_table db) = drop (nat s) (user_ops u db)" .
  have "sorted (map row_seq (drop (nat s) (user_ops u db)))"
    by (simp only: drop_map [symmetric] n sorted_wrt_drop sorted_upto)
  then show ?thesis unfolding select_after_def f by (simp only: sort_key_id_if_sorted)
qed

lemma row_seq_nth:
  "numbered u head db \<Longrightarrow> i < length (user_ops u db) \<Longrightarrow> row_seq (user_ops u db ! i) = int i + 1"
proof -
  assume "numbered u head db" and i: "i < length (user_ops u db)"
  then have "map row_seq (user_ops u db) = [1..int (length (user_ops u db))]" by (simp add: numbered_def)
  then have "map row_seq (user_ops u db) ! i = [1..int (length (user_ops u db))] ! i" by simp
  with i show ?thesis by (simp add: nth_upto)
qed

text \<open>What a stored row looks like in a page.\<close>

definition page_op :: "op_row \<Rightarrow> change_op" where
  "page_op r = change_of r (word_of_int (row_seq r)) (word_of_int (server_ts r))"

lemma dec_of_Inr: "dec_of v = Inr d \<longleftrightarrow> 0 \<le> v \<and> d = word_of_int v"
  by (auto simp: dec_of_def DecFromInt64_def)

text \<open>
  The loop takes a prefix of the rows: it stops at the limit, or at the byte bound but never on an
  empty page, or at the end.
\<close>

lemma page_loop_Inr:
  assumes "page_loop env limit maxBytes rows acc b (k, db) = (Inr (ops, mo), k', db')"
    and "int (length acc) \<le> limit" "0 < limit"
  shows "\<exists>n. ops = acc @ map page_op (take n rows) \<and> n \<le> length rows
    \<and> (mo \<longleftrightarrow> n < length rows) \<and> int (length ops) \<le> limit \<and> (acc = [] \<and> rows \<noteq> [] \<longrightarrow> 0 < n) \<and> db' = db"
  using assms(1,2)
proof (induction rows arbitrary: acc b k)
  case Nil
  then show ?case by (auto simp: io_simps)
next
  case (Cons r rows)
  show ?case
  proof (cases "int (length acc) = limit \<or> (acc \<noteq> [] \<and> b + int (length (row_body r)) > maxBytes)")
    case True
    with Cons.prems assms(3) show ?thesis
      by (intro exI [of _ 0]) (auto simp: io_simps split: if_splits)
  next
    case False
    with Cons.prems obtain k1 where
      r: "page_loop env limit maxBytes rows (acc @ [page_op r]) (b + int (length (row_body r))) (k1, db)
         = (Inr (ops, mo), k', db')"
      by (auto simp: io_simps dec_of_Inr page_op_def)
    moreover have "int (length (acc @ [page_op r])) \<le> limit" using False Cons.prems(2) by simp
    ultimately obtain n where "ops = (acc @ [page_op r]) @ map page_op (take n rows)" "n \<le> length rows"
      "mo \<longleftrightarrow> n < length rows" "int (length ops) \<le> limit" "db' = db"
      using Cons.IH by blast
    then show ?thesis by (intro exI [of _ "Suc n"]) simp
  qed
qed

lemma page_loop_ok:
  assumes ok: "\<And>k. \<not> env_fault env k"
  shows "(\<And>r. r \<in> set rows \<Longrightarrow> 0 \<le> row_seq r \<and> 0 \<le> server_ts r) \<Longrightarrow>
   \<exists>res k'. page_loop env limit maxBytes rows acc b (k, db) = (Inr res, k', db)"
proof (induction rows arbitrary: acc b k)
  case Nil
  then show ?case by (auto simp: bindI_def ok)
next
  case (Cons r rows)
  have d: "dec_of (row_seq r) = Inr (word_of_int (row_seq r))" "dec_of (server_ts r) = Inr (word_of_int (server_ts r))"
    using Cons.prems [of r] by (simp_all add: dec_of_Inr)
  have "\<exists>res k'. page_loop env limit maxBytes rows acc' b' (k, db) = (Inr res, k', db)" for acc' b' k
    by (rule Cons.IH) (use Cons.prems in simp)
  then show ?case by (auto simp: bindI_def ok d)
qed

section \<open>Changes as one step\<close>

definition clean_ts :: "bytes \<Rightarrow> db \<Rightarrow> bool" where
  "clean_ts u db \<longleftrightarrow> list_all (\<lambda>r. 0 \<le> server_ts r) (user_ops u db)"

text \<open>The page of a log after position \<open>s\<close> that holds \<open>n\<close> entries.\<close>

definition page_entry :: "nat \<Rightarrow> entry \<Rightarrow> change_op" where
  "page_entry i e =
     \<lparr>co_Seq = of_nat (Suc i), co_ServerTS = word_of_int (e_ts e), co_RawLiteral = e_body e, co_Digest = e_digest e\<rparr>"

definition page_of :: "entry list \<Rightarrow> nat \<Rightarrow> nat \<Rightarrow> change_op list" where
  "page_of log s n = map2 page_entry [s..<s + n] (take n (drop s log))"

lemma page_op_entry:
  assumes "numbered u head db" "s + n \<le> length (user_ops u db)"
  shows "map page_op (take n (drop s (user_ops u db))) = page_of (abs_log u db) s n"
proof (rule nth_equalityI)
  show "length (map page_op (take n (drop s (user_ops u db)))) = length (page_of (abs_log u db) s n)"
    using assms(2) by (simp add: page_of_def)
next
  fix i assume "i < length (map page_op (take n (drop s (user_ops u db))))"
  then have i: "i < n" "s + i < length (user_ops u db)" by auto
  have "row_seq (user_ops u db ! (s + i)) = int (Suc (s + i))"
    using row_seq_nth [OF assms(1) i(2)] by simp
  with i assms(2) show "map page_op (take n (drop s (user_ops u db))) ! i = page_of (abs_log u db) s n ! i"
    by (simp add: page_of_def abs_log_def page_op_def change_of_def page_entry_def row_entry_def)
qed

lemma DecInt64_Inr: "DecInt64 d = Inr v \<longleftrightarrow> v = int (unat d) \<and> v \<le> MaxInt64"
  by (auto simp: DecInt64_def)

lemma find_meta_head: "find_meta u db = Some (h, e) \<Longrightarrow> find_head u db = Some h"
  by (auto simp: find_meta_def find_head_def)

lemma find_meta_ids: "map_option snd (find_meta u db) = map_of (meta_ids db) u"
proof -
  have "map_option meta_epoch (find (\<lambda>m. meta_user m = u) rows) = map_of (map (\<lambda>m. (meta_user m, meta_epoch m)) rows) u"
    for rows by (induction rows) auto
  then show ?thesis by (simp add: find_meta_def meta_ids_def option.map_comp comp_def)
qed

lemma Changes_Inr:
  assumes "run (Changes env u since limit maxBytes) db = (Inr res, db')" and inv: "gapless u db"
  shows "db' = db \<and> cr_HeadSeq res = of_nat (length (abs_log u db))
    \<and> (\<exists>n. cr_Ops res = page_of (abs_log u db) (unat since) n
         \<and> (n = 0 \<or> unat since + n \<le> length (abs_log u db))
         \<and> (More res \<longleftrightarrow> unat since + n < length (abs_log u db))
         \<and> int n \<le> clamp_limit limit
         \<and> (unat since < length (abs_log u db) \<longrightarrow> 0 < n))"
proof -
  let ?rows = "drop (unat since) (user_ops u db)"
  let ?l = "clamp_limit limit"
  have l: "0 < ?l" by (simp add: clamp_limit_def MaxPageLimit_def)
  have num: "numbered u (int (length (abs_log u db))) db" by (rule gapless_numbered [OF inv])
  from assms(1) obtain k k1 head ep epoch rows d ops mo where
    meta: "find_meta u db = Some (head, ep)" and d: "dec_of head = Inr d"
    and rows: "rows = select_after u (int (unat since)) (?l + 1) db"
    and loop: "page_loop env ?l (clamp_bytes maxBytes) rows [] 0 (k1, db) = (Inr (ops, mo), k, db')"
    and res: "res = \<lparr>cr_Ops = ops, More = mo, cr_HeadSeq = d, cr_Epoch = epoch\<rparr>"
    by (auto simp: run_eq Changes_def Let_def io_simps DecInt64_Inr split: sum.splits option.splits)
  from rows have rows: "rows = take (nat (?l + 1)) ?rows"
    by (simp add: select_after_rows [OF num])
  obtain n where n: "ops = map page_op (take n rows)" "n \<le> length rows" "mo \<longleftrightarrow> n < length rows"
    "int (length ops) \<le> ?l" "rows \<noteq> [] \<longrightarrow> 0 < n" "db' = db"
    using page_loop_Inr [OF loop] l by auto
  have nl: "int n \<le> ?l" using n(1,2,4) by simp
  then have "take n rows = take n ?rows" unfolding rows by (simp add: min_def)
  moreover have ln: "n \<le> length ?rows" using n(2) by (simp add: rows)
  ultimately have "ops = page_of (abs_log u db) (unat since) n \<or> n = 0 \<and> ops = []"
    using n(1) page_op_entry [OF num, of "unat since" n] by (cases "n = 0") auto
  then have page: "ops = page_of (abs_log u db) (unat since) n" by (auto simp: page_of_def)
  have mo: "mo \<longleftrightarrow> unat since + n < length (abs_log u db)"
    using n(3) nl ln l unfolding rows by (auto simp: min_def)
  have pos: "unat since < length (abs_log u db) \<longrightarrow> 0 < n"
    using n(5) l unfolding rows by (auto simp: clamp_limit_def)
  have "head = int (length (abs_log u db))"
    using find_meta_head [OF meta] gapless_head [OF inv] by (metis option.inject)
  then have "d = of_nat (length (abs_log u db))" using d by (simp add: dec_of_int del: length_abs_log)
  moreover have "n = 0 \<or> unat since + n \<le> length (abs_log u db)" using ln by simp linarith
  ultimately show ?thesis using page mo nl pos n(6) by (auto simp: res)
qed

lemma Changes_db: "run (Changes env u since limit maxBytes) db = (r, db') \<Longrightarrow> r = Inr res \<Longrightarrow> gapless u db \<Longrightarrow> db' = db"
  using Changes_Inr by blast

lemma Changes_ok:
  assumes ok: "\<And>k. \<not> env_fault env k" and inv: "gapless u db" "clean_ts u db"
    and meta: "find_meta u db = Some (head, ep)" "ParseDecPositive ep = Inr epoch"
    and since: "uint since \<le> MaxInt64"
  shows "\<exists>res. run (Changes env u since limit maxBytes) db = (Inr res, db) \<and> cr_Epoch res = epoch"
proof -
  have num: "numbered u (int (length (abs_log u db))) db" by (rule gapless_numbered [OF inv(1)])
  have s: "DecInt64 since = Inr (uint since)" using since by (simp add: DecInt64_def)
  have "0 \<le> row_seq r \<and> 0 \<le> server_ts r" if "r \<in> set (select_after u (uint since) l db)" for r l
  proof -
    have "r \<in> set (user_ops u db)"
      using that by (auto simp: select_after_rows [OF num] dest: in_set_takeD in_set_dropD)
    with inv(2) num show ?thesis
      by (auto simp: clean_ts_def list_all_iff in_set_conv_nth row_seq_nth)
  qed
  then obtain ops mo k' where loop: "page_loop env (clamp_limit limit) (clamp_bytes maxBytes)
      (select_after u (uint since) (clamp_limit limit + 1) db) [] 0 (Suc (Suc (Suc 0)), db) = (Inr (ops, mo), k', db)"
    using page_loop_ok [OF ok] by (metis surj_pair)
  have "head = int (length (abs_log u db))"
    using find_meta_head [OF meta(1)] gapless_head [OF inv(1)] by (metis option.inject)
  then have "dec_of head = Inr (of_nat (length (abs_log u db)))" by (simp add: dec_of_int del: length_abs_log)
  then show ?thesis
    by (simp add: run_def Changes_def Let_def bindI_def ok s meta epoch_of_def loop)
qed

section \<open>The store serves its log in pages\<close>

text \<open>One page request as the pull side sees it, at a store that is the environment, the user and the database.\<close>

type_synonym log_server = "env \<times> bytes \<times> db"

definition serve_page :: "int \<Rightarrow> int \<Rightarrow> log_server \<Rightarrow> nat \<Rightarrow> (change_op list \<times> bool) option" where
  "serve_page limit maxBytes = (\<lambda>(env, u, db) since.
     case fst (run (Changes env u (of_nat since) limit maxBytes) db) of
       Inl _ \<Rightarrow> None
     | Inr res \<Rightarrow> Some (cr_Ops res, More res))"

definition sound_server :: "log_server \<Rightarrow> bool" where
  "sound_server = (\<lambda>(env, u, db). gapless u db)"

definition live_server :: "log_server \<Rightarrow> bool" where
  "live_server = (\<lambda>(env, u, db). (\<forall>k. \<not> env_fault env k) \<and> clean_ts u db
     \<and> (\<exists>head ep epoch. find_meta u db = Some (head, ep) \<and> ParseDecPositive ep = Inr epoch))"

lemma cursor_word:
  assumes "gapless u db" "c \<le> length (abs_log u db)"
  shows "unat (of_nat c :: dec) = c" "uint (of_nat c :: dec) \<le> MaxInt64"
proof -
  have "int c \<le> MaxInt64" using gapless_numbered [OF assms(1)] assms(2) by (simp add: numbered_def)
  then show "unat (of_nat c :: dec) = c" by (simp add: MaxInt64_def unat_of_nat take_bit_nat_eq_self)
  then have "uint (of_nat c :: dec) = int c" by (metis uint_nat)
  with \<open>int c \<le> MaxInt64\<close> show "uint (of_nat c :: dec) \<le> MaxInt64" by simp
qed

lemma page_of_length: "s + n \<le> length log \<Longrightarrow> length (page_of log s n) = n"
  by (simp add: page_of_def)

lemma page_of_append:
  assumes "c + (m + n) \<le> length log"
  shows "page_of log c m @ page_of log (c + m) n = page_of log c (m + n)"
proof -
  have "take (m + n) (drop c log) = take m (drop c log) @ take n (drop (c + m) log)"
    by (simp add: take_add add.commute)
  moreover have "[c..<c + (m + n)] = [c..<c + m] @ [c + m..<c + m + n]"
    by (metis add.assoc le_add1 upt_add_eq_append)
  ultimately show ?thesis using assms by (simp add: page_of_def zip_append)
qed

interpretation store_log: paged_log sound_server live_server "\<lambda>(env, u, db). length (abs_log u db)"
    "\<lambda>(env, u, db). page_of (abs_log u db)" "serve_page limit maxBytes" for limit maxBytes
proof (unfold_locales, goal_cases)
  case (1 c n s)
  then show ?case by (cases s) (simp add: page_of_length)
next
  case (2 c m n s)
  then show ?case by (cases s) (simp add: page_of_append)
next
  case (3 s c ops mo)
  obtain env u db where s: "s = (env, u, db)" by (cases s)
  from 3 have g: "gapless u db" and c: "c \<le> length (abs_log u db)" by (simp_all add: s sound_server_def)
  from 3(3) obtain res db' where "run (Changes env u (of_nat c) limit maxBytes) db = (Inr res, db')"
    and res: "ops = cr_Ops res" "mo = More res"
    by (cases "run (Changes env u (of_nat c) limit maxBytes) db") (auto simp: s serve_page_def split: sum.splits)
  from Changes_Inr [OF this(1) g] obtain n where "ops = page_of (abs_log u db) c n"
    "n = 0 \<or> c + n \<le> length (abs_log u db)" "mo \<longleftrightarrow> c + n < length (abs_log u db)"
    "c < length (abs_log u db) \<longrightarrow> 0 < n"
    using cursor_word(1) [OF g c] res by auto
  with c show ?case by (auto simp: s)
next
  case (4 s c)
  obtain env u db where s: "s = (env, u, db)" by (cases s)
  with 4 have g: "gapless u db" and c: "c \<le> length (abs_log u db)" and ok: "\<And>k. \<not> env_fault env k"
    and ts: "clean_ts u db"
    by (auto simp: sound_server_def live_server_def)
  from 4 s obtain head ep epoch where "find_meta u db = Some (head, ep)" "ParseDecPositive ep = Inr epoch"
    by (auto simp: live_server_def)
  from Changes_ok [OF ok g ts this cursor_word(2) [OF g c], of limit maxBytes]
  show ?case by (auto simp: s serve_page_def)
qed

section \<open>Properties of paging\<close>

lemma stored_five: "ParseDecPositive ''5'' = Inr 5"
  by (simp add: ParseDecPositive_Inr_iff DecString_def format_nat.simps [of 5] digit_char_def) code_simp

lemma new_db_live: "live_server (quiet_env, ''hub'', new_db)" "sound_server (quiet_env, ''hub'', new_db)"
  using stored_five new_db_gapless
  by (auto simp: live_server_def sound_server_def clean_ts_def user_ops_def find_meta_def new_db_def)

text \<open>Servers whose log is not empty: a new database after one push.\<close>

lemma pushed_server:
  assumes "int (length ops) \<le> MaxInt64"
  obtains db h where "live_server (quiet_env, ''hub'', db)" "sound_server (quiet_env, ''hub'', db)"
    "\<exists>ns. spec_push 1700000000000 ops [] = (ns, abs_log ''hub'' db)" "find_meta ''hub'' db = Some (h, ''5'')"
proof -
  obtain res db where r: "run (Push quiet_env ''hub'' ops ''laptop'' ''x'') new_db = (Inr res, db)"
    by (rule sample_push_runs [OF assms])
  then obtain ns where sp: "spec_push 1700000000000 ops [] = (ns, abs_log ''hub'' db)" and g: "gapless ''hub'' db"
    and ids: "meta_ids db = meta_ids new_db"
    by (auto elim!: Push_Inr [OF _ new_db_gapless])
  have "list_all (\<lambda>e. 0 \<le> e_ts e) (abs_log ''hub'' db)"
    using spec_push_ts [OF sp] by (auto simp: list_all_iff)
  then have "clean_ts ''hub'' db"
    by (simp add: clean_ts_def abs_log_def list_all_iff row_entry_def)
  moreover have "map_of (meta_ids db) ''hub'' = Some ''5''"
    using ids by (simp add: meta_ids_def new_db_def)
  then obtain h where h: "find_meta ''hub'' db = Some (h, ''5'')"
    using find_meta_ids [of "''hub''" db] by auto
  moreover note stored_five
  ultimately have "live_server (quiet_env, ''hub'', db)"
    by (auto simp: live_server_def)
  with g sp h that show thesis by (auto simp: sound_server_def)
qed

text \<open>
  C3: a page is the next stretch of the log. A successful answer to \<open>since\<close> holds exactly the
  entries that follow \<open>since\<close>, in order and without a gap; it is within the limit; it is never empty
  while entries remain, however small the byte budget; and \<open>more\<close> is set exactly when entries remain
  after it. Reading changes nothing.
\<close>

theorem changes_page_is_next_segment:
  assumes "run (Changes env u since limit maxBytes) db = (Inr res, db')" "gapless u db"
    and "unat since \<le> length (abs_log u db)"
  shows "db' = db
    \<and> cr_HeadSeq res = of_nat (length (abs_log u db))
    \<and> cr_Ops res = page_of (abs_log u db) (unat since) (length (cr_Ops res))
    \<and> unat since + length (cr_Ops res) \<le> length (abs_log u db)
    \<and> int (length (cr_Ops res)) \<le> clamp_limit limit
    \<and> (More res \<longleftrightarrow> unat since + length (cr_Ops res) < length (abs_log u db))
    \<and> (unat since < length (abs_log u db) \<longrightarrow> cr_Ops res \<noteq> [])"
proof -
  from Changes_Inr [OF assms(1,2)] obtain n where r: "db' = db" "cr_HeadSeq res = of_nat (length (abs_log u db))"
    "cr_Ops res = page_of (abs_log u db) (unat since) n" "n = 0 \<or> unat since + n \<le> length (abs_log u db)"
    "More res \<longleftrightarrow> unat since + n < length (abs_log u db)" "int n \<le> clamp_limit limit"
    "unat since < length (abs_log u db) \<longrightarrow> 0 < n" by blast
  moreover from this(4) assms(3) have b: "unat since + n \<le> length (abs_log u db)" by auto
  moreover from page_of_length [OF b] r(3) have "length (cr_Ops res) = n" by simp
  ultimately show ?thesis by (simp del: length_abs_log) fastforce
qed

theorem changes_page_is_next_segment_witness:
  "\<exists>db res. run (Changes quiet_env ''hub'' 0 1 1) db = (Inr res, db) \<and> length (cr_Ops res) = 1 \<and> More res"
proof -
  obtain db h where live: "live_server (quiet_env, ''hub'', db)" and snd: "sound_server (quiet_env, ''hub'', db)"
    and sp: "\<exists>ns. spec_push 1700000000000 [sample_op ''a'', sample_op ''b''] [] = (ns, abs_log ''hub'' db)"
    and "find_meta ''hub'' db = Some (h, ''5'')"
    by (rule pushed_server [of "[sample_op ''a'', sample_op ''b'']"]) (simp add: MaxInt64_def)
  from sp have len: "length (abs_log ''hub'' db) = 2"
    by (auto simp: spec_push_Cons spec_step_def op_entity_def sample_op_def simp del: length_abs_log dest!: sym [of _ "abs_log _ _"])
  from live snd obtain res where r: "run (Changes quiet_env ''hub'' 0 1 1) db = (Inr res, db)"
    using Changes_ok [of quiet_env "''hub''" db _ _ _ 0 1 1]
    by (force simp: live_server_def sound_server_def MaxInt64_def)
  have g: "gapless ''hub'' db" using snd by (simp add: sound_server_def)
  have p: "unat (0::dec) \<le> 2" by simp
  note p = changes_page_is_next_segment [OF r g, unfolded len, OF p]
  have "length (cr_Ops res) = 1"
    using p by (cases "cr_Ops res") (simp_all add: clamp_limit_def MaxPageLimit_def)
  moreover from p have "More res \<longleftrightarrow> unat (0::dec) + length (cr_Ops res) < 2" by blast
  ultimately show ?thesis using r by auto
qed

text \<open>
  C10: paging to the end delivers everything. A client that asks for \<open>since = c\<close>, then for
  \<open>since = c +\<close> what it received, until \<open>more\<close> is clear, gets exactly the entries of the log after
  \<open>c\<close>, in order, each once, for every limit and every byte budget, and needs at most one request
  more than there are entries.
\<close>

theorem paging_delivers_whole_log:
  assumes "live_server (env, u, db)" "sound_server (env, u, db)" "c \<le> length (abs_log u db)"
    and "length (abs_log u db) - c < fuel"
  shows "drain (serve_page limit maxBytes (env, u, db)) fuel c
    = Some (page_of (abs_log u db) c (length (abs_log u db) - c))"
  using store_log.drain_all [of "(env, u, db)" c fuel] assms by simp

theorem paging_delivers_whole_log_witness:
  "\<exists>db. length (abs_log ''hub'' db) = 2
    \<and> drain (serve_page 1 1 (quiet_env, ''hub'', db)) 3 0 = Some (page_of (abs_log ''hub'' db) 0 2)"
proof -
  obtain db h where live: "live_server (quiet_env, ''hub'', db)" and snd: "sound_server (quiet_env, ''hub'', db)"
    and sp: "\<exists>ns. spec_push 1700000000000 [sample_op ''a'', sample_op ''b''] [] = (ns, abs_log ''hub'' db)"
    and "find_meta ''hub'' db = Some (h, ''5'')"
    by (rule pushed_server [of "[sample_op ''a'', sample_op ''b'']"]) (simp add: MaxInt64_def)
  from sp have "length (abs_log ''hub'' db) = 2"
    by (auto simp: spec_push_Cons spec_step_def op_entity_def sample_op_def simp del: length_abs_log dest!: sym [of _ "abs_log _ _"])
  with paging_delivers_whole_log [OF live snd, of 0 3 1 1] show ?thesis by auto
qed

end
