(* ===== verification/Store.thy ===== *)
theory Store
  imports Changes
begin

text \<open>
  \<open>internal/store/store.go\<close>: opening the database, the meta row that holds the hub's identity, the
  epoch and the head counter, and rotating the epoch. Outside \<open>Push\<close> the code issues its statements
  one by one, each committing on its own, so an operation that fails in the middle leaves the
  statements before it done; the model keeps that.

  The lemmas: a successful \<open>Open\<close> establishes the numbering invariant from any database whose rows
  are numbered, whatever the counter says, and the epoch it returns is the one in the database; the
  epoch rotates exactly when counter and log disagree; rotating never touches the log. Two limits of
  the detection are proved too: a database that is consistent in itself is never noticed, and a
  failure between the repair of the counter and the rotation loses the rotation.
\<close>

section \<open>Random values\<close>

text \<open>\<open>fmt.Sprintf("%x", b)\<close> of the 16 random bytes.\<close>

definition randomHubID :: "env \<Rightarrow> go_error + bytes" where
  "randomHubID env =
     (case env_rand_id env of
        None \<Rightarrow> Inl (OtherError ''store: generating hub id'')
      | Some b \<Rightarrow> Inr (concat (map (\<lambda>c. hex_digits 2 (byte_val c)) b)))"

text \<open>\<open>rand.Int\<close> gives a number below \<open>2 ^ 63\<close>; zero becomes one.\<close>

definition randomEpoch :: "env \<Rightarrow> go_error + dec" where
  "randomEpoch env =
     (case env_rand_epoch env of
        None \<Rightarrow> Inl (OtherError ''store: generating epoch'')
      | Some n \<Rightarrow> Inr (of_nat (if n = 0 then 1 else n)))"

section \<open>Meta row\<close>

record store =
  st_userID :: bytes
  st_epoch :: dec

definition first_meta :: "db \<Rightarrow> (bytes \<times> bytes) option" where
  "first_meta db = (case meta_table db of [] \<Rightarrow> None | m # _ \<Rightarrow> Some (meta_user m, meta_epoch m))"

definition loadOrCreateMeta :: "env \<Rightarrow> store io" where
  "loadOrCreateMeta env =
     bindI (query env first_meta) (\<lambda>row. case row of
       Some (userID, epoch) \<Rightarrow>
         bindI (liftI (epoch_of epoch)) (\<lambda>e. returnI \<lparr>st_userID = userID, st_epoch = e\<rparr>)
     | None \<Rightarrow>
         bindI (liftI (randomHubID env)) (\<lambda>userID.
         bindI (liftI (randomEpoch env)) (\<lambda>epoch.
         bindI (stmt env (insert_meta \<lparr>meta_user = userID, meta_epoch = DecString epoch, head_seq = 0\<rparr>)) (\<lambda>_.
           returnI \<lparr>st_userID = userID, st_epoch = epoch\<rparr>))))"

definition set_epoch :: "bytes \<Rightarrow> dec \<Rightarrow> db \<Rightarrow> db" where
  "set_epoch u epoch db =
     db\<lparr>meta_table := update_where (\<lambda>m. meta_user m = u) (\<lambda>m. m\<lparr>meta_epoch := DecString epoch\<rparr>) (meta_table db)\<rparr>"

definition BumpEpoch :: "env \<Rightarrow> store \<Rightarrow> store io" where
  "BumpEpoch env s =
     bindI (liftI (randomEpoch env)) (\<lambda>epoch.
     bindI (exec env (set_epoch (st_userID s) epoch)) (\<lambda>_.
       returnI (s\<lparr>st_epoch := epoch\<rparr>)))"

text \<open>\<open>SELECT MAX(seq)\<close>: \<open>NULL\<close> on an empty table.\<close>

definition max_seq :: "bytes \<Rightarrow> db \<Rightarrow> int option" where
  "max_seq u db =
     (case map row_seq (user_ops u db) of [] \<Rightarrow> None | x # xs \<Rightarrow> Some (foldl max x xs))"

definition actual_seq :: "int option \<Rightarrow> int" where
  "actual_seq maxSeq = (case maxSeq of None \<Rightarrow> 0 | Some m \<Rightarrow> m)"

definition verifyHeadConsistency :: "env \<Rightarrow> store \<Rightarrow> store io" where
  "verifyHeadConsistency env s =
     bindI (query env (find_head (st_userID s))) (\<lambda>found. case found of
       None \<Rightarrow> failI ErrNoRows
     | Some head \<Rightarrow>
         bindI (query env (max_seq (st_userID s))) (\<lambda>maxSeq.
           let actual = actual_seq maxSeq in
           if actual = head then returnI s
           else bindI (exec env (update_head (st_userID s) actual)) (\<lambda>_. BumpEpoch env s)))"

section \<open>Open\<close>

text \<open>A call into the operating system that leaves the tables alone, and one whose failure is only logged.\<close>

definition file_call :: "env \<Rightarrow> unit io" where
  "file_call env = query env (\<lambda>_. ())"

definition ignoreI :: "unit io \<Rightarrow> unit io" where
  "ignoreI m = (\<lambda>st. (Inr (), snd (m st)))"

definition verifyWAL :: "env \<Rightarrow> bytes \<Rightarrow> unit io" where
  "verifyWAL env journal_mode =
     bindI (query env (\<lambda>_. journal_mode)) (\<lambda>mode.
       if mode \<noteq> ''wal'' then failI (OtherError ''store: journal_mode'') else returnI ())"

definition restrictPermissions :: "env \<Rightarrow> unit io" where
  "restrictPermissions env = bindI (file_call env) (\<lambda>_. bindI (file_call env) (\<lambda>_. file_call env))"

text \<open>
  \<open>Open\<close>; the argument is the journal mode SQLite reports for the connection string that \<open>dsn\<close>
  builds. A chmod that fails because the file is missing counts as a call that succeeds.
\<close>

definition Open :: "env \<Rightarrow> bytes \<Rightarrow> store io" where
  "Open env journal_mode =
     bindI (file_call env) (\<lambda>_.
     bindI (ignoreI (file_call env)) (\<lambda>_.
     bindI (file_call env) (\<lambda>_.
     bindI (verifyWAL env journal_mode) (\<lambda>_.
     bindI (migrate env) (\<lambda>_.
     bindI (file_call env) (\<lambda>_.
     bindI (loadOrCreateMeta env) (\<lambda>s.
     bindI (restrictPermissions env) (\<lambda>_.
       verifyHeadConsistency env s))))))))"

section \<open>What a consistent store is\<close>

definition epoch_ok :: "store \<Rightarrow> db \<Rightarrow> bool" where
  "epoch_ok s db \<longleftrightarrow>
     (\<exists>head. find_meta (st_userID s) db = Some (head, DecString (st_epoch s))) \<and> st_epoch s \<noteq> 0"

definition store_ok :: "store \<Rightarrow> db \<Rightarrow> bool" where
  "store_ok s db \<longleftrightarrow> gapless (st_userID s) db \<and> epoch_ok s db"

text \<open>Rows that are numbered, whatever the counter row says.\<close>

definition rows_ok :: "bytes \<Rightarrow> db \<Rightarrow> bool" where
  "rows_ok u db \<longleftrightarrow> numbered u (int (length (user_ops u db))) db"

lemma max_seq_numbered:
  assumes "rows_ok u db"
  shows "actual_seq (max_seq u db) = int (length (user_ops u db))"
proof -
  have n: "map row_seq (user_ops u db) = [1..int (length (user_ops u db))]"
    using assms by (simp add: rows_ok_def numbered_def)
  have fold_last: "sorted (x # xs) \<Longrightarrow> foldl max x xs = last (x # xs)" for x :: int and xs
    by (induction xs arbitrary: x) (auto simp: max_def)
  show ?thesis
  proof (cases "user_ops u db")
    case Nil
    then show ?thesis by (simp add: max_seq_def actual_seq_def)
  next
    case (Cons r rs)
    then have xs: "map row_seq (user_ops u db) = row_seq r # map row_seq rs" by simp
    then have "sorted (row_seq r # map row_seq rs)" using n sorted_upto by metis
    from fold_last [OF this] have "max_seq u db = Some (last (map row_seq (user_ops u db)))"
      unfolding max_seq_def xs by simp
    then have "max_seq u db = Some (last [1..int (length (user_ops u db))])" by (simp only: n)
    moreover have "last [1..int (length (user_ops u db))] = int (length (user_ops u db))"
      using upto_rec2 [of 1 "int (length (user_ops u db))"] Cons by simp
    ultimately show ?thesis by (simp add: actual_seq_def)
  qed
qed

lemma gapless_rows: "gapless u db \<Longrightarrow> rows_ok u db"
  using gapless_numbered [of u db] by (simp add: rows_ok_def)

lemma set_epoch_simps [simp]:
  "ops_table (set_epoch u e db) = ops_table db"
  "user_ops u' (set_epoch u e db) = user_ops u' db"
  "abs_log u' (set_epoch u e db) = abs_log u' db"
  "numbered u' h (set_epoch u e db) = numbered u' h db"
  by (simp_all add: set_epoch_def user_ops_def abs_log_def numbered_def)

lemma find_meta_set_epoch:
  "find_meta u (set_epoch u e db) = map_option (\<lambda>(h, _). (h, DecString e)) (find_meta u db)"
  by (simp add: find_meta_def set_epoch_def find_update_same option.map_comp comp_def)

lemma find_meta_update_head:
  "find_meta u (update_head u h db) = map_option (\<lambda>(_, e). (h, e)) (find_meta u db)"
  by (simp add: find_meta_def update_head_def find_update_same option.map_comp comp_def)

lemma find_head_meta: "find_head u db = map_option fst (find_meta u db)"
  by (simp add: find_head_def find_meta_def option.map_comp comp_def)

lemma gapless_set_epoch [simp]: "gapless u (set_epoch u e db) = gapless u db"
  by (simp add: gapless_def find_head_meta find_meta_set_epoch split: option.splits)

lemma randomEpoch_positive:
  assumes "randomEpoch env = Inr e" "env_rand_epoch env = Some n" "n < 2 ^ 63"
  shows "e \<noteq> 0"
proof -
  have "unat e = (if n = 0 then 1 else n)"
    using assms by (auto simp: randomEpoch_def unat_of_nat take_bit_nat_eq_self)
  then show ?thesis by (metis unat_0 zero_neq_one)
qed

section \<open>What Open establishes\<close>

lemma file_call_Inr [io_simps]:
  "file_call env (k, db) = (Inr x, k', db') \<longleftrightarrow> \<not> env_fault env k \<and> k' = Suc k \<and> db' = db"
  by (auto simp: file_call_def io_simps)

lemma ignore_os_call [io_simps]: "ignoreI (file_call env) (k, db) = (r, k', db') \<longleftrightarrow> r = Inr () \<and> k' = Suc k \<and> db' = db"
  by (auto simp: ignoreI_def file_call_def query_def stmt_def)

lemma verifyWAL_Inr [io_simps]:
  "verifyWAL env mode (k, db) = (Inr x, k', db') \<longleftrightarrow> mode = ''wal'' \<and> \<not> env_fault env k \<and> k' = Suc k \<and> db' = db"
  by (auto simp: verifyWAL_def io_simps)

text \<open>Migration keeps the rows of a database that is already at the current version.\<close>

lemma migrate_Inr:
  assumes "migrate env (k, db) = (Inr x, k', db')"
  shows "db' = db \<and> user_version db = schemaVersion
    \<or> ops_table db' = [] \<and> meta_table db' = [] \<and> \<not> has_tables db \<and> user_version db < schemaVersion"
  using assms
  by (auto simp: migrate_def io_simps create_schema_def schemaVersion_def split: if_splits)

lemma loadOrCreateMeta_Inr:
  assumes "loadOrCreateMeta env (k, db) = (Inr s, k', db')"
  shows "(\<exists>m ms. meta_table db = m # ms \<and> db' = db \<and> st_userID s = meta_user m
            \<and> ParseDecPositive (meta_epoch m) = Inr (st_epoch s))
    \<or> (meta_table db = [] \<and> randomHubID env = Inr (st_userID s) \<and> randomEpoch env = Inr (st_epoch s)
        \<and> db' = db\<lparr>meta_table := [\<lparr>meta_user = st_userID s, meta_epoch = DecString (st_epoch s), head_seq = 0\<rparr>]\<rparr>)"
  using assms
  by (auto simp: loadOrCreateMeta_def io_simps first_meta_def epoch_of_def insert_meta_def
      split: list.splits option.splits sum.splits if_splits)

lemma BumpEpoch_Inr [io_simps]:
  "BumpEpoch env s (k, db) = (Inr s', k', db') \<longleftrightarrow>
     (\<exists>e. randomEpoch env = Inr e \<and> s' = s\<lparr>st_epoch := e\<rparr> \<and> \<not> env_fault env k \<and> k' = Suc k
        \<and> db' = set_epoch (st_userID s) e db)"
  by (auto simp: BumpEpoch_def io_simps)

lemma verify_Inr:
  assumes "verifyHeadConsistency env s (k, db) = (Inr s', k', db')" and rows: "rows_ok (st_userID s) db"
  shows "(gapless (st_userID s) db \<and> s' = s \<and> db' = db)
    \<or> (\<not> gapless (st_userID s) db \<and> (\<exists>e head. randomEpoch env = Inr e \<and> s' = s\<lparr>st_epoch := e\<rparr>
        \<and> find_head (st_userID s) db = Some head
        \<and> db' = set_epoch (st_userID s) e (update_head (st_userID s) (int (length (abs_log (st_userID s) db))) db)))"
proof -
  let ?u = "st_userID s"
  let ?n = "int (length (user_ops ?u db))"
  from assms(1) obtain head k1 where h: "find_head ?u db = Some head"
    and r: "(if actual_seq (max_seq ?u db) = head then returnI s
        else bindI (exec env (update_head ?u (actual_seq (max_seq ?u db)))) (\<lambda>_. BumpEpoch env s)) (k1, db)
      = (Inr s', k', db')"
    by (auto simp: verifyHeadConsistency_def io_simps Let_def split: option.splits)
  note r = r [unfolded max_seq_numbered [OF rows]]
  have g: "gapless ?u db \<longleftrightarrow> ?n = head"
    using rows h by (auto simp: gapless_def rows_ok_def numbered_def)
  show ?thesis
  proof (cases "?n = head")
    case True
    with r g show ?thesis by simp
  next
    case False
    with r g h show ?thesis by (auto simp: io_simps)
  qed
qed

lemma repaired_gapless:
  assumes "rows_ok u db" "find_head u db = Some h"
  shows "gapless u (set_epoch u e (update_head u (int (length (abs_log u db))) db))"
  using assms find_update_head [OF assms(2)] gaplessI [of u "update_head u (int (length (abs_log u db))) db"]
  by (simp add: rows_ok_def)

text \<open>\<open>crypto/rand\<close> keeps its range, and the rows of every user are numbered.\<close>

definition rand_ok :: "env \<Rightarrow> bool" where
  "rand_ok env = (case env_rand_epoch env of None \<Rightarrow> True | Some n \<Rightarrow> n < 2 ^ 63)"

definition rows_wf :: "db \<Rightarrow> bool" where
  "rows_wf db \<longleftrightarrow> list_all (\<lambda>r. rows_ok (row_user r) db) (ops_table db)"

lemma rows_wf_user: "rows_wf db \<Longrightarrow> rows_ok u db"
proof (cases "user_ops u db")
  case Nil
  then show ?thesis by (simp add: rows_ok_def numbered_def MaxInt64_def)
next
  case (Cons r rs)
  then have "r \<in> set (user_ops u db)" by simp
  moreover assume "rows_wf db"
  ultimately show ?thesis by (auto simp: user_ops_def rows_wf_def list_all_iff)
qed

lemma rows_ok_cong: "ops_table db' = ops_table db \<Longrightarrow> rows_ok u db' = rows_ok u db"
  by (simp add: rows_ok_def numbered_def user_ops_def)

lemma rand_epoch_pos: "rand_ok env \<Longrightarrow> randomEpoch env = Inr e \<Longrightarrow> e \<noteq> 0"
  using randomEpoch_positive [of env e]
  by (auto simp: rand_ok_def randomEpoch_def split: option.splits)

lemma load_ok:
  assumes "loadOrCreateMeta env (k, db) = (Inr s, k', db')" "rand_ok env"
  shows "epoch_ok s db'" "ops_table db' = ops_table db"
  using loadOrCreateMeta_Inr [OF assms(1)] rand_epoch_pos [OF assms(2), of "st_epoch s"]
  by (auto simp: epoch_ok_def find_meta_def ParseDecPositive_Inr_iff)

lemma verify_ok:
  assumes "verifyHeadConsistency env s (k, db) = (Inr s', k', db')" "rows_ok (st_userID s) db"
    "epoch_ok s db" "rand_ok env"
  shows "store_ok s' db'" "ops_table db' = ops_table db" "st_userID s' = st_userID s"
proof -
  obtain h where fm: "find_meta (st_userID s) db = Some (h, DecString (st_epoch s))"
    using assms(3) by (auto simp: epoch_ok_def)
  have "store_ok s' db' \<and> ops_table db' = ops_table db \<and> st_userID s' = st_userID s"
    using verify_Inr [OF assms(1,2)]
  proof (elim disjE conjE exE)
    assume "gapless (st_userID s) db" "s' = s" "db' = db"
    with assms(3) show ?thesis by (simp add: store_ok_def)
  next
    fix e head
    assume e: "randomEpoch env = Inr e" "s' = s\<lparr>st_epoch := e\<rparr>" "find_head (st_userID s) db = Some head"
      and db': "db' = set_epoch (st_userID s) e (update_head (st_userID s) (int (length (abs_log (st_userID s) db))) db)"
    have "find_meta (st_userID s) db' = Some (int (length (abs_log (st_userID s) db)), DecString e)"
      unfolding db' by (simp only: find_meta_set_epoch find_meta_update_head fm option.map prod.case)
    moreover have "gapless (st_userID s) db'" unfolding db' by (rule repaired_gapless [OF assms(2) e(3)])
    ultimately show ?thesis
      using rand_epoch_pos [OF assms(4) e(1)] e(2) by (simp add: store_ok_def epoch_ok_def db')
  qed
  then show "store_ok s' db'" "ops_table db' = ops_table db" "st_userID s' = st_userID s" by simp_all
qed

lemma Open_Inr:
  assumes "run (Open env mode) db = (Inr s, db')" "rand_ok env" "rows_wf db"
  shows "store_ok s db'" "user_version db = schemaVersion \<Longrightarrow> ops_table db' = ops_table db" "mode = ''wal''"
proof -
  from assms(1) obtain k1 db1 x1 k2 db2 s0 k3 k4 k5 where mode: "mode = ''wal''"
    and m: "migrate env (k1, db) = (Inr x1, k2, db1)"
    and l: "loadOrCreateMeta env (Suc k2, db1) = (Inr s0, k3, db2)"
    and v: "verifyHeadConsistency env s0 (k4, db2) = (Inr s, k5, db')"
    by (auto simp: run_eq Open_def restrictPermissions_def io_simps)
  have "rows_wf db1" using migrate_Inr [OF m] assms(3) by (auto simp: rows_wf_def)
  then have r: "rows_ok (st_userID s0) db2"
    using rows_wf_user rows_ok_cong [OF load_ok(2) [OF l assms(2)]] by blast
  note vo = verify_ok [OF v r load_ok(1) [OF l assms(2)] assms(2)]
  show "store_ok s db'" by (rule vo(1))
  show "mode = ''wal''" by (rule mode)
  show "ops_table db' = ops_table db" if "user_version db = schemaVersion"
    using vo(2) load_ok(2) [OF l assms(2)] migrate_Inr [OF m] that by simp
qed

text \<open>The same without any assumption on the rows: the counter ends as the highest number there is.\<close>

lemma max_seq_cong: "ops_table db' = ops_table db \<Longrightarrow> max_seq u db' = max_seq u db"
  by (simp add: max_seq_def user_ops_def)

lemma verify_exact:
  assumes "verifyHeadConsistency env s (k, db) = (Inr s', k', db')"
  obtains (same) "find_head (st_userID s) db = Some (actual_seq (max_seq (st_userID s) db))" "s' = s" "db' = db"
  | (drift) e where "find_head (st_userID s) db \<noteq> Some (actual_seq (max_seq (st_userID s) db))" "randomEpoch env = Inr e"
      "s' = s\<lparr>st_epoch := e\<rparr>" "db' = set_epoch (st_userID s) e (update_head (st_userID s) (actual_seq (max_seq (st_userID s) db)) db)"
  using assms by (auto simp: verifyHeadConsistency_def io_simps Let_def split: option.splits if_splits)

lemma verified_meta:
  assumes "verifyHeadConsistency env s (k, db) = (Inr s', k', db')" "epoch_ok s db" "rand_ok env"
  shows "st_userID s' = st_userID s" "ops_table db' = ops_table db" "st_epoch s' \<noteq> 0"
    "find_meta (st_userID s) db' = Some (actual_seq (max_seq (st_userID s) db'), DecString (st_epoch s'))"
proof -
  obtain h where fm: "find_meta (st_userID s) db = Some (h, DecString (st_epoch s))" and pos: "st_epoch s \<noteq> 0"
    using assms(2) by (auto simp: epoch_ok_def)
  have "st_userID s' = st_userID s \<and> ops_table db' = ops_table db \<and> st_epoch s' \<noteq> 0
    \<and> find_meta (st_userID s) db' = Some (actual_seq (max_seq (st_userID s) db'), DecString (st_epoch s'))"
    using assms(1)
  proof (cases rule: verify_exact)
    case same
    with fm pos show ?thesis by (simp add: find_head_meta)
  next
    case (drift e)
    have ops: "ops_table db' = ops_table db" by (simp add: drift(4) update_head_def)
    with drift fm rand_epoch_pos [OF assms(3) drift(2)] max_seq_cong [OF ops] show ?thesis
      by (simp add: find_meta_set_epoch find_meta_update_head)
  qed
  then show "st_userID s' = st_userID s" "ops_table db' = ops_table db" "st_epoch s' \<noteq> 0"
    "find_meta (st_userID s) db' = Some (actual_seq (max_seq (st_userID s) db'), DecString (st_epoch s'))" by simp_all
qed

lemma Open_steps:
  assumes "run (Open env mode) db = (Inr s, db')"
  obtains k1 x1 k2 db1 s0 k3 db2 k4 k5 where "mode = ''wal''" "migrate env (k1, db) = (Inr x1, k2, db1)"
    "loadOrCreateMeta env (Suc k2, db1) = (Inr s0, k3, db2)" "verifyHeadConsistency env s0 (k4, db2) = (Inr s, k5, db')"
  using assms by (auto simp: run_eq Open_def restrictPermissions_def io_simps)

lemma Open_meta:
  assumes "Open env mode (k, db) = (Inr s, k', db')" "rand_ok env"
  shows "map_option snd (find_meta (st_userID s) db') = Some (DecString (st_epoch s))"
proof -
  from assms(1) obtain k1 x1 k2 db1 s0 k3 db2 k4 k5 where l: "loadOrCreateMeta env (Suc k2, db1) = (Inr s0, k3, db2)"
    and v: "verifyHeadConsistency env s0 (k4, db2) = (Inr s, k5, db')"
    by (auto simp: Open_def restrictPermissions_def io_simps)
  from verified_meta [OF v load_ok(1) [OF l assms(2)] assms(2)] show ?thesis by simp
qed

lemma reopened:
  assumes "run (Open env mode) db = (Inr s, db')" "user_version db = schemaVersion" "first_meta db = Some (u, e)"
  shows "st_userID s = u \<and> (if find_head u db = Some (actual_seq (max_seq u db)) then DecString (st_epoch s) = e \<and> db' = db
    else randomEpoch env = Inr (st_epoch s))"
proof -
  obtain k1 x1 k2 db1 s0 k3 db2 k4 k5 where m: "migrate env (k1, db) = (Inr x1, k2, db1)"
    and l: "loadOrCreateMeta env (Suc k2, db1) = (Inr s0, k3, db2)"
    and v: "verifyHeadConsistency env s0 (k4, db2) = (Inr s, k5, db')"
    using Open_steps [OF assms(1)] by metis
  have "db1 = db" using migrate_Inr [OF m] assms(2) by auto
  with loadOrCreateMeta_Inr [OF l] assms(3) have "db2 = db" "st_userID s0 = u" "e = DecString (st_epoch s0)"
    by (auto simp: first_meta_def ParseDecPositive_Inr_iff split: list.splits)
  with v show ?thesis by (cases rule: verify_exact) auto
qed

section \<open>Properties of opening a store\<close>

lemma quiet_env_rand [simp]: "rand_ok quiet_env" "env_rand_epoch quiet_env = Some 5" "env_rand_id quiet_env = Some [CHR 0x07]"
  by (simp_all add: rand_ok_def quiet_env_def)

lemma new_db_rows_wf [simp]: "rows_wf new_db" "rows_wf (new_db\<lparr>meta_table := m\<rparr>)" "rows_wf empty_db"
  by (simp_all add: rows_wf_def new_db_def empty_db_def)

text \<open>A store that drifted: the counter row says 7, the table is empty.\<close>

definition drifted_db :: db where
  "drifted_db = new_db\<lparr>meta_table := [\<lparr>meta_user = ''hub'', meta_epoch = ''5'', head_seq = 7\<rparr>]\<rparr>"

definition new_store :: store where
  "new_store = \<lparr>st_userID = ''hub'', st_epoch = 5\<rparr>"

lemma drifted_db_facts [simp]:
  "rows_ok ''hub'' drifted_db" "find_head ''hub'' drifted_db = Some 7" "\<not> gapless ''hub'' drifted_db"
  "rows_wf drifted_db"
  by (simp_all add: drifted_db_def rows_ok_def numbered_def user_ops_def find_head_def gapless_def new_db_def
      MaxInt64_def rows_wf_def)

lemma verify_consistent:
  assumes "gapless (st_userID s) db" "\<And>k. \<not> env_fault env k"
  shows "run (verifyHeadConsistency env s) db = (Inr s, db)"
proof -
  have "actual_seq (max_seq (st_userID s) db) = int (length (abs_log (st_userID s) db))"
    using max_seq_numbered [OF gapless_rows [OF assms(1)]] by simp
  with gapless_head [OF assms(1)] assms(2) show ?thesis
    by (simp add: run_def verifyHeadConsistency_def bindI_def)
qed

text \<open>
  C9: what \<open>Open\<close> establishes, on any database, whatever its rows and its counter say. It returns a store only in WAL
  mode; then the counter row of the hub is the highest sequence number among its operations, and the epoch in
  it is positive and is the one the store serves. The operations of a database that has tables are kept. A hub that was
  there keeps its identity; if its counter agreed with its operations it keeps its epoch and nothing was
  written, and otherwise it serves a freshly drawn epoch. In particular, when the operations were numbered from one
  without a gap, the counter is the length of the log; a gap in the middle is not looked for.
\<close>

theorem Open_establishes_store:
  assumes "run (Open env mode) db = (Inr s, db')" "rand_ok env"
  shows "mode = ''wal''
    \<and> find_meta (st_userID s) db' = Some (actual_seq (max_seq (st_userID s) db'), DecString (st_epoch s)) \<and> st_epoch s \<noteq> 0
    \<and> (has_tables db \<or> user_version db = schemaVersion \<longrightarrow> ops_table db' = ops_table db)
    \<and> (user_version db = schemaVersion \<and> first_meta db = Some (u, e) \<longrightarrow>
        st_userID s = u \<and> (if find_head u db = Some (actual_seq (max_seq u db)) then DecString (st_epoch s) = e \<and> db' = db
          else randomEpoch env = Inr (st_epoch s)))
    \<and> (rows_wf db \<longrightarrow> gapless (st_userID s) db')"
proof -
  obtain k1 x1 k2 db1 s0 k3 db2 k4 k5 where mode: "mode = ''wal''" and m: "migrate env (k1, db) = (Inr x1, k2, db1)"
    and l: "loadOrCreateMeta env (Suc k2, db1) = (Inr s0, k3, db2)"
    and v: "verifyHeadConsistency env s0 (k4, db2) = (Inr s, k5, db')"
    using Open_steps [OF assms(1)] by metis
  note vm = verified_meta [OF v load_ok(1) [OF l assms(2)] assms(2)]
  have "has_tables db \<or> user_version db = schemaVersion \<longrightarrow> ops_table db' = ops_table db"
    using migrate_Inr [OF m] load_ok(2) [OF l assms(2)] vm(2) by auto
  moreover have "rows_wf db \<longrightarrow> gapless (st_userID s) db'"
    using Open_Inr(1) [OF assms] by (simp add: store_ok_def)
  ultimately show ?thesis using mode vm reopened [OF assms(1)] by simp
qed

text \<open>A counter of 7 over no operations: the counter is repaired and the epoch is the one that was drawn.\<close>

theorem Open_establishes_store_witness:
  "\<exists>s db'. run (Open quiet_env ''wal'') drifted_db = (Inr s, db') \<and> randomEpoch quiet_env = Inr (st_epoch s)
    \<and> find_meta ''hub'' db' = Some (actual_seq (max_seq ''hub'' db'), DecString (st_epoch s)) \<and> gapless ''hub'' db'"
proof -
  have e: "epoch_of ''5'' = Inr 5" by (simp add: epoch_of_def stored_five)
  have "\<exists>s db'. run (Open quiet_env ''wal'') drifted_db = (Inr s, db')"
    by (simp add: run_def Open_def bindI_def file_call_def ignoreI_def verifyWAL_def migrate_def loadOrCreateMeta_def
        restrictPermissions_def verifyHeadConsistency_def BumpEpoch_def randomEpoch_def first_meta_def e Let_def
        drifted_db_def new_db_def schemaVersion_def find_head_def max_seq_def user_ops_def actual_seq_def)
  then obtain s db' where r: "run (Open quiet_env ''wal'') drifted_db = (Inr s, db')" by blast
  have "user_version drifted_db = schemaVersion" "first_meta drifted_db = Some (''hub'', ''5'')"
    "actual_seq (max_seq ''hub'' drifted_db) = 0"
    by (simp_all add: drifted_db_def new_db_def schemaVersion_def first_meta_def max_seq_def user_ops_def actual_seq_def)
  with r Open_establishes_store [OF r quiet_env_rand(1), of "''hub''" "''5''"] show ?thesis by auto
qed

text \<open>
  The epoch rotates exactly on drift. On a database whose counter agrees with the log the check
  changes nothing; otherwise it sets the counter to the length of the log, keeps every operation, and
  stores and serves a freshly drawn epoch.
\<close>

theorem verify_rotates_iff_drifted:
  assumes "run (verifyHeadConsistency env s) db = (Inr s', db')" "rows_ok (st_userID s) db"
  shows "if gapless (st_userID s) db then s' = s \<and> db' = db
    else randomEpoch env = Inr (st_epoch s') \<and> st_userID s' = st_userID s \<and> ops_table db' = ops_table db
      \<and> gapless (st_userID s) db'
      \<and> find_meta (st_userID s) db' = Some (int (length (abs_log (st_userID s) db)), DecString (st_epoch s'))"
proof -
  from assms(1) obtain k' where "verifyHeadConsistency env s (0, db) = (Inr s', k', db')" by (auto simp: run_eq)
  from verify_Inr [OF this assms(2)] show ?thesis
    using repaired_gapless [OF assms(2)]
    by (auto simp: find_meta_set_epoch find_meta_update_head find_head_meta)
qed

theorem verify_rotates_iff_drifted_witness:
  "\<exists>s' db'. run (verifyHeadConsistency (quiet_env\<lparr>env_rand_epoch := Some 9\<rparr>) new_store) drifted_db = (Inr s', db')
    \<and> st_epoch s' = 9 \<and> gapless ''hub'' db'"
proof -
  have "\<exists>s' db'. run (verifyHeadConsistency (quiet_env\<lparr>env_rand_epoch := Some 9\<rparr>) new_store) drifted_db = (Inr s', db')"
    by (simp add: run_def verifyHeadConsistency_def BumpEpoch_def randomEpoch_def bindI_def Let_def new_store_def
        max_seq_def user_ops_def actual_seq_def drifted_db_def new_db_def find_head_def)
  then obtain s' db' where
    r: "run (verifyHeadConsistency (quiet_env\<lparr>env_rand_epoch := Some 9\<rparr>) new_store) drifted_db = (Inr s', db')" by blast
  with verify_rotates_iff_drifted [OF r] show ?thesis by (auto simp: new_store_def randomEpoch_def)
qed

text \<open>
  C19: an interrupted repair loses the rotation. The counter and the epoch are written by two
  statements that commit separately. When the second fails on a drifted store, the repaired counter
  stays, the epoch does not change, and the next start finds a consistent store: it succeeds with
  the old epoch, so devices whose cursors are past the end of the log are never told to start over.
\<close>

theorem interrupted_repair_loses_rotation:
  assumes "rows_ok (st_userID s) db" "find_head (st_userID s) db = Some head"
    and "head \<noteq> int (length (abs_log (st_userID s) db))"
    and "randomEpoch env = Inr e" "env_fault env = (\<lambda>k. k = 3)"
  shows "\<exists>db1. run (verifyHeadConsistency env s) db = (Inl sql_error, db1)
    \<and> map_option snd (find_meta (st_userID s) db1) = map_option snd (find_meta (st_userID s) db)
    \<and> (\<forall>env'. env_fault env' = (\<lambda>_. False) \<longrightarrow> run (verifyHeadConsistency env' s) db1 = (Inr s, db1))"
proof -
  let ?u = "st_userID s"
  let ?db1 = "update_head ?u (int (length (abs_log ?u db))) db"
  have act: "actual_seq (max_seq ?u db) = int (length (abs_log ?u db))"
    using max_seq_numbered [OF assms(1)] by simp
  have "run (verifyHeadConsistency env s) db = (Inl sql_error, ?db1)"
    using assms(2-5) act
    by (simp add: run_def verifyHeadConsistency_def BumpEpoch_def bindI_def query_def exec_def stmt_def Let_def)
  moreover have "gapless ?u ?db1"
    using gaplessI [OF find_update_head [OF assms(2)]] assms(1) by (simp add: rows_ok_def)
  moreover have "map_option snd (find_meta ?u ?db1) = map_option snd (find_meta ?u db)"
    by (simp add: find_meta_ids)
  ultimately show ?thesis using verify_consistent by fastforce
qed

theorem interrupted_repair_loses_rotation_witness:
  "\<exists>db1. run (verifyHeadConsistency (quiet_env\<lparr>env_fault := (\<lambda>k. k = 3)\<rparr>) new_store) drifted_db = (Inl sql_error, db1)
    \<and> run (verifyHeadConsistency quiet_env new_store) db1 = (Inr new_store, db1)"
  using interrupted_repair_loses_rotation [of new_store drifted_db 7 "quiet_env\<lparr>env_fault := (\<lambda>k. k = 3)\<rparr>" 5]
  by (auto simp: new_store_def randomEpoch_def abs_log_def user_ops_def drifted_db_def new_db_def
      rows_ok_def numbered_def find_head_def MaxInt64_def quiet_env_def)

end
