(* ===== verification/Strings.thy ===== *)
theory Strings
  imports Utf8
begin

text \<open>
  The functions of Go's \<open>strings\<close> package the program calls on configuration text, key files and
  headers: \<open>TrimSpace\<close> (with Unicode's white space), \<open>EqualFold\<close>, \<open>Split\<close>, \<open>HasPrefix\<close> and
  \<open>IndexByte\<close>.
\<close>

section \<open>TrimSpace\<close>

text \<open>The encodings of the runes with Unicode's White\_Space property.\<close>

definition space_encodings :: "bytes list" where
  "space_encodings = map encode_rune
     [0x09, 0x0A, 0x0B, 0x0C, 0x0D, 0x20, 0x85, 0xA0, 0x1680, 0x2000, 0x2001, 0x2002, 0x2003, 0x2004,
      0x2005, 0x2006, 0x2007, 0x2008, 0x2009, 0x200A, 0x2028, 0x2029, 0x202F, 0x205F, 0x3000]"

definition has_prefix :: "bytes \<Rightarrow> bytes \<Rightarrow> bool" where
  "has_prefix p s \<longleftrightarrow> take (length p) s = p"

function strip :: "bytes list \<Rightarrow> bytes \<Rightarrow> bytes" where
  "strip ws s =
     (case find (\<lambda>w. w \<noteq> [] \<and> has_prefix w s) ws of
        None \<Rightarrow> s
      | Some w \<Rightarrow> strip ws (drop (length w) s))"
  by pat_completeness auto
termination
proof (relation "measure (\<lambda>(ws, s). length s)", goal_cases)
  case 1
  then show ?case by simp
next
  case (2 ws s w)
  then have "w \<noteq> [] \<and> has_prefix w s" by (auto dest: find_SomeD)
  then have "0 < length w" "0 < length s" by (auto simp: has_prefix_def)
  then show ?case by simp
qed

declare strip.simps [simp del]

definition trim_space :: "bytes \<Rightarrow> bytes" where
  "trim_space s = rev (strip (map rev space_encodings) (rev (strip space_encodings s)))"

section \<open>EqualFold on ASCII\<close>

text \<open>
  \<open>strings.EqualFold\<close> of a string with an ASCII string. Simple folding maps exactly two runes outside
  ASCII to ASCII letters: U+017F to \<open>s\<close> and U+212A to \<open>k\<close>; every other rune is only equal to itself
  here.
\<close>

definition fold_ascii :: "nat \<Rightarrow> nat" where
  "fold_ascii r =
     (if 97 \<le> r \<and> r \<le> 122 then r - 32
      else if r = 0x17F then 83
      else if r = 0x212A then 75
      else r)"

function runes :: "bytes \<Rightarrow> nat list" where
  "runes [] = []"
| "runes (c # cs) = (case decode_rune (c # cs) of (r, n) \<Rightarrow> r # runes (drop n (c # cs)))"
  by pat_completeness auto
termination
  by (relation "measure length") (auto dest: decode_rune_pos)

declare runes.simps(2) [simp del]

definition equal_fold :: "bytes \<Rightarrow> bytes \<Rightarrow> bool" where
  "equal_fold s t \<longleftrightarrow> map fold_ascii (runes s) = map fold_ascii (runes t)"

lemma equal_fold_refl [simp]: "equal_fold s s"
  by (simp add: equal_fold_def)

section \<open>Splitting\<close>

text \<open>\<open>strings.Split(s, sep)\<close> for a separator of one byte.\<close>

fun split_on :: "char \<Rightarrow> bytes \<Rightarrow> bytes list" where
  "split_on sep [] = [[]]"
| "split_on sep (c # cs) =
     (if c = sep then [] # split_on sep cs
      else case split_on sep cs of
        [] \<Rightarrow> [[c]]
      | p # ps \<Rightarrow> (c # p) # ps)"

fun join_with :: "char \<Rightarrow> bytes list \<Rightarrow> bytes" where
  "join_with sep [] = []"
| "join_with sep [p] = p"
| "join_with sep (p # ps) = p @ [sep] @ join_with sep ps"

lemma split_on_nonempty [simp]: "split_on sep s \<noteq> []"
  by (cases s) (auto split: list.splits)

lemma join_split: "join_with sep (split_on sep s) = s"
proof (induction s)
  case Nil
  then show ?case by simp
next
  case (Cons c s)
  then show ?case
    by (cases "split_on sep s"; cases "tl (split_on sep s)") auto
qed

lemma split_no_sep: "sep \<notin> set p \<Longrightarrow> split_on sep p = [p]"
  by (induction p) auto

lemma split_append: "sep \<notin> set p \<Longrightarrow> split_on sep (p @ sep # s) = p # split_on sep s"
  by (induction p) auto

lemma split_join:
  "ps \<noteq> [] \<Longrightarrow> (\<And>p. p \<in> set ps \<Longrightarrow> sep \<notin> set p) \<Longrightarrow> split_on sep (join_with sep ps) = ps"
  by (induction ps rule: join_with.induct) (auto simp: split_no_sep split_append)

section \<open>Stripping\<close>

lemma strip_stop: "(\<And>w. w \<in> set ws \<Longrightarrow> w \<noteq> [] \<Longrightarrow> \<not> has_prefix w s) \<Longrightarrow> strip ws s = s"
proof -
  assume "\<And>w. w \<in> set ws \<Longrightarrow> w \<noteq> [] \<Longrightarrow> \<not> has_prefix w s"
  then have "find (\<lambda>w. w \<noteq> [] \<and> has_prefix w s) ws = None" by (auto simp: find_None_iff)
  then show ?thesis by (subst strip.simps) simp
qed

text \<open>No encoding of a space begins or ends with a printable ASCII byte.\<close>

definition solid :: "char \<Rightarrow> bool" where
  "solid c \<longleftrightarrow> 33 \<le> byte_val c \<and> byte_val c \<le> 126"

lemma space_encodings_bytes:
  "space_encodings =
   [[CHR 0x09], [CHR 0x0A], [CHR 0x0B], [CHR 0x0C], [CHR 0x0D], [CHR 0x20], [CHR 0xC2, CHR 0x85], [CHR
    0xC2, CHR 0xA0], [CHR 0xE1, CHR 0x9A, CHR 0x80], [CHR 0xE2, CHR 0x80, CHR 0x80], [CHR 0xE2, CHR
    0x80, CHR 0x81], [CHR 0xE2, CHR 0x80, CHR 0x82], [CHR 0xE2, CHR 0x80, CHR 0x83], [CHR 0xE2, CHR
    0x80, CHR 0x84], [CHR 0xE2, CHR 0x80, CHR 0x85], [CHR 0xE2, CHR 0x80, CHR 0x86], [CHR 0xE2, CHR
    0x80, CHR 0x87], [CHR 0xE2, CHR 0x80, CHR 0x88], [CHR 0xE2, CHR 0x80, CHR 0x89], [CHR 0xE2, CHR
    0x80, CHR 0x8A], [CHR 0xE2, CHR 0x80, CHR 0xA8], [CHR 0xE2, CHR 0x80, CHR 0xA9], [CHR 0xE2, CHR
    0x80, CHR 0xAF], [CHR 0xE2, CHR 0x81, CHR 0x9F], [CHR 0xE3, CHR 0x80, CHR 0x80]]"
  by (simp add: space_encodings_def encode_rune_def byte_val_eq [symmetric])

lemma space_encodings_not_solid:
  "list_all (\<lambda>w. w \<noteq> [] \<and> \<not> solid (hd w) \<and> \<not> solid (last w)) space_encodings"
  by (simp add: space_encodings_bytes solid_def)

lemma has_prefix_hd: "has_prefix w s \<Longrightarrow> w \<noteq> [] \<Longrightarrow> hd w = hd s"
  by (auto simp: has_prefix_def) (metis hd_take length_greater_0_conv)

lemma strip_solid: "solid (hd s) \<Longrightarrow> strip space_encodings s = s"
  using space_encodings_not_solid by (intro strip_stop) (metis list_all_iff has_prefix_hd)

lemma strip_rev_solid: "solid (hd s) \<Longrightarrow> strip (map rev space_encodings) s = s"
  using space_encodings_not_solid
  by (intro strip_stop) (auto simp: list_all_iff hd_rev dest!: has_prefix_hd)

lemma trim_space_Nil [simp]: "trim_space [] = []"
proof -
  have "strip ws [] = []" for ws
    by (subst strip.simps) (auto simp: has_prefix_def dest!: find_SomeD split: option.splits)
  then show ?thesis by (simp add: trim_space_def)
qed

lemma trim_space_solid: "s \<noteq> [] \<Longrightarrow> solid (hd s) \<Longrightarrow> solid (last s) \<Longrightarrow> trim_space s = s"
  by (simp add: trim_space_def strip_solid strip_rev_solid hd_rev)

lemma strip_newline:
  assumes "solid (hd s)"
  shows "strip (map rev space_encodings) (CHR 0x0A # s) = s"
proof -
  have "find (\<lambda>w. w \<noteq> [] \<and> has_prefix w (CHR 0x0A # s)) (map rev space_encodings) = Some [CHR 0x0A]"
    by (simp add: space_encodings_bytes has_prefix_def)
  then show ?thesis by (subst strip.simps) (simp add: strip_rev_solid [OF assms])
qed

text \<open>A line that starts and ends with printable characters loses only its newline.\<close>

lemma trim_space_line: "s \<noteq> [] \<Longrightarrow> solid (hd s) \<Longrightarrow> solid (last s) \<Longrightarrow> trim_space (s @ [CHR 0x0A]) = s"
  by (simp add: trim_space_def strip_solid strip_newline hd_rev)

end
