(* ===== verification/Pair.thy ===== *)
theory Pair
  imports Digest Strings
begin

text \<open>
  \<open>internal/pair\<close>: the pre-shared key (\<open>pair.go\<close>), the in-memory pairing window (\<open>codes.go\<close>) and
  the window shared between processes through a file (\<open>window_file.go\<close>).

  Times are integers (milliseconds for the file, any unit for the in-memory window). Random bytes and
  the outcome of every file operation come from an environment. The window file is modelled by what
  \<open>json.Unmarshal\<close> makes of its contents: a state, or something it refuses; \<open>writeAtomic\<close> of a
  marshalled state leaves that state.

  The locale \<open>pair_exchanger\<close> is what the hub relies on when it hands a stranger's guess to
  \<open>Redeem\<close>: a budget that every code looked at consumes when it is wrong, and that a success exhausts. Its
  consequences, for any sequence of requests, are at most one success and at most as many codes looked at in
  vain as the budget. Both windows are instances; the file window is one as long as its file can be written,
  and the last lemmas show what happens when it cannot.
\<close>

section \<open>Codes\<close>

definition codeDigits :: nat where "codeDigits = 9"
definition MaxAttempts :: nat where "MaxAttempts = 5"
definition DefaultWindow :: int where "DefaultWindow = 5 * 60 * 1000"

datatype pair_error = ErrNoWindow | ErrBadCode | ErrTooManyAttempts | PairOther bytes

fun normalise :: "bytes \<Rightarrow> bytes" where
  "normalise [] = []"
| "normalise (c # cs) = (if is_digit c then c # normalise cs else normalise cs)"

text \<open>Nine calls of \<open>rand.Int\<close>, each a number below ten or a failure.\<close>

definition rand_digits :: "(nat \<Rightarrow> nat option) \<Rightarrow> bytes option" where
  "rand_digits rnd =
     (if list_all (\<lambda>i. rnd i \<noteq> None) [0..<codeDigits]
      then Some (map (\<lambda>i. digit_char (the (rnd i))) [0..<codeDigits]) else None)"

definition newCode :: "(nat \<Rightarrow> nat option) \<Rightarrow> pair_error + bytes" where
  "newCode rnd =
     (case rand_digits rnd of
        None \<Rightarrow> Inl (PairOther ''rand'')
      | Some ds \<Rightarrow> Inr (take 3 ds @ ''-'' @ take 3 (drop 3 ds) @ ''-'' @ take 3 (drop 6 ds)))"

section \<open>The in-memory window\<close>

record window =
  w_code :: bytes
  w_psk :: bytes
  w_expires :: int
  w_attempts :: nat
  w_redeemed :: bool

definition NewWindow :: "(nat \<Rightarrow> nat option) \<Rightarrow> int \<Rightarrow> bytes \<Rightarrow> int \<Rightarrow> pair_error + window" where
  "NewWindow rnd now psk ttl0 =
     (let ttl = (if ttl0 \<le> 0 then DefaultWindow else ttl0) in
      bindE (newCode rnd) (\<lambda>code.
        Inr \<lparr>w_code = code, w_psk = psk, w_expires = now + ttl, w_attempts = 0, w_redeemed = False\<rparr>))"

definition Redeem :: "int \<times> bytes \<Rightarrow> window \<Rightarrow> (pair_error + bytes) \<times> window" where
  "Redeem = (\<lambda>(now, code) w.
     if w_redeemed w \<or> w_code w = [] then (Inl ErrNoWindow, w)
     else if now > w_expires w then (Inl ErrNoWindow, w\<lparr>w_code := []\<rparr>)
     else if w_attempts w \<ge> MaxAttempts then (Inl ErrTooManyAttempts, w\<lparr>w_code := []\<rparr>)
     else if normalise code \<noteq> normalise (w_code w) then
       (let w' = w\<lparr>w_attempts := w_attempts w + 1\<rparr> in
        if w_attempts w' \<ge> MaxAttempts then (Inl ErrTooManyAttempts, w'\<lparr>w_code := []\<rparr>)
        else (Inl ErrBadCode, w'))
     else (Inr (w_psk w), w\<lparr>w_redeemed := True\<rparr>))"

section \<open>The key\<close>

record keys =
  PSK :: bytes

text \<open>The data directory: the key file, the window file, and the lock file's modification time.\<close>

record window_state =
  CodeHash :: bytes
  ExpiresAt :: int
  Attempts :: int

datatype window_file = Parsed window_state | Unreadable

record pair_dir =
  pd_key :: "bytes option"
  pd_window :: "window_file option"

text \<open>
  What the surroundings decide for one operation: the clock, the 32 random bytes, the random digits,
  and which file operations succeed.
\<close>

record pair_env =
  pe_now :: int
  pe_secret :: "bytes option"
  pe_rnd :: "nat \<Rightarrow> nat option"
  pe_mkdir_ok :: bool
  pe_lock_ok :: bool
  pe_read_ok :: bool
  pe_write_ok :: bool
  pe_remove_ok :: bool
  pe_chmod_ok :: bool
  pe_key_read_ok :: bool
  pe_key_write_ok :: bool
  pe_rename_ok :: bool

definition newSecret :: "pair_env \<Rightarrow> pair_error + bytes" where
  "newSecret env =
     (case pe_secret env of
        None \<Rightarrow> Inl (PairOther ''pair: generating random material'')
      | Some b \<Rightarrow> Inr (b64_encode b))"

definition LoadOrCreate :: "pair_env \<Rightarrow> pair_dir \<Rightarrow> (pair_error + keys) \<times> pair_dir" where
  "LoadOrCreate env dir =
     (if \<not> pe_mkdir_ok env then (Inl (PairOther ''pair: creating data directory''), dir)
      else if \<not> pe_key_read_ok env then (Inl (PairOther ''pair: reading key file''), dir)
      else case pd_key dir of
        Some b \<Rightarrow>
          (let psk = trim_space b in
           if psk = [] then (Inl (PairOther ''pair: stored key is empty''), dir)
           else if \<not> pe_chmod_ok env then (Inl (PairOther ''pair: securing key file''), dir)
           else (Inr \<lparr>PSK = psk\<rparr>, dir))
      | None \<Rightarrow>
          (case newSecret env of
             Inl e \<Rightarrow> (Inl e, dir)
           | Inr psk \<Rightarrow>
               if \<not> pe_key_write_ok env then (Inl (PairOther ''pair: writing key file''), dir)
               else (Inr \<lparr>PSK = psk\<rparr>, dir\<lparr>pd_key := Some (psk @ [CHR 0x0A])\<rparr>)))"

definition Rotate :: "pair_env \<Rightarrow> pair_dir \<Rightarrow> (pair_error + keys) \<times> pair_dir" where
  "Rotate env dir =
     (case newSecret env of
        Inl e \<Rightarrow> (Inl e, dir)
      | Inr psk \<Rightarrow>
          if \<not> pe_key_write_ok env then (Inl (PairOther ''pair: writing new key''), dir)
          else if \<not> pe_rename_ok env then (Inl (PairOther ''pair: replacing key file''), dir)
          else (Inr \<lparr>PSK = psk\<rparr>, dir\<lparr>pd_key := Some (psk @ [CHR 0x0A])\<rparr>))"

definition Fingerprint :: "keys \<Rightarrow> bytes" where
  "Fingerprint k =
     (let enc = b64_encode (sha256 (''cmemlan-fingerprint-v1:'' @ PSK k)) in
      take 4 enc @ ''-'' @ take 4 (drop 4 enc) @ ''-'' @ take 4 (drop 8 enc))"

definition Keys_Verify :: "keys \<Rightarrow> bytes \<Rightarrow> bool" where
  "Keys_Verify k token \<longleftrightarrow> token = PSK k"

section \<open>The window file\<close>

definition hashCode :: "bytes \<Rightarrow> bytes" where
  "hashCode code = b64_encode (sha256 (''cmemlan-pairing-v1:'' @ normalise code))"

definition FileWindow_Open :: "pair_env \<Rightarrow> int \<Rightarrow> pair_dir \<Rightarrow> (pair_error + bytes \<times> int) \<times> pair_dir" where
  "FileWindow_Open env ttl0 dir =
     (let ttl = (if ttl0 \<le> 0 then DefaultWindow else ttl0) in
      case newCode (pe_rnd env) of
        Inl e \<Rightarrow> (Inl e, dir)
      | Inr code \<Rightarrow>
          (let expires = pe_now env + ttl;
               state = \<lparr>CodeHash = hashCode code, ExpiresAt = expires, Attempts = 0\<rparr> in
           if \<not> pe_mkdir_ok env then (Inl (PairOther ''mkdir''), dir)
           else if \<not> pe_lock_ok env then (Inl (PairOther ''pair: locking the pairing window''), dir)
           else if \<not> pe_write_ok env then (Inl (PairOther ''pair: writing the pairing window''), dir)
           else (Inr (code, expires), dir\<lparr>pd_window := Some (Parsed state)\<rparr>)))"

text \<open>\<open>Close\<close>: whether it succeeded, and the directory after it.\<close>

definition FileWindow_Close :: "pair_env \<Rightarrow> pair_dir \<Rightarrow> bool \<times> pair_dir" where
  "FileWindow_Close env dir =
     (if pd_window dir = None then (True, dir)
      else if pe_remove_ok env then (True, dir\<lparr>pd_window := None\<rparr>)
      else (False, dir))"

definition write_state :: "pair_env \<Rightarrow> window_state \<Rightarrow> pair_dir \<Rightarrow> pair_dir" where
  "write_state env state dir =
     (if pe_write_ok env then dir\<lparr>pd_window := Some (Parsed state)\<rparr> else dir)"

definition FileWindow_Redeem :: "pair_env \<times> bytes \<Rightarrow> pair_dir \<Rightarrow> (pair_error + bytes) \<times> pair_dir" where
  "FileWindow_Redeem = (\<lambda>(env, code) dir.
     if \<not> pe_lock_ok env then (Inl (PairOther ''pair: locking the pairing window''), dir)
     else if \<not> pe_read_ok env then (Inl (PairOther ''pair: reading the pairing window''), dir)
     else case pd_window dir of
       None \<Rightarrow> (Inl ErrNoWindow, dir)
     | Some f \<Rightarrow>
         (case f of
           Unreadable \<Rightarrow> (Inl ErrNoWindow, dir)
         | Parsed state \<Rightarrow>
             if pe_now env > ExpiresAt state then (Inl ErrNoWindow, snd (FileWindow_Close env dir))
             else if Attempts state \<ge> int MaxAttempts
             then (Inl ErrTooManyAttempts, snd (FileWindow_Close env dir))
             else if hashCode code \<noteq> CodeHash state then
               (let state' = state\<lparr>Attempts := Attempts state + 1\<rparr>;
                    dir' = write_state env state' dir in
                if Attempts state' \<ge> int MaxAttempts
                then (Inl ErrTooManyAttempts, snd (FileWindow_Close env dir'))
                else (Inl ErrBadCode, dir'))
             else (case LoadOrCreate env dir of
                     (Inl e, dir') \<Rightarrow> (Inl e, dir')
                   | (Inr ks, dir') \<Rightarrow>
                       (case FileWindow_Close env dir' of
                          (False, dir'') \<Rightarrow> (Inl (PairOther ''remove''), dir'')
                        | (True, dir'') \<Rightarrow> (Inr (PSK ks), dir'')))))"

section \<open>A budgeted exchange\<close>

text \<open>Feeding guesses one after another, with the answers. A guess comes with the moment it is made at.\<close>

fun redeem_all :: "('g \<Rightarrow> 's \<Rightarrow> (pair_error + bytes) \<times> 's) \<Rightarrow> 'g list \<Rightarrow> 's \<Rightarrow> (pair_error + bytes) list \<times> 's" where
  "redeem_all redeem [] s = ([], s)"
| "redeem_all redeem (g # gs) s =
     (case redeem g s of (r, s1) \<Rightarrow> apfst ((#) r) (redeem_all redeem gs s1))"

definition granted :: "pair_error + bytes \<Rightarrow> bool" where
  "granted r = (case r of Inr _ \<Rightarrow> True | Inl _ \<Rightarrow> False)"

text \<open>
  A code is looked at where the outcome, the answer or what is left behind, depends on the code. Counted are the
  moments of a run at which the code is looked at and is wrong, or opens the window; not counted is the right code when
  the key could not be handed out, which may be tried again.
\<close>

definition looks_at_code :: "('e \<times> bytes \<Rightarrow> 's \<Rightarrow> (pair_error + bytes) \<times> 's) \<Rightarrow> 'e \<Rightarrow> 's \<Rightarrow> bool" where
  "looks_at_code redeem e s \<longleftrightarrow> (\<exists>c c'. redeem (e, c) s \<noteq> redeem (e, c') s)"

fun tried_codes :: "('e \<times> bytes \<Rightarrow> 's \<Rightarrow> (pair_error + bytes) \<times> 's) \<Rightarrow> (bytes \<Rightarrow> 's \<Rightarrow> bool) \<Rightarrow> ('e \<times> bytes) list \<Rightarrow> 's \<Rightarrow> nat" where
  "tried_codes redeem right [] s = 0"
| "tried_codes redeem right ((e, c) # gs) s =
     (case redeem (e, c) s of (r, s1) \<Rightarrow>
        (if looks_at_code redeem e s \<and> (\<not> right c s \<or> granted r) then 1 else 0) + tried_codes redeem right gs s1)"

locale pair_exchanger =
  fixes redeem :: "'e \<times> bytes \<Rightarrow> 's \<Rightarrow> (pair_error + bytes) \<times> 's"
    and usable :: "'e \<times> bytes \<Rightarrow> bool"
    and right :: "bytes \<Rightarrow> 's \<Rightarrow> bool"
    and budget :: "'s \<Rightarrow> nat"
  assumes never_grows: "usable (e, c) \<Longrightarrow> redeem (e, c) s = (r, s') \<Longrightarrow> budget s' \<le> budget s"
    and wrong_code_costs: "usable (e, c) \<Longrightarrow> redeem (e, c) s = (r, s') \<Longrightarrow> looks_at_code redeem e s \<Longrightarrow> \<not> right c s
      \<Longrightarrow> budget s' < budget s"
    and success_exhausts: "usable (e, c) \<Longrightarrow> redeem (e, c) s = (Inr tok, s') \<Longrightarrow> 0 < budget s \<and> budget s' = 0"
begin

lemma tries_bounded:
  "list_all usable gs \<Longrightarrow> redeem_all redeem gs s = (rs, s') \<Longrightarrow> tried_codes redeem right gs s + budget s' \<le> budget s"
proof (induction gs arbitrary: s rs)
  case Nil
  then show ?case by simp
next
  case (Cons g gs)
  obtain e c where g: "g = (e, c)" by (cases g)
  obtain r s1 rs' where step: "redeem (e, c) s = (r, s1)" and rest: "redeem_all redeem gs s1 = (rs', s')"
    using Cons.prems(2) by (auto simp: g apfst_def map_prod_def split: prod.splits)
  from Cons.prems(1) have ok: "usable (e, c)" "list_all usable gs" by (simp_all add: g)
  have "budget s1 < budget s" if "looks_at_code redeem e s \<and> (\<not> right c s \<or> granted r)"
  proof (cases r)
    case (Inl err)
    with that wrong_code_costs [OF ok(1) step] show ?thesis by (simp add: granted_def)
  next
    case (Inr tok)
    with success_exhausts [OF ok(1) step [unfolded Inr]] show ?thesis by simp
  qed
  with Cons.IH [OF ok(2) rest] never_grows [OF ok(1) step] step show ?case
    by (cases "looks_at_code redeem e s \<and> (\<not> right c s \<or> granted r)") (auto simp: g)
qed

lemma no_budget_no_grant:
  "list_all usable gs \<Longrightarrow> redeem_all redeem gs s = (rs, s') \<Longrightarrow> budget s = 0 \<Longrightarrow> filter granted rs = []"
proof (induction gs arbitrary: s rs)
  case Nil
  then show ?case by simp
next
  case (Cons g gs)
  obtain e c where g: "g = (e, c)" by (cases g)
  obtain r s1 rs' where step: "redeem (e, c) s = (r, s1)" and rest: "redeem_all redeem gs s1 = (rs', s')" and rs: "rs = r # rs'"
    using Cons.prems(2) by (auto simp: g apfst_def map_prod_def split: prod.splits)
  from Cons.prems(1) have ok: "usable (e, c)" "list_all usable gs" by (simp_all add: g)
  have "budget s1 = 0" using never_grows [OF ok(1) step] Cons.prems(3) by simp
  moreover have "\<not> granted r"
  proof (cases r)
    case (Inr tok)
    with success_exhausts [OF ok(1) step [unfolded Inr]] Cons.prems(3) show ?thesis by simp
  qed (simp add: granted_def)
  ultimately show ?case using Cons.IH [OF ok(2) rest] by (simp add: rs)
qed

lemma single_use:
  "list_all usable gs \<Longrightarrow> redeem_all redeem gs s = (rs, s') \<Longrightarrow> length (filter granted rs) \<le> 1"
proof (induction gs arbitrary: s rs)
  case Nil
  then show ?case by simp
next
  case (Cons g gs)
  obtain e c where g: "g = (e, c)" by (cases g)
  obtain r s1 rs' where step: "redeem (e, c) s = (r, s1)" and rest: "redeem_all redeem gs s1 = (rs', s')" and rs: "rs = r # rs'"
    using Cons.prems(2) by (auto simp: g apfst_def map_prod_def split: prod.splits)
  from Cons.prems(1) have ok: "usable (e, c)" "list_all usable gs" by (simp_all add: g)
  show ?case
  proof (cases r)
    case (Inl e)
    with Cons.IH [OF ok(2) rest] rs show ?thesis by (simp add: granted_def)
  next
    case (Inr tok)
    with success_exhausts [OF ok(1)] step have "budget s1 = 0" by simp
    with no_budget_no_grant [OF ok(2) rest] have "filter granted rs' = []" by simp
    then show ?thesis by (simp add: rs)
  qed
qed

end

section \<open>Both windows are budgeted\<close>

definition window_right :: "bytes \<Rightarrow> window \<Rightarrow> bool" where
  "window_right code w \<longleftrightarrow> normalise code = normalise (w_code w)"

definition window_budget :: "window \<Rightarrow> nat" where
  "window_budget w = (if w_redeemed w \<or> w_code w = [] then 0 else MaxAttempts - w_attempts w)"

lemma window_looks:
  "looks_at_code Redeem now w \<Longrightarrow> \<not> w_redeemed w \<and> w_code w \<noteq> [] \<and> \<not> now > w_expires w \<and> w_attempts w < MaxAttempts"
  by (cases "w_redeemed w \<or> w_code w = []"; cases "now > w_expires w"; cases "w_attempts w < MaxAttempts")
    (simp_all add: looks_at_code_def Redeem_def)

interpretation mem_window: pair_exchanger Redeem "\<lambda>_. True" window_right window_budget
proof (unfold_locales, goal_cases)
  case (1 e c s r s')
  then show ?case by (auto simp: Redeem_def window_budget_def Let_def split: if_splits)
next
  case (2 e c s r s')
  with window_looks [OF 2(3)] show ?case
    by (auto simp: Redeem_def window_budget_def window_right_def Let_def split: if_splits)
next
  case (3 e c s tok s')
  then show ?case by (auto simp: Redeem_def window_budget_def Let_def split: if_splits)
qed

definition file_right :: "bytes \<Rightarrow> pair_dir \<Rightarrow> bool" where
  "file_right code dir \<longleftrightarrow> (case pd_window dir of Some (Parsed state) \<Rightarrow> hashCode code = CodeHash state | _ \<Rightarrow> False)"

definition file_budget :: "pair_dir \<Rightarrow> nat" where
  "file_budget dir =
     (case pd_window dir of
        Some (Parsed state) \<Rightarrow> nat (int MaxAttempts - Attempts state)
      | _ \<Rightarrow> 0)"

definition writable :: "pair_env \<times> bytes \<Rightarrow> bool" where
  "writable = (\<lambda>(env, code). pe_write_ok env)"

lemma LoadOrCreate_window: "LoadOrCreate env dir = (r, dir') \<Longrightarrow> pd_window dir' = pd_window dir \<and> r \<noteq> Inl ErrBadCode"
  by (auto simp: LoadOrCreate_def newSecret_def Let_def split: if_splits option.splits sum.splits)

lemma file_redeem_cases:
  assumes "FileWindow_Redeem (env, code) dir = (r, dir')" "pe_write_ok env"
  shows "file_budget dir' \<le> file_budget dir"
    and "r = Inr tok \<Longrightarrow> 0 < file_budget dir \<and> file_budget dir' = 0"
  using assms
  by (auto simp: FileWindow_Redeem_def file_budget_def Let_def FileWindow_Close_def write_state_def
      split: if_splits option.splits window_file.splits sum.splits prod.splits dest!: LoadOrCreate_window)

lemma file_looks:
  assumes "looks_at_code FileWindow_Redeem env dir"
  obtains st where "pe_lock_ok env" "pe_read_ok env" "pd_window dir = Some (Parsed st)" "\<not> pe_now env > ExpiresAt st"
    "Attempts st < int MaxAttempts"
  using assms by (auto simp: looks_at_code_def FileWindow_Redeem_def split: if_splits option.splits window_file.splits)

lemma wrong_file_code:
  assumes "FileWindow_Redeem (env, code) dir = (r, dir')" "pe_write_ok env" "looks_at_code FileWindow_Redeem env dir" "\<not> file_right code dir"
  shows "file_budget dir' < file_budget dir"
  using assms(3)
proof (rule file_looks)
  fix st assume "pe_lock_ok env" "pe_read_ok env" "pd_window dir = Some (Parsed st)" "\<not> pe_now env > ExpiresAt st"
    "Attempts st < int MaxAttempts"
  with assms(1,2,4) show ?thesis
    by (auto simp: FileWindow_Redeem_def file_budget_def file_right_def Let_def FileWindow_Close_def write_state_def split: if_splits)
qed

interpretation file_window: pair_exchanger FileWindow_Redeem writable file_right file_budget
  by unfold_locales (auto simp: writable_def dest: file_redeem_cases wrong_file_code)

section \<open>What a correct code does\<close>

lemma normalise_digits: "list_all is_digit ds \<Longrightarrow> normalise (ds @ rest) = ds @ normalise rest"
  by (induction ds) auto

lemma normalise_dash: "normalise (''-'' @ rest) = normalise rest"
  by (simp add: is_digit_def byte_simps)

lemma normalise_only_digits: "list_all is_digit (normalise s)"
  by (induction s) auto

lemma rand_digits_Some:
  assumes "rand_digits rnd = Some ds" "\<And>i n. rnd i = Some n \<Longrightarrow> n < 10"
  shows "length ds = codeDigits" "list_all is_digit ds"
proof -
  show "length ds = codeDigits" using assms(1) by (auto simp: rand_digits_def split: if_splits)
  have "ds ! i = digit_char (the (rnd i)) \<and> the (rnd i) < 10" if "i < codeDigits" for i
    using assms that by (fastforce simp: rand_digits_def list_all_iff split: if_splits)
  then show "list_all is_digit ds"
    using \<open>length ds = codeDigits\<close> by (auto simp: list_all_length)
qed

text \<open>A code is three groups of three digits, and its digits are what is compared.\<close>

lemma newCode_shape:
  assumes "newCode rnd = Inr code" "\<And>i n. rnd i = Some n \<Longrightarrow> n < 10"
  shows "\<exists>a b c. code = a @ ''-'' @ b @ ''-'' @ c \<and> length a = 3 \<and> length b = 3 \<and> length c = 3
    \<and> list_all is_digit (a @ b @ c) \<and> normalise code = a @ b @ c"
proof -
  obtain ds where ds: "rand_digits rnd = Some ds"
    and code: "code = take 3 ds @ ''-'' @ take 3 (drop 3 ds) @ ''-'' @ take 3 (drop 6 ds)"
    using assms(1) by (auto simp: newCode_def split: option.splits)
  have len: "length ds = 9" and dig: "list_all is_digit ds"
    using rand_digits_Some [OF ds assms(2)] by (simp_all add: codeDigits_def)
  have all: "list_all is_digit (take 3 ds)" "list_all is_digit (take 3 (drop 3 ds))"
    "list_all is_digit (take 3 (drop 6 ds))"
    using dig by (auto simp: list_all_iff dest!: in_set_takeD in_set_dropD)
  have "normalise code = take 3 ds @ take 3 (drop 3 ds) @ take 3 (drop 6 ds)"
    using normalise_digits [OF all(3), of "[]"]
    by (simp only: code normalise_digits [OF all(1)] normalise_dash normalise_digits [OF all(2)])
      (simp del: append.simps)
  with code len all show ?thesis
    by (intro exI [of _ "take 3 ds"] exI [of _ "take 3 (drop 3 ds)"] exI [of _ "take 3 (drop 6 ds)"]) simp
qed

text \<open>All file operations of an environment succeed.\<close>

definition files_ok :: "pair_env \<Rightarrow> bool" where
  "files_ok env \<longleftrightarrow> pe_mkdir_ok env \<and> pe_lock_ok env \<and> pe_read_ok env \<and> pe_write_ok env
     \<and> pe_remove_ok env \<and> pe_chmod_ok env \<and> pe_key_read_ok env \<and> pe_key_write_ok env"

lemma Open_window:
  assumes "FileWindow_Open env ttl dir = (Inr (code, expires), dir')"
  shows "pd_key dir' = pd_key dir"
    "pd_window dir' = Some (Parsed \<lparr>CodeHash = hashCode code, ExpiresAt = expires, Attempts = 0\<rparr>)"
  using assms by (auto simp: FileWindow_Open_def Let_def split: sum.splits if_splits)

lemma hashCode_normalise: "normalise c = normalise c' \<Longrightarrow> hashCode c = hashCode c'"
  by (simp add: hashCode_def)

lemma Redeem_after_Open:
  assumes op: "FileWindow_Open env ttl dir = (Inr (code, expires), dir')"
    and same: "normalise guess = normalise code" and ok: "files_ok env'" and t: "pe_now env' \<le> expires"
    and key: "pd_key dir = Some k" "trim_space k \<noteq> []"
  shows "FileWindow_Redeem (env', guess) dir' = (Inr (trim_space k), dir'\<lparr>pd_window := None\<rparr>)"
  using assms Open_window [OF op] hashCode_normalise [OF same]
  by (simp add: FileWindow_Redeem_def files_ok_def LoadOrCreate_def FileWindow_Close_def Let_def MaxAttempts_def)

text \<open>A window that cannot be parsed is left alone, and an expired one is never redeemed.\<close>

lemma Redeem_unreadable:
  "pd_window dir = Some Unreadable \<Longrightarrow> snd (FileWindow_Redeem (env, guess) dir) = dir"
  by (simp add: FileWindow_Redeem_def)

lemma Redeem_expired:
  assumes "pd_window dir = Some (Parsed st)" "ExpiresAt st < pe_now env"
  shows "\<not> granted (fst (FileWindow_Redeem (env, guess) dir))"
  using assms by (simp add: FileWindow_Redeem_def granted_def)

text \<open>
  The attempt counter is written before the answer, but a write that fails is ignored: then a wrong
  guess costs nothing.
\<close>

lemma Redeem_unwritable:
  assumes "pd_window dir = Some (Parsed st)" "pe_lock_ok env" "pe_read_ok env" "\<not> pe_write_ok env"
    "pe_now env \<le> ExpiresAt st" "Attempts st + 1 < int MaxAttempts" "hashCode guess \<noteq> CodeHash st"
  shows "FileWindow_Redeem (env, guess) dir = (Inl ErrBadCode, dir)"
  using assms by (simp add: FileWindow_Redeem_def write_state_def Let_def)

lemma redeem_all_unwritable:
  assumes "pd_window dir = Some (Parsed st)" "Attempts st + 1 < int MaxAttempts"
    and "list_all (\<lambda>(env, guess). pe_lock_ok env \<and> pe_read_ok env \<and> \<not> pe_write_ok env
          \<and> pe_now env \<le> ExpiresAt st \<and> hashCode guess \<noteq> CodeHash st) gs"
  shows "redeem_all FileWindow_Redeem gs dir = (replicate (length gs) (Inl ErrBadCode), dir)"
  using assms(3)
proof (induction gs)
  case Nil
  then show ?case by simp
next
  case (Cons g gs)
  then show ?case
    using Redeem_unwritable [OF assms(1) _ _ _ _ assms(2)] by (cases g) (auto simp: apfst_def)
qed

lemma looks_unwritable:
  assumes "pd_window dir = Some (Parsed st)" "pe_lock_ok env" "pe_read_ok env" "\<not> pe_write_ok env"
    "pe_now env \<le> ExpiresAt st" "Attempts st + 1 < int MaxAttempts" "hashCode guess \<noteq> CodeHash st" "hashCode code = CodeHash st"
  shows "looks_at_code FileWindow_Redeem env dir"
proof -
  have "FileWindow_Redeem (env, guess) dir = (Inl ErrBadCode, dir)" by (rule Redeem_unwritable [OF assms(1-7)])
  moreover have "fst (FileWindow_Redeem (env, code) dir) \<noteq> Inl ErrBadCode"
    using assms by (auto simp: FileWindow_Redeem_def Let_def split: sum.splits prod.splits bool.splits dest: LoadOrCreate_window)
  ultimately show ?thesis by (metis fst_conv looks_at_code_def)
qed

lemma length_b64: "length (b64_encode b) = (4 * length b + 2) div 3"
proof (induction b rule: b64_encode.induct)
  case (4 a b c rest)
  then show ?case by (simp add: Let_def)
qed (simp_all add: Let_def)

lemma Fingerprint_length: "length (Fingerprint k) = 14"
proof -
  have "length (b64_encode (sha256 m)) = 43" for m
    using ValidDigest_Digest [of m] by (simp add: ValidDigest_def Digest_def DigestLen_def)
  then show ?thesis by (simp add: Fingerprint_def Let_def)
qed

section \<open>Properties of pairing\<close>

definition sample_window :: window where
  "sample_window = \<lparr>w_code = ''123-456-789'', w_psk = ''key'', w_expires = 1000, w_attempts = 0, w_redeemed = False\<rparr>"

lemma sample_window_run:
  "fst (redeem_all Redeem [(1, ''000-000-000''), (2, ''123 456 789''), (3, ''123-456-789'')] sample_window)
     = [Inl ErrBadCode, Inr ''key'', Inl ErrNoWindow]"
  by code_simp

text \<open>Two of these codes count: the wrong one and the one that opens the window.\<close>

lemma sample_window_tries:
  "tried_codes Redeem window_right [(1, ''000-000-000''), (2, ''123 456 789''), (3, ''123-456-789'')] sample_window = 2"
proof -
  let ?w = "sample_window\<lparr>w_attempts := Suc 0\<rparr>"
  have r1: "Redeem (1, ''000-000-000'') sample_window = (Inl ErrBadCode, ?w)" by code_simp
  have r2: "Redeem (2, ''123 456 789'') ?w = (Inr ''key'', ?w\<lparr>w_redeemed := True\<rparr>)" by code_simp
  have r3: "Redeem (3, c) (?w\<lparr>w_redeemed := True\<rparr>) = (Inl ErrNoWindow, ?w\<lparr>w_redeemed := True\<rparr>)" for c
    by (simp add: Redeem_def)
  have "fst (Redeem (1, ''123-456-789'') sample_window) \<noteq> Inl ErrBadCode" by code_simp
  with r1 have l1: "looks_at_code Redeem 1 sample_window" by (metis fst_conv looks_at_code_def)
  have "fst (Redeem (2, ''000-000-000'') ?w) \<noteq> Inr ''key''" by code_simp
  with r2 have l2: "looks_at_code Redeem 2 ?w" by (metis fst_conv looks_at_code_def)
  have "\<not> looks_at_code Redeem 3 (?w\<lparr>w_redeemed := True\<rparr>)" by (simp add: looks_at_code_def Redeem_def)
  moreover have "\<not> window_right ''000-000-000'' sample_window" by code_simp
  ultimately show ?thesis using l1 l2 by (simp add: r1 r2 r3 granted_def)
qed

definition good_files :: "int \<Rightarrow> pair_env" where
  "good_files t = \<lparr>pe_now = t, pe_secret = Some [CHR 0x01], pe_rnd = (\<lambda>i. Some i), pe_mkdir_ok = True,
     pe_lock_ok = True, pe_read_ok = True, pe_write_ok = True, pe_remove_ok = True, pe_chmod_ok = True,
     pe_key_read_ok = True, pe_key_write_ok = True, pe_rename_ok = True\<rparr>"

definition paired_dir :: pair_dir where
  "paired_dir = \<lparr>pd_key = Some ''key'', pd_window = Some (Parsed \<lparr>CodeHash = ''h'', ExpiresAt = 1000, Attempts = 3\<rparr>)\<rparr>"

text \<open>
  C20: guessing is bounded. Against one window in memory, and against one opened window file over any number of
  hub processes as long as the file can be written, at most five codes are looked at that are wrong or open the
  window, and at most one request obtains the key, whatever codes are tried, whenever, in whatever number, and whichever
  other calls fail. (A code is looked at when the outcome depends on it.)
\<close>

theorem windows_bound_guesses:
  assumes "redeem_all Redeem ms w = (rs, w')"
    and "redeem_all FileWindow_Redeem gs dir = (fs, dir')" "list_all (\<lambda>(env, code). pe_write_ok env) gs"
    and "pd_window dir = Some (Parsed st)" "0 \<le> Attempts st"
  shows "tried_codes Redeem window_right ms w \<le> MaxAttempts \<and> length (filter granted rs) \<le> 1
    \<and> tried_codes FileWindow_Redeem file_right gs dir \<le> MaxAttempts \<and> length (filter granted fs) \<le> 1"
proof -
  have "tried_codes Redeem window_right ms w \<le> MaxAttempts \<and> length (filter granted rs) \<le> 1"
    using mem_window.tries_bounded [OF _ assms(1)] mem_window.single_use [OF _ assms(1)]
    by (auto simp: window_budget_def list_all_iff split: if_splits)
  moreover have "tried_codes FileWindow_Redeem file_right gs dir \<le> MaxAttempts \<and> length (filter granted fs) \<le> 1"
  proof -
    have w: "list_all writable gs" using assms(3) by (auto simp: writable_def list_all_iff)
    have "file_budget dir \<le> MaxAttempts" using assms(4,5) by (simp add: file_budget_def)
    with file_window.tries_bounded [OF w assms(2)] file_window.single_use [OF w assms(2)] show ?thesis by linarith
  qed
  ultimately show ?thesis by simp
qed

theorem windows_bound_guesses_witness:
  "\<exists>rs w' fs dir'. redeem_all Redeem [(1, ''000-000-000''), (2, ''123 456 789''), (3, ''123-456-789'')] sample_window = (rs, w')
    \<and> rs = [Inl ErrBadCode, Inr ''key'', Inl ErrNoWindow] \<and> length (filter granted rs) \<le> 1
    \<and> tried_codes Redeem window_right [(1, ''000-000-000''), (2, ''123 456 789''), (3, ''123-456-789'')] sample_window = 2
    \<and> redeem_all FileWindow_Redeem (replicate 9 (good_files 1, ''1'')) paired_dir = (fs, dir')
    \<and> tried_codes FileWindow_Redeem file_right (replicate 9 (good_files 1, ''1'')) paired_dir \<le> 5"
proof -
  obtain rs w' where m: "redeem_all Redeem [(1, ''000-000-000''), (2, ''123 456 789''), (3, ''123-456-789'')] sample_window
      = (rs, w')" by fastforce
  obtain fs dir' where f: "redeem_all FileWindow_Redeem (replicate 9 (good_files 1, ''1'')) paired_dir = (fs, dir')" by fastforce
  have "list_all (\<lambda>(env, code). pe_write_ok env) (replicate 9 (good_files 1, ''1''))"
    by (simp add: list_all_iff good_files_def)
  from windows_bound_guesses [OF m f this] have "length (filter granted rs) \<le> 1
      \<and> tried_codes FileWindow_Redeem file_right (replicate 9 (good_files 1, ''1'')) paired_dir \<le> 5"
    by (simp add: paired_dir_def MaxAttempts_def)
  with m f sample_window_run sample_window_tries show ?thesis by auto
qed

text \<open>
  C21: the code that was shown opens the window, once. A code \<open>Open\<close> displayed, typed with any spaces or
  dashes, before the window expires, yields the stored key; afterwards the window is gone and the
  same code yields nothing.
\<close>

theorem shown_code_redeems_once:
  assumes "FileWindow_Open env ttl dir = (Inr (code, expires), dir')"
    and "normalise guess = normalise code" "files_ok env'" "pe_now env' \<le> expires"
    and "pd_key dir = Some k" "trim_space k \<noteq> []"
  shows "FileWindow_Redeem (env', guess) dir' = (Inr (trim_space k), dir'\<lparr>pd_window := None\<rparr>)
    \<and> \<not> granted (fst (FileWindow_Redeem (env'', guess') (dir'\<lparr>pd_window := None\<rparr>)))"
  using Redeem_after_Open [OF assms] by (simp add: FileWindow_Redeem_def granted_def)

theorem shown_code_redeems_once_witness:
  "\<exists>dir'. FileWindow_Redeem (good_files 5, ''012 345 678'') dir' = (Inr ''key'', dir'\<lparr>pd_window := None\<rparr>)"
proof -
  have c: "newCode Some = Inr ''012-345-678''" by code_simp
  obtain dir' where op: "FileWindow_Open (good_files 1) 10 paired_dir = (Inr (''012-345-678'', 11), dir')"
    using c by (simp add: FileWindow_Open_def Let_def good_files_def)
  have t: "trim_space ''key'' = ''key''"
    by (rule trim_space_solid) (simp_all add: solid_def)
  have n: "normalise ''012 345 678'' = normalise ''012-345-678''" by code_simp
  have f: "files_ok (good_files 5)" "pe_now (good_files 5) \<le> 11" "pd_key paired_dir = Some ''key''"
    by (simp_all add: files_ok_def good_files_def paired_dir_def)
  have "trim_space ''key'' \<noteq> []" unfolding t by simp
  from shown_code_redeems_once [OF op n f this] show ?thesis unfolding t by blast
qed

text \<open>
  Where the window file cannot be written, guessing is free. The result of the write is
  discarded, so a wrong code leaves no trace and any number of wrong codes are looked at, one after
  another, instead of five.
\<close>

theorem unwritable_window_is_unbounded:
  assumes "pd_window dir = Some (Parsed st)" "Attempts st + 1 < int MaxAttempts"
    and "list_all (\<lambda>(env, guess). pe_lock_ok env \<and> pe_read_ok env \<and> \<not> pe_write_ok env
          \<and> pe_now env \<le> ExpiresAt st \<and> hashCode guess \<noteq> CodeHash st) gs"
  shows "redeem_all FileWindow_Redeem gs dir = (replicate (length gs) (Inl ErrBadCode), dir)
    \<and> (\<forall>code. hashCode code = CodeHash st \<longrightarrow> tried_codes FileWindow_Redeem file_right gs dir = length gs)"
proof (intro conjI allI impI)
  show "redeem_all FileWindow_Redeem gs dir = (replicate (length gs) (Inl ErrBadCode), dir)"
    by (rule redeem_all_unwritable [OF assms])
  fix code assume code: "hashCode code = CodeHash st"
  show "tried_codes FileWindow_Redeem file_right gs dir = length gs"
    using assms(3)
  proof (induction gs)
    case (Cons g gs)
    obtain env guess where g: "g = (env, guess)" by (cases g)
    with Cons.prems have f: "pe_lock_ok env" "pe_read_ok env" "\<not> pe_write_ok env" "pe_now env \<le> ExpiresAt st" "hashCode guess \<noteq> CodeHash st"
      by simp_all
    have "\<not> file_right guess dir" using f(5) assms(1) by (simp add: file_right_def)
    with Cons Redeem_unwritable [OF assms(1) f(1-4) assms(2) f(5)] looks_unwritable [OF assms(1) f(1-4) assms(2) f(5) code]
    show ?case by (simp add: g)
  qed simp
qed

theorem unwritable_window_is_unbounded_witness:
  "redeem_all FileWindow_Redeem (replicate 9 ((good_files 1)\<lparr>pe_write_ok := False\<rparr>, ''1'')) paired_dir
    = (replicate 9 (Inl ErrBadCode), paired_dir)"
proof -
  have "length (hashCode ''1'') = 43" by (simp add: hashCode_def b64_encode_length sha256_length)
  then have "hashCode ''1'' \<noteq> ''h''" by auto
  with unwritable_window_is_unbounded [of paired_dir _ "replicate 9 ((good_files 1)\<lparr>pe_write_ok := False\<rparr>, ''1'')"]
  show ?thesis by (simp add: paired_dir_def good_files_def MaxAttempts_def list_all_iff)
qed

end
