(* ===== verification/JsonStruct.thy ===== *)
theory JsonStruct
  imports Json Dec Strings
begin

text \<open>
  \<open>json.Unmarshal\<close> into the small structs the hub and the client database code declare: the text is
  validated as a whole first, then an object's members are taken in order; a key selects a field by
  its name up to case folding, an unknown key is skipped, a later member overwrites an earlier one.
  A value of the wrong type is remembered as an error while decoding goes on, so the result is
  \<open>None\<close>. A JSON \<open>null\<close> leaves a string or an integer as it is and makes a slice nil.
\<close>

section \<open>Arrays and objects\<close>

text \<open>
  Both readers run on text the scanner has accepted, after the opening bracket; the branches for
  anything else are never taken then.
\<close>

function elements :: "bool \<Rightarrow> bytes \<Rightarrow> bytes list option" where
  "elements first s =
     (case skip_space s of
        [] \<Rightarrow> None
      | c # cs \<Rightarrow>
          if c = CHR '']'' then Some []
          else case read_value (if first then c # cs else cs) of
            None \<Rightarrow> None
          | Some (v, r) \<Rightarrow>
              if \<not> first \<and> c \<noteq> CHR '','' then None else map_option ((#) v) (elements False r))"
  by pat_completeness auto
termination
proof (relation "measure (\<lambda>(first, s). length s)", goal_cases)
  case 1
  then show ?case by simp
next
  case (2 first s c cs p v r)
  then have "length r < length (c # cs)" using read_value_length [of "if first then c # cs else cs" v r]
    by (auto split: if_splits)
  with 2(1) skip_space_length [of s] show ?case by simp
qed

declare elements.simps [simp del]

function members :: "bool \<Rightarrow> bytes \<Rightarrow> (bytes \<times> bytes) list option" where
  "members first s =
     (case skip_space s of
        [] \<Rightarrow> None
      | c # cs \<Rightarrow>
          if c = CHR ''}'' then Some []
          else case read_value (if first then c # cs else cs) of
            None \<Rightarrow> None
          | Some (k, r1) \<Rightarrow>
              (case skip_space r1 of
                 [] \<Rightarrow> None
               | d # ds \<Rightarrow>
                   (case read_value ds of
                      None \<Rightarrow> None
                    | Some (v, r2) \<Rightarrow>
                        if (\<not> first \<and> c \<noteq> CHR '','') \<or> d \<noteq> CHR '':'' then None
                        else case json_unquote k of
                          None \<Rightarrow> None
                        | Some key \<Rightarrow> map_option ((#) (key, v)) (members False r2))))"
  by pat_completeness auto
termination
proof (relation "measure (\<lambda>(first, s). length s)", goal_cases)
  case 1
  then show ?case by simp
next
  case (2 first s c cs p k r1 d ds q v r2 key)
  have "length r1 < length (c # cs)"
    using 2(3,4) read_value_length [of "if first then c # cs else cs" k r1] by (auto split: if_splits)
  moreover have "length (d # ds) \<le> length r1" using 2(5) skip_space_length [of r1] by simp
  moreover have "length r2 < length ds" using 2(6,7) read_value_length [of ds v r2] by simp
  moreover have "length (c # cs) \<le> length s" using 2(1) skip_space_length [of s] by simp
  ultimately show ?case by simp
qed

declare members.simps [simp del]

section \<open>Fields\<close>

text \<open>A Go field setter: the raw value and the struct so far, \<open>None\<close> on a value of the wrong type.\<close>

definition set_string :: "(bytes \<Rightarrow> 's \<Rightarrow> 's) \<Rightarrow> bytes \<Rightarrow> 's \<Rightarrow> 's option" where
  "set_string put raw s =
     (if hd raw = CHR 0x22 then map_option (\<lambda>x. put x s) (json_unquote raw)
      else if hd raw = CHR ''n'' then Some s
      else None)"

text \<open>\<open>strconv.ParseInt(s, 10, 64)\<close>.\<close>

definition parse_int64 :: "bytes \<Rightarrow> int option" where
  "parse_int64 s =
     (case s of
        [] \<Rightarrow> None
      | c # cs \<Rightarrow>
          let neg = (c = CHR ''-''); digits = (if c = CHR ''-'' \<or> c = CHR ''+'' then cs else s) in
          (case parse_uint digits of
             Inl _ \<Rightarrow> None
           | Inr n \<Rightarrow>
               if neg then (if int n \<le> 2 ^ 63 then Some (- int n) else None)
               else if int n < 2 ^ 63 then Some (int n) else None))"

definition set_int :: "(int \<Rightarrow> 's \<Rightarrow> 's) \<Rightarrow> bytes \<Rightarrow> 's \<Rightarrow> 's option" where
  "set_int put raw s =
     (if is_digit (hd raw) \<or> hd raw = CHR ''-'' then map_option (\<lambda>x. put x s) (parse_int64 raw)
      else if hd raw = CHR ''n'' then Some s
      else None)"

definition set_raw_list :: "(bytes list \<Rightarrow> 's \<Rightarrow> 's) \<Rightarrow> bytes \<Rightarrow> 's \<Rightarrow> 's option" where
  "set_raw_list put raw s =
     (if hd raw = CHR ''['' then map_option (\<lambda>xs. put xs s) (elements True (tl raw))
      else if hd raw = CHR ''n'' then Some (put [] s)
      else None)"

text \<open>The setter of the field a key selects, if any.\<close>

definition field_setter :: "(bytes \<times> 'f) list \<Rightarrow> bytes \<Rightarrow> 'f option" where
  "field_setter fs key = map_option snd (find (\<lambda>(name, _). equal_fold key name) fs)"

fun decode_members :: "(bytes \<times> (bytes \<Rightarrow> 's \<Rightarrow> 's option)) list \<Rightarrow> (bytes \<times> bytes) list \<Rightarrow> 's \<Rightarrow> 's option" where
  "decode_members fs [] s = Some s"
| "decode_members fs ((key, raw) # kvs) s =
     (case field_setter fs key of
        None \<Rightarrow> decode_members fs kvs s
      | Some set_field \<Rightarrow>
          (case set_field raw s of
             None \<Rightarrow> None
           | Some s' \<Rightarrow> decode_members fs kvs s'))"

definition decode_struct :: "(bytes \<times> (bytes \<Rightarrow> 's \<Rightarrow> 's option)) list \<Rightarrow> bytes \<Rightarrow> 's \<Rightarrow> 's option" where
  "decode_struct fs v s =
     (if hd v = CHR ''{'' then
        (case members True (tl v) of
           None \<Rightarrow> None
         | Some kvs \<Rightarrow> decode_members fs kvs s)
      else if hd v = CHR ''n'' then Some s
      else None)"

definition unmarshal_struct :: "(bytes \<times> (bytes \<Rightarrow> 's \<Rightarrow> 's option)) list \<Rightarrow> bytes \<Rightarrow> 's \<Rightarrow> 's option" where
  "unmarshal_struct fs raw s =
     (case whole_value raw of
        None \<Rightarrow> None
      | Some v \<Rightarrow> decode_struct fs v s)"

section \<open>strconv.Atoi\<close>

text \<open>\<open>Atoi\<close> on a 64-bit platform is \<open>ParseInt\<close> in base 10.\<close>

definition Atoi :: "bytes \<Rightarrow> int option" where
  "Atoi s = parse_int64 s"

lemma parse_int64_range: "parse_int64 s = Some v \<Longrightarrow> - (2 ^ 63) \<le> v \<and> v < 2 ^ 63"
  by (auto simp: parse_int64_def Let_def split: list.splits sum.splits if_splits)

end
