(* ===== verification/Net.thy ===== *)
theory Net
  imports Strings
begin

text \<open>
  \<open>net.SplitHostPort\<close>, which the hub calls on the Host header and on bind addresses.
\<close>

definition has_byte :: "char \<Rightarrow> bytes \<Rightarrow> bool" where
  "has_byte c s \<longleftrightarrow> c \<in> set s"

text \<open>The text before and after the last occurrence of a byte, and around the first one.\<close>

definition cut_last :: "char \<Rightarrow> bytes \<Rightarrow> (bytes \<times> bytes) option" where
  "cut_last c s =
     (if has_byte c s
      then Some (rev (tl (dropWhile (\<lambda>x. x \<noteq> c) (rev s))), rev (takeWhile (\<lambda>x. x \<noteq> c) (rev s)))
      else None)"

definition cut_first :: "char \<Rightarrow> bytes \<Rightarrow> (bytes \<times> bytes) option" where
  "cut_first c s =
     (if has_byte c s
      then Some (takeWhile (\<lambda>x. x \<noteq> c) s, tl (dropWhile (\<lambda>x. x \<noteq> c) s))
      else None)"

text \<open>
  Host and port. With a leading bracket the host ends at the first closing bracket, which the last
  colon must follow directly; without one the host must not contain a colon. Brackets anywhere else
  are refused.
\<close>

definition SplitHostPort :: "bytes \<Rightarrow> (bytes \<times> bytes) option" where
  "SplitHostPort s =
     (case cut_last CHR '':'' s of
        None \<Rightarrow> None
      | Some (before, port) \<Rightarrow>
          if hd s = CHR ''['' then
            (case cut_first CHR '']'' (tl s) of
               None \<Rightarrow> None
             | Some (host, after) \<Rightarrow>
                 if after \<noteq> CHR '':'' # port then None
                 else if has_byte CHR ''['' (tl s) \<or> has_byte CHR '']'' after then None
                 else Some (host, port))
          else if has_byte CHR '':'' before then None
          else if has_byte CHR ''['' s \<or> has_byte CHR '']'' s then None
          else Some (before, port))"

definition JoinHostPort :: "bytes \<Rightarrow> bytes \<Rightarrow> bytes" where
  "JoinHostPort host port =
     (if has_byte CHR '':'' host then ''['' @ host @ '']:'' @ port else host @ '':'' @ port)"

lemma while_append:
  assumes "c \<notin> set a"
  shows "takeWhile (\<lambda>x. x \<noteq> c) (a @ c # b) = a" "dropWhile (\<lambda>x. x \<noteq> c) (a @ c # b) = c # b"
  using assms by (induction a) auto

lemma cut_first_append: "c \<notin> set a \<Longrightarrow> cut_first c (a @ c # b) = Some (a, b)"
  by (simp add: cut_first_def has_byte_def while_append)

lemma cut_last_append: "c \<notin> set b \<Longrightarrow> cut_last c (a @ c # b) = Some (a, b)"
proof -
  assume "c \<notin> set b"
  then have "c \<notin> set (rev b)" by simp
  from while_append [OF this, of "rev a"] show ?thesis
    by (simp add: cut_last_def has_byte_def)
qed

lemma SplitHostPort_no_colon: "CHR '':'' \<notin> set s \<Longrightarrow> SplitHostPort s = None"
  by (simp add: SplitHostPort_def cut_last_def has_byte_def)

lemma SplitHostPort_plain:
  assumes "set host \<inter> {CHR '':'', CHR ''['', CHR '']''} = {}" "set port \<inter> {CHR '':'', CHR ''['', CHR '']''} = {}"
  shows "SplitHostPort (host @ '':'' @ port) = Some (host, port)"
proof -
  have c: "cut_last CHR '':'' (host @ CHR '':'' # port) = Some (host, port)"
    using assms(2) by (intro cut_last_append) auto
  have "hd (host @ CHR '':'' # port) \<noteq> CHR ''[''" using assms(1) by (cases host) auto
  with c assms show ?thesis by (simp add: SplitHostPort_def has_byte_def)
qed

lemma SplitHostPort_bracket:
  assumes "set host \<inter> {CHR ''['', CHR '']''} = {}" "set port \<inter> {CHR '':'', CHR ''['', CHR '']''} = {}"
  shows "SplitHostPort (''['' @ host @ '']:'' @ port) = Some (host, port)"
proof -
  have "cut_last CHR '':'' ((CHR ''['' # host @ [CHR '']'']) @ CHR '':'' # port)
      = Some (CHR ''['' # host @ [CHR '']''], port)"
    using assms(2) by (intro cut_last_append) auto
  moreover have "cut_first CHR '']'' (host @ CHR '']'' # CHR '':'' # port) = Some (host, CHR '':'' # port)"
    using assms(1) by (intro cut_first_append) auto
  ultimately show ?thesis using assms by (simp add: SplitHostPort_def has_byte_def)
qed

text \<open>What was joined splits again.\<close>

lemma Split_Join:
  assumes "set host \<inter> {CHR ''['', CHR '']''} = {}" "set port \<inter> {CHR '':'', CHR ''['', CHR '']''} = {}"
  shows "SplitHostPort (JoinHostPort host port) = Some (host, port)"
  using SplitHostPort_bracket [OF assms] SplitHostPort_plain [OF _ assms(2), of host] assms(1)
  by (auto simp: JoinHostPort_def has_byte_def)

end
