(* ===== verification/Hub.thy ===== *)
theory Hub
  imports Emit Store Pair JsonStruct Net
begin

text \<open>
  \<open>internal/hub\<close> (\<open>server.go\<close>, \<open>middleware.go\<close>, \<open>handlers.go\<close> and the middleware of
  \<open>record.go\<close>): the HTTP surface. A request is what \<open>net/http\<close> hands to a handler: method, path,
  parsed query, headers, Host, body. A response is a status, the headers the code sets and the body.
  The hub's state is the database, the store's fields in memory and the pairing directory; each
  store call of a request has an environment of its own (\<open>ctx_store i\<close> for the \<open>i\<close>-th call), so
  any call may fail.

  The in-flight semaphore is a counter here; the interleaving of requests is in \<open>HubSystem\<close>.
  Panics do not exist in a total model, so \<open>recoverPanics\<close> is the identity.
\<close>

section \<open>Requests, responses, state\<close>

record request =
  rq_method :: bytes
  rq_path :: bytes
  rq_query :: "(bytes \<times> bytes) list"
  rq_header :: "(bytes \<times> bytes) list"
  rq_host :: bytes
  rq_body :: bytes
  rq_body_ok :: bool

record response =
  resp_status :: nat
  resp_header :: "(bytes \<times> bytes) list"
  resp_body :: bytes

text \<open>\<open>Header.Get\<close> and \<open>Values.Get\<close>: the first value under the name, or the empty string.\<close>

definition get_value :: "(bytes \<times> bytes) list \<Rightarrow> bytes \<Rightarrow> bytes" where
  "get_value kvs k = (case map_of kvs k of None \<Rightarrow> [] | Some v \<Rightarrow> v)"

abbreviation header_of :: "request \<Rightarrow> bytes \<Rightarrow> bytes" where
  "header_of r \<equiv> get_value (rq_header r)"

record options =
  opt_UserID :: bytes
  opt_Auth :: "(bytes \<Rightarrow> bytes \<Rightarrow> bool) option"
  opt_MaxRequestBytes :: int
  opt_MaxResponseBytes :: int
  opt_MaxOpsPerPush :: int
  opt_MaxInFlight :: int
  opt_MinFreeBytes :: int
  opt_FreeBytes :: "int option option"
  opt_AllowedHosts :: "bytes list"
  opt_WebSocketReady :: bool

text \<open>\<open>opt_FreeBytes\<close>: no probe, a probe that fails (\<open>Some None\<close>), or the free bytes it reports.\<close>

definition withDefaults :: "options \<Rightarrow> options" where
  "withDefaults opts = opts\<lparr>
     opt_MaxRequestBytes := (if opt_MaxRequestBytes opts \<le> 0 then int MaxRequestBytes else opt_MaxRequestBytes opts),
     opt_MaxResponseBytes := (if opt_MaxResponseBytes opts \<le> 0 then DefaultMaxPageBytes else opt_MaxResponseBytes opts),
     opt_MaxOpsPerPush := (if opt_MaxOpsPerPush opts \<le> 0 then int MaxOpsPerPush else opt_MaxOpsPerPush opts),
     opt_MaxInFlight := (if opt_MaxInFlight opts \<le> 0 then 64 else opt_MaxInFlight opts)\<rparr>"

text \<open>\<open>StaticToken.Verify\<close> (comparing in constant time is comparing).\<close>

definition StaticToken_Verify :: "bytes \<Rightarrow> bytes \<Rightarrow> bytes \<Rightarrow> bytes \<Rightarrow> bool" where
  "StaticToken_Verify uid tok userID token \<longleftrightarrow> userID = uid \<and> token = tok"

type_synonym exchanger = "bytes \<Rightarrow> pair_dir \<Rightarrow> (pair_error + bytes) \<times> pair_dir"

record server =
  srv_opts :: options
  srv_pair :: "exchanger option"
  srv_recording :: bool
  srv_printable :: "nat \<Rightarrow> bool"

record hub_state =
  hs_db :: db
  hs_store :: store
  hs_pair :: pair_dir

record req_ctx =
  ctx_store :: "nat \<Rightarrow> env"

definition New :: "options \<Rightarrow> (nat \<Rightarrow> bool) \<Rightarrow> server" where
  "New opts up = \<lparr>srv_opts = withDefaults opts, srv_pair = None, srv_recording = False, srv_printable = up\<rparr>"

type_synonym handler = "req_ctx \<Rightarrow> request \<Rightarrow> hub_state \<Rightarrow> response \<times> hub_state"

section \<open>Writing responses\<close>

fun itoa_loop :: "nat \<Rightarrow> bytes \<Rightarrow> bytes" where
  "itoa_loop n acc = (if n > 0 then itoa_loop (n div 10) (digit_char (n mod 10) # acc) else acc)"

declare itoa_loop.simps [simp del]

definition itoa :: "nat \<Rightarrow> bytes" where
  "itoa n = (if n = 0 then ''0'' else itoa_loop n [])"

definition setSyncMode :: "server \<Rightarrow> (bytes \<times> bytes) list" where
  "setSyncMode s = (if opt_WebSocketReady (srv_opts s) then [] else [(''X-Sync-Mode'', ''poll'')])"

definition json_headers :: "server \<Rightarrow> bytes \<Rightarrow> (bytes \<times> bytes) list" where
  "json_headers s body =
     [(''Content-Type'', ''application/json''), (''Content-Length'', itoa (length body))] @ setSyncMode s"

definition writeJSON :: "server \<Rightarrow> bytes \<Rightarrow> response" where
  "writeJSON s body = \<lparr>resp_status = 200, resp_header = json_headers s body, resp_body = body\<rparr>"

definition error_body :: "reject_reason \<Rightarrow> bytes" where
  \<open>error_body reason = ''{"error":"'' @ reason_string reason @ ''"}''\<close>

definition writeError :: "server \<Rightarrow> nat \<Rightarrow> reject_reason \<Rightarrow> response" where
  "writeError s status reason =
     \<lparr>resp_status = status, resp_header = json_headers s (error_body reason), resp_body = error_body reason\<rparr>"

text \<open>One call of the store: its result, and the hub with the tables it leaves.\<close>

definition call :: "'a io \<Rightarrow> hub_state \<Rightarrow> (go_error + 'a) \<times> hub_state" where
  "call m st = (case run m (hs_db st) of (r, db') \<Rightarrow> (r, st\<lparr>hs_db := db'\<rparr>))"

section \<open>Handlers\<close>

definition recordDevice :: "env \<Rightarrow> request \<Rightarrow> hub_state \<Rightarrow> hub_state" where
  "recordDevice env r st =
     (let ident = header_of r ''X-Device-Id'' in
      if ident = [] then st
      else snd (call (SeenDevice env (st_userID (hs_store st)) ident (header_of r ''X-Device-Name'')) st))"

definition status_body :: "dec \<Rightarrow> dec \<Rightarrow> bytes" where
  \<open>status_body epoch head =
     ''{"protocol_version":2,"epoch":"'' @ DecString epoch @ ''","head_seq":"'' @ DecString head
       @ ''","projected_seq":"'' @ DecString head @ ''"}''\<close>

definition handleStatus :: "server \<Rightarrow> handler" where
  "handleStatus s ctx r st =
     (case call (read_HeadSeq (ctx_store ctx 1) (st_userID (hs_store st))) st of
        (Inl _, st1) \<Rightarrow> (writeError s 500 ReasonInternal, st1)
      | (Inr head, st1) \<Rightarrow>
          (let st2 = recordDevice (ctx_store ctx 2) r st1 in
           (writeJSON s (status_body (st_epoch (hs_store st2)) head), st2)))"

record push_request =
  ProtocolVersion :: int
  pr_Ops :: "bytes list"

definition push_fields :: "(bytes \<times> (bytes \<Rightarrow> push_request \<Rightarrow> push_request option)) list" where
  "push_fields =
     [(''protocol_version'', set_int (\<lambda>v q. q\<lparr>ProtocolVersion := v\<rparr>)),
      (''ops'', set_raw_list (\<lambda>v q. q\<lparr>pr_Ops := v\<rparr>))]"

definition decode_push :: "bytes \<Rightarrow> push_request option" where
  "decode_push raw = unmarshal_struct push_fields raw \<lparr>ProtocolVersion = 0, pr_Ops = []\<rparr>"

fun parse_ops :: "bytes list \<Rightarrow> go_error + sync_op list" where
  "parse_ops [] = Inr []"
| "parse_ops (raw # raws) = bindE (ParseOp raw) (\<lambda>op. bindE (parse_ops raws) (\<lambda>ops. Inr (op # ops)))"

definition checkFreeSpace :: "server \<Rightarrow> go_error option" where
  "checkFreeSpace s =
     (if opt_MinFreeBytes (srv_opts s) \<le> 0 then None
      else case opt_FreeBytes (srv_opts s) of
        None \<Rightarrow> None
      | Some None \<Rightarrow> None
      | Some (Some free) \<Rightarrow>
          if free < opt_MinFreeBytes (srv_opts s) then Some (Reject ReasonStorageFull) else None)"

fun comma_separated :: "bytes list \<Rightarrow> bytes" where
  "comma_separated [] = []"
| "comma_separated [x] = x"
| "comma_separated (x # xs) = x @ '','' @ comma_separated xs"

definition push_body :: "(nat \<Rightarrow> bool) \<Rightarrow> push_result \<Rightarrow> bytes" where
  \<open>push_body up res =
     ''{"acked":['' @ comma_separated (map (EmitAck up) (Acks res)) @ ''],"head_seq":"'' @ DecString (HeadSeq res)
       @ ''","projected_seq":"'' @ DecString (ProjectedSeq res) @ ''"}''\<close>

definition handlePush :: "server \<Rightarrow> handler" where
  "handlePush s ctx r st =
     (if checkFreeSpace s \<noteq> None then (writeError s 507 ReasonStorageFull, st)
      else if \<not> rq_body_ok r \<or> int (length (rq_body r)) > opt_MaxRequestBytes (srv_opts s)
      then (writeError s 400 ReasonTooLarge, st)
      else case decode_push (rq_body r) of
        None \<Rightarrow> (writeError s 400 ReasonBadRequest, st)
      | Some req \<Rightarrow>
          if ProtocolVersion req \<noteq> 2 then (writeError s 400 ReasonProtocolVersion, st)
          else if int (length (pr_Ops req)) > opt_MaxOpsPerPush (srv_opts s)
          then (writeError s 400 ReasonTooLarge, st)
          else (case parse_ops (pr_Ops req) of
             Inl e \<Rightarrow> (writeError s 400 (ReasonOf e), st)
           | Inr ops \<Rightarrow>
               (case call (Push (ctx_store ctx 1) (st_userID (hs_store st)) ops
                        (header_of r ''X-Device-Id'') (header_of r ''X-Device-Name'')) st of
                  (Inl e, st1) \<Rightarrow>
                    if ReasonOf e = ReasonUnauthorized then (writeError s 401 (ReasonOf e), st1)
                    else (writeError s 500 ReasonInternal, st1)
                | (Inr res, st1) \<Rightarrow> (writeJSON s (push_body (srv_printable s) res), st1))))"

definition emit_change :: "(nat \<Rightarrow> bool) \<Rightarrow> change_op \<Rightarrow> bytes" where
  "emit_change up op = EmitChangeOp up (co_Seq op) (co_ServerTS op)
     \<lparr>RawLiteral = co_RawLiteral op, op_Digest = co_Digest op, op_ID = [], op_Kind = [], EntityRev = 0,
      OriginDeviceID = [], OriginLocalID = None\<rparr>"

definition changes_body :: "(nat \<Rightarrow> bool) \<Rightarrow> changes_result \<Rightarrow> bytes" where
  \<open>changes_body up res =
     ''{"protocol_version":2,"epoch":"'' @ DecString (cr_Epoch res) @ ''","head_seq":"''
       @ DecString (cr_HeadSeq res) @ ''","more":'' @ (if More res then ''true'' else ''false'')
       @ '',"ops":['' @ comma_separated (map (emit_change up) (cr_Ops res)) @ '']}''\<close>

definition query_since :: "request \<Rightarrow> dec_error + dec" where
  "query_since r =
     (let v = get_value (rq_query r) ''since'' in if v = [] then Inr 0 else ParseDec v)"

definition query_limit :: "request \<Rightarrow> int option" where
  "query_limit r =
     (let v = get_value (rq_query r) ''limit'' in
      if v = [] then Some (int MaxPageLimit)
      else map_option (\<lambda>n. if n > 0 \<and> n < int MaxPageLimit then n else int MaxPageLimit) (Atoi v))"

definition handleChanges :: "server \<Rightarrow> handler" where
  "handleChanges s ctx r st =
     (case query_since r of
        Inl _ \<Rightarrow> (writeError s 400 ReasonBadCursor, st)
      | Inr since \<Rightarrow>
          (case query_limit r of
             None \<Rightarrow> (writeError s 400 ReasonBadRequest, st)
           | Some limit \<Rightarrow>
               (case call (Changes (ctx_store ctx 1) (st_userID (hs_store st)) since limit
                        (opt_MaxResponseBytes (srv_opts s))) st of
                  (Inl e, st1) \<Rightarrow>
                    if ReasonOf e = ReasonBadCursor then (writeError s 400 ReasonBadCursor, st1)
                    else (writeError s 500 ReasonInternal, st1)
                | (Inr res, st1) \<Rightarrow>
                    (writeJSON s (changes_body (srv_printable s) res), recordDevice (ctx_store ctx 2) r st1))))"

section \<open>Pairing\<close>

definition isJSONContentType :: "bytes \<Rightarrow> bool" where
  "isJSONContentType ct \<longleftrightarrow>
     (if ct = [] then False else takeWhile (\<lambda>c. c \<noteq> CHR '';'') ct = ''application/json'')"

text \<open>
  \<open>NewDecoder(MaxBytesReader(body, 4096)).Decode(&req)\<close>: one value, which must be complete within
  the first 4096 bytes; what follows it is not looked at. A value that is not an object or an array
  ends only with the byte after it, which must then be within the limit or the end of the body.
\<close>

definition pair_body_limit :: nat where
  "pair_body_limit = 4096"

definition decode_pair :: "bytes \<Rightarrow> bytes option" where
  "decode_pair body =
     (case read_value body of
        None \<Rightarrow> None
      | Some (v, r) \<Rightarrow>
          let used = length body - length r + (if hd v = CHR ''{'' \<or> hd v = CHR ''['' then 0 else 1) in
          if length body > pair_body_limit \<and> used > pair_body_limit then None
          else decode_struct [(''code'', set_string (\<lambda>c _. c))] v [])"

definition pair_body :: "(nat \<Rightarrow> bool) \<Rightarrow> bytes \<Rightarrow> bytes \<Rightarrow> bytes" where
  \<open>pair_body up token userID =
     ''{"token":'' @ Quote up token @ '',"user_id":'' @ Quote up userID @ ''}''\<close>

definition handlePair :: "server \<Rightarrow> handler" where
  "handlePair s ctx r st =
     (case srv_pair s of
        None \<Rightarrow> (writeError s 404 ReasonBadRequest, st)
      | Some redeem \<Rightarrow>
          if rq_method r \<noteq> ''POST'' then (writeError s 405 ReasonBadRequest, st)
          else if \<not> isJSONContentType (header_of r ''Content-Type'') then (writeError s 400 ReasonBadRequest, st)
          else case (if rq_body_ok r then decode_pair (rq_body r) else None) of
            None \<Rightarrow> (writeError s 400 ReasonBadRequest, st)
          | Some code \<Rightarrow>
              (case redeem code (hs_pair st) of
                 (Inl _, dir') \<Rightarrow> (writeError s 401 ReasonUnauthorized, st\<lparr>hs_pair := dir'\<rparr>)
               | (Inr token, dir') \<Rightarrow>
                   (writeJSON s (pair_body (srv_printable s) token (opt_UserID (srv_opts s))),
                    st\<lparr>hs_pair := dir'\<rparr>)))"

section \<open>Middleware\<close>

definition bearerToken :: "request \<Rightarrow> bytes" where
  "bearerToken r =
     (let v = header_of r ''Authorization''; prefix = ''Bearer '' in
      if length v > length prefix \<and> equal_fold (take (length prefix) v) prefix
      then drop (length prefix) v else [])"

definition verify_auth :: "server \<Rightarrow> bytes \<Rightarrow> bytes \<Rightarrow> bool" where
  "verify_auth s userID token =
     (case opt_Auth (srv_opts s) of None \<Rightarrow> False | Some verify \<Rightarrow> verify userID token)"

definition authed :: "server \<Rightarrow> bytes \<Rightarrow> handler \<Rightarrow> handler" where
  "authed s meth h ctx r st =
     (if rq_method r \<noteq> meth then (writeError s 405 ReasonBadRequest, st)
      else
        let userID = header_of r ''X-User-Id''; token = bearerToken r; deviceID = header_of r ''X-Device-Id'' in
        if \<not> verify_auth s userID token then (writeError s 401 ReasonUnauthorized, st)
        else if userID \<noteq> opt_UserID (srv_opts s) then (writeError s 403 ReasonUserMismatch, st)
        else if deviceID = [] then (writeError s 400 ReasonBadRequest, st)
        else case call (deviceRevoked (ctx_store ctx 0) (st_userID (hs_store st)) deviceID) st of
          (Inl _, st1) \<Rightarrow> (writeError s 500 ReasonInternal, st1)
        | (Inr revoked, st1) \<Rightarrow>
            if revoked then (writeError s 401 ReasonUnauthorized, st1) else h ctx r st1)"

definition host_part :: "bytes \<Rightarrow> bytes" where
  "host_part s = (case SplitHostPort s of None \<Rightarrow> s | Some (h, _) \<Rightarrow> h)"

definition hostAllowed :: "server \<Rightarrow> bytes \<Rightarrow> bool" where
  "hostAllowed s host \<longleftrightarrow>
     list_ex (\<lambda>allowed. equal_fold (host_part host) (host_part allowed)) (opt_AllowedHosts (srv_opts s))"

definition checkHostAndOrigin :: "server \<Rightarrow> handler \<Rightarrow> handler" where
  "checkHostAndOrigin s h ctx r st =
     (if header_of r ''Origin'' \<noteq> [] then (writeError s 400 ReasonBadRequest, st)
      else if header_of r ''Content-Encoding'' \<noteq> [] then (writeError s 400 ReasonBadRequest, st)
      else if opt_AllowedHosts (srv_opts s) \<noteq> [] \<and> \<not> hostAllowed s (rq_host r)
      then (writeError s 400 ReasonBadRequest, st)
      else h ctx r st)"

text \<open>
  \<open>record\<close>: with a recorder the body is read first, up to the request limit, and the handler sees
  what was read. (The captured files are output only.)
\<close>

definition record_request :: "server \<Rightarrow> handler \<Rightarrow> handler" where
  "record_request s h ctx r st =
     (if srv_recording s
      then h ctx (r\<lparr>rq_body := take (nat (opt_MaxRequestBytes (srv_opts s))) (rq_body r), rq_body_ok := True\<rparr>) st
      else h ctx r st)"

definition route :: "server \<Rightarrow> handler" where
  "route s ctx r st =
     (if rq_path r = ''/healthz'' then
        (if rq_method r \<noteq> ''GET'' then (writeError s 405 ReasonBadRequest, st)
         else (\<lparr>resp_status = 200, resp_header = [(''Content-Type'', ''text/plain; charset=utf-8'')],
                resp_body = ''ok''\<rparr>, st))
      else if rq_path r = ''/v1/sync/status'' then authed s ''GET'' (handleStatus s) ctx r st
      else if rq_path r = ''/v1/sync/ops'' then authed s ''POST'' (handlePush s) ctx r st
      else if rq_path r = ''/v1/sync/changes'' then authed s ''GET'' (handleChanges s) ctx r st
      else if rq_path r = ''/pair'' then handlePair s ctx r st
      else (writeError s 404 ReasonBadRequest, st))"

text \<open>The semaphore: \<open>n\<close> requests hold a slot when this one arrives.\<close>

definition limitInFlight :: "server \<Rightarrow> nat \<Rightarrow> handler \<Rightarrow> handler" where
  "limitInFlight s n h ctx r st =
     (if int n < opt_MaxInFlight (srv_opts s) then h ctx r st else (writeError s 503 ReasonOverloaded, st))"

definition Handler :: "server \<Rightarrow> nat \<Rightarrow> handler" where
  "Handler s n = limitInFlight s n (checkHostAndOrigin s (record_request s (route s)))"

end
