(* ===== verification/HubProps.thy ===== *)
theory HubProps
  imports Hub
begin

text \<open>
  Lemmas about the HTTP surface: what a response can be, which requests can change anything, and that
  every handler keeps the store consistent.
\<close>

section \<open>Content-Length\<close>

lemma itoa_loop_format: "0 < n \<Longrightarrow> itoa_loop n acc = format_nat n @ acc"
proof (induction n arbitrary: acc rule: less_induct)
  case (less n)
  show ?case
  proof (cases "n < 10")
    case True
    with less.prems show ?thesis
      by (subst itoa_loop.simps, subst itoa_loop.simps, subst format_nat.simps) simp
  next
    case False
    then have "itoa_loop (n div 10) (digit_char (n mod 10) # acc)
        = format_nat (n div 10) @ digit_char (n mod 10) # acc"
      by (intro less.IH) auto
    moreover have "format_nat n = format_nat (n div 10) @ [digit_char (n mod 10)]"
      using False by (subst format_nat.simps) simp
    moreover have "itoa_loop n acc = itoa_loop (n div 10) (digit_char (n mod 10) # acc)"
      using less.prems by (subst itoa_loop.simps) simp
    ultimately show ?thesis by simp
  qed
qed

lemma itoa_format: "itoa n = format_nat n"
  by (simp add: itoa_def itoa_loop_format format_nat_0)

section \<open>Responses\<close>

definition is_error :: "server \<Rightarrow> response \<Rightarrow> bool" where
  "is_error s resp \<longleftrightarrow>
     (\<exists>status \<in> {400, 401, 403, 404, 405, 500, 503, 507}. \<exists>reason. resp = writeError s status reason)"

definition well_formed :: "server \<Rightarrow> response \<Rightarrow> bool" where
  "well_formed s resp \<longleftrightarrow> resp_status resp = 200 \<or> is_error s resp"

lemma writeError_well_formed [intro]:
  "status \<in> {400, 401, 403, 404, 405, 500, 503, 507} \<Longrightarrow> well_formed s (writeError s status reason)"
  by (auto simp: well_formed_def is_error_def)

lemma writeJSON_well_formed [intro]: "well_formed s (writeJSON s body)"
  by (simp add: well_formed_def writeJSON_def)

lemmas handler_splits = if_splits option.splits sum.splits prod.splits

lemma handleStatus_wf: "well_formed s (fst (handleStatus s ctx r st))"
  by (auto simp: handleStatus_def Let_def split: handler_splits)

lemma handlePush_wf: "well_formed s (fst (handlePush s ctx r st))"
  by (auto simp: handlePush_def split: handler_splits)

lemma handleChanges_wf: "well_formed s (fst (handleChanges s ctx r st))"
  by (auto simp: handleChanges_def split: handler_splits)

lemma handlePair_wf: "well_formed s (fst (handlePair s ctx r st))"
  by (auto simp: handlePair_def split: handler_splits)

lemma authed_wf: "(\<And>st. well_formed s (fst (h ctx r st))) \<Longrightarrow> well_formed s (fst (authed s m h ctx r st))"
  by (auto simp: authed_def Let_def split: handler_splits)

lemma route_wf: "well_formed s (fst (route s ctx r st))"
  unfolding route_def
  by (auto simp: authed_wf handleStatus_wf handlePush_wf handleChanges_wf handlePair_wf)
    (simp add: well_formed_def)

lemma Handler_wf: "well_formed s (fst (Handler s n ctx r st))"
  by (auto simp: Handler_def limitInFlight_def checkHostAndOrigin_def record_request_def route_wf)

section \<open>Who can change what\<close>

text \<open>A request that carries the key, the hub's user id and the id of a device that is not revoked.\<close>

definition admitted :: "server \<Rightarrow> request \<Rightarrow> hub_state \<Rightarrow> bool" where
  "admitted s r st \<longleftrightarrow>
     verify_auth s (header_of r ''X-User-Id'') (bearerToken r)
     \<and> header_of r ''X-User-Id'' = opt_UserID (srv_opts s)
     \<and> header_of r ''X-Device-Id'' \<noteq> []
     \<and> \<not> is_revoked (st_userID (hs_store st)) (header_of r ''X-Device-Id'') (hs_db st)"

lemma call_revoked:
  assumes "call (deviceRevoked env u dev) st = (x, st1)"
  shows "st1 = st" "x = Inr b \<Longrightarrow> b = (dev \<noteq> [] \<and> is_revoked u dev (hs_db st))"
proof -
  obtain k db' where d: "deviceRevoked env u dev (0, hs_db st) = (x, k, db')"
    and st1: "st1 = st\<lparr>hs_db := db'\<rparr>"
    using assms by (auto simp: call_def run_def split: prod.splits)
  show "st1 = st" using deviceRevoked_db [OF d] st1 by simp
  show "b = (dev \<noteq> [] \<and> is_revoked u dev (hs_db st))" if "x = Inr b"
    using deviceRevoked_Inr d that by blast
qed

text \<open>Unless the request is admitted, the wrapped handler never runs and nothing changes.\<close>

lemma authed_refused:
  assumes "\<not> (rq_method r = m \<and> admitted s r st)"
  shows "snd (authed s m h ctx r st) = st \<and> is_error s (fst (authed s m h ctx r st))"
proof -
  obtain x st1 where c: "call (deviceRevoked (ctx_store ctx 0) (st_userID (hs_store st)) (header_of r ''X-Device-Id'')) st
      = (x, st1)" by fastforce
  have err: "is_error s (writeError s status reason)"
    if "status \<in> {400, 401, 403, 404, 405, 500, 503, 507}" for status reason
    using that by (auto simp: is_error_def)
  show ?thesis
    using assms c call_revoked [OF c]
    by (auto simp: authed_def admitted_def Let_def split: sum.splits intro: err)
qed

lemma authed_admitted:
  assumes "authed s m h ctx r st = (resp, st')" "resp_status resp = 200 \<or> st' \<noteq> st"
  shows "rq_method r = m \<and> admitted s r st \<and> (resp, st') = h ctx r st"
proof -
  have adm: "rq_method r = m \<and> admitted s r st"
  proof (rule ccontr)
    assume "\<not> ?thesis"
    from authed_refused [OF this, of h ctx] assms show False
      by (auto simp: is_error_def writeError_def)
  qed
  obtain x st1 where c: "call (deviceRevoked (ctx_store ctx 0) (st_userID (hs_store st)) (header_of r ''X-Device-Id'')) st
      = (x, st1)" by fastforce
  note cr = call_revoked [OF c]
  have "(resp, st') = h ctx r st"
  proof (cases x)
    case (Inl e)
    with adm c cr(1) assms show ?thesis by (auto simp: authed_def admitted_def Let_def writeError_def)
  next
    case (Inr b)
    with adm cr(2) have "\<not> b" by (auto simp: admitted_def)
    with adm c cr(1) assms(1) Inr show ?thesis by (auto simp: authed_def admitted_def Let_def)
  qed
  with adm show ?thesis by simp
qed

lemma revoked_not_admitted:
  "is_revoked (st_userID (hs_store st)) (header_of r ''X-Device-Id'') (hs_db st) \<Longrightarrow> \<not> admitted s r st"
  by (simp add: admitted_def)

section \<open>The invariant\<close>

definition hub_ok :: "hub_state \<Rightarrow> bool" where
  "hub_ok st \<longleftrightarrow> store_ok (hs_store st) (hs_db st)"

lemma call_eq: "call m st = (x, st') \<longleftrightarrow> (\<exists>db'. run m (hs_db st) = (x, db') \<and> st' = st\<lparr>hs_db := db'\<rparr>)"
  by (auto simp: call_def split: prod.splits)

lemma find_meta_log_part: "log_part db' = log_part db \<Longrightarrow> find_meta u db' = find_meta u db"
  by (simp add: log_part_def find_meta_def)

lemma store_ok_log_part: "log_part db' = log_part db \<Longrightarrow> store_ok s db' = store_ok s db"
  using log_part_cong(5) [of db' db] find_meta_log_part [of db' db] by (simp add: store_ok_def epoch_ok_def)

lemma SeenDevice_log_part:
  assumes "run (SeenDevice env u dev name) db = (x, db')"
  shows "log_part db' = log_part db" "is_revoked u' dev' db' = is_revoked u' dev' db"
proof -
  have "log_part db' = log_part db \<and> is_revoked u' dev' db' = is_revoked u' dev' db"
  proof (cases "dev = []")
    case True
    with assms show ?thesis by (simp add: SeenDevice_def run_def)
  next
    case False
    then have r: "run (transaction env (upsertDevice env u dev name (env_now env))) db = (x, db')"
      using assms by (simp add: SeenDevice_def)
    show ?thesis
    proof (cases rule: transaction_cases [of env "upsertDevice env u dev name (env_now env)" 0 db])
      case (fails e k')
      with r show ?thesis by (simp add: run_def)
    next
      case (commits y k' dbc)
      with r have "db' = dbc" by (simp add: run_def)
      moreover obtain k1 where "upsertDevice env u dev name (env_now env) (Suc 0, db) = (Inr y, k1, dbc)"
        using commits by (auto simp: io_simps)
      ultimately show ?thesis using upsertDevice_Inr [of env u dev name] by metis
    qed
  qed
  then show "log_part db' = log_part db" "is_revoked u' dev' db' = is_revoked u' dev' db" by simp_all
qed

lemma recordDevice_log:
  "log_part (hs_db (recordDevice env r st)) = log_part (hs_db st)"
  "hs_store (recordDevice env r st) = hs_store st"
  "hs_pair (recordDevice env r st) = hs_pair st"
  by (auto simp: recordDevice_def Let_def call_def split: prod.splits dest: SeenDevice_log_part(1))

lemma store_ok_push:
  assumes "run (Push env u ops dev name) db = (x, db')" "store_ok s db" "u = st_userID s"
  shows "store_ok s db'"
proof (cases x)
  case (Inl e)
  with assms Push_Inl show ?thesis unfolding store_ok_def by blast
next
  case (Inr res)
  have g: "gapless u db" using assms(2,3) by (simp add: store_ok_def)
  from Push_Inr [OF assms(1) [unfolded Inr] g] have g': "gapless u db'" and m: "meta_ids db' = meta_ids db" by metis+
  obtain h where "find_meta u db = Some (h, DecString (st_epoch s))" "st_epoch s \<noteq> 0"
    using assms(2,3) by (auto simp: store_ok_def epoch_ok_def)
  then have "map_option snd (find_meta u db') = Some (DecString (st_epoch s))"
    using find_meta_ids [of u db] find_meta_ids [of u db'] m by simp
  with g' \<open>st_epoch s \<noteq> 0\<close> show ?thesis using assms(3) by (auto simp: store_ok_def epoch_ok_def)
qed

lemma hub_ok_recordDevice: "hub_ok (recordDevice env r st) = hub_ok st"
  using store_ok_log_part [OF recordDevice_log(1)] recordDevice_log(2) by (simp add: hub_ok_def)

lemma hub_ok_pair: "hub_ok (st\<lparr>hs_pair := d\<rparr>) = hub_ok st"
  by (simp add: hub_ok_def)

lemma read_only_call:
  assumes "call m st = (x, st')" "\<And>k db r k' db'. m (k, db) = (r, k', db') \<Longrightarrow> db' = db"
  shows "st' = st"
proof -
  obtain k db' where "m (0, hs_db st) = (x, k, db')" "st' = st\<lparr>hs_db := db'\<rparr>"
    using assms(1) by (auto simp: call_def run_def split: prod.splits)
  with assms(2) show ?thesis by auto
qed

lemma read_HeadSeq_db: "read_HeadSeq env u (k, db) = (r, k', db') \<Longrightarrow> db' = db"
  by (auto simp: read_HeadSeq_def bindI_def query_def stmt_def split: if_splits option.splits)

lemma page_loop_db: "page_loop env l b rows acc n (k, db) = (r, k', db') \<Longrightarrow> db' = db"
  by (induction rows arbitrary: acc n k)
    (auto simp: bindI_def query_def stmt_def split: if_splits sum.splits)

lemma Changes_read_only: "Changes env u since l b (k, db) = (r, k', db') \<Longrightarrow> db' = db"
  by (auto simp: Changes_def Let_def bindI_def query_def stmt_def
      split: if_splits sum.splits option.splits prod.splits dest: page_loop_db)

lemma handleStatus_ok: "handleStatus s ctx r st = (resp, st') \<Longrightarrow> hub_ok st' = hub_ok st"
  by (auto simp: handleStatus_def Let_def hub_ok_recordDevice split: handler_splits
      dest!: read_only_call [OF _ read_HeadSeq_db])

lemma handleChanges_ok: "handleChanges s ctx r st = (resp, st') \<Longrightarrow> hub_ok st' = hub_ok st"
  by (auto simp: handleChanges_def hub_ok_recordDevice split: handler_splits
      dest!: read_only_call [OF _ Changes_read_only])

lemma handlePair_ok: "handlePair s ctx r st = (resp, st') \<Longrightarrow> hub_ok st' = hub_ok st"
  by (auto simp: handlePair_def hub_ok_pair split: handler_splits)

lemma handlePush_ok: "handlePush s ctx r st = (resp, st') \<Longrightarrow> hub_ok st \<Longrightarrow> hub_ok st'"
  by (auto simp: handlePush_def hub_ok_def call_eq split: handler_splits intro: store_ok_push)

lemma authed_ok:
  assumes "authed s m h ctx r st = (resp, st')" "hub_ok st"
    and "\<And>resp st'. h ctx r st = (resp, st') \<Longrightarrow> hub_ok st'"
  shows "hub_ok st'"
proof (cases "st' = st")
  case False
  with authed_admitted [OF assms(1)] assms(3) show ?thesis by metis
qed (use assms(2) in simp)

lemma route_ok: "route s ctx r st = (resp, st') \<Longrightarrow> hub_ok st \<Longrightarrow> hub_ok st'"
  by (auto simp: route_def split: if_splits dest: handleStatus_ok handleChanges_ok handlePair_ok handlePush_ok
      elim!: authed_ok)

lemma Handler_ok: "Handler s n ctx r st = (resp, st') \<Longrightarrow> hub_ok st \<Longrightarrow> hub_ok st'"
  by (auto simp: Handler_def limitInFlight_def checkHostAndOrigin_def record_request_def
      split: if_splits dest: route_ok)

section \<open>What a request leaves of the log and the revocations\<close>

definition hub_log :: "hub_state \<Rightarrow> entry list" where
  "hub_log st = abs_log (st_userID (hs_store st)) (hs_db st)"

definition dev_revoked :: "hub_state \<Rightarrow> bytes \<Rightarrow> bool" where
  "dev_revoked st dev = is_revoked (st_userID (hs_store st)) dev (hs_db st)"

text \<open>The identity of the store and its revocations stay; the log grows at its end by valid entries.\<close>

definition entry_valid :: "entry \<Rightarrow> bool" where
  "entry_valid e \<longleftrightarrow>
     is_literal (e_body e) \<and> ValidDigest (e_digest e)
     \<and> (\<exists>decoded. UnquoteJSONString (e_body e) = Inr decoded \<and> e_digest e = Digest decoded)"

definition grows :: "hub_state \<Rightarrow> hub_state \<Rightarrow> bool" where
  "grows st st' \<longleftrightarrow>
     hs_store st' = hs_store st \<and> dev_revoked st' = dev_revoked st
     \<and> (\<exists>es. hub_log st' = hub_log st @ es \<and> list_all entry_valid es)"

lemma grows_refl [simp]: "grows st st"
  by (simp add: grows_def)

lemma grows_trans: "grows a b \<Longrightarrow> grows b c \<Longrightarrow> grows a c"
  by (auto simp: grows_def)

lemma grows_recordDevice: "grows st (recordDevice env r st)"
proof -
  have "dev_revoked (recordDevice env r st) = dev_revoked st"
    by (rule ext)
      (auto simp: dev_revoked_def recordDevice_def Let_def call_def split: prod.splits dest: SeenDevice_log_part(2))
  moreover have "hub_log (recordDevice env r st) = hub_log st"
    using log_part_cong(2) [OF recordDevice_log(1)] recordDevice_log(2) by (simp add: hub_log_def)
  ultimately show ?thesis by (simp add: grows_def recordDevice_log(2))
qed

lemma grows_pair [simp]: "grows st (st\<lparr>hs_pair := d\<rparr>)"
  by (auto simp: grows_def dev_revoked_def hub_log_def fun_eq_iff)

lemma parse_ops_valid: "parse_ops raws = Inr ops \<Longrightarrow> list_all valid_op ops"
  by (induction raws arbitrary: ops) (auto simp: bindE_def split: sum.splits dest: ParseOp_valid)

lemma spec_push_valid:
  "spec_push now ops log = (ns, log') \<Longrightarrow> list_all valid_op ops \<Longrightarrow>
   \<exists>es. log' = log @ es \<and> list_all entry_valid es"
proof (induction ops arbitrary: log ns)
  case Nil
  then show ?case by simp
next
  case (Cons op ops)
  then obtain n log1 ns' where st: "spec_step now op log = (n, log1)" and "spec_push now ops log1 = (ns', log')"
    by (auto simp: spec_push_Cons)
  with Cons.IH Cons.prems(2) obtain es where es: "log' = log1 @ es" "list_all entry_valid es" by auto
  have "entry_valid (entry_of now op)"
    using Cons.prems(2) by (auto simp: entry_valid_def entry_of_def valid_op_def)
  then have "\<exists>es1. log1 = log @ es1 \<and> list_all entry_valid es1"
    using st by (auto simp: spec_step_def split: option.splits)
  with es show ?case by auto
qed

lemma push_grows:
  assumes "run (Push env (st_userID (hs_store st)) ops dev name) (hs_db st) = (x, db')" "hub_ok st"
    "list_all valid_op ops"
  shows "grows st (st\<lparr>hs_db := db'\<rparr>)"
proof (cases x)
  case (Inl e)
  have "gapless (st_userID (hs_store st)) (hs_db st)" using assms(2) by (simp add: hub_ok_def store_ok_def)
  with Push_Inl assms(1) Inl have "db' = hs_db st" by blast
  then show ?thesis by (simp add: grows_def dev_revoked_def hub_log_def fun_eq_iff)
next
  case (Inr res)
  have g: "gapless (st_userID (hs_store st)) (hs_db st)" using assms(2) by (simp add: hub_ok_def store_ok_def)
  note p = Push_Inr [OF assms(1) [unfolded Inr] g]
  obtain ns where "spec_push (env_now env) ops (hub_log st) = (ns, hub_log (st\<lparr>hs_db := db'\<rparr>))"
    by (rule p) (simp add: hub_log_def)
  with spec_push_valid assms(3) have "\<exists>es. hub_log (st\<lparr>hs_db := db'\<rparr>) = hub_log st @ es \<and> list_all entry_valid es"
    by blast
  moreover have "dev_revoked (st\<lparr>hs_db := db'\<rparr>) dev' = dev_revoked st dev'" for dev'
    by (rule p) (simp add: dev_revoked_def)
  ultimately show ?thesis by (auto simp: grows_def fun_eq_iff)
qed

lemma handleStatus_grows: "handleStatus s ctx r st = (resp, st') \<Longrightarrow> grows st st'"
  by (auto simp: handleStatus_def Let_def grows_recordDevice split: handler_splits
      dest!: read_only_call [OF _ read_HeadSeq_db])

lemma handleChanges_grows: "handleChanges s ctx r st = (resp, st') \<Longrightarrow> grows st st'"
  by (auto simp: handleChanges_def grows_recordDevice split: handler_splits
      dest!: read_only_call [OF _ Changes_read_only])

lemma handlePair_grows: "handlePair s ctx r st = (resp, st') \<Longrightarrow> grows st st'"
  by (auto simp: handlePair_def split: handler_splits)

lemmas readers_grow = handleStatus_grows handleChanges_grows handlePair_grows

lemma handlePush_grows: "handlePush s ctx r st = (resp, st') \<Longrightarrow> hub_ok st \<Longrightarrow> grows st st'"
  by (auto simp: handlePush_def call_eq split: handler_splits dest!: parse_ops_valid intro!: push_grows)

lemma authed_grows:
  assumes "authed s m h ctx r st = (resp, st')" "\<And>resp st'. h ctx r st = (resp, st') \<Longrightarrow> grows st st'"
  shows "grows st st'"
proof (cases "st' = st")
  case False
  with authed_admitted [OF assms(1)] assms(2) show ?thesis by metis
qed simp

lemma route_grows: "route s ctx r st = (resp, st') \<Longrightarrow> hub_ok st \<Longrightarrow> grows st st'"
  by (auto simp: route_def split: if_splits intro: readers_grow handlePush_grows elim!: authed_grows)

lemma Handler_grows: "Handler s n ctx r st = (resp, st') \<Longrightarrow> hub_ok st \<Longrightarrow> grows st st'"
  by (auto simp: Handler_def limitInFlight_def checkHostAndOrigin_def record_request_def
      split: if_splits dest: route_grows)

section \<open>Refused requests\<close>

abbreviation sync_path :: "request \<Rightarrow> bool" where
  "sync_path r \<equiv> rq_path r \<notin> {''/healthz'', ''/pair''}"

lemma admitted_body [simp]: "admitted s (r\<lparr>rq_body := b, rq_body_ok := k\<rparr>) st = admitted s r st"
  by (simp add: admitted_def bearerToken_def)

lemma is_error_writeError [simp]:
  "status \<in> {400, 401, 403, 404, 405, 500, 503, 507} \<Longrightarrow> is_error s (writeError s status reason)"
  by (auto simp: is_error_def)

lemma is_error_status: "is_error s resp \<Longrightarrow> resp_status resp \<noteq> 200"
  by (auto simp: is_error_def writeError_def)

lemma route_refused:
  "sync_path r \<Longrightarrow> \<not> admitted s r st \<Longrightarrow> snd (route s ctx r st) = st \<and> is_error s (fst (route s ctx r st))"
  by (auto simp: route_def authed_refused)

lemma Handler_refused:
  "sync_path r \<Longrightarrow> \<not> admitted s r st \<Longrightarrow>
   snd (Handler s n ctx r st) = st \<and> is_error s (fst (Handler s n ctx r st))"
  by (auto simp: Handler_def limitInFlight_def checkHostAndOrigin_def record_request_def route_refused)

lemma Handler_pair_path:
  assumes "Handler s n ctx r st = (resp, st')" "\<not> sync_path r"
  shows "hs_db st' = hs_db st" "hs_store st' = hs_store st"
  using assms
  by (auto simp: Handler_def limitInFlight_def checkHostAndOrigin_def record_request_def route_def handlePair_def
      split: handler_splits)

section \<open>Serving requests\<close>

text \<open>The requests a hub serves, one after another, each with the number in flight and its surroundings.\<close>

fun serve :: "server \<Rightarrow> (nat \<times> req_ctx \<times> request) list \<Rightarrow> hub_state \<Rightarrow> response list \<times> hub_state" where
  "serve s [] st = ([], st)"
| "serve s ((n, ctx, r) # rs) st =
     (case Handler s n ctx r st of (resp, st1) \<Rightarrow> apfst ((#) resp) (serve s rs st1))"

lemma serve_Cons:
  "serve s ((n, ctx, r) # rs) st = (resps, st') \<longleftrightarrow>
     (\<exists>resp st1 resps'. Handler s n ctx r st = (resp, st1) \<and> serve s rs st1 = (resps', st') \<and> resps = resp # resps')"
  by (auto simp: apfst_def map_prod_def split: prod.splits)

declare serve.simps(2) [simp del]

lemma serve_ok: "serve s rs st = (resps, st') \<Longrightarrow> hub_ok st \<Longrightarrow> hub_ok st' \<and> grows st st'"
proof (induction rs arbitrary: st resps)
  case Nil
  then show ?case by simp
next
  case (Cons q rs)
  obtain n ctx r where q: "q = (n, ctx, r)" by (cases q)
  from Cons.prems(1) obtain resp st1 resps' where h: "Handler s n ctx r st = (resp, st1)"
    and rest: "serve s rs st1 = (resps', st')" by (auto simp: q serve_Cons)
  from Handler_ok [OF h] Handler_grows [OF h] Cons.prems(2) Cons.IH [OF rest] show ?case
    using grows_trans by blast
qed

section \<open>Properties of the hub\<close>

text \<open>A hub with a key, a fresh database and no window file; a request of a device that holds the key.\<close>

definition sample_options :: options where
  "sample_options = \<lparr>opt_UserID = ''hub'', opt_Auth = Some (StaticToken_Verify ''hub'' ''key''), opt_MaxRequestBytes = 0,
     opt_MaxResponseBytes = 0, opt_MaxOpsPerPush = 0, opt_MaxInFlight = 0, opt_MinFreeBytes = 0,
     opt_FreeBytes = None, opt_AllowedHosts = [''hub.lan''], opt_WebSocketReady = False\<rparr>"

definition sample_hub :: hub_state where
  "sample_hub = \<lparr>hs_db = new_db, hs_store = new_store, hs_pair = \<lparr>pd_key = None, pd_window = None\<rparr>\<rparr>"

definition quiet_ctx :: req_ctx where
  "quiet_ctx = \<lparr>ctx_store = (\<lambda>_. quiet_env)\<rparr>"

definition sample_request :: "bytes \<Rightarrow> bytes \<Rightarrow> bytes \<Rightarrow> bytes \<Rightarrow> request" where
  "sample_request meth path key body =
     \<lparr>rq_method = meth, rq_path = path, rq_query = [],
      rq_header = [(''X-User-Id'', ''hub''), (''X-Device-Id'', ''laptop''), (''Authorization'', ''Bearer '' @ key)],
      rq_host = ''hub.lan'', rq_body = body, rq_body_ok = True\<rparr>"

lemma sample_hub_ok [simp]: "hub_ok sample_hub"
proof -
  have "DecString 5 = ''5''" using stored_five by (simp add: ParseDecPositive_Inr_iff)
  then show ?thesis
    by (simp add: hub_ok_def sample_hub_def store_ok_def epoch_ok_def new_store_def find_meta_def) (simp add: new_db_def)
qed

lemma sample_request_not_admitted [simp]:
  "key \<noteq> ''key'' \<Longrightarrow> \<not> admitted (New sample_options up) (sample_request meth path key body) st"
  by (auto simp: admitted_def verify_auth_def New_def withDefaults_def sample_options_def StaticToken_Verify_def
      bearerToken_def sample_request_def get_value_def Let_def)

lemma sample_request_simps [simp]:
  "rq_path (sample_request meth path key body) = path"
  "header_of (sample_request meth path key body) ''X-Device-Id'' = ''laptop''"
  by (simp_all add: sample_request_def get_value_def)

text \<open>
  C4: serving keeps the hub consistent. Whatever requests arrive, in whatever order, and whichever
  calls fail while they are served, the store stays consistent (a gapless log, the counter its
  length, the served epoch the stored one), its identity and the set of revoked devices do not
  change, and the log only grows, at its end, by entries whose body is a JSON string literal and
  whose digest is the digest of the bytes that literal denotes.
\<close>

theorem serving_keeps_hub_consistent:
  assumes "serve s rs st = (resps, st')" "hub_ok st"
  shows "hub_ok st' \<and> hs_store st' = hs_store st \<and> dev_revoked st' = dev_revoked st
    \<and> (\<exists>es. hub_log st' = hub_log st @ es \<and> list_all entry_valid es)"
  using serve_ok [OF assms] by (simp add: grows_def)

theorem serving_keeps_hub_consistent_witness:
  "\<exists>resps st'. serve (New sample_options (\<lambda>_. True))
      [(0, quiet_ctx, sample_request ''POST'' ''/v1/sync/ops'' ''key'' ''{}'')] sample_hub = (resps, st') \<and> hub_ok st'"
  using serving_keeps_hub_consistent [OF _ sample_hub_ok] by (metis surj_pair)

text \<open>
  What a response can be. Every answer of the hub has status 200, or is one of the error answers
  of the protocol: a status of the fixed list, a body that holds nothing but a reason of the fixed
  vocabulary, and the decimal length of that body as its \<open>Content-Length\<close>. In particular the hub never redirects.
\<close>

theorem responses_from_fixed_vocabulary:
  "case fst (Handler s n ctx r st) of resp \<Rightarrow>
     resp_status resp = 200
     \<or> (resp_status resp \<in> {400, 401, 403, 404, 405, 500, 503, 507}
        \<and> (\<exists>reason. resp_body resp = error_body reason)
        \<and> map_of (resp_header resp) ''Content-Length'' = Some (format_nat (length (resp_body resp))))"
  using Handler_wf [of s n ctx r st]
  by (auto simp: well_formed_def is_error_def writeError_def json_headers_def itoa_format)

text \<open>
  C8: nothing without the key. On every path but the health check and pairing, a request is answered
  with 200, or changes anything at all, only when it carries the key, the hub's user id and the id of
  a device that is not revoked; and on no path does a request without them touch the database.
\<close>

theorem only_admitted_requests_act:
  assumes "Handler s n ctx r st = (resp, st')"
  shows "(rq_path r \<notin> {''/healthz'', ''/pair''} \<and> (resp_status resp = 200 \<or> st' \<noteq> st) \<longrightarrow> admitted s r st)
    \<and> (hs_db st' \<noteq> hs_db st \<longrightarrow> admitted s r st)"
  using Handler_refused [of r s st n ctx] Handler_pair_path [OF assms] assms
  by (auto dest: is_error_status)

theorem only_admitted_requests_act_witness:
  "\<exists>resp. Handler (New sample_options (\<lambda>_. True)) 0 quiet_ctx (sample_request ''GET'' ''/v1/sync/status'' ''guess'' []) sample_hub
    = (resp, sample_hub) \<and> resp_status resp \<noteq> 200"
proof -
  obtain resp st' where h: "Handler (New sample_options (\<lambda>_. True)) 0 quiet_ctx
      (sample_request ''GET'' ''/v1/sync/status'' ''guess'' []) sample_hub = (resp, st')" by fastforce
  from only_admitted_requests_act [OF h] h show ?thesis by auto
qed

text \<open>
  A revoked device is locked out for good. After any sequence of requests, a request that names a
  device that was revoked is refused with an error on every sync path and changes nothing.
\<close>

theorem revoked_device_locked_out:
  assumes "dev_revoked st (header_of r ''X-Device-Id'')" "hub_ok st"
    and "serve s rs st = (resps, st1)" "rq_path r \<notin> {''/healthz'', ''/pair''}"
  shows "snd (Handler s n ctx r st1) = st1 \<and> is_error s (fst (Handler s n ctx r st1))"
proof -
  from serve_ok [OF assms(3,2)] assms(1) have "dev_revoked st1 (header_of r ''X-Device-Id'')"
    by (simp add: grows_def)
  then have "\<not> admitted s r st1" using revoked_not_admitted by (simp add: dev_revoked_def)
  with Handler_refused assms(4) show ?thesis by blast
qed

definition revoked_hub :: hub_state where
  "revoked_hub = sample_hub\<lparr>hs_db := new_db\<lparr>devices_table :=
     [\<lparr>dev_user = ''hub'', dev_id = ''laptop'', dev_name = None, first_seen = 1, last_seen = 1, revoked_at = Some 2\<rparr>]\<rparr>\<rparr>"

lemma revoked_hub_facts: "hub_ok revoked_hub" "dev_revoked revoked_hub ''laptop''"
proof -
  have "log_part (hs_db revoked_hub) = log_part (hs_db sample_hub)" "hs_store revoked_hub = hs_store sample_hub"
    by (simp_all add: revoked_hub_def sample_hub_def log_part_def)
  then show "hub_ok revoked_hub"
    using store_ok_log_part [of "hs_db revoked_hub" "hs_db sample_hub"] sample_hub_ok unfolding hub_ok_def by metis
qed (simp add: dev_revoked_def revoked_hub_def sample_hub_def new_store_def is_revoked_def find_device_def same_device_def)

theorem revoked_device_locked_out_witness:
  "is_error (New sample_options (\<lambda>_. True)) (fst (Handler (New sample_options (\<lambda>_. True)) 0 quiet_ctx
     (sample_request ''GET'' ''/v1/sync/status'' ''key'' []) revoked_hub))"
proof -
  let ?s = "New sample_options (\<lambda>_. True)" and ?r = "sample_request ''GET'' ''/v1/sync/status'' ''key'' []"
  have "dev_revoked revoked_hub (header_of ?r ''X-Device-Id'')"
    by (simp only: sample_request_simps revoked_hub_facts)
  moreover have "serve ?s [] revoked_hub = ([], revoked_hub)" by (rule serve.simps)
  moreover have "rq_path ?r \<notin> {''/healthz'', ''/pair''}"
    by (simp only: sample_request_simps) simp
  ultimately show ?thesis
    using revoked_device_locked_out [of revoked_hub ?r ?s "[]" "[]" revoked_hub 0 quiet_ctx] revoked_hub_facts(1)
    by blast
qed

end
