(* ===== verification/Replication.thy ===== *)
theory Replication
  imports HubProps
begin

text \<open>
  The store together with the devices that replicate from it, as a step relation. A step is one
  operation of the store, which its mutex and its transactions make atomic: a push by some device, a
  page pulled by some device, a device recorded or revoked, an epoch rotation. Steps come in any
  order, from any number of devices, each with an environment of its own, so any call may fail.

  A device keeps the epoch it has seen, its cursor and the entries received. When a page carries
  another epoch it starts over from zero, which is what the protocol asks of it.

  The invariant: the store is consistent, and every device holds exactly the first entries of the log,
  as many as its cursor says. The log itself only ever grows at its end.
\<close>

record device_state =
  ds_epoch :: "dec option"
  ds_cursor :: nat
  ds_copy :: "change_op list"

record system =
  sy_db :: db
  sy_store :: store
  sy_dev :: "bytes \<Rightarrow> device_state"

abbreviation sy_user :: "system \<Rightarrow> bytes" where
  "sy_user s \<equiv> st_userID (sy_store s)"

definition sy_log :: "system \<Rightarrow> entry list" where
  "sy_log s = abs_log (sy_user s) (sy_db s)"

definition receive :: "changes_result \<Rightarrow> device_state \<Rightarrow> device_state" where
  "receive res d =
     (if ds_epoch d = Some (cr_Epoch res)
      then d\<lparr>ds_cursor := ds_cursor d + length (cr_Ops res), ds_copy := ds_copy d @ cr_Ops res\<rparr>
      else \<lparr>ds_epoch = Some (cr_Epoch res), ds_cursor = 0, ds_copy = []\<rparr>)"

inductive sync_step :: "system \<Rightarrow> system \<Rightarrow> bool" where
  push: "run (Push env (sy_user s) ops dev name) (sy_db s) = (x, db') \<Longrightarrow> sync_step s (s\<lparr>sy_db := db'\<rparr>)"
| pull: "run (Changes env (sy_user s) (of_nat (ds_cursor (sy_dev s dev))) limit maxBytes) (sy_db s) = (Inr res, db') \<Longrightarrow>
     sync_step s (s\<lparr>sy_db := db', sy_dev := (sy_dev s)(dev := receive res (sy_dev s dev))\<rparr>)"
| seen: "run (SeenDevice env (sy_user s) dev name) (sy_db s) = (x, db') \<Longrightarrow> sync_step s (s\<lparr>sy_db := db'\<rparr>)"
| revoke: "run (RevokeDevice env (sy_user s) dev) (sy_db s) = (x, db') \<Longrightarrow> sync_step s (s\<lparr>sy_db := db'\<rparr>)"
| bump: "rand_ok env \<Longrightarrow> run (BumpEpoch env (sy_store s)) (sy_db s) = (Inr st', db') \<Longrightarrow>
     sync_step s (s\<lparr>sy_db := db', sy_store := st'\<rparr>)"

inductive_cases sync_stepE: "sync_step s s'"

inductive reach :: "system \<Rightarrow> system \<Rightarrow> bool" where
  start: "reach s s"
| go: "reach s s' \<Longrightarrow> sync_step s' s'' \<Longrightarrow> reach s s''"

definition holds_prefix :: "entry list \<Rightarrow> device_state \<Rightarrow> bool" where
  "holds_prefix log d \<longleftrightarrow>
     ds_cursor d \<le> length log \<and> ds_copy d = page_of log 0 (ds_cursor d)"

definition sync_inv :: "system \<Rightarrow> bool" where
  "sync_inv s \<longleftrightarrow> store_ok (sy_store s) (sy_db s) \<and> (\<forall>dev. holds_prefix (sy_log s) (sy_dev s dev))"

definition fresh_device :: device_state where
  "fresh_device = \<lparr>ds_epoch = None, ds_cursor = 0, ds_copy = []\<rparr>"

section \<open>Single steps\<close>

lemma page_of_prefix: "s + n \<le> length log \<Longrightarrow> page_of (log @ es) s n = page_of log s n"
  by (simp add: page_of_def)

lemma holds_prefix_append: "holds_prefix log d \<Longrightarrow> holds_prefix (log @ es) d"
  by (auto simp: holds_prefix_def page_of_prefix)

lemma RevokeDevice_log_part:
  assumes "run (RevokeDevice env u dev) db = (x, db')"
  shows "log_part db' = log_part db"
  using assms
  by (auto simp: run_eq RevokeDevice_def bindI_def stmt_def log_part_def split: if_splits prod.splits)

text \<open>The log grows at its end, the store stays consistent; only a pull touches a device.\<close>

lemma sync_step_db:
  assumes "sync_step s s'" "sync_inv s"
  shows "store_ok (sy_store s') (sy_db s') \<and> (\<exists>es. sy_log s' = sy_log s @ es)"
  using assms(1)
proof (cases rule: sync_step.cases)
  case (push env ops dev name x db')
  have ok: "store_ok (sy_store s) (sy_db s)" using assms(2) by (simp add: sync_inv_def)
  then have g: "gapless (sy_user s) (sy_db s)" by (simp add: store_ok_def)
  have "\<exists>es. abs_log (sy_user s) db' = abs_log (sy_user s) (sy_db s) @ es"
  proof (cases x)
    case (Inl e)
    have "db' = sy_db s" by (rule Push_Inl [OF push(2) [unfolded Inl] g])
    then show ?thesis by simp
  next
    case (Inr res)
    from Push_Inr [OF push(2) [unfolded Inr] g] spec_push_log show ?thesis by metis
  qed
  with store_ok_push [OF push(2) ok] push(1) show ?thesis by (simp add: sy_log_def)
next
  case (pull env dev limit maxBytes res db')
  have g: "gapless (sy_user s) (sy_db s)" using assms(2) by (simp add: sync_inv_def store_ok_def)
  from Changes_Inr [OF pull(2) g] have "db' = sy_db s" by simp
  with pull(1) assms(2) show ?thesis by (simp add: sync_inv_def sy_log_def)
next
  case (seen env dev name x db')
  from SeenDevice_log_part(1) [OF seen(2)] have l: "log_part db' = log_part (sy_db s)" .
  with store_ok_log_part [OF l] log_part_cong(2) [OF l] seen(1) assms(2) show ?thesis
    by (simp add: sync_inv_def sy_log_def)
next
  case (revoke env dev x db')
  from RevokeDevice_log_part [OF revoke(2)] have l: "log_part db' = log_part (sy_db s)" .
  with store_ok_log_part [OF l] log_part_cong(2) [OF l] revoke(1) assms(2) show ?thesis
    by (simp add: sync_inv_def sy_log_def)
next
  case (bump env st' db')
  from bump(3) obtain e where e: "randomEpoch env = Inr e" "st' = (sy_store s)\<lparr>st_epoch := e\<rparr>"
    "db' = set_epoch (sy_user s) e (sy_db s)"
    by (auto simp: run_eq io_simps)
  from assms(2) obtain h where h: "find_meta (sy_user s) (sy_db s) = Some (h, DecString (st_epoch (sy_store s)))"
    and g: "gapless (sy_user s) (sy_db s)" by (auto simp: sync_inv_def store_ok_def epoch_ok_def)
  have "find_meta (sy_user s) db' = Some (h, DecString e)"
    unfolding e(3) by (simp only: find_meta_set_epoch h option.map prod.case)
  with g e rand_epoch_pos [OF bump(2) e(1)] bump(1) show ?thesis
    by (auto simp: store_ok_def epoch_ok_def sy_log_def)
qed

lemma receive_prefix:
  assumes "run (Changes env u (of_nat (ds_cursor d)) limit maxBytes) db = (Inr res, db')"
    and "gapless u db" "holds_prefix (abs_log u db) d"
  shows "holds_prefix (abs_log u db) (receive res d)"
proof -
  have c: "ds_cursor d \<le> length (abs_log u db)" using assms(3) by (simp add: holds_prefix_def)
  from Changes_Inr [OF assms(1,2)] cursor_word(1) [OF assms(2) c] obtain n where
    n: "cr_Ops res = page_of (abs_log u db) (ds_cursor d) n" "n = 0 \<or> ds_cursor d + n \<le> length (abs_log u db)" by auto
  then have le: "ds_cursor d + n \<le> length (abs_log u db)" using c by auto
  have "page_of (abs_log u db) 0 (ds_cursor d) @ page_of (abs_log u db) (0 + ds_cursor d) n
      = page_of (abs_log u db) 0 (ds_cursor d + n)"
    using le by (intro page_of_append) simp
  with n(1) le assms(3) show ?thesis
    by (auto simp: receive_def holds_prefix_def page_of_length) (simp add: page_of_def)
qed

lemma sync_inv_step:
  assumes "sync_step s s'" "sync_inv s"
  shows "sync_inv s'"
proof -
  obtain es where ok: "store_ok (sy_store s') (sy_db s')" and log: "sy_log s' = sy_log s @ es"
    using sync_step_db [OF assms] by blast
  have "holds_prefix (sy_log s') (sy_dev s' dev)" for dev
  proof -
    have keep: "holds_prefix (sy_log s @ es) (sy_dev s dev)"
      using assms(2) by (simp add: sync_inv_def holds_prefix_append)
    show ?thesis
      using assms(1)
    proof (cases rule: sync_step.cases)
      case (pull env dev' limit maxBytes res db')
      have g: "gapless (sy_user s) (sy_db s)" and p: "holds_prefix (sy_log s) (sy_dev s dev')"
        using assms(2) by (simp_all add: sync_inv_def store_ok_def)
      from receive_prefix [OF pull(2) g] p have "holds_prefix (sy_log s) (receive res (sy_dev s dev'))"
        by (simp add: sy_log_def)
      with keep pull(1) log show ?thesis by (auto simp: holds_prefix_append)
    qed (use keep log in simp_all)
  qed
  with ok show ?thesis by (simp add: sync_inv_def)
qed

section \<open>Runs\<close>

lemma reach_inv: "reach s s' \<Longrightarrow> sync_inv s \<Longrightarrow> sync_inv s'"
  by (induction rule: reach.induct) (auto intro: sync_inv_step)

lemma reach_log: "reach s s' \<Longrightarrow> sync_inv s \<Longrightarrow> \<exists>es. sy_log s' = sy_log s @ es"
proof (induction rule: reach.induct)
  case (start s)
  then show ?case by simp
next
  case (go s s' s'')
  then obtain es where "sy_log s' = sy_log s @ es" by blast
  moreover obtain es' where "sy_log s'' = sy_log s' @ es'"
    using sync_step_db [OF go.hyps(2) reach_inv [OF go.hyps(1) go.prems]] by blast
  ultimately show ?case by simp
qed

lemma reach_step: "reach s1 s' \<Longrightarrow> sync_step s s1 \<Longrightarrow> reach s s'"
  by (induction rule: reach.induct) (blast intro: reach.intros)+

lemma start_inv:
  assumes "store_ok (sy_store s) (sy_db s)" "\<And>dev. sy_dev s dev = fresh_device"
  shows "sync_inv s"
  using assms by (simp add: sync_inv_def holds_prefix_def fresh_device_def page_of_def)

section \<open>Catching up\<close>

definition sy_clean :: "system \<Rightarrow> bool" where
  "sy_clean s \<longleftrightarrow> clean_ts (sy_user s) (sy_db s)"

definition current :: "system \<Rightarrow> bytes \<Rightarrow> bool" where
  "current s dev \<longleftrightarrow> ds_epoch (sy_dev s dev) = Some (st_epoch (sy_store s))"

text \<open>
  A device that keeps pulling: a run in which the pulls of \<open>dev\<close> that were answered are counted, each with the
  limit and the byte budget it chose, while everything else goes on in between: pushes, other devices, failing calls.
  Only the epoch is not changed.
\<close>

inductive pulling :: "bytes \<Rightarrow> system \<Rightarrow> nat \<Rightarrow> system \<Rightarrow> bool" for dev s where
  here: "pulling dev s 0 s"
| other: "pulling dev s n s' \<Longrightarrow> sync_step s' s'' \<Longrightarrow> sy_store s'' = sy_store s' \<Longrightarrow> pulling dev s n s''"
| answered: "pulling dev s n s' \<Longrightarrow>
     run (Changes env (sy_user s') (of_nat (ds_cursor (sy_dev s' dev))) limit maxBytes) (sy_db s') = (Inr res, db') \<Longrightarrow>
     pulling dev s (Suc n) (s'\<lparr>sy_db := db', sy_dev := (sy_dev s')(dev := receive res (sy_dev s' dev))\<rparr>)"

lemma pulling_reach: "pulling dev s n s' \<Longrightarrow> reach s s'"
  by (induction rule: pulling.induct) (blast intro: reach.intros sync_step.pull)+

lemma Changes_epoch:
  assumes "run (Changes env u since limit maxBytes) db = (Inr res, db')" "find_meta u db = Some (h, ep)" "ParseDecPositive ep = Inr e"
  shows "cr_Epoch res = e"
  using assms by (auto simp: run_eq Changes_def Let_def io_simps epoch_of_def split: sum.splits option.splits)

lemma served_epoch:
  assumes "sync_inv s"
  obtains h where "find_meta (sy_user s) (sy_db s) = Some (h, DecString (st_epoch (sy_store s)))"
    "ParseDecPositive (DecString (st_epoch (sy_store s))) = Inr (st_epoch (sy_store s))"
  using assms by (auto simp: sync_inv_def store_ok_def epoch_ok_def ParseDecPositive_Inr_iff)

text \<open>One answered pull: afterwards the device is in the hub's epoch, and it advanced if it was there before.\<close>

lemma pull_advances:
  assumes "sync_inv s"
    and r: "run (Changes env (sy_user s) (of_nat (ds_cursor (sy_dev s dev))) limit maxBytes) (sy_db s) = (Inr res, db')"
  shows "ds_epoch (receive res (sy_dev s dev)) = Some (st_epoch (sy_store s))" "db' = sy_db s"
    and "current s dev \<Longrightarrow> min (Suc (ds_cursor (sy_dev s dev))) (length (sy_log s)) \<le> ds_cursor (receive res (sy_dev s dev))"
proof -
  let ?d = "sy_dev s dev"
  have g: "gapless (sy_user s) (sy_db s)" and p: "holds_prefix (sy_log s) ?d"
    using assms(1) by (simp_all add: sync_inv_def store_ok_def)
  have c: "ds_cursor ?d \<le> length (abs_log (sy_user s) (sy_db s))"
    using p by (simp add: holds_prefix_def sy_log_def)
  have e: "cr_Epoch res = st_epoch (sy_store s)"
    using served_epoch [OF assms(1)] Changes_epoch [OF r] by metis
  then show "ds_epoch (receive res ?d) = Some (st_epoch (sy_store s))" by (simp add: receive_def)
  from Changes_Inr [OF r g] cursor_word(1) [OF g c] obtain n where db: "db' = sy_db s"
    and n: "cr_Ops res = page_of (sy_log s) (ds_cursor ?d) n" "n = 0 \<or> ds_cursor ?d + n \<le> length (sy_log s)"
      "ds_cursor ?d < length (sy_log s) \<longrightarrow> 0 < n"
    by (auto simp: sy_log_def)
  show "db' = sy_db s" by (rule db)
  assume "current s dev"
  with e have "ds_cursor (receive res ?d) = ds_cursor ?d + length (cr_Ops res)" by (simp add: current_def receive_def)
  moreover have "length (cr_Ops res) = n" using n(1,2) c by (auto simp: page_of_length sy_log_def page_of_def)
  ultimately show "min (Suc (ds_cursor ?d)) (length (sy_log s)) \<le> ds_cursor (receive res ?d)"
    using n(3) by (cases "ds_cursor ?d < length (sy_log s)") auto
qed

text \<open>A step that is not counted never sets a device of the current epoch back.\<close>

lemma other_step_keeps:
  assumes "sync_step s s'" "sync_inv s" "sy_store s' = sy_store s" "current s dev"
  shows "current s' dev \<and> (c \<le> ds_cursor (sy_dev s dev) \<longrightarrow> c \<le> ds_cursor (sy_dev s' dev))"
  using assms(1)
proof (cases rule: sync_step.cases)
  case (pull env dev' limit maxBytes res db')
  have c: "ds_cursor (sy_dev s dev) \<le> length (sy_log s)" using assms(2) by (simp add: sync_inv_def holds_prefix_def)
  show ?thesis
  proof (cases "dev' = dev")
    case True
    from pull_advances [OF assms(2) pull(2) [unfolded True]] assms(4) c pull(1) True show ?thesis
      by (auto simp: current_def)
  next
    case False
    with pull(1) assms(4) show ?thesis by (simp add: current_def)
  qed
qed (use assms(3,4) in \<open>simp_all add: current_def\<close>)

lemma pulling_advances:
  "pulling dev s n s' \<Longrightarrow> sync_inv s \<Longrightarrow>
     sync_inv s' \<and> (\<exists>es. sy_log s' = sy_log s @ es)
     \<and> (0 < n \<longrightarrow> current s' dev \<and> min (n - 1) (length (sy_log s)) \<le> ds_cursor (sy_dev s' dev))"
proof (induction rule: pulling.induct)
  case here
  then show ?case by simp
next
  case (other n s' s'')
  then have inv: "sync_inv s'" and log: "\<exists>es. sy_log s' = sy_log s @ es" by simp_all
  then have "\<exists>es. sy_log s'' = sy_log s @ es" using sync_step_db [OF other.hyps(2)] by fastforce
  moreover have "0 < n \<longrightarrow> current s'' dev \<and> min (n - 1) (length (sy_log s)) \<le> ds_cursor (sy_dev s'' dev)"
    using other_step_keeps [OF other.hyps(2) inv other.hyps(3)] other.IH other.prems by blast
  ultimately show ?case using sync_inv_step [OF other.hyps(2) inv] by simp
next
  case (answered n s' env limit maxBytes res db')
  let ?s = "s'\<lparr>sy_db := db', sy_dev := (sy_dev s')(dev := receive res (sy_dev s' dev))\<rparr>"
  from answered have inv: "sync_inv s'" and log: "\<exists>es. sy_log s' = sy_log s @ es" by simp_all
  note adv = pull_advances [OF inv answered.hyps(2)]
  have "sync_inv ?s" by (rule sync_inv_step [OF sync_step.pull [OF answered.hyps(2)] inv])
  moreover have "\<exists>es. sy_log ?s = sy_log s @ es" using log adv(2) by (simp add: sy_log_def)
  moreover have "current ?s dev" using adv(1) by (simp add: current_def)
  moreover have "min n (length (sy_log s)) \<le> ds_cursor (sy_dev ?s dev)"
  proof (cases "0 < n")
    case True
    with answered.IH answered.prems have "current s' dev" "min (n - 1) (length (sy_log s)) \<le> ds_cursor (sy_dev s' dev)" by simp_all
    moreover have "length (sy_log s) \<le> length (sy_log s')" using log by auto
    ultimately show ?thesis using adv(3) True by (auto simp: min_def split: if_splits)
  qed simp
  ultimately show ?case by simp
qed

section \<open>Properties of replication\<close>

definition new_system :: system where
  "new_system = \<lparr>sy_db = new_db, sy_store = new_store, sy_dev = (\<lambda>_. fresh_device)\<rparr>"

lemma new_system_ok [simp]:
  "store_ok (sy_store new_system) (sy_db new_system)" "sy_dev new_system dev = fresh_device"
  "sy_clean new_system" "sync_inv new_system"
proof -
  show ok: "store_ok (sy_store new_system) (sy_db new_system)"
    using sample_hub_ok by (simp add: new_system_def hub_ok_def sample_hub_def)
  show fresh: "sy_dev new_system dev = fresh_device" for dev by (simp add: new_system_def)
  show "sync_inv new_system" by (rule start_inv [OF ok fresh])
  show "sy_clean new_system"
    by (simp add: new_system_def sy_clean_def clean_ts_def user_ops_def) (simp add: new_db_def)
qed

text \<open>A push from there.\<close>

lemma pushed_system:
  obtains s where "reach new_system s" "length (sy_log s) = 1" "sy_clean s"
proof -
  obtain res db where r: "run (Push quiet_env ''hub'' [sample_op ''a''] ''laptop'' ''x'') new_db = (Inr res, db)"
    by (rule sample_push_runs [of "[sample_op ''a'']"]) (simp add: MaxInt64_def)
  let ?s = "new_system\<lparr>sy_db := db\<rparr>"
  have u: "sy_user new_system = ''hub''" "sy_db new_system = new_db"
    by (simp_all add: new_system_def new_store_def)
  have "run (Push quiet_env (sy_user new_system) [sample_op ''a''] ''laptop'' ''x'') (sy_db new_system) = (Inr res, db)"
    by (simp add: u r)
  then have "sync_step new_system ?s" by (rule sync_step.push)
  then have "reach new_system ?s" by (blast intro: reach.intros)
  moreover obtain ns where sp: "spec_push 1700000000000 [sample_op ''a''] [] = (ns, abs_log ''hub'' db)"
    by (rule Push_Inr [OF r new_db_gapless]) auto
  then have log: "abs_log ''hub'' db = [entry_of 1700000000000 (sample_op ''a'')]"
    by (auto simp: spec_push_Cons spec_step_def)
  then have "sy_log ?s = [entry_of 1700000000000 (sample_op ''a'')]"
    by (simp add: sy_log_def u)
  moreover have "list_all (\<lambda>e. 0 \<le> e_ts e) (abs_log ''hub'' db)" by (simp add: log entry_of_def)
  then have "sy_clean ?s"
    by (simp add: sy_clean_def u clean_ts_def abs_log_def list_all_iff row_entry_def)
  ultimately show thesis using that by simp
qed

text \<open>
  C7: every device holds a prefix. Start a consistent hub with fresh devices and let pushes, pulls,
  sightings, revocations and epoch changes follow in any order, with any failures: what a device
  has is always the first \<open>cursor\<close> operations of the hub's log, in order, none twice, none missing;
  so two devices with the same cursor have the same operations.
\<close>

theorem devices_hold_prefixes:
  assumes "store_ok (sy_store s) (sy_db s)" "\<And>dev. sy_dev s dev = fresh_device" "reach s s'"
  shows "ds_cursor (sy_dev s' dev) \<le> length (sy_log s')
    \<and> ds_copy (sy_dev s' dev) = page_of (sy_log s') 0 (ds_cursor (sy_dev s' dev))
    \<and> (ds_cursor (sy_dev s' dev) = ds_cursor (sy_dev s' dev') \<longrightarrow> ds_copy (sy_dev s' dev) = ds_copy (sy_dev s' dev'))"
  using reach_inv [OF assms(3) start_inv [OF assms(1,2)]] by (simp add: sync_inv_def holds_prefix_def)

theorem devices_hold_prefixes_witness:
  "\<exists>s. reach new_system s \<and> 1 \<le> length (sy_log s)
    \<and> ds_copy (sy_dev s ''desk'') = page_of (sy_log s) 0 (ds_cursor (sy_dev s ''desk''))"
proof -
  obtain s where s: "reach new_system s" "length (sy_log s) = 1" by (rule pushed_system)
  with devices_hold_prefixes [OF new_system_ok(1,2) s(1)] show ?thesis by auto
qed

text \<open>
  The log is append-only. In every run, the log at any later moment extends the log at any
  earlier one, so a sequence number, once it names an entity revision, names it forever.
\<close>

theorem log_append_only:
  assumes "sync_inv s" "reach s s'"
  shows "(\<exists>es. sy_log s' = sy_log s @ es)
    \<and> (\<forall>x n. position x (sy_log s) = Some n \<longrightarrow> position x (sy_log s') = Some n)"
  using reach_log [OF assms(2,1)] by (auto simp: position_keep)

theorem log_append_only_witness:
  "\<exists>s es. reach new_system s \<and> 1 \<le> length (sy_log s) \<and> sy_log s = sy_log new_system @ es"
proof -
  obtain s where s: "reach new_system s" "length (sy_log s) = 1" by (rule pushed_system)
  with log_append_only [OF new_system_ok(4) s(1)] show ?thesis by auto
qed

text \<open>
  C11: a device that keeps asking catches up, and is always answered. Take any run from a consistent state in which the
  epoch does not change: whatever limits and byte budgets the device's pulls had, and whatever happened in between,
  pushes, other devices and failures included, once more of its pulls were answered than the log had entries at the
  start, its copy begins with all of these entries. And at every moment of the run, as long as no stored timestamp is
  negative, a pull with any limit and any budget is answered when its own calls do not fail.
\<close>

theorem pulling_device_catches_up:
  assumes "sync_inv s" "pulling dev s n s'"
  shows "(length (sy_log s) < n \<longrightarrow>
      take (length (sy_log s)) (ds_copy (sy_dev s' dev)) = page_of (sy_log s) 0 (length (sy_log s)))
    \<and> (sy_clean s' \<and> (\<forall>k. \<not> env_fault env k) \<longrightarrow>
      (\<exists>res. run (Changes env (sy_user s') (of_nat (ds_cursor (sy_dev s' dev))) limit maxBytes) (sy_db s') = (Inr res, sy_db s')))"
proof (intro conjI impI)
  from pulling_advances [OF assms(2,1)] have inv: "sync_inv s'" and log: "\<exists>es. sy_log s' = sy_log s @ es"
    and adv: "0 < n \<longrightarrow> min (n - 1) (length (sy_log s)) \<le> ds_cursor (sy_dev s' dev)" by simp_all
  let ?m = "length (sy_log s)" and ?c = "ds_cursor (sy_dev s' dev)"
  have p: "?c \<le> length (sy_log s')" "ds_copy (sy_dev s' dev) = page_of (sy_log s') 0 ?c"
    using inv by (simp_all add: sync_inv_def holds_prefix_def)
  {
    assume "?m < n"
    with adv have m: "?m \<le> ?c" by auto
    from log obtain es where es: "sy_log s' = sy_log s @ es" by blast
    have "page_of (sy_log s') 0 ?c = page_of (sy_log s') 0 ?m @ page_of (sy_log s') (0 + ?m) (?c - ?m)"
      using page_of_append [of 0 ?m "?c - ?m" "sy_log s'"] m p(1) by simp
    moreover have "page_of (sy_log s') 0 ?m = page_of (sy_log s) 0 ?m" by (simp add: es page_of_prefix)
    moreover have "length (page_of (sy_log s) 0 ?m) = ?m" by (simp add: page_of_length)
    ultimately show "take ?m (ds_copy (sy_dev s' dev)) = page_of (sy_log s) 0 ?m" by (simp add: p(2))
  }
  assume ok: "sy_clean s' \<and> (\<forall>k. \<not> env_fault env k)"
  have g: "gapless (sy_user s') (sy_db s')" using inv by (simp add: sync_inv_def store_ok_def)
  have c: "?c \<le> length (abs_log (sy_user s') (sy_db s'))" using p(1) by (simp add: sy_log_def)
  obtain h where m: "find_meta (sy_user s') (sy_db s') = Some (h, DecString (st_epoch (sy_store s')))"
    "ParseDecPositive (DecString (st_epoch (sy_store s'))) = Inr (st_epoch (sy_store s'))"
    using inv by (rule served_epoch)
  show "\<exists>res. run (Changes env (sy_user s') (of_nat ?c) limit maxBytes) (sy_db s') = (Inr res, sy_db s')"
    using Changes_ok [OF _ g _ m cursor_word(2) [OF g c], of env limit maxBytes] ok by (auto simp: sy_clean_def)
qed

text \<open>One entry at a time, with a byte budget of one: after two answered pulls the device has the entry.\<close>

theorem pulling_device_catches_up_witness:
  "\<exists>s s'. length (sy_log s) = 1 \<and> pulling ''desk'' s 2 s' \<and> take 1 (ds_copy (sy_dev s' ''desk'')) = page_of (sy_log s) 0 1"
proof -
  obtain s where s: "reach new_system s" "length (sy_log s) = 1" "sy_clean s" by (rule pushed_system)
  have inv: "sync_inv s" by (rule reach_inv [OF s(1) new_system_ok(4)])
  have q: "\<forall>k. \<not> env_fault quiet_env k" by simp
  have more: "\<exists>s2. pulling ''desk'' s (Suc n) s2 \<and> sy_clean s2" if p: "pulling ''desk'' s n s1" and cl: "sy_clean s1" for n s1
  proof -
    obtain res where "run (Changes quiet_env (sy_user s1) (of_nat (ds_cursor (sy_dev s1 ''desk''))) 1 1) (sy_db s1) = (Inr res, sy_db s1)"
      using pulling_device_catches_up [OF inv p, of quiet_env 1 1] cl q by blast
    from pulling.answered [OF p this] cl show ?thesis by (auto simp: sy_clean_def)
  qed
  obtain s1 where s1: "pulling ''desk'' s 1 s1" "sy_clean s1" using more [OF pulling.here s(3)] by auto
  obtain s2 where s2: "pulling ''desk'' s 2 s2" using more [OF s1] by (auto simp: numeral_2_eq_2)
  with pulling_device_catches_up [OF inv s2] s(2) show ?thesis by (intro exI [of _ s] exI [of _ s2]) simp
qed

end
