(* ===== verification/EndToEnd.thy ===== *)
theory EndToEnd
  imports Replication
begin

text \<open>
  The sync operations from request to response: what a push request that is answered with 200 did to
  the log and says in its body, and that what a device reads from \<open>/v1/sync/changes\<close> is, byte for
  byte, what another device sent.
\<close>

section \<open>Pushing\<close>

lemma handlePush_200:
  assumes "handlePush s ctx r st = (resp, st')" "resp_status resp = 200"
  obtains req ops res db' where "decode_push (rq_body r) = Some req" "ProtocolVersion req = 2"
    "int (length (pr_Ops req)) \<le> opt_MaxOpsPerPush (srv_opts s)" "parse_ops (pr_Ops req) = Inr ops"
    "run (Push (ctx_store ctx 1) (st_userID (hs_store st)) ops (header_of r ''X-Device-Id'')
        (header_of r ''X-Device-Name'')) (hs_db st) = (Inr res, db')"
    "st' = st\<lparr>hs_db := db'\<rparr>" "resp = writeJSON s (push_body (srv_printable s) res)"
    "checkFreeSpace s = None" "int (length (rq_body r)) \<le> opt_MaxRequestBytes (srv_opts s)"
proof -
  from assms obtain req ops res where q: "decode_push (rq_body r) = Some req" "ProtocolVersion req = 2"
    "int (length (pr_Ops req)) \<le> opt_MaxOpsPerPush (srv_opts s)" "parse_ops (pr_Ops req) = Inr ops"
    and c: "call (Push (ctx_store ctx 1) (st_userID (hs_store st)) ops (header_of r ''X-Device-Id'')
        (header_of r ''X-Device-Name'')) st = (Inr res, st')"
    and e: "resp = writeJSON s (push_body (srv_printable s) res)"
        "checkFreeSpace s = None" "int (length (rq_body r)) \<le> opt_MaxRequestBytes (srv_opts s)"
    by (auto simp: handlePush_def writeError_def split: handler_splits)
  from c [unfolded call_eq] that q e show thesis by blast
qed

lemma handlePush_not_200:
  assumes "handlePush s ctx r st = (resp, st')" "resp_status resp \<noteq> 200" "hub_ok st"
  shows "st' = st"
proof -
  have g: "gapless (st_userID (hs_store st)) (hs_db st)" using assms(3) by (simp add: hub_ok_def store_ok_def)
  show ?thesis
    using assms(1,2)
    by (auto simp: handlePush_def call_eq writeJSON_def split: handler_splits dest!: Push_Inl [OF _ g])
qed

lemma length_parse_ops: "parse_ops raws = Inr ops \<Longrightarrow> length ops = length raws"
  by (induction raws arbitrary: ops) (auto simp: bindE_def split: sum.splits)

text \<open>
  C5: a push request, end to end. When \<open>/v1/sync/ops\<close> answers 200, the body was a version-2 request
  within the limits, every operation in it passed validation, the log is the one the abstract push
  computes from those operations, and the body of the answer is the acknowledgements it computes, in
  order, with the new head. Any other answer leaves the hub exactly as it was, however many of the
  operations were acceptable.
\<close>

theorem push_request_end_to_end:
  assumes "handlePush s ctx r st = (resp, st')" "hub_ok st"
  shows "if resp_status resp = 200
    then \<exists>req ops ns. decode_push (rq_body r) = Some req \<and> ProtocolVersion req = 2
      \<and> int (length (pr_Ops req)) \<le> opt_MaxOpsPerPush (srv_opts s)
      \<and> parse_ops (pr_Ops req) = Inr ops \<and> list_all valid_op ops
      \<and> spec_push (env_now (ctx_store ctx 1)) ops (hub_log st) = (ns, hub_log st')
      \<and> resp_body resp = push_body (srv_printable s)
          \<lparr>Acks = map2 (\<lambda>op n. ack_of op (of_nat n)) ops ns, HeadSeq = of_nat (length (hub_log st')),
           ProjectedSeq = of_nat (length (hub_log st'))\<rparr>
    else st' = st"
proof (cases "resp_status resp = 200")
  case True
  have g: "gapless (st_userID (hs_store st)) (hs_db st)" using assms(2) by (simp add: hub_ok_def store_ok_def)
  obtain req ops res db' where h: "decode_push (rq_body r) = Some req" "ProtocolVersion req = 2"
    "int (length (pr_Ops req)) \<le> opt_MaxOpsPerPush (srv_opts s)" "parse_ops (pr_Ops req) = Inr ops"
    and p: "run (Push (ctx_store ctx 1) (st_userID (hs_store st)) ops (header_of r ''X-Device-Id'')
        (header_of r ''X-Device-Name'')) (hs_db st) = (Inr res, db')"
    and st': "st' = st\<lparr>hs_db := db'\<rparr>" and resp: "resp = writeJSON s (push_body (srv_printable s) res)"
    by (rule handlePush_200 [OF assms(1) True])
  obtain ns where ns: "spec_push (env_now (ctx_store ctx 1)) ops (hub_log st) = (ns, hub_log st')"
    "res = \<lparr>Acks = map2 (\<lambda>op n. ack_of op (of_nat n)) ops ns, HeadSeq = of_nat (length (hub_log st')),
            ProjectedSeq = of_nat (length (hub_log st'))\<rparr>"
    by (rule Push_Inr [OF p g]) (simp add: hub_log_def st')
  then have "resp_body resp = push_body (srv_printable s)
          \<lparr>Acks = map2 (\<lambda>op n. ack_of op (of_nat n)) ops ns, HeadSeq = of_nat (length (hub_log st')),
           ProjectedSeq = of_nat (length (hub_log st'))\<rparr>"
    by (simp add: resp writeJSON_def)
  with True h ns(1) parse_ops_valid [OF h(4)] show ?thesis by auto
next
  case False
  with handlePush_not_200 [OF assms(1) _ assms(2)] show ?thesis by simp
qed

text \<open>The witness: an empty batch, which a device sends to learn the head.\<close>

definition empty_push :: request where
  \<open>empty_push = sample_request ''POST'' ''/v1/sync/ops'' ''key'' ''{"protocol_version":2,"ops":[]}''\<close>

lemma empty_push_steps:
  \<open>whole_value ''{"protocol_version":2,"ops":[]}'' = Some ''{"protocol_version":2,"ops":[]}''\<close>
  \<open>members True ''"protocol_version":2,"ops":[]}'' = Some [(''protocol_version'', ''2''), (''ops'', ''[]'')]\<close>
  "elements True '']'' = Some []" "\<not> equal_fold ''ops'' ''protocol_version''"
  by code_simp+

lemma decode_empty_push: "decode_push (rq_body empty_push) = Some \<lparr>ProtocolVersion = 2, pr_Ops = []\<rparr>"
proof -
  have "parse_int64 ''2'' = Some 2"
    by (simp add: parse_int64_def parse_uint_def is_digit_val digit_val_def)
  then show ?thesis
    by (simp add: empty_push_def sample_request_def decode_push_def unmarshal_struct_def decode_struct_def
        empty_push_steps push_fields_def field_setter_def set_int_def set_raw_list_def is_digit_val)
qed

lemma sample_push_200:
  "resp_status (fst (handlePush (New sample_options (\<lambda>_. True)) quiet_ctx empty_push sample_hub)) = 200"
proof -
  have "int (length (rq_body empty_push)) \<le> 4000000" "rq_body_ok empty_push"
    by (simp_all add: empty_push_def sample_request_def)
  moreover obtain res db' where "run (Push quiet_env ''hub'' [] (header_of empty_push ''X-Device-Id'')
      (header_of empty_push ''X-Device-Name'')) new_db = (Inr res, db')"
    by (rule sample_push_runs [of "[]"]) (simp add: MaxInt64_def)
  ultimately show ?thesis
    by (simp add: handlePush_def decode_empty_push call_def checkFreeSpace_def New_def withDefaults_def
        sample_options_def MaxOpsPerPush_def MaxRequestBytes_def sample_hub_def new_store_def quiet_ctx_def writeJSON_def)
qed

theorem push_request_end_to_end_witness:
  "\<exists>resp st'. handlePush (New sample_options (\<lambda>_. True)) quiet_ctx empty_push sample_hub = (resp, st')
    \<and> resp_status resp = 200 \<and> hub_log st' = hub_log sample_hub"
proof -
  obtain resp st' where h: "handlePush (New sample_options (\<lambda>_. True)) quiet_ctx empty_push sample_hub = (resp, st')"
    by fastforce
  with sample_push_200 have "resp_status resp = 200" by simp
  with push_request_end_to_end [OF h sample_hub_ok] h decode_empty_push show ?thesis by auto
qed

section \<open>Reading\<close>

lemma handleChanges_200:
  assumes "handleChanges s ctx r st = (resp, st')" "resp_status resp = 200"
  obtains since limit res where "query_since r = Inr since" "query_limit r = Some limit"
    "run (Changes (ctx_store ctx 1) (st_userID (hs_store st)) since limit (opt_MaxResponseBytes (srv_opts s))) (hs_db st)
      = (Inr res, hs_db st)"
    "resp = writeJSON s (changes_body (srv_printable s) res)"
proof -
  from assms obtain since limit res st1 where q: "query_since r = Inr since" "query_limit r = Some limit"
    and c: "call (Changes (ctx_store ctx 1) (st_userID (hs_store st)) since limit (opt_MaxResponseBytes (srv_opts s))) st
      = (Inr res, st1)" and resp: "resp = writeJSON s (changes_body (srv_printable s) res)"
    by (auto simp: handleChanges_def writeError_def split: handler_splits)
  from read_only_call [OF c Changes_read_only] have "st1 = st" .
  with c have "run (Changes (ctx_store ctx 1) (st_userID (hs_store st)) since limit (opt_MaxResponseBytes (srv_opts s)))
      (hs_db st) = (Inr res, hs_db st)"
    by (auto simp: call_def split: prod.splits dest: arg_cong [where f = hs_db])
  with that q resp show thesis by blast
qed

lemma page_of_nth:
  "s + n \<le> length log \<Longrightarrow> i < n \<Longrightarrow> page_of log s n ! i = page_entry (s + i) (log ! (s + i))"
  by (simp add: page_of_def)

text \<open>What a device reads of one operation.\<close>

definition change_fields :: "nat \<Rightarrow> entry \<Rightarrow> fields" where
  "change_fields i e =
     [(''seq'', json_string (DecString (of_nat (Suc i)))), (''server_ts'', json_string (DecString (word_of_int (e_ts e)))),
      (''body'', e_body e), (''operation_sha256'', json_string (e_digest e))]"

lemma emit_change_fields:
  assumes "entry_valid e"
  shows "objectFields (emit_change up (page_entry i e)) = Inr (change_fields i e)"
  using assms
  by (simp add: emit_change_def page_entry_def EmitChangeOp_object objectFields_text good_change_fields
      entry_valid_def change_fields_def)

text \<open>
  C6: bodies come out as they went in. When \<open>/v1/sync/changes\<close> answers 200 on a hub whose entries were
  validated, the answer lists consecutive entries of the log after \<open>since\<close>; each, read back as a JSON
  object, has exactly the members \<open>seq\<close>, \<open>server_ts\<close>, \<open>body\<close> and \<open>operation_sha256\<close>; the bytes of
  \<open>body\<close> are the literal the sending device wrote, and the digest beside them is the digest of the
  bytes that literal denotes.
\<close>

theorem changes_carry_bodies_verbatim:
  assumes "handleChanges s ctx r st = (resp, st')" "resp_status resp = 200"
    and "hub_ok st" "list_all entry_valid (hub_log st)"
  shows "\<exists>since res. query_since r = Inr since \<and> resp_body resp = changes_body (srv_printable s) res
    \<and> (\<forall>i < length (cr_Ops res). \<exists>e decoded. hub_log st ! (unat since + i) = e
         \<and> objectFields (emit_change (srv_printable s) (cr_Ops res ! i)) = Inr (change_fields (unat since + i) e)
         \<and> UnquoteJSONString (e_body e) = Inr decoded \<and> e_digest e = Digest decoded)"
proof -
  have g: "gapless (st_userID (hs_store st)) (hs_db st)" using assms(3) by (simp add: hub_ok_def store_ok_def)
  obtain since limit res where q: "query_since r = Inr since"
    and c: "run (Changes (ctx_store ctx 1) (st_userID (hs_store st)) since limit (opt_MaxResponseBytes (srv_opts s))) (hs_db st)
      = (Inr res, hs_db st)" and resp: "resp = writeJSON s (changes_body (srv_printable s) res)"
    by (rule handleChanges_200 [OF assms(1,2)])
  from Changes_Inr [OF c g] obtain n where n: "cr_Ops res = page_of (hub_log st) (unat since) n"
    and b: "n = 0 \<or> unat since + n \<le> length (hub_log st)" by (auto simp: hub_log_def)
  have "\<exists>e decoded. hub_log st ! (unat since + i) = e
         \<and> objectFields (emit_change (srv_printable s) (cr_Ops res ! i)) = Inr (change_fields (unat since + i) e)
         \<and> UnquoteJSONString (e_body e) = Inr decoded \<and> e_digest e = Digest decoded"
    if "i < length (cr_Ops res)" for i
  proof -
    have le: "unat since + n \<le> length (hub_log st)" "i < n"
      using b that by (auto simp: n page_of_def)
    then have "entry_valid (hub_log st ! (unat since + i))"
      using assms(4) by (simp add: list_all_length)
    with page_of_nth [OF le] emit_change_fields show ?thesis by (auto simp: n entry_valid_def)
  qed
  moreover have "resp_body resp = changes_body (srv_printable s) res" by (simp add: resp writeJSON_def)
  ultimately show ?thesis using q by blast
qed

text \<open>The witness: a hub that holds one validated operation.\<close>

definition valid_sample :: sync_op where
  "valid_sample = (sample_op ''a'')\<lparr>op_Digest := Digest []\<rparr>"

lemma valid_sample_entry: "entry_valid (entry_of now valid_sample)"
proof -
  have "is_literal ([CHR 0x22] @ [] @ [CHR 0x22])" by (rule is_literalI) simp
  moreover have "UnquoteJSONString [CHR 0x22, CHR 0x22] = Inr []" by code_simp
  ultimately show ?thesis
    by (auto simp: entry_valid_def entry_of_def valid_sample_def sample_op_def ValidDigest_Digest)
qed

theorem changes_carry_bodies_verbatim_witness:
  "\<exists>st resp st' since res. handleChanges (New sample_options (\<lambda>_. True)) quiet_ctx
      (sample_request ''GET'' ''/v1/sync/changes'' ''key'' []) st = (resp, st')
    \<and> length (hub_log st) = 1 \<and> resp_body resp = changes_body (\<lambda>_. True) res
    \<and> query_since (sample_request ''GET'' ''/v1/sync/changes'' ''key'' []) = Inr since"
proof -
  let ?s = "New sample_options (\<lambda>_. True)" and ?r = "sample_request ''GET'' ''/v1/sync/changes'' ''key'' []"
  obtain db hd where live: "live_server (quiet_env, ''hub'', db)" and snd: "sound_server (quiet_env, ''hub'', db)"
    and sp: "\<exists>ns. spec_push 1700000000000 [valid_sample] [] = (ns, abs_log ''hub'' db)"
    and m: "find_meta ''hub'' db = Some (hd, ''5'')"
    by (rule pushed_server [of "[valid_sample]"]) (simp add: MaxInt64_def)
  have "DecString 5 = ''5''" using stored_five by (simp add: ParseDecPositive_Inr_iff)
  then have ok: "store_ok new_store db"
    using m snd by (simp add: store_ok_def epoch_ok_def new_store_def sound_server_def)
  let ?st = "sample_hub\<lparr>hs_db := db\<rparr>"
  have log: "hub_log ?st = [entry_of 1700000000000 valid_sample]"
    using sp by (auto simp: hub_log_def sample_hub_def new_store_def spec_push_Cons spec_step_def)
  from live snd obtain res0 where c: "run (Changes quiet_env ''hub'' 0 500 8388608) db = (Inr res0, db)"
    using Changes_ok [of quiet_env "''hub''" db _ _ _ 0 500 8388608]
    by (force simp: live_server_def sound_server_def MaxInt64_def)
  obtain resp st' where h: "handleChanges ?s quiet_ctx ?r ?st = (resp, st')" by fastforce
  have "query_since ?r = Inr 0" "query_limit ?r = Some 500"
    by (simp_all add: query_since_def query_limit_def sample_request_def get_value_def MaxPageLimit_def)
  with c h have "resp_status resp = 200"
    by (auto simp: handleChanges_def call_def quiet_ctx_def sample_hub_def new_store_def New_def withDefaults_def
        sample_options_def DefaultMaxPageBytes_def writeJSON_def)
  moreover have "hub_ok ?st" using ok by (simp add: hub_ok_def sample_hub_def)
  moreover have "list_all entry_valid (hub_log ?st)" by (simp add: log valid_sample_entry)
  moreover have "srv_printable ?s = (\<lambda>_. True)" by (simp add: New_def)
  ultimately show ?thesis
    using changes_carry_bodies_verbatim [OF h] h log by (auto simp del: query_since_def) force
qed

end
