(* ===== verification/DecJson.thy ===== *)
theory DecJson
  imports Wrapper
begin

text \<open>
  Decimals inside JSON: \<open>UnmarshalJSON\<close> of \<open>internal/proto/dec.go\<close>, which the clients of the hub decode with. A
  decimal is a JSON string; a JSON number is refused. What \<open>MarshalJSON\<close> wrote reads back, and the text in the
  string is the canonical one.
\<close>

datatype json_dec_error = NotJSONString | InDec dec_error

definition UnmarshalJSON :: "bytes \<Rightarrow> json_dec_error + dec" where
  "UnmarshalJSON b =
     (case unmarshal_string b of
        None \<Rightarrow> Inl NotJSONString
      | Some s \<Rightarrow>
          (case ParseDec s of
             Inl e \<Rightarrow> Inl (InDec e)
           | Inr v \<Rightarrow> Inr v))"

lemma MarshalJSON_string: "MarshalJSON d = json_string (DecString d)"
  by (simp add: MarshalJSON_def json_string_def)

lemma UnmarshalJSON_Inr_iff: "UnmarshalJSON b = Inr d \<longleftrightarrow> unmarshal_string b = Some (DecString d)"
proof (cases "unmarshal_string b")
  case (Some s)
  then show ?thesis using ParseDec_Inr_iff [of s d] by (cases "ParseDec s") (auto simp: UnmarshalJSON_def)
qed (simp add: UnmarshalJSON_def)

text \<open>The round trip.\<close>

theorem decimal_survives_json: "UnmarshalJSON (MarshalJSON d) = Inr d"
  by (simp add: UnmarshalJSON_Inr_iff MarshalJSON_string plain_DecString)

text \<open>A \<open>null\<close> is decoded as the empty string, which is no decimal.\<close>

lemma null_is_no_decimal: "UnmarshalJSON ''null'' = Inl (InDec NotCanonical)"
  by (simp add: UnmarshalJSON_def unmarshal_null ParseDec_def isCanonicalDecimal_def)

text \<open>A JSON number is refused, whatever its value.\<close>

lemma number_is_refused:
  assumes "whole_value b = Some v" "is_digit (hd v) \<or> hd v = CHR ''-''"
  shows "UnmarshalJSON b = Inl NotJSONString"
  using assms by (auto simp: UnmarshalJSON_def unmarshal_string_def is_digit_def byte_simps)

end
