(* ===== verification/PairLock.thy ===== *)
theory PairLock
  imports Pair
begin

text \<open>
  The lock of \<open>window_file.go\<close> (\<open>FileWindow.lock\<close>), as a step relation between processes that share
  the data directory. The lock is a file created with \<open>O_EXCL\<close>; a waiter that finds it older than a
  minute removes it and tries again. Checking the age (\<open>os.Stat\<close>) and removing (\<open>os.Remove\<close>) are two
  calls, so a process has a phase between them, and unlocking removes whatever file is there.

  Proved here: as long as no holder keeps the lock for more than a minute, the lock excludes; and
  the run that breaks it, in which two waiters find the same abandoned lock.
\<close>

datatype phase = Outside | SawStale | Inside

record lock_state =
  lock_file :: "int option"
  clock_now :: int
  phase_of :: "nat \<Rightarrow> phase"

definition StaleAfter :: int where
  "StaleAfter = 60 * 1000"

definition set_phase :: "nat \<Rightarrow> phase \<Rightarrow> lock_state \<Rightarrow> lock_state" where
  "set_phase p ph s = s\<lparr>phase_of := (phase_of s)(p := ph)\<rparr>"

text \<open>One system call of one process, or the clock moving on.\<close>

inductive lock_step :: "lock_state \<Rightarrow> lock_state \<Rightarrow> bool" where
  create: "phase_of s p = Outside \<Longrightarrow> lock_file s = None \<Longrightarrow>
     lock_step s (set_phase p Inside (s\<lparr>lock_file := Some (clock_now s)\<rparr>))"
| stat_stale: "phase_of s p = Outside \<Longrightarrow> lock_file s = Some m \<Longrightarrow> clock_now s - m > StaleAfter \<Longrightarrow>
     lock_step s (set_phase p SawStale s)"
| remove_stale: "phase_of s p = SawStale \<Longrightarrow>
     lock_step s (set_phase p Outside (s\<lparr>lock_file := None\<rparr>))"
| unlock: "phase_of s p = Inside \<Longrightarrow>
     lock_step s (set_phase p Outside (s\<lparr>lock_file := None\<rparr>))"
| die: "phase_of s p = Inside \<Longrightarrow> lock_step s (set_phase p Outside s)"
| tick: "clock_now s \<le> t \<Longrightarrow> lock_step s (s\<lparr>clock_now := t\<rparr>)"

inductive_cases lock_stepE: "lock_step s s'"

inductive lock_reach :: "lock_state \<Rightarrow> lock_state \<Rightarrow> bool" where
  here: "lock_reach s s"
| step: "lock_reach s s' \<Longrightarrow> lock_step s' s'' \<Longrightarrow> lock_reach s s''"

definition start_lock :: "int \<Rightarrow> lock_state" where
  "start_lock t = \<lparr>lock_file = None, clock_now = t, phase_of = (\<lambda>_. Outside)\<rparr>"

text \<open>No process is inside with a lock file older than the limit, and no abandoned one lies around.\<close>

definition timely :: "lock_state \<Rightarrow> bool" where
  "timely s \<longleftrightarrow> (case lock_file s of None \<Rightarrow> True | Some m \<Rightarrow> clock_now s - m \<le> StaleAfter)"

text \<open>Runs in which every state is timely.\<close>

inductive timely_reach :: "lock_state \<Rightarrow> lock_state \<Rightarrow> bool" where
  here: "timely s \<Longrightarrow> timely_reach s s"
| step: "timely_reach s s' \<Longrightarrow> lock_step s' s'' \<Longrightarrow> timely s'' \<Longrightarrow> timely_reach s s''"

definition lock_inv :: "lock_state \<Rightarrow> bool" where
  "lock_inv s \<longleftrightarrow>
     (\<forall>p q. phase_of s p = Inside \<and> phase_of s q = Inside \<longrightarrow> p = q)
     \<and> (\<forall>p. phase_of s p = Inside \<longrightarrow> lock_file s \<noteq> None)
     \<and> (\<forall>p. phase_of s p \<noteq> SawStale)"

lemma lock_inv_step:
  assumes "lock_inv s" "timely s" "lock_step s s'"
  shows "lock_inv s'"
  using assms(3,1,2)
  by (elim lock_stepE) (auto simp: lock_inv_def set_phase_def timely_def split: if_splits)

lemma timely_now: "timely_reach s s' \<Longrightarrow> timely s'"
  by (induction rule: timely_reach.induct) auto

lemma timely_inv: "timely_reach s s' \<Longrightarrow> lock_inv s \<Longrightarrow> lock_inv s'"
proof (induction rule: timely_reach.induct)
  case (here s)
  then show ?case by simp
next
  case (step s s' s'')
  then show ?case using lock_inv_step timely_now by blast
qed

lemma start_lock_inv: "lock_inv (start_lock t)"
  by (simp add: lock_inv_def start_lock_def)

section \<open>Two waiters and an abandoned lock\<close>

text \<open>
  Process 0 dies inside; a minute later processes 1 and 2 both find its lock stale; 1 removes it and
  enters; 2 then removes the lock of 1 and enters as well.
\<close>

lemma two_inside: "\<exists>s. lock_reach (start_lock 0) s \<and> phase_of s 1 = Inside \<and> phase_of s 2 = Inside"
proof -
  let ?s0 = "start_lock 0"
  let ?s1 = "set_phase 0 Inside (?s0\<lparr>lock_file := Some 0\<rparr>)"
  let ?s2 = "set_phase 0 Outside ?s1"
  let ?s3 = "?s2\<lparr>clock_now := 60001\<rparr>"
  let ?s4 = "set_phase 1 SawStale ?s3"
  let ?s5 = "set_phase 2 SawStale ?s4"
  let ?s6 = "set_phase 1 Outside (?s5\<lparr>lock_file := None\<rparr>)"
  let ?s7 = "set_phase 1 Inside (?s6\<lparr>lock_file := Some 60001\<rparr>)"
  let ?s8 = "set_phase 2 Outside (?s7\<lparr>lock_file := None\<rparr>)"
  let ?s9 = "set_phase 2 Inside (?s8\<lparr>lock_file := Some 60001\<rparr>)"
  note d = start_lock_def set_phase_def StaleAfter_def
  have "lock_step ?s0 ?s1" using create [of ?s0 0] by (simp add: d)
  moreover have "lock_step ?s1 ?s2" using die [of ?s1 0] by (simp add: d)
  moreover have "lock_step ?s2 ?s3" using tick [of ?s2 60001] by (simp add: d)
  moreover have "lock_step ?s3 ?s4" using stat_stale [of ?s3 1 0] by (simp add: d)
  moreover have "lock_step ?s4 ?s5" using stat_stale [of ?s4 2 0] by (simp add: d)
  moreover have "lock_step ?s5 ?s6" using remove_stale [of ?s5 1] by (simp add: d)
  moreover have "lock_step ?s6 ?s7" using create [of ?s6 1] by (simp add: d)
  moreover have "lock_step ?s7 ?s8" using remove_stale [of ?s7 2] by (simp add: d)
  moreover have "lock_step ?s8 ?s9" using create [of ?s8 2] by (simp add: d)
  ultimately have "lock_reach ?s0 ?s9" by (meson lock_reach.intros)
  moreover have "phase_of ?s9 1 = Inside \<and> phase_of ?s9 2 = Inside" by (simp add: d)
  ultimately show ?thesis by blast
qed

section \<open>Properties of the lock\<close>

text \<open>
  C23: the lock excludes. In every run in which no lock file gets older than a minute, at most one
  process is inside at any time, and while one is inside the lock file exists.
\<close>

theorem timely_lock_excludes:
  assumes "timely_reach (start_lock t) s"
  shows "(phase_of s p = Inside \<and> phase_of s q = Inside \<longrightarrow> p = q) \<and> (phase_of s p = Inside \<longrightarrow> lock_file s \<noteq> None)"
  using timely_inv [OF assms start_lock_inv] unfolding lock_inv_def by blast

theorem timely_lock_excludes_witness:
  "\<exists>s. timely_reach (start_lock 0) s \<and> phase_of s 7 = Inside \<and> lock_file s \<noteq> None"
proof -
  let ?s = "set_phase 7 Inside ((start_lock 0)\<lparr>lock_file := Some 0\<rparr>)"
  have "lock_step (start_lock 0) ?s" using create [of "start_lock 0" 7] by (simp add: start_lock_def)
  moreover have "timely (start_lock 0)" "timely ?s"
    by (simp_all add: timely_def start_lock_def set_phase_def StaleAfter_def)
  ultimately have r: "timely_reach (start_lock 0) ?s"
    using timely_reach.here timely_reach.step by blast
  have "phase_of ?s 7 = Inside" by (simp add: set_phase_def)
  with timely_lock_excludes [OF r, of 7] r show ?thesis by blast
qed

text \<open>
  An abandoned lock lets two in. The age of a lock file and its removal are two calls, so after a
  process died inside, two waiters that both saw its old lock can both end up inside, the second
  having removed the lock of the first.
\<close>

theorem abandoned_lock_admits_two:
  "\<exists>s. lock_reach (start_lock 0) s \<and> phase_of s 1 = Inside \<and> phase_of s 2 = Inside"
  by (rule two_inside)

end
