(* ===== verification/Flags.thy ===== *)
theory Flags
  imports Net Errors
begin

text \<open>
  Go's \<open>flag.FlagSet\<close> as the commands use it, and \<open>parseFlags\<close> of \<open>internal/cli/cli.go\<close>, which lets
  flags and positional arguments interleave. A flag set is the list of the flags by name with their
  current values; the constructor of a value is the kind of the flag. The conversion of durations is an
  argument.

  The theorem is that \<open>parseFlags\<close> reads every interleaving of settings and positionals as the settings
  in their order and the positionals in theirs.
\<close>

section \<open>Values\<close>

datatype flag_value = VBool bool | VString bytes | VInt64 int | VDuration int

definition ParseBool :: "bytes \<Rightarrow> bool option" where
  "ParseBool s =
     (if s \<in> set [''1'', ''t'', ''T'', ''TRUE'', ''true'', ''True''] then Some True
      else if s \<in> set [''0'', ''f'', ''F'', ''FALSE'', ''false'', ''False''] then Some False
      else None)"

definition lower :: "char \<Rightarrow> char" where
  "lower c = (if CHR ''A'' \<le> c \<and> c \<le> CHR ''Z'' then byte_of (byte_val c + 32) else c)"

definition base_digit :: "char \<Rightarrow> nat option" where
  "base_digit c =
     (if is_digit c then Some (digit_val c)
      else if CHR ''a'' \<le> lower c \<and> lower c \<le> CHR ''z'' then Some (byte_val (lower c) - byte_val CHR ''a'' + 10)
      else None)"

text \<open>\<open>strconv.ParseInt(s, 0, 64)\<close>: a base prefix, and underscores between digits.\<close>

definition base_prefix :: "bytes \<Rightarrow> (nat \<times> bytes) option" where
  "base_prefix s =
     (case s of
        z # b # rest \<Rightarrow>
          if z \<noteq> CHR ''0'' then None
          else if lower b = CHR ''b'' then Some (2, rest)
          else if lower b = CHR ''o'' then Some (8, rest)
          else if lower b = CHR ''x'' then Some (16, rest)
          else None
      | _ \<Rightarrow> None)"

definition split_base :: "bytes \<Rightarrow> nat \<times> bytes" where
  "split_base s =
     (if hd s \<noteq> CHR ''0'' then (10, s)
      else case base_prefix s of
        Some (b, rest) \<Rightarrow> if rest = [] then (8, tl s) else (b, rest)
      | None \<Rightarrow> (8, tl s))"

fun digits_value :: "nat \<Rightarrow> nat \<Rightarrow> bytes \<Rightarrow> nat option" where
  "digits_value base n [] = Some n"
| "digits_value base n (c # cs) =
     (if c = CHR ''_'' then digits_value base n cs
      else case base_digit c of
        None \<Rightarrow> None
      | Some d \<Rightarrow> if base \<le> d then None else digits_value base (n * base + d) cs)"

text \<open>\<open>underscoreOK\<close>; the first argument is whether a digit (or the prefix) or an underscore came last.\<close>

fun underscores_ok :: "bool \<Rightarrow> bool \<Rightarrow> bool \<Rightarrow> bytes \<Rightarrow> bool" where
  "underscores_ok hex after_digit after_underscore [] \<longleftrightarrow> \<not> after_underscore"
| "underscores_ok hex after_digit after_underscore (c # cs) \<longleftrightarrow>
     (if is_digit c \<or> (hex \<and> CHR ''a'' \<le> lower c \<and> lower c \<le> CHR ''f'') then underscores_ok hex True False cs
      else if c = CHR ''_'' then after_digit \<and> underscores_ok hex False True cs
      else \<not> after_underscore \<and> underscores_ok hex False False cs)"

definition underscoreOK :: "bytes \<Rightarrow> bool" where
  "underscoreOK s =
     (case base_prefix s of
        Some (b, rest) \<Rightarrow> underscores_ok (b = 16) True False rest
      | None \<Rightarrow> underscores_ok False False False s)"

definition ParseUint0 :: "bytes \<Rightarrow> nat option" where
  "ParseUint0 s =
     (if s = [] then None
      else case split_base s of (base, digits) \<Rightarrow>
        (case digits_value base 0 digits of
           None \<Rightarrow> None
         | Some n \<Rightarrow> if n < 2 ^ 64 \<and> (CHR ''_'' \<in> set digits \<longrightarrow> underscoreOK s) then Some n else None))"

definition ParseInt0 :: "bytes \<Rightarrow> int option" where
  "ParseInt0 s =
     (case s of
        [] \<Rightarrow> None
      | c # cs \<Rightarrow>
          let neg = (c = CHR ''-''); digits = (if c = CHR ''-'' \<or> c = CHR ''+'' then cs else s) in
          (case ParseUint0 digits of
             None \<Rightarrow> None
           | Some n \<Rightarrow>
               if neg then (if int n \<le> 2 ^ 63 then Some (- int n) else None)
               else if int n < 2 ^ 63 then Some (int n) else None))"

text \<open>\<open>Value.Set\<close>, by the kind of the flag; \<open>dur\<close> is \<open>time.ParseDuration\<close>.\<close>

fun set_value :: "(bytes \<Rightarrow> int option) \<Rightarrow> flag_value \<Rightarrow> bytes \<Rightarrow> flag_value option" where
  "set_value dur (VBool _) s = map_option VBool (ParseBool s)"
| "set_value dur (VString _) s = Some (VString s)"
| "set_value dur (VInt64 _) s = map_option VInt64 (ParseInt0 s)"
| "set_value dur (VDuration _) s = map_option VDuration (dur s)"

section \<open>FlagSet.Parse\<close>

datatype flag_error = ErrHelp | BadFlagSyntax bytes | FlagNotDefined bytes | FlagNeedsArgument bytes | InvalidFlagValue bytes bytes

type_synonym flag_set = "(bytes \<times> flag_value) list"

definition set_flag :: "bytes \<Rightarrow> flag_value \<Rightarrow> flag_set \<Rightarrow> flag_set" where
  "set_flag name v fl = map (\<lambda>(n, w). (n, if n = name then v else w)) fl"

definition is_flag :: "bytes \<Rightarrow> bool" where
  "is_flag s \<longleftrightarrow> 2 \<le> length s \<and> hd s = CHR ''-''"

definition flag_name :: "bytes \<Rightarrow> bytes" where
  "flag_name s = drop (if s ! 1 = CHR ''-'' then 2 else 1) s"

text \<open>The name and the value behind an equals sign, if there is one.\<close>

definition name_value :: "bytes \<Rightarrow> bytes \<times> bytes option" where
  "name_value s = (case cut_first CHR ''='' s of None \<Rightarrow> (s, None) | Some (n, v) \<Rightarrow> (n, Some v))"

definition store_flag :: "(bytes \<Rightarrow> int option) \<Rightarrow> bytes \<Rightarrow> flag_value \<Rightarrow> bytes \<Rightarrow> flag_set \<Rightarrow> flag_error + flag_set" where
  "store_flag dur name old value fl =
     (case set_value dur old value of
        None \<Rightarrow> Inl (InvalidFlagValue name value)
      | Some v \<Rightarrow> Inr (set_flag name v fl))"

definition is_bool :: "flag_value \<Rightarrow> bool" where
  "is_bool v \<longleftrightarrow> (\<exists>b. v = VBool b)"

lemma is_bool_simps [simp, code]:
  "is_bool (VBool b) \<longleftrightarrow> True" "is_bool (VString s) \<longleftrightarrow> False" "is_bool (VInt64 i) \<longleftrightarrow> False" "is_bool (VDuration i) \<longleftrightarrow> False"
  by (auto simp: is_bool_def)

text \<open>
  \<open>parseOne\<close> on an argument that is a flag: the flags afterwards, and the arguments that are left. A flag
  that is not boolean takes the next argument when it has no value of its own.
\<close>

definition parseOne :: "(bytes \<Rightarrow> int option) \<Rightarrow> flag_set \<Rightarrow> bytes \<Rightarrow> bytes list \<Rightarrow> flag_error + flag_set \<times> bytes list" where
  "parseOne dur fl s args =
     (let full = flag_name s in
      if full = [] \<or> hd full = CHR ''-'' \<or> hd full = CHR ''='' then Inl (BadFlagSyntax s)
      else case name_value full of (name, value) \<Rightarrow>
        (case map_of fl name of
           None \<Rightarrow> if name = ''help'' \<or> name = ''h'' then Inl ErrHelp else Inl (FlagNotDefined name)
         | Some old \<Rightarrow>
             if is_bool old
             then bindE (store_flag dur name old (case value of None \<Rightarrow> ''true'' | Some v \<Rightarrow> v) fl)
                    (\<lambda>fl'. Inr (fl', args))
             else (case value of
               Some v \<Rightarrow> bindE (store_flag dur name old v fl) (\<lambda>fl'. Inr (fl', args))
             | None \<Rightarrow>
                 (case args of
                    [] \<Rightarrow> Inl (FlagNeedsArgument name)
                  | v # args' \<Rightarrow> bindE (store_flag dur name old v fl) (\<lambda>fl'. Inr (fl', args'))))))"

lemma parseOne_shorter: "parseOne dur fl s args = Inr (fl', args') \<Longrightarrow> length args' \<le> length args"
  by (auto simp: parseOne_def Let_def split: if_splits prod.splits option.splits list.splits)

function Parse :: "(bytes \<Rightarrow> int option) \<Rightarrow> flag_set \<Rightarrow> bytes list \<Rightarrow> flag_error + flag_set \<times> bytes list" where
  "Parse dur fl args =
     (case args of
        [] \<Rightarrow> Inr (fl, [])
      | s # rest \<Rightarrow>
          if \<not> is_flag s then Inr (fl, args)
          else if s = ''--'' then Inr (fl, rest)
          else bindE (parseOne dur fl s rest) (\<lambda>(fl', args'). Parse dur fl' args'))"
  by pat_completeness auto
termination
  by (relation "measure (\<lambda>(dur, fl, args). length args)") (auto dest: parseOne_shorter)

declare Parse.simps [simp del]

lemma Parse_Nil [simp]: "Parse dur fl [] = Inr (fl, [])"
  by (simp add: Parse.simps)

lemma Parse_positional: "\<not> is_flag s \<Longrightarrow> Parse dur fl (s # args) = Inr (fl, s # args)"
  by (simp add: Parse.simps)

lemma Parse_flag:
  "is_flag s \<Longrightarrow> s \<noteq> ''--'' \<Longrightarrow> Parse dur fl (s # args) = bindE (parseOne dur fl s args) (\<lambda>(fl', args'). Parse dur fl' args')"
  by (subst Parse.simps) simp

lemma Parse_shorter: "Parse dur fl args = Inr (fl', rest) \<Longrightarrow> length rest \<le> length args"
proof (induction dur fl args rule: Parse.induct)
  case (1 dur fl args)
  show ?case
  proof (cases args)
    case Nil
    with 1(2) show ?thesis by simp
  next
    case (Cons s as)
    show ?thesis
    proof (cases "is_flag s \<and> s \<noteq> ''--''")
      case False
      with 1(2) Cons show ?thesis by (subst (asm) Parse.simps) (auto split: if_splits)
    next
      case True
      with 1(2) Cons obtain fl1 as1 where
        one: "parseOne dur fl s as = Inr (fl1, as1)" and more: "Parse dur fl1 as1 = Inr (fl', rest)"
        by (auto simp: Parse_flag)
      from 1(1) [OF Cons _ _ one refl more] True have "length rest \<le> length as1" by simp
      with parseOne_shorter [OF one] Cons show ?thesis by simp
    qed
  qed
qed

section \<open>parseFlags\<close>

function parseFlags :: "(bytes \<Rightarrow> int option) \<Rightarrow> flag_set \<Rightarrow> bytes list \<Rightarrow> flag_error + flag_set \<times> bytes list" where
  "parseFlags dur fl args =
     bindE (Parse dur fl args) (\<lambda>(fl', rest). case rest of
         [] \<Rightarrow> Inr (fl', [])
       | p # ps \<Rightarrow> bindE (parseFlags dur fl' ps) (\<lambda>(fl'', positionals). Inr (fl'', p # positionals)))"
  by pat_completeness auto
termination
  by (relation "measure (\<lambda>(dur, fl, args). length args)") (auto dest: Parse_shorter)

declare parseFlags.simps [simp del]

text \<open>Reading the values back.\<close>

definition flag_bool :: "flag_set \<Rightarrow> bytes \<Rightarrow> bool" where
  "flag_bool fl name = (case map_of fl name of Some (VBool b) \<Rightarrow> b | _ \<Rightarrow> False)"

definition flag_string :: "flag_set \<Rightarrow> bytes \<Rightarrow> bytes" where
  "flag_string fl name = (case map_of fl name of Some (VString s) \<Rightarrow> s | _ \<Rightarrow> [])"

definition flag_int :: "flag_set \<Rightarrow> bytes \<Rightarrow> int" where
  "flag_int fl name = (case map_of fl name of Some (VInt64 i) \<Rightarrow> i | Some (VDuration i) \<Rightarrow> i | _ \<Rightarrow> 0)"

section \<open>Interleaving\<close>

text \<open>
  What a user means to write: a positional argument, a switch, or a setting with its value in the same
  word or in the next.
\<close>

datatype arg = Pos bytes | Switch bytes | Setting bytes bytes | SettingEq bytes bytes

fun spell :: "arg \<Rightarrow> bytes list" where
  "spell (Pos p) = [p]"
| "spell (Switch n) = [''--'' @ n]"
| "spell (Setting n v) = [''--'' @ n, v]"
| "spell (SettingEq n v) = [''--'' @ n @ ''='' @ v]"

definition good_name :: "bytes \<Rightarrow> bool" where
  "good_name n \<longleftrightarrow> n \<noteq> [] \<and> hd n \<noteq> CHR ''-'' \<and> CHR ''='' \<notin> set n"

fun arg_ok :: "(bytes \<Rightarrow> int option) \<Rightarrow> flag_set \<Rightarrow> arg \<Rightarrow> bool" where
  "arg_ok dur fl (Pos p) \<longleftrightarrow> \<not> is_flag p"
| "arg_ok dur fl (Switch n) \<longleftrightarrow> good_name n \<and> (\<exists>v. map_of fl n = Some v \<and> is_bool v)"
| "arg_ok dur fl (Setting n x) \<longleftrightarrow>
     good_name n \<and> (\<exists>v. map_of fl n = Some v \<and> \<not> is_bool v \<and> set_value dur v x \<noteq> None)"
| "arg_ok dur fl (SettingEq n x) \<longleftrightarrow> good_name n \<and> (\<exists>v. map_of fl n = Some v \<and> set_value dur v x \<noteq> None)"

fun meant :: "(bytes \<Rightarrow> int option) \<Rightarrow> arg \<Rightarrow> flag_set \<Rightarrow> flag_set" where
  "meant dur (Pos p) fl = fl"
| "meant dur (Switch n) fl = set_flag n (VBool True) fl"
| "meant dur (Setting n x) fl = set_flag n (the (set_value dur (the (map_of fl n)) x)) fl"
| "meant dur (SettingEq n x) fl = set_flag n (the (set_value dur (the (map_of fl n)) x)) fl"

fun positionals :: "arg list \<Rightarrow> bytes list" where
  "positionals [] = []"
| "positionals (Pos p # as) = p # positionals as"
| "positionals (_ # as) = positionals as"

text \<open>Setting a flag keeps the kind of every flag, so what can be written stays the same.\<close>

definition kind_of_value :: "flag_value \<Rightarrow> nat" where
  "kind_of_value v = (case v of VBool _ \<Rightarrow> 0 | VString _ \<Rightarrow> 1 | VInt64 _ \<Rightarrow> 2 | VDuration _ \<Rightarrow> 3)"

definition same_kinds :: "flag_set \<Rightarrow> flag_set \<Rightarrow> bool" where
  "same_kinds fl fl' \<longleftrightarrow> (\<forall>n. map_option kind_of_value (map_of fl n) = map_option kind_of_value (map_of fl' n))"

lemma map_of_set_flag: "map_of (set_flag n v fl) m = (if m = n then map_option (\<lambda>_. v) (map_of fl n) else map_of fl m)"
  by (induction fl) (auto simp: set_flag_def)

lemma set_value_kind: "set_value dur v s = Some v' \<Longrightarrow> kind_of_value v' = kind_of_value v"
  by (cases v) (auto simp: kind_of_value_def)

lemma set_value_same_kind: "kind_of_value v = kind_of_value w \<Longrightarrow> set_value dur v s = set_value dur w s"
  by (cases v; cases w) (auto simp: kind_of_value_def)

lemma is_bool_kind: "is_bool v \<longleftrightarrow> kind_of_value v = 0"
  by (cases v) (auto simp: kind_of_value_def)

lemma arg_ok_kinds:
  assumes "same_kinds fl fl'" "arg_ok dur fl a"
  shows "arg_ok dur fl' a"
proof -
  have *: "\<exists>w. map_of fl' n = Some w \<and> kind_of_value w = kind_of_value v" if "map_of fl n = Some v" for n v
    using assms(1) that by (cases "map_of fl' n") (auto simp: same_kinds_def dest!: spec [of _ n])
  show ?thesis
    using assms(2) by (cases a) (auto dest!: * simp: is_bool_kind, (metis set_value_same_kind)+)
qed

lemma set_value_kind_the: "set_value dur v s = Some v' \<Longrightarrow> kind_of_value (the (set_value dur v s)) = kind_of_value v"
  by (simp add: set_value_kind)

lemma meant_kinds: "arg_ok dur fl a \<Longrightarrow> same_kinds fl (meant dur a fl)"
  by (cases a) (auto simp: same_kinds_def map_of_set_flag is_bool_kind kind_of_value_def [of "VBool b" for b]
      set_value_kind)

lemma name_value_simps:
  "good_name n \<Longrightarrow> name_value n = (n, None)"
  "good_name n \<Longrightarrow> name_value (n @ ''='' @ v) = (n, Some v)"
  by (simp_all add: good_name_def name_value_def cut_first_append) (simp add: cut_first_def has_byte_def)

lemma parse_item:
  assumes "arg_ok dur fl a" "\<forall>p. a \<noteq> Pos p"
  shows "Parse dur fl (spell a @ rest) = Parse dur (meant dur a fl) rest"
proof -
  have hd_nv: "hd (n @ m) = hd n" "n @ m \<noteq> []" if "good_name n" for n m using that by (auto simp: good_name_def)
  have hd_n: "n \<noteq> []" "hd n \<noteq> CHR ''-''" "hd n \<noteq> CHR ''=''" if "good_name n" for n
    using that hd_in_set [of n] by (auto simp: good_name_def simp del: hd_in_set)
  show ?thesis
  proof (cases a)
    case (Pos p)
    with assms(2) show ?thesis by simp
  next
    case (Switch n)
    with assms(1) obtain b where "good_name n" "map_of fl n = Some (VBool b)" by (auto simp: is_bool_def)
    with Switch hd_n [of n] show ?thesis
      by (simp add: Parse_flag is_flag_def flag_name_def parseOne_def Let_def name_value_simps store_flag_def ParseBool_def)
  next
    case (Setting n x)
    with assms(1) obtain v w where "good_name n" "map_of fl n = Some v" "\<not> is_bool v" "set_value dur v x = Some w"
      by auto
    with Setting hd_n [of n] show ?thesis
      by (simp add: Parse_flag is_flag_def flag_name_def parseOne_def Let_def name_value_simps store_flag_def)
  next
    case (SettingEq n x)
    with assms(1) obtain v w where "good_name n" "map_of fl n = Some v" "set_value dur v x = Some w"
      by auto
    with SettingEq hd_n [of n] hd_nv [of n "''='' @ x"] name_value_simps(2) [of n x] show ?thesis
      by (simp add: Parse_flag is_flag_def flag_name_def parseOne_def Let_def store_flag_def)
  qed
qed

lemma parseFlags_Parse: "Parse dur fl args = Parse dur fl' args' \<Longrightarrow> parseFlags dur fl args = parseFlags dur fl' args'"
  by (subst (1 2) parseFlags.simps) simp

lemma flags_interleave_lemma:
  assumes "list_all (arg_ok dur fl) args"
  shows "parseFlags dur fl (concat (map spell args)) = Inr (fold (meant dur) args fl, positionals args)"
  using assms
proof (induction args arbitrary: fl)
  case Nil
  show ?case by (subst parseFlags.simps) simp
next
  case (Cons a args)
  show ?case
  proof (cases "\<exists>p. a = Pos p")
    case True
    then obtain p where "a = Pos p" ..
    with Cons show ?thesis by (subst parseFlags.simps) (simp add: Parse_positional)
  next
    case False
    with Cons.prems have ok: "arg_ok dur fl a" by simp
    with Cons.prems have "list_all (arg_ok dur (meant dur a fl)) args"
      by (auto simp: list_all_iff dest: arg_ok_kinds [OF meant_kinds [OF ok]])
    note ih = Cons.IH [OF this]
    have "parseFlags dur fl (concat (map spell (a # args))) = parseFlags dur (meant dur a fl) (concat (map spell args))"
      using parse_item [OF ok] False by (intro parseFlags_Parse) simp
    also have "\<dots> = Inr (fold (meant dur) (a # args) fl, positionals (a # args))"
      using ih False by (cases a) simp_all
    finally show ?thesis .
  qed
qed

text \<open>
  However settings, switches and positionals are interleaved, \<open>parseFlags\<close> sets the flags in their order
  and returns the positionals in theirs. So \<open>connect http://host --code 431-982\<close> does not drop its code.
\<close>

theorem flags_interleave:
  assumes "list_all (arg_ok dur fl) args"
  shows "parseFlags dur fl (concat (map spell args)) = Inr (fold (meant dur) args fl, positionals args)"
  using assms by (rule flags_interleave_lemma)

definition sample_flags :: flag_set where
  "sample_flags = [(''code'', VString []), (''yes'', VBool False), (''token'', VString [])]"

theorem flags_interleave_witness:
  "parseFlags (\<lambda>_. None) sample_flags [''http://hub'', ''--code'', ''431'', ''--yes'', ''more'', ''--token=k'']
    = Inr ([(''code'', VString ''431''), (''yes'', VBool True), (''token'', VString ''k'')], [''http://hub'', ''more''])"
  using flags_interleave [of "\<lambda>_. None" sample_flags
    "[Pos ''http://hub'', Setting ''code'' ''431'', Switch ''yes'', Pos ''more'', SettingEq ''token'' ''k'']"]
  by (simp add: sample_flags_def good_name_def is_flag_def set_flag_def)

end
