(* ===== verification/Paths.thy ===== *)
theory Paths
  imports Strings Errors
begin

text \<open>
  \<open>internal/paths/paths.go\<close> over models of \<open>filepath.Clean\<close>, \<open>filepath.Join\<close>, \<open>filepath.Dir\<close> and
  \<open>os.UserHomeDir\<close> (with the separator of Unix; the Windows branch of \<open>defaultDataDir\<close> is written with
  it too). The process environment is a function from names to values, the empty string for a variable
  that is not set.

  The lemmas show that cleaning a path is idempotent, and so that a data directory, once resolved and
  handed on as a flag, is resolved to itself: the service unit and a manual \<open>serve\<close> use the same one.
\<close>

section \<open>filepath\<close>

fun clean_parts :: "bool \<Rightarrow> bytes list \<Rightarrow> bytes list \<Rightarrow> bytes list" where
  "clean_parts rooted [] out = rev out"
| "clean_parts rooted (p # ps) out =
     (if p = [] \<or> p = ''.'' then clean_parts rooted ps out
      else if p = ''..'' then
        (case out of
           [] \<Rightarrow> clean_parts rooted ps (if rooted then [] else [p])
         | q # qs \<Rightarrow> if q = ''..'' then clean_parts rooted ps (p # out) else clean_parts rooted ps qs)
      else clean_parts rooted ps (p # out))"

definition is_rooted :: "bytes \<Rightarrow> bool" where
  "is_rooted p \<longleftrightarrow> p \<noteq> [] \<and> hd p = CHR ''/''"

definition path_clean :: "bytes \<Rightarrow> bytes" where
  "path_clean p =
     (let parts = clean_parts (is_rooted p) (split_on CHR ''/'' p) [] in
      if is_rooted p then CHR ''/'' # join_with CHR ''/'' parts
      else if parts = [] then ''.'' else join_with CHR ''/'' parts)"

definition path_join :: "bytes list \<Rightarrow> bytes" where
  "path_join elems =
     (case dropWhile (\<lambda>e. e = []) elems of
        [] \<Rightarrow> []
      | es \<Rightarrow> path_clean (join_with CHR ''/'' es))"

text \<open>\<open>filepath.Dir\<close>: what comes before the last separator, and the separator, cleaned.\<close>

definition path_dir :: "bytes \<Rightarrow> bytes" where
  "path_dir p = path_clean (rev (dropWhile (\<lambda>c. c \<noteq> CHR ''/'') (rev p)))"

section \<open>paths.go\<close>

datatype goos = Linux | Darwin | Windows | OtherOS

record proc_env =
  pv_getenv :: "bytes \<Rightarrow> bytes"
  pv_goos :: goos

definition EnvDataDir :: bytes where "EnvDataDir = ''CMEMLAN_DATA_DIR''"
definition EnvClaudeMemDir :: bytes where "EnvClaudeMemDir = ''CLAUDE_MEM_DATA_DIR''"
definition EnvClaudeConfigDir :: bytes where "EnvClaudeConfigDir = ''CLAUDE_CONFIG_DIR''"

definition UserHomeDir :: "proc_env \<Rightarrow> go_error + bytes" where
  "UserHomeDir e =
     (let v = pv_getenv e (if pv_goos e = Windows then ''USERPROFILE'' else ''HOME'') in
      if v = []
      then Inl (OtherError (if pv_goos e = Windows then ''%userprofile% is not defined'' else ''$HOME is not defined''))
      else Inr v)"

definition defaultDataDir :: "proc_env \<Rightarrow> go_error + bytes" where
  "defaultDataDir e =
     (case pv_goos e of
        Darwin \<Rightarrow>
          bindE (UserHomeDir e) (\<lambda>home. Inr (path_join [home, ''Library'', ''Application Support'', ''cmemlan'']))
      | Windows \<Rightarrow>
          (let v = pv_getenv e ''LocalAppData'' in
           if v \<noteq> [] then Inr (path_join [v, ''cmemlan'']) else Inl (OtherError ''paths: LocalAppData is not set''))
      | _ \<Rightarrow>
          (let v = pv_getenv e ''XDG_DATA_HOME'' in
           if v \<noteq> [] then Inr (path_join [v, ''cmemlan''])
           else bindE (UserHomeDir e) (\<lambda>home. Inr (path_join [home, ''.local'', ''share'', ''cmemlan'']))))"

definition DataDir :: "proc_env \<Rightarrow> bytes \<Rightarrow> go_error + bytes" where
  "DataDir e override =
     (if pv_getenv e EnvDataDir \<noteq> [] then Inr (path_clean (pv_getenv e EnvDataDir))
      else if override \<noteq> [] then Inr (path_clean override)
      else defaultDataDir e)"

definition ClaudeMemDir :: "proc_env \<Rightarrow> go_error + bytes" where
  "ClaudeMemDir e =
     (if pv_getenv e EnvClaudeMemDir \<noteq> [] then Inr (path_clean (pv_getenv e EnvClaudeMemDir))
      else bindE (UserHomeDir e) (\<lambda>home. Inr (path_join [home, ''.claude-mem''])))"

definition ClaudeMemSettings :: "proc_env \<Rightarrow> go_error + bytes" where
  "ClaudeMemSettings e = bindE (ClaudeMemDir e) (\<lambda>dir. Inr (path_join [dir, ''settings.json'']))"

definition ClaudeMemDB :: "proc_env \<Rightarrow> go_error + bytes" where
  "ClaudeMemDB e = bindE (ClaudeMemDir e) (\<lambda>dir. Inr (path_join [dir, ''claude-mem.db'']))"

definition ClaudeMemWorkerPID :: "proc_env \<Rightarrow> go_error + bytes" where
  "ClaudeMemWorkerPID e = bindE (ClaudeMemDir e) (\<lambda>dir. Inr (path_join [dir, ''worker.pid'']))"

definition ClaudeCodeSettings :: "proc_env \<Rightarrow> go_error + bytes" where
  "ClaudeCodeSettings e =
     (if pv_getenv e EnvClaudeConfigDir \<noteq> []
      then Inr (path_join [path_clean (pv_getenv e EnvClaudeConfigDir), ''settings.json''])
      else bindE (UserHomeDir e) (\<lambda>home. Inr (path_join [home, ''.claude'', ''settings.json''])))"

section \<open>Cleaning is idempotent\<close>

definition plain_part :: "bytes \<Rightarrow> bool" where
  "plain_part p \<longleftrightarrow> p \<noteq> [] \<and> p \<noteq> ''.'' \<and> CHR ''/'' \<notin> set p"

text \<open>The parts of a clean path: no part is redundant, and \<open>..\<close> only leads a relative path.\<close>

definition clean_list :: "bool \<Rightarrow> bytes list \<Rightarrow> bool" where
  "clean_list rooted ps \<longleftrightarrow> list_all plain_part ps
     \<and> (\<exists>n qs. ps = replicate n ''..'' @ qs \<and> ''..'' \<notin> set qs \<and> (rooted \<longrightarrow> n = 0))"

lemma clean_list_snoc:
  "clean_list rooted ps \<Longrightarrow> plain_part p \<Longrightarrow> p \<noteq> ''..'' \<Longrightarrow> clean_list rooted (ps @ [p])"
  by (fastforce simp: clean_list_def)

lemma clean_list_dots:
  assumes "clean_list False ps" "ps = [] \<or> last ps = ''..''"
  shows "clean_list False (ps @ [''..''])"
proof -
  from assms(1) obtain n qs where ps: "ps = replicate n ''..'' @ qs" "''..'' \<notin> set qs" "list_all plain_part ps"
    by (auto simp: clean_list_def)
  with assms(2) have "qs = []" by (metis append_is_Nil_conv last_appendR last_in_set)
  with ps have "ps @ [''..''] = replicate (Suc n) ''..'' @ []" by (simp add: replicate_append_same)
  moreover have "list_all plain_part (ps @ [''..''])" using ps(3) by (simp add: plain_part_def)
  ultimately show ?thesis unfolding clean_list_def by (metis empty_iff empty_set)
qed

lemma clean_list_Nil: "clean_list rooted []"
  by (simp add: clean_list_def)

lemma clean_list_dot: "clean_list False [''..'']"
  using clean_list_dots [of "[]"] by (simp add: clean_list_Nil)

lemma clean_list_butlast: "clean_list rooted (ps @ [p]) \<Longrightarrow> p \<noteq> ''..'' \<Longrightarrow> clean_list rooted ps"
  unfolding clean_list_def
proof (elim conjE exE, intro conjI)
  fix n qs
  assume "list_all plain_part (ps @ [p])"
  then show "list_all plain_part ps" by simp
  assume eq: "ps @ [p] = replicate n ''..'' @ qs" and "p \<noteq> ''..''" and qs: "''..'' \<notin> set qs" "rooted \<longrightarrow> n = 0"
  then have "qs \<noteq> []"
    by (metis append_Nil2 append_is_Nil_conv last_replicate last_snoc list.distinct(1) replicate_empty)
  then obtain qs' where "qs = qs' @ [p]" using eq by (metis append_butlast_last_id last_appendR last_snoc)
  with eq qs show "\<exists>n qs. ps = replicate n ''..'' @ qs \<and> ''..'' \<notin> set qs \<and> (rooted \<longrightarrow> n = 0)"
    by (intro exI [of _ n] exI [of _ qs']) auto
qed

lemma rooted_no_dots: "clean_list True ps \<Longrightarrow> ''..'' \<notin> set ps"
  by (auto simp: clean_list_def)

lemma clean_parts_clean:
  "list_all (\<lambda>p. CHR ''/'' \<notin> set p) ps \<Longrightarrow> clean_list rooted (rev out) \<Longrightarrow> clean_list rooted (clean_parts rooted ps out)"
proof (induction rooted ps out rule: clean_parts.induct)
  case (2 rooted p ps out)
  show ?case
  proof (cases "p = [] \<or> p = ''.''")
    case True
    with 2 show ?thesis by simp
  next
    case False
    with 2(6) have plain: "plain_part p" by (simp add: plain_part_def)
    show ?thesis
    proof (cases "p = ''..''")
      case False
      with 2 plain \<open>\<not> (p = [] \<or> p = ''.'')\<close> show ?thesis by (simp add: clean_list_snoc)
    next
      case dots: True
      show ?thesis
      proof (cases out)
        case Nil
        moreover have "clean_list rooted (rev (if rooted then [] else [p]))"
          using dots by (simp add: clean_list_Nil clean_list_dot)
        ultimately show ?thesis using 2 dots by (cases rooted) simp_all
      next
        case (Cons q qs)
        show ?thesis
        proof (cases "q = ''..''")
          case True
          with 2(7) Cons rooted_no_dots [of "rev out"] have "\<not> rooted" by auto
          with 2(7) Cons True have "clean_list rooted (rev (p # out))"
            using clean_list_dots [of "rev out"] dots by simp
          with 2 dots Cons True show ?thesis by simp
        next
          case False
          with 2(7) Cons have "clean_list rooted (rev qs)" by (simp add: clean_list_butlast)
          with 2 dots Cons False show ?thesis by simp
        qed
      qed
    qed
  qed
qed simp

lemma clean_parts_dots:
  "\<not> rooted \<Longrightarrow> clean_parts rooted (replicate n ''..'' @ qs) (replicate m ''..'')
    = clean_parts rooted qs (replicate (n + m) ''..'')"
proof (induction n arbitrary: m)
  case (Suc n)
  from Suc.IH [OF Suc.prems, of "Suc m"] Suc.prems show ?case by (cases m) simp_all
qed simp

lemma clean_parts_plain:
  "list_all plain_part qs \<Longrightarrow> ''..'' \<notin> set qs \<Longrightarrow> clean_parts rooted qs out = rev out @ qs"
  by (induction qs arbitrary: out) (auto simp: plain_part_def)

lemma clean_parts_fixed: "clean_list rooted ps \<Longrightarrow> clean_parts rooted ps [] = ps"
proof -
  assume cl: "clean_list rooted ps"
  then obtain n qs where ps: "ps = replicate n ''..'' @ qs" "''..'' \<notin> set qs" "rooted \<longrightarrow> n = 0"
    unfolding clean_list_def by blast
  moreover from cl ps(1) have "list_all plain_part qs" by (simp add: clean_list_def)
  ultimately show ?thesis
    using clean_parts_dots [of rooted n qs 0] clean_parts_plain [of qs rooted] by (cases rooted) simp_all
qed

lemma split_on_parts: "list_all (\<lambda>p. sep \<notin> set p) (split_on sep s)"
  by (induction s) (auto split: list.splits)

lemma split_clean:
  assumes "clean_list rooted ps" "ps \<noteq> []"
  shows "split_on CHR ''/'' (join_with CHR ''/'' ps) = ps"
  using assms by (intro split_join) (auto simp: clean_list_def plain_part_def list_all_iff)

lemma hd_join: "ps \<noteq> [] \<Longrightarrow> list_all plain_part ps \<Longrightarrow> join_with sep ps \<noteq> [] \<and> hd (join_with sep ps) \<noteq> CHR ''/''"
  by (cases ps rule: remdups_adj.cases) (auto simp: plain_part_def dest: hd_in_set)

lemma path_clean_idem: "path_clean (path_clean p) = path_clean p"
proof -
  let ?ps = "clean_parts (is_rooted p) (split_on CHR ''/'' p) []"
  have cl: "clean_list (is_rooted p) ?ps"
    using split_on_parts by (intro clean_parts_clean) (auto simp: clean_list_def)
  then have plain: "list_all plain_part ?ps" by (simp add: clean_list_def)
  show ?thesis
  proof (cases "is_rooted p")
    case True
    have "clean_parts True (split_on CHR ''/'' (CHR ''/'' # join_with CHR ''/'' ?ps)) [] = ?ps"
      using cl True split_clean [of True ?ps] clean_parts_fixed [of True ?ps] by (cases "?ps = []") simp_all
    with True show ?thesis by (simp add: path_clean_def Let_def) (simp add: is_rooted_def)
  next
    case False
    show ?thesis
    proof (cases "?ps = []")
      case True
      have "clean_parts False [''.''] [] = []" by simp
      with True False show ?thesis by (simp add: path_clean_def Let_def is_rooted_def)
    next
      case ne: False
      note h = hd_join [OF ne plain, of "CHR ''/''"]
      have "path_clean p = join_with CHR ''/'' ?ps" using False ne by (simp add: path_clean_def Let_def)
      moreover have "\<not> is_rooted (join_with CHR ''/'' ?ps)" using h by (simp add: is_rooted_def)
      moreover have "clean_parts False (split_on CHR ''/'' (join_with CHR ''/'' ?ps)) [] = ?ps"
        using cl False split_clean [of False ?ps] clean_parts_fixed [of False ?ps] ne by simp
      ultimately show ?thesis using ne by (simp add: path_clean_def Let_def)
    qed
  qed
qed

section \<open>The service and a manual serve agree\<close>

lemma path_join_clean: "path_clean (path_join (e # es)) = path_join (e # es) \<or> path_join (e # es) = []"
  by (auto simp: path_join_def path_clean_idem split: list.splits)

lemma path_clean_not_empty: "path_clean p \<noteq> []"
  unfolding path_clean_def Let_def
  using hd_join [of "clean_parts (is_rooted p) (split_on CHR ''/'' p) []" "CHR ''/''"]
    clean_parts_clean [of "split_on CHR ''/'' p" "is_rooted p" "[]"] split_on_parts [of "CHR ''/''" p]
  by (auto simp: clean_list_Nil clean_list_def)

lemma path_join_last: "e \<noteq> [] \<Longrightarrow> path_join (e # es) = path_clean (join_with CHR ''/'' (e # es))"
  by (simp add: path_join_def)

lemma DataDir_clean: "DataDir e override = Inr d \<Longrightarrow> path_clean d = d \<and> d \<noteq> []"
  by (auto simp: DataDir_def defaultDataDir_def UserHomeDir_def Let_def path_join_last path_clean_idem
      path_clean_not_empty split: if_splits goos.splits)

text \<open>
  The directory that the installer resolves and writes into the unit as a flag is the directory the
  unit's \<open>serve\<close> resolves, whatever its own environment says of \<open>HOME\<close> or \<open>XDG_DATA_HOME\<close>.
\<close>

lemma data_dir_handed_on:
  assumes "DataDir e override = Inr d" "pv_getenv e' EnvDataDir = []"
  shows "DataDir e' d = Inr d"
  using DataDir_clean [OF assms(1)] assms(2) by (simp add: DataDir_def)

end
