(* ===== verification/FileSys.thy ===== *)
theory FileSys
  imports Db Paths "HOL-Library.AList" "HOL-Library.List_Lexorder"
begin

text \<open>
  The files of the machine and the calls of Go's \<open>os\<close> package on them. The state is the files by path;
  an operation is an action on that state, as in \<open>Db\<close>. What the surroundings decide is an environment:
  \<open>os_fault k\<close> says whether the \<open>k\<close>-th call of an operation succeeds, is refused, or fails after part of
  the bytes went to disk; \<open>os_other k\<close> is what other processes do to the files just before the \<open>k\<close>-th
  call; \<open>os_now k\<close> is the clock then. So an operation is interleaved with every other program, and every
  pattern of failures and of interference is an instance of the model.

  Directories are not represented: \<open>MkdirAll\<close> can only fail.
\<close>

section \<open>Files\<close>

record file_info =
  f_data :: bytes
  f_mode :: nat
  f_mtime :: int

type_synonym files = "(bytes \<times> file_info) list"

datatype fault = Fine | Refused | Torn nat

record os_env =
  os_fault :: "nat \<Rightarrow> fault"
  os_other :: "nat \<Rightarrow> files \<Rightarrow> files"
  os_now :: "nat \<Rightarrow> int"
  os_temp :: bytes

definition ErrNotExist :: go_error where
  "ErrNotExist = OtherError ''file does not exist''"

text \<open>Mode 0600.\<close>

definition private_mode :: nat where
  "private_mode = 0x180"

definition os_error :: go_error where
  "os_error = OtherError ''os''"

section \<open>Calls\<close>

text \<open>A call: its effect when it goes through, and what it leaves when it breaks off after \<open>n\<close> bytes.\<close>

definition os_call :: "os_env \<Rightarrow> (int \<Rightarrow> files \<Rightarrow> (go_error + 'a) \<times> files) \<Rightarrow> (nat \<Rightarrow> int \<Rightarrow> files \<Rightarrow> files)
    \<Rightarrow> (files, 'a) action" where
  "os_call env f torn = (\<lambda>(k, fs0).
     let fs = os_other env k fs0 in
     case os_fault env k of
       Fine \<Rightarrow> (case f (os_now env k) fs of (r, fs') \<Rightarrow> (r, Suc k, fs'))
     | Refused \<Rightarrow> (Inl os_error, Suc k, fs)
     | Torn n \<Rightarrow> (Inl os_error, Suc k, torn n (os_now env k) fs))"

definition untorn :: "nat \<Rightarrow> int \<Rightarrow> files \<Rightarrow> files" where
  "untorn n now fs = fs"

definition look_up :: "bytes \<Rightarrow> files \<Rightarrow> go_error + file_info" where
  "look_up path fs = of_option ErrNotExist (map_of fs path)"

definition ReadFile :: "os_env \<Rightarrow> bytes \<Rightarrow> (files, bytes) action" where
  "ReadFile env path =
     os_call env (\<lambda>now fs. (bindE (look_up path fs) (\<lambda>f. Inr (f_data f)), fs)) untorn"

definition Stat :: "os_env \<Rightarrow> bytes \<Rightarrow> (files, file_info) action" where
  "Stat env path = os_call env (\<lambda>now fs. (look_up path fs, fs)) untorn"

text \<open>An existing file keeps its mode; a new one gets the mode asked for.\<close>

definition put_file :: "bytes \<Rightarrow> bytes \<Rightarrow> nat \<Rightarrow> int \<Rightarrow> files \<Rightarrow> files" where
  "put_file path data mode now fs =
     AList.update path \<lparr>f_data = data, f_mode = (case map_of fs path of None \<Rightarrow> mode | Some f \<Rightarrow> f_mode f),
       f_mtime = now\<rparr> fs"

definition WriteFile :: "os_env \<Rightarrow> bytes \<Rightarrow> bytes \<Rightarrow> nat \<Rightarrow> (files, unit) action" where
  "WriteFile env path data mode =
     os_call env (\<lambda>now fs. (Inr (), put_file path data mode now fs))
       (\<lambda>n now fs. put_file path (take n data) mode now fs)"

definition MkdirAll :: "os_env \<Rightarrow> bytes \<Rightarrow> (files, unit) action" where
  "MkdirAll env dir = os_call env (\<lambda>now fs. (Inr (), fs)) untorn"

text \<open>\<open>CreateTemp\<close> picks a name that is not in use; here the environment names it.\<close>

definition CreateTemp :: "os_env \<Rightarrow> bytes \<Rightarrow> bytes \<Rightarrow> bytes \<Rightarrow> (files, bytes) action" where
  "CreateTemp env dir prefix suffix =
     (let path = dir @ ''/'' @ prefix @ os_temp env @ suffix in
      os_call env (\<lambda>now fs.
        if map_of fs path = None then (Inr path, put_file path [] private_mode now fs) else (Inl os_error, fs)) untorn)"

text \<open>
  Writing to and changing the mode of an open file: when another process has taken its name away, the
  effect is not visible under the name.
\<close>

definition on_open :: "bytes \<Rightarrow> (file_info \<Rightarrow> file_info) \<Rightarrow> files \<Rightarrow> files" where
  "on_open path g fs = (case map_of fs path of None \<Rightarrow> fs | Some f \<Rightarrow> AList.update path (g f) fs)"

definition FdWrite :: "os_env \<Rightarrow> bytes \<Rightarrow> bytes \<Rightarrow> (files, unit) action" where
  "FdWrite env path data =
     os_call env (\<lambda>now fs. (Inr (), on_open path (\<lambda>f. f\<lparr>f_data := data, f_mtime := now\<rparr>) fs))
       (\<lambda>n now fs. on_open path (\<lambda>f. f\<lparr>f_data := take n data, f_mtime := now\<rparr>) fs)"

definition FdChmod :: "os_env \<Rightarrow> bytes \<Rightarrow> nat \<Rightarrow> (files, unit) action" where
  "FdChmod env path mode = os_call env (\<lambda>now fs. (Inr (), on_open path (\<lambda>f. f\<lparr>f_mode := mode\<rparr>) fs)) untorn"

text \<open>\<open>Sync\<close> and \<open>Close\<close> of an open file change nothing a reader sees.\<close>

definition Flush :: "os_env \<Rightarrow> (files, unit) action" where
  "Flush env = os_call env (\<lambda>now fs. (Inr (), fs)) untorn"

definition Rename :: "os_env \<Rightarrow> bytes \<Rightarrow> bytes \<Rightarrow> (files, unit) action" where
  "Rename env src dst =
     os_call env (\<lambda>now fs.
       case map_of fs src of
         None \<Rightarrow> (Inl ErrNotExist, fs)
       | Some f \<Rightarrow> (Inr (), AList.update dst f (AList.delete src fs))) untorn"

definition Remove :: "os_env \<Rightarrow> bytes \<Rightarrow> (files, unit) action" where
  "Remove env path =
     os_call env (\<lambda>now fs.
       if map_of fs path = None then (Inl ErrNotExist, fs) else (Inr (), AList.delete path fs)) untorn"

text \<open>The clock when the next call is made.\<close>

definition nowI :: "os_env \<Rightarrow> (files, int) action" where
  "nowI env = (\<lambda>(k, fs). (Inr (os_now env k), k, fs))"

text \<open>\<open>defer\<close>: the clean-up runs whatever the body returned, and its own result is dropped.\<close>

definition finallyI :: "('s, 'a) action \<Rightarrow> ('s, 'b) action \<Rightarrow> ('s, 'a) action" where
  "finallyI body cleanup = (\<lambda>st. case body st of (r, st1) \<Rightarrow> (r, snd (cleanup st1)))"

text \<open>An error the caller looks at instead of returning it.\<close>

definition tryI :: "('s, 'a) action \<Rightarrow> ('s, go_error + 'a) action" where
  "tryI m = (\<lambda>st. case m st of (r, st') \<Rightarrow> (Inr r, st'))"

section \<open>Glob\<close>

text \<open>
  \<open>filepath.Glob(prefix + "*")\<close> for a prefix without the characters Glob gives a meaning to: the paths,
  in order, that continue the prefix within one directory.
\<close>

definition glob_star :: "bytes \<Rightarrow> files \<Rightarrow> bytes list" where
  "glob_star prefix fs =
     sort (filter (\<lambda>p. has_prefix prefix p \<and> CHR ''/'' \<notin> set (drop (length prefix) p)) (map fst fs))"

section \<open>Rules\<close>

lemma os_call_Inr [io_simps]:
  "os_call env f torn (k, fs) = (Inr x, k', fs') \<longleftrightarrow>
     os_fault env k = Fine \<and> k' = Suc k \<and> f (os_now env k) (os_other env k fs) = (Inr x, fs')"
  by (auto simp: os_call_def Let_def split: fault.splits prod.splits)

lemma os_call_Inl:
  "os_call env f torn (k, fs) = (Inl e, k', fs') \<Longrightarrow>
     k' = Suc k \<and> (f (os_now env k) (os_other env k fs) = (Inl e, fs') \<or> fs' = os_other env k fs
       \<or> (\<exists>n. fs' = torn n (os_now env k) (os_other env k fs)))"
  by (auto simp: os_call_def Let_def split: fault.splits prod.splits)

lemma os_call_count: "os_call env f torn (k, fs) = (r, k', fs') \<Longrightarrow> k' = Suc k"
  by (auto simp: os_call_def Let_def split: fault.splits prod.splits)

lemma nowI_Inr [io_simps]: "nowI env (k, fs) = (r, k', fs') \<longleftrightarrow> r = Inr (os_now env k) \<and> k' = k \<and> fs' = fs"
  by (auto simp: nowI_def)

lemma tryI_eq [io_simps]: "tryI m st = (Inr r, st') \<longleftrightarrow> m st = (r, st')"
  by (auto simp: tryI_def split: prod.splits)

lemma tryI_not_Inl [simp]: "tryI m st \<noteq> (Inl e, st')"
  by (auto simp: tryI_def split: prod.splits)

lemma on_open_Some: "map_of fs p = Some f \<Longrightarrow> on_open p g fs = AList.update p (g f) fs"
  by (simp add: on_open_def)

lemma on_open_other [simp]: "q \<noteq> p \<Longrightarrow> map_of (on_open p g fs) q = map_of fs q"
  by (simp add: on_open_def update_conv' split: option.splits)

lemma put_file_same [simp]: "map_of (put_file p d m now fs) p
    = Some \<lparr>f_data = d, f_mode = (case map_of fs p of None \<Rightarrow> m | Some f \<Rightarrow> f_mode f), f_mtime = now\<rparr>"
  by (simp add: put_file_def update_conv')

lemma put_file_other [simp]: "q \<noteq> p \<Longrightarrow> map_of (put_file p d m now fs) q = map_of fs q"
  by (simp add: put_file_def update_conv')

end
