(* ===== verification/JsonPrint.thy ===== *)
theory JsonPrint
  imports Emit JsonStruct "HOL-Library.AList" "HOL-Library.List_Lexorder"
begin

text \<open>
  The writing half of \<open>encoding/json\<close>, as far as the command line tools use it: \<open>json.Marshal\<close> of a
  string (\<open>appendString\<close> with HTML escaping), of a map from strings to \<open>json.RawMessage\<close>, and
  \<open>json.MarshalIndent\<close>. A raw message is compacted before it is written (\<open>appendCompact\<close>), and
  the whole is indented afterwards (\<open>appendIndent\<close>); both run the scanner of \<open>Json\<close> over the text. A Go
  map is an association list without repeated keys.

  The lemmas show that a printed string reads back as the string, and that compacting a string literal
  changes its spelling but not the string; \<open>JsonIndent\<close> does the same for indented maps.
\<close>

section \<open>Strings\<close>

definition html_safe :: "char \<Rightarrow> bool" where
  "html_safe c \<longleftrightarrow> CHR 0x20 \<le> c \<and> byte_val c < RuneSelf
     \<and> c \<notin> {CHR 0x22, CHR ''&'', CHR ''<'', CHR ''>'', CHR 0x5C}"

definition u_escape :: "nat \<Rightarrow> bytes" where
  "u_escape r = backslash (''u'' @ hex_digits 4 r)"

definition ascii_escape :: "char \<Rightarrow> bytes" where
  "ascii_escape c =
     (if c = CHR 0x5C \<or> c = CHR 0x22 then backslash [c]
      else if c = CHR 0x08 then backslash ''b''
      else if c = CHR 0x0C then backslash ''f''
      else if c = CHR 0x0A then backslash ''n''
      else if c = CHR 0x0D then backslash ''r''
      else if c = CHR 0x09 then backslash ''t''
      else u_escape (byte_val c))"

function marshal_body :: "bytes \<Rightarrow> bytes" where
  "marshal_body [] = []"
| "marshal_body (c # cs) =
     (if byte_val c < RuneSelf then (if html_safe c then [c] else ascii_escape c) @ marshal_body cs
      else case decode_rune (c # cs) of (r, n) \<Rightarrow>
        (if r = RuneError \<and> n = 1 then u_escape RuneError
         else if r = 0x2028 \<or> r = 0x2029 then u_escape r
         else take n (c # cs)) @ marshal_body (drop n (c # cs)))"
  by pat_completeness auto
termination
  by (relation "measure length") (auto dest: decode_rune_pos)

declare marshal_body.simps(2) [simp del]

definition marshal_string :: "bytes \<Rightarrow> bytes" where
  "marshal_string s = [CHR 0x22] @ marshal_body s @ [CHR 0x22]"

section \<open>Compacting and indenting\<close>

text \<open>\<open>scanner.eof\<close> reports no error.\<close>

definition scan_complete :: "scan_state \<Rightarrow> parse_state list \<Rightarrow> bool" where
  "scan_complete st stk \<longleftrightarrow> fst (scan_step st stk (CHR '' '')) = ScanEnd"

text \<open>What \<open>appendCompact\<close> writes for one byte, and how many of the following bytes that replaces.\<close>

definition compact_byte :: "scan_op \<Rightarrow> char \<Rightarrow> bytes \<Rightarrow> bytes \<times> nat" where
  "compact_byte opc c cs =
     (if c \<in> {CHR ''<'', CHR ''>'', CHR ''&''} then (u_escape (byte_val c), 0)
      else if c = CHR 0xE2 \<and> take 2 cs = [CHR 0x80, CHR 0xA8] then (u_escape 0x2028, 2)
      else if c = CHR 0xE2 \<and> take 2 cs = [CHR 0x80, CHR 0xA9] then (u_escape 0x2029, 2)
      else if opc = ScanSkipSpace \<or> opc = ScanEnd then ([], 0)
      else ([c], 0))"

fun compact_loop :: "nat \<Rightarrow> scan_state \<Rightarrow> parse_state list \<Rightarrow> bytes \<Rightarrow> bytes option" where
  "compact_loop d st stk [] = (if scan_complete st stk then Some [] else None)"
| "compact_loop d st stk (c # cs) =
     (case scan_step st stk c of (opc, st', stk') \<Rightarrow>
        if opc = ScanError \<or> (opc = ScanEnd \<and> \<not> is_space c) then None
        else case (if d > 0 then ([], d - 1) else compact_byte opc c cs) of (out, d') \<Rightarrow>
          map_option ((@) out) (compact_loop d' st' stk' cs))"

definition Compact :: "bytes \<Rightarrow> bytes option" where
  "Compact src = compact_loop 0 BeginValue [] src"

definition indent_newline :: "bytes \<Rightarrow> int \<Rightarrow> bytes" where
  "indent_newline ind depth = CHR 0x0A # concat (replicate (nat depth) ind)"

text \<open>The prefix is empty in every call. \<open>need\<close> and \<open>depth\<close> are the loop's variables.\<close>

fun indent_loop :: "bytes \<Rightarrow> bool \<Rightarrow> int \<Rightarrow> scan_state \<Rightarrow> parse_state list \<Rightarrow> bytes \<Rightarrow> bytes option" where
  "indent_loop ind need depth st stk [] = (if scan_complete st stk then Some [] else None)"
| "indent_loop ind need depth st stk (c # cs) =
     (case scan_step st stk c of (opc, st', stk') \<Rightarrow>
        if opc = ScanSkipSpace then indent_loop ind need depth st' stk' cs
        else if opc = ScanError \<or> (opc = ScanEnd \<and> \<not> is_space c) then None
        else
          let fresh = (need \<and> opc \<noteq> ScanEndObject \<and> opc \<noteq> ScanEndArray);
              need1 = (need \<and> \<not> fresh);
              depth1 = (if fresh then depth + 1 else depth);
              pre = (if fresh then indent_newline ind depth1 else [])
          in if opc = ScanContinue then
               map_option ((@) (pre @ [c])) (indent_loop ind need1 depth1 st' stk' cs)
             else if c = CHR ''{'' \<or> c = CHR ''['' then
               map_option ((@) (pre @ [c])) (indent_loop ind True depth1 st' stk' cs)
             else if c = CHR '','' then
               map_option ((@) (pre @ [c] @ indent_newline ind depth1)) (indent_loop ind need1 depth1 st' stk' cs)
             else if c = CHR '':'' then
               map_option ((@) (pre @ [c] @ '' '')) (indent_loop ind need1 depth1 st' stk' cs)
             else if c = CHR ''}'' \<or> c = CHR '']'' then
               (if need1 then map_option ((@) (pre @ [c])) (indent_loop ind False depth1 st' stk' cs)
                else map_option ((@) (pre @ indent_newline ind (depth1 - 1) @ [c]))
                       (indent_loop ind need1 (depth1 - 1) st' stk' cs))
             else map_option ((@) (pre @ [c])) (indent_loop ind need1 depth1 st' stk' cs))"

definition Indent :: "bytes \<Rightarrow> bytes \<Rightarrow> bytes option" where
  "Indent ind src = indent_loop ind False 0 BeginValue [] src"

section \<open>Maps of raw messages\<close>

type_synonym raw_map = "(bytes \<times> bytes) list"

fun marshal_members :: "bool \<Rightarrow> raw_map \<Rightarrow> bytes option" where
  "marshal_members first [] = Some []"
| "marshal_members first ((k, v) # kvs) =
     (case Compact v of
        None \<Rightarrow> None
      | Some v' \<Rightarrow>
          map_option ((@) ((if first then [] else '','') @ marshal_string k @ '':'' @ v')) (marshal_members False kvs))"

definition marshal_map :: "raw_map \<Rightarrow> bytes option" where
  "marshal_map m = map_option (\<lambda>t. ''{'' @ t @ ''}'') (marshal_members True (sort_key fst m))"

definition MarshalIndent :: "bytes \<Rightarrow> raw_map \<Rightarrow> bytes option" where
  "MarshalIndent ind m = (case marshal_map m of None \<Rightarrow> None | Some t \<Rightarrow> Indent ind t)"

text \<open>
  \<open>json.Unmarshal\<close> into such a map: an object's members, a later one replacing an earlier one of the
  same key; \<open>null\<close> makes the map nil, which the callers turn into an empty one.
\<close>

definition map_of_members :: "(bytes \<times> bytes) list \<Rightarrow> raw_map" where
  "map_of_members kvs = foldl (\<lambda>m (k, v). AList.update k v m) [] kvs"

definition unmarshal_map :: "bytes \<Rightarrow> raw_map option" where
  "unmarshal_map b =
     (case whole_value b of
        None \<Rightarrow> None
      | Some v \<Rightarrow>
          if hd v = CHR ''{'' then map_option map_of_members (members True (tl v))
          else if hd v = CHR ''n'' then Some []
          else None)"

section \<open>A printed string reads back\<close>

text \<open>The text a printed string stands for: bytes that are not UTF-8 become U+FFFD.\<close>

definition valid_text :: "bytes \<Rightarrow> bytes" where
  "valid_text s = concat (map encode_rune (runes s))"

definition valid_utf8 :: "bytes \<Rightarrow> bool" where
  "valid_utf8 s \<longleftrightarrow> valid_text s = s"

lemma valid_text_simps [simp]:
  "valid_text [] = []"
  "decode_rune (c # cs) = (r, n) \<Longrightarrow> valid_text (c # cs) = encode_rune r @ valid_text (drop n (c # cs))"
  by (simp_all add: valid_text_def runes.simps(2))

lemma encode_rune_self: "byte_val c < RuneSelf \<Longrightarrow> encode_rune (byte_val c) = [c]"
  by (simp add: encode_rune_def RuneSelf_def)

lemma unquote_body_multi:
  assumes "decode_rune (c # cs) = (r, n)" "1 < n"
  shows "unquote_body (take n (c # cs) @ rest) = map_option ((@) (take n (c # cs))) (unquote_body rest)"
proof -
  note high = decode_rune_high_rune [OF assms] and enc = encode_decode_rune [OF assms]
  have c: "\<not> byte_val c < RuneSelf" using assms by (auto simp: decode_rune.simps(2))
  have "decode_rune (take n (c # cs) @ rest) = (r, n)" by (rule decode_rune_prefix [OF assms])
  then have "decode_rune (c # take (n - 1) cs @ rest) = (r, n)" using assms(2) by (cases n) simp_all
  moreover have "drop (n - 1) (take (n - 1) cs @ rest) = rest" using high assms(2) by (cases n) simp_all
  moreover have "c \<noteq> CHR 0x5C" "c \<noteq> CHR 0x22" "\<not> c < CHR 0x20"
    using c by (auto simp: RuneSelf_def byte_simps)
  ultimately show ?thesis
    using c enc assms(2) by (cases n) (simp_all add: unquote_body.simps(2))
qed

lemma wf_body_u_escape:
  assumes "r < 0x10000"
  shows "wf_body (u_escape r @ rest) \<longleftrightarrow> wf_body rest"
  using assms by (simp add: u_escape_def backslash_def wf_body.simps(2) hex_digits_4 hex_char_hex)

lemma unquote_u_escape:
  "r < 0x10000 \<Longrightarrow> \<not> IsSurrogate r \<Longrightarrow>
    unquote_body (u_escape r @ rest) = map_option ((@) (encode_rune r)) (unquote_body rest)"
  unfolding u_escape_def by (rule unquote_body_uescape)

lemma ascii_escape_reads:
  assumes "byte_val c < RuneSelf"
  shows "wf_body (ascii_escape c @ rest) \<longleftrightarrow> wf_body rest"
    and "unquote_body (ascii_escape c @ rest) = map_option ((#) c) (unquote_body rest)"
proof -
  have "wf_body (ascii_escape c @ rest) \<longleftrightarrow> wf_body rest"
    and "unquote_body (ascii_escape c @ rest) = map_option ((#) c) (unquote_body rest)"
    if "\<exists>e. ascii_escape c = backslash [e] \<and> e \<noteq> CHR ''u'' \<and> escape_char e = Some c"
    using that wf_body_backslash [where s = "[]"] unquote_body_escape by fastforce+
  moreover have "ascii_escape c = u_escape (byte_val c)
      \<or> (\<exists>e. ascii_escape c = backslash [e] \<and> e \<noteq> CHR ''u'' \<and> escape_char e = Some c)"
    by (auto simp: ascii_escape_def backslash_def escape_char_quoted)
  moreover have "byte_val c < 0x10000" "\<not> IsSurrogate (byte_val c)" "encode_rune (byte_val c) = [c]"
    using assms encode_rune_self [of c] by (simp_all add: RuneSelf_def IsSurrogate_def)
  ultimately show "wf_body (ascii_escape c @ rest) \<longleftrightarrow> wf_body rest"
    "unquote_body (ascii_escape c @ rest) = map_option ((#) c) (unquote_body rest)"
    using wf_body_u_escape [of "byte_val c" rest] unquote_u_escape [of "byte_val c" rest]
    by (auto simp: append_singleton)
qed

lemma html_safe_reads:
  "html_safe c \<Longrightarrow> wf_body (c # rest) = wf_body rest"
  "html_safe c \<Longrightarrow> unquote_body (c # rest) = map_option ((#) c) (unquote_body rest)"
  by (auto simp: html_safe_def wf_body.simps(2) unquote_body.simps(2))

lemma marshal_body_reads: "wf_body (marshal_body s) \<and> unquote_body (marshal_body s) = Some (valid_text s)"
proof (induction s rule: marshal_body.induct)
  case 1
  then show ?case by simp
next
  case (2 c cs)
  obtain r n where rn: "decode_rune (c # cs) = (r, n)" by fastforce
  show ?case
  proof (cases "byte_val c < RuneSelf")
    case True
    then have "valid_text (c # cs) = c # valid_text cs"
      using decode_rune_ascii [of c cs] by (simp add: RuneSelf_def encode_rune_self)
    with 2 True show ?thesis
      by (simp add: marshal_body.simps(2) html_safe_reads ascii_escape_reads)
  next
    case False
    note step = "2.IH"(2) [OF False rn [symmetric]]
    consider (bad) "r = RuneError" "n = 1" | (multi) "1 < n"
      using decode_rune_nonascii [OF rn False] by blast
    then show ?thesis
    proof cases
      case bad
      have "RuneError < 0x10000" "\<not> IsSurrogate RuneError" by (simp_all add: RuneError_def IsSurrogate_def)
      with bad rn False step show ?thesis
        by (simp add: marshal_body.simps(2) wf_body_u_escape unquote_u_escape)
    next
      case multi
      note high = decode_rune_high_rune [OF rn multi] and enc = encode_decode_rune [OF rn multi]
      note un = unquote_body_multi [OF rn multi]
      have wf: "wf_body (take n (c # cs) @ rest) = wf_body rest" for rest
        using wf_body_verbatim [OF decode_rune_high [OF rn multi]] .
      have "IsSurrogate 0x2028 = False" "IsSurrogate 0x2029 = False" by (simp_all add: IsSurrogate_def)
      with multi rn False step un wf enc show ?thesis
        by (auto simp: marshal_body.simps(2) wf_body_u_escape unquote_u_escape)
    qed
  qed
qed

lemma is_literal_marshal: "is_literal (marshal_string s)"
  unfolding marshal_string_def by (rule is_literalI) (simp add: marshal_body_reads)

lemma json_unquote_marshal: "json_unquote (marshal_string s) = Some (valid_text s)"
  by (simp add: marshal_string_def json_unquote_def marshal_body_reads)


section \<open>Compacting keeps the strings\<close>

text \<open>What compacting makes of the text between the quotes.\<close>

function html_body :: "bytes \<Rightarrow> bytes" where
  "html_body [] = []"
| "html_body (c # cs) =
     (case compact_byte ScanContinue c cs of (out, d) \<Rightarrow> out @ html_body (drop d cs))"
  by pat_completeness auto
termination
  by (relation "measure length") auto

declare html_body.simps(2) [simp del]

definition special :: "char \<Rightarrow> bytes \<Rightarrow> nat \<Rightarrow> nat \<Rightarrow> bool" where
  "special c cs r d \<longleftrightarrow>
     (c \<in> {CHR ''<'', CHR ''>'', CHR ''&''} \<and> r = byte_val c \<and> d = 0)
     \<or> (c = CHR 0xE2 \<and> d = 2 \<and> ((take 2 cs = [CHR 0x80, CHR 0xA8] \<and> r = 0x2028)
          \<or> (take 2 cs = [CHR 0x80, CHR 0xA9] \<and> r = 0x2029)))"

lemma html_body_step:
  "compact_byte ScanContinue c cs = (out, d) \<Longrightarrow> html_body (c # cs) = out @ html_body (drop d cs)"
  by (simp add: html_body.simps(2))

lemma compact_byte_special: "special c cs r d \<Longrightarrow> compact_byte ScanContinue c cs = (u_escape r, d)"
  by (auto simp: special_def compact_byte_def)

lemma compact_byte_same:
  assumes "\<And>r d. \<not> special c cs r d"
  shows "compact_byte ScanContinue c cs = ([c], 0)"
proof -
  have "c \<notin> {CHR ''<'', CHR ''>'', CHR ''&''}" using assms [of "byte_val c" 0] by (simp add: special_def)
  moreover have "\<not> (c = CHR 0xE2 \<and> take 2 cs = [CHR 0x80, CHR 0xA8])"
    using assms [of "0x2028" 2] unfolding special_def by blast
  moreover have "\<not> (c = CHR 0xE2 \<and> take 2 cs = [CHR 0x80, CHR 0xA9])"
    using assms [of "0x2029" 2] unfolding special_def by blast
  ultimately show ?thesis unfolding compact_byte_def by simp
qed

lemma html_body_cases:
  obtains (special) r d where "special c cs r d" "compact_byte ScanContinue c cs = (u_escape r, d)"
    "html_body (c # cs) = u_escape r @ html_body (drop d cs)"
  | (same) "\<And>r d. \<not> special c cs r d" "compact_byte ScanContinue c cs = ([c], 0)"
    "html_body (c # cs) = c # html_body cs"
proof (cases "\<exists>r d. special c cs r d")
  case True
  then show thesis using special compact_byte_special html_body_step by blast
next
  case False
  then have "\<And>r d. \<not> special c cs r d" by blast
  then show thesis using same compact_byte_same html_body_step [where d = 0] by fastforce
qed

lemma special_rune: "special c cs r d \<Longrightarrow> r < 0x10000 \<and> \<not> IsSurrogate r \<and> r \<in> {0x26, 0x3C, 0x3E, 0x2028, 0x2029}"
  by (auto simp: special_def IsSurrogate_def)

lemma special_char: "special c cs r d \<Longrightarrow> c \<in> {CHR ''<'', CHR ''>'', CHR ''&'', CHR 0xE2}"
  by (auto simp: special_def)

lemma html_same: "c \<notin> {CHR ''<'', CHR ''>'', CHR ''&'', CHR 0xE2} \<Longrightarrow> html_body (c # cs) = c # html_body cs"
  using special_char by (metis html_body_cases)

lemma not_special_chars:
  "continuation c \<Longrightarrow> c \<notin> {CHR ''<'', CHR ''>'', CHR ''&'', CHR 0xE2}"
  "is_hex c \<Longrightarrow> c \<notin> {CHR ''<'', CHR ''>'', CHR ''&'', CHR 0xE2}"
  "escape_char c \<noteq> None \<Longrightarrow> c \<notin> {CHR ''<'', CHR ''>'', CHR ''&'', CHR 0xE2}"
  by (auto simp: continuation_def is_hex_def is_digit_def byte_simps escape_char_def)

lemma takeWhile_html: "takeWhile continuation (html_body s) = takeWhile continuation s"
proof (induction s)
  case (Cons c s)
  show ?case
  proof (cases "continuation c")
    case True
    with Cons not_special_chars(1) html_same show ?thesis by simp
  next
    case False
    moreover have "\<not> continuation CHR 0x5C" by (simp add: continuation_def)
    ultimately show ?thesis
      by (cases rule: html_body_cases [of c s]) (simp_all add: u_escape_def backslash_def)
  qed
qed simp

lemma lead_info_cont: "lead_info b = Some (n, lo, hi) \<Longrightarrow> 128 \<le> lo \<and> hi \<le> 191"
  by (auto simp: lead_info_def split: if_splits)

lemma takeWhile_Cons_cont: "continuation c \<Longrightarrow> takeWhile continuation (c # cs) = c # takeWhile continuation cs"
  by simp

lemma decode_rune_cont: "decode_rune (c # takeWhile continuation cs) = decode_rune (c # cs)"
proof (cases "lead_info (byte_val c)")
  case None
  then show ?thesis by (simp add: decode_rune.simps(2))
next
  case (Some p)
  obtain n lo hi where p: "p = (n, lo, hi)" by (cases p)
  note lim = lead_info_cont [OF Some [unfolded p]]
  have bad: "\<not> (lo \<le> byte_val c1 \<and> byte_val c1 \<le> hi)" if "\<not> continuation c1" for c1
    using that lim by (auto simp: continuation_def)
  show ?thesis
  proof (cases cs)
    case (Cons c1 cs1)
    show ?thesis
      using Some p bad Cons by (cases cs1; cases "tl cs1") (auto simp: decode_rune.simps(2))
  qed simp
qed

lemma decode_rune_html: "decode_rune (c # html_body cs) = decode_rune (c # cs)"
  using decode_rune_cont takeWhile_html by metis

lemma special_decode:
  assumes "special c cs r d" "wf_body (c # cs)"
  shows "wf_body (drop d cs)" "unquote_body (c # cs) = map_option ((@) (encode_rune r)) (unquote_body (drop d cs))"
    "length (drop d cs) < length (c # cs)"
proof -
  have "wf_body (drop d cs) \<and> unquote_body (c # cs) = map_option ((@) (encode_rune r)) (unquote_body (drop d cs))"
  proof (cases "c = CHR 0xE2")
    case False
    then have c: "c \<in> {CHR ''<'', CHR ''>'', CHR ''&''}" "r = byte_val c" "d = 0"
      using assms(1) by (auto simp: special_def)
    then have "byte_val c < RuneSelf" by (auto simp: RuneSelf_def)
    with c assms(2) encode_rune_self [of c] show ?thesis
      by (auto simp: wf_body.simps(2) unquote_body.simps(2) append_singleton)
  next
    case True
    then obtain x rest where cs: "cs = CHR 0x80 # x # rest" "d = 2"
      and x: "x = CHR 0xA8 \<and> r = 0x2028 \<or> x = CHR 0xA9 \<and> r = 0x2029"
      using assms(1) by (cases cs; cases "tl cs") (auto simp: special_def)
    have rn: "decode_rune (c # cs) = (r, 3)"
      using x by (auto simp: decode_rune.simps(2) True cs RuneSelf_def lead_info_def continuation_def)
    have un: "unquote_body (take 3 (c # cs) @ rest) = map_option ((@) (take 3 (c # cs))) (unquote_body rest)"
      by (rule unquote_body_multi [OF rn]) simp
    have enc: "encode_rune r = take 3 (c # cs)" by (rule encode_decode_rune [OF rn]) simp
    have wf: "wf_body rest" using assms(2) x by (auto simp: True cs wf_body.simps(2) byte_simps)
    show ?thesis using un enc wf by (simp add: cs numeral_eq_Suc)
  qed
  then show "wf_body (drop d cs)"
    "unquote_body (c # cs) = map_option ((@) (encode_rune r)) (unquote_body (drop d cs))" by blast+
qed simp

lemma getu4_not_u: "w \<noteq> CHR ''u'' \<Longrightarrow> getu4 (c # w # t) = None"
  by (cases "c # w # t" rule: getu4.cases) auto

lemma getu4_html:
  assumes "wf_body s"
  shows "getu4 (html_body s) = getu4 s
    \<or> (getu4 s = None \<and> getu4 (html_body s) \<in> Some ` {0x26, 0x3C, 0x3E, 0x2028, 0x2029})"
proof (cases s)
  case (Cons c cs)
  show ?thesis
  proof (cases rule: html_body_cases [of c cs])
    case (special r d)
    have "getu4 s = None" using special_char [OF special(1)] Cons by (cases s rule: getu4.cases) auto
    with special special_rune [OF special(1)] getu4_hex [of r] show ?thesis
      unfolding u_escape_def Cons by simp
  next
    case same
    show ?thesis
    proof (cases "c = CHR 0x5C \<and> cs \<noteq> [] \<and> hd cs = CHR ''u''")
      case True
      with assms Cons obtain h1 h2 h3 h4 t where "cs = CHR ''u'' # h1 # h2 # h3 # h4 # t"
        "is_hex h1" "is_hex h2" "is_hex h3" "is_hex h4"
        by (auto simp: wf_body.simps(2) neq_Nil_conv split: list.splits)
      with True same not_special_chars(2) show ?thesis by (simp add: Cons html_same)
    next
      case False
      have n1: "getu4 s = None" using False Cons by (cases s rule: getu4.cases) auto
      moreover have "getu4 (html_body s) = None"
      proof (cases cs)
        case (Cons u us)
        show ?thesis
        proof (cases "c = CHR 0x5C")
          case True
          then have "u \<noteq> CHR ''u''" using False Cons by simp
          then have "html_body s = c # CHR 0x5C # t \<or> html_body s = c # u # t" if "t = tl (html_body cs)" for t
            using same that Cons \<open>s = c # cs\<close>
            by (cases rule: html_body_cases [of u us]) (simp_all add: u_escape_def backslash_def)
          then have "\<exists>t w. html_body s = c # w # t \<and> w \<noteq> CHR ''u''" using \<open>u \<noteq> CHR ''u''\<close> by blast
          then show ?thesis using getu4_not_u by auto
        next
          case c: False
          then show ?thesis using same \<open>s = c # cs\<close> by (cases "html_body s" rule: getu4.cases) auto
        qed
      qed (use same \<open>s = c # cs\<close> in simp)
      ultimately show ?thesis by simp
    qed
  qed
qed simp

lemma wf_body_drop_u:
  assumes "wf_body (CHR 0x5C # CHR ''u'' # t)"
  obtains h1 h2 h3 h4 r where "t = h1 # h2 # h3 # h4 # drop 4 t" "is_hex h1" "is_hex h2" "is_hex h3" "is_hex h4"
    "wf_body (drop 4 t)" "getu4 (CHR 0x5C # CHR ''u'' # t) = Some r"
  using assms by (auto simp: wf_body.simps(2) split: list.splits)

lemma html_hexes:
  "is_hex h1 \<Longrightarrow> is_hex h2 \<Longrightarrow> is_hex h3 \<Longrightarrow> is_hex h4 \<Longrightarrow>
    html_body (CHR 0x5C # CHR ''u'' # h1 # h2 # h3 # h4 # t) = CHR 0x5C # CHR ''u'' # h1 # h2 # h3 # h4 # html_body t"
  using not_special_chars(2) by (simp add: html_same)

lemma low_surrogate_special:
  "r2 \<in> {0x26, 0x3C, 0x3E, 0x2028, 0x2029} \<Longrightarrow> utf16_DecodeRune r r2 = RuneError"
  by (auto simp: utf16_DecodeRune_def)

lemma getu4_SomeD:
  "getu4 s = Some r \<Longrightarrow> \<exists>h1 h2 h3 h4 t. s = CHR 0x5C # CHR ''u'' # h1 # h2 # h3 # h4 # t
    \<and> is_hex h1 \<and> is_hex h2 \<and> is_hex h3 \<and> is_hex h4"
  by (cases s rule: getu4.cases) (auto split: if_splits)

lemma unquote_html_u:
  assumes hex: "is_hex h1" "is_hex h2" "is_hex h3" "is_hex h4" and wf: "wf_body t"
    and IH: "\<And>x. length x \<le> length t \<Longrightarrow> wf_body x \<Longrightarrow> unquote_body (html_body x) = unquote_body x"
  shows "unquote_body (html_body (CHR 0x5C # CHR ''u'' # h1 # h2 # h3 # h4 # t))
    = unquote_body (CHR 0x5C # CHR ''u'' # h1 # h2 # h3 # h4 # t)"
proof -
  note eqs = html_hexes [OF hex] and tIH = IH [OF order_refl wf]
  consider (same) "getu4 (html_body t) = getu4 t" "getu4 t = None"
    | (fresh) r2 where "getu4 t = None" "getu4 (html_body t) = Some r2" "r2 \<in> {0x26, 0x3C, 0x3E, 0x2028, 0x2029}"
    | (pair) r2 where "getu4 t = Some r2" "getu4 (html_body t) = Some r2"
    using getu4_html [OF wf] by (cases "getu4 t") auto
  then show ?thesis
  proof cases
    case same
    with hex eqs tIH show ?thesis by (simp add: unquote_body.simps(2))
  next
    case fresh
    with hex eqs tIH low_surrogate_special [OF fresh(3)] show ?thesis by (simp add: unquote_body.simps(2))
  next
    case pair
    from getu4_SomeD [OF pair(1)] obtain g1 g2 g3 g4 t' where t: "t = CHR 0x5C # CHR ''u'' # g1 # g2 # g3 # g4 # t'"
      and g: "is_hex g1" "is_hex g2" "is_hex g3" "is_hex g4" by blast
    have "wf_body t'" using wf g by (simp add: t wf_body.simps(2))
    then have "unquote_body (html_body t') = unquote_body t'" by (intro IH) (simp_all add: t)
    then show ?thesis using hex pair tIH html_hexes [OF g] unfolding eqs
      by (simp add: t unquote_body.simps(2) [of "CHR 0x5C" "CHR ''u'' # h1 # _"])
  qed
qed

lemma html_continuation: "list_all continuation u \<Longrightarrow> html_body (u @ v) = u @ html_body v"
proof (induction u)
  case (Cons c u)
  then show ?case using not_special_chars(1) [of c] html_same [of c "u @ v"] by simp
qed simp

lemma decode_rune_tail:
  assumes "decode_rune (c # cs) = (r, n)" "1 < n"
  shows "list_all continuation (take (n - 1) cs)"
  using assms by (cases rule: decode_rune_multi) (simp_all add: continuation_def)

lemma unquote_html_high:
  assumes c: "\<not> byte_val c < RuneSelf" and same: "html_body (c # cs) = c # html_body cs" and wf: "wf_body cs"
    and IH: "\<And>x. length x \<le> length cs \<Longrightarrow> wf_body x \<Longrightarrow> unquote_body (html_body x) = unquote_body x"
  shows "unquote_body (html_body (c # cs)) = unquote_body (c # cs)"
proof -
  obtain r n where rn: "decode_rune (c # cs) = (r, n)" by fastforce
  have dn: "decode_rune (c # html_body cs) = (r, n)" using rn by (simp add: decode_rune_html)
  have c': "c \<noteq> CHR 0x5C" "c \<noteq> CHR 0x22" "\<not> c < CHR 0x20" using c by (auto simp: RuneSelf_def byte_simps)
  have "drop n (c # html_body cs) = html_body (drop n (c # cs)) \<and> wf_body (drop n (c # cs)) \<and> n \<noteq> 0"
  proof (cases "1 < n")
    case False
    with decode_rune_nonascii [OF rn c] wf show ?thesis by simp
  next
    case True
    then obtain k where n: "n = Suc k" by (cases n) auto
    note tl = decode_rune_tail [OF rn True]
    have "html_body (take k cs @ drop k cs) = take k cs @ html_body (drop k cs)"
      using tl n by (intro html_continuation) simp
    moreover have "length (take k cs) = k" using decode_rune_high_rune [OF rn True] n by simp
    moreover have "wf_body (drop k cs)"
      using wf wf_body_verbatim [of "take k cs" "drop k cs"] tl n
      by (auto simp: list_all_iff continuation_def)
    ultimately show ?thesis using n by (simp del: length_take)
  qed
  with IH [of "drop n (c # cs)"] rn dn c c' same show ?thesis
    by (cases n) (simp_all add: unquote_body.simps(2))
qed

lemma unquote_html_plain:
  assumes "c \<noteq> CHR 0x5C" "c \<noteq> CHR 0x22" "\<not> c < CHR 0x20" "wf_body cs"
    and IH: "\<And>x. length x \<le> length cs \<Longrightarrow> wf_body x \<Longrightarrow> wf_body (html_body x) \<and> unquote_body (html_body x) = unquote_body x"
  shows "wf_body (html_body (c # cs)) \<and> unquote_body (html_body (c # cs)) = unquote_body (c # cs)"
proof (cases rule: html_body_cases [of c cs])
  case (special r d)
  have wf: "wf_body (c # cs)" using assms(1-4) by (simp add: wf_body.simps(2))
  note sd = special_decode [OF special(1) wf]
  with IH [of "drop d cs"] special special_rune [OF special(1)] show ?thesis
    by (simp add: wf_body_u_escape unquote_u_escape)
next
  case same
  note step = IH [OF order_refl assms(4)]
  show ?thesis
  proof (cases "byte_val c < RuneSelf")
    case True
    with step assms(1-4) same show ?thesis by (simp add: wf_body.simps(2) unquote_body.simps(2))
  next
    case False
    have "unquote_body (html_body (c # cs)) = unquote_body (c # cs)"
      using IH by (intro unquote_html_high [OF False same(3) assms(4)]) blast
    with step assms(1-4) same show ?thesis by (simp add: wf_body.simps(2))
  qed
qed

lemma html_backslash: "html_body (CHR 0x5C # t) = CHR 0x5C # html_body t"
  by (rule html_same) (simp add: special_def)

lemma unquote_html:
  "wf_body s \<Longrightarrow> wf_body (html_body s) \<and> unquote_body (html_body s) = unquote_body s"
proof (induction s rule: length_induct)
  case (1 s)
  have IH: "wf_body (html_body t) \<and> unquote_body (html_body t) = unquote_body t" if "length t < length s" "wf_body t" for t
    using "1.IH" that by blast
  from "1.prems" show ?case
  proof (cases rule: wf_body_cases)
    case Nil
    then show ?thesis by simp
  next
    case (plain c cs)
    show ?thesis unfolding plain(1) by (rule unquote_html_plain [OF plain(2-5)]) (rule IH, simp_all add: plain(1))
  next
    case (short e t)
    with IH [of t] html_same [of e t] not_special_chars(3) [OF short(3)] show ?thesis
      by (auto simp: html_backslash wf_body.simps(2) unquote_body.simps(2) split: option.splits)
  next
    case (hex h1 h2 h3 h4 t)
    have "unquote_body (html_body s) = unquote_body s"
      unfolding hex(1) using IH by (intro unquote_html_u [OF hex(2-6)]) (simp add: hex(1))
    moreover have "wf_body (html_body t)" using IH hex(1,6) by simp
    ultimately show ?thesis using hex(2-5) by (simp add: hex(1) html_hexes wf_body.simps(2))
  qed
qed

text \<open>The literal compacting makes of a literal.\<close>

definition html_literal :: "bytes \<Rightarrow> bytes" where
  "html_literal v = [CHR 0x22] @ html_body (butlast (tl v)) @ [CHR 0x22]"

lemma html_literal_reads:
  assumes "is_literal v"
  shows "is_literal (html_literal v)" "json_unquote (html_literal v) = json_unquote v"
proof -
  from assms obtain body where v: "v = [CHR 0x22] @ body @ [CHR 0x22]" "wf_body body" by (auto simp: is_literal_iff)
  with unquote_html [OF v(2)] show "is_literal (html_literal v)" "json_unquote (html_literal v) = json_unquote v"
    by (auto simp: html_literal_def is_literal_iff json_unquote_def)
qed

lemma compact_plain:
  assumes "scan_step st stk c = (ScanContinue, st', stk)" "c \<notin> {CHR ''<'', CHR ''>'', CHR ''&'', CHR 0xE2}"
  shows "compact_loop 0 st stk (c # cs) = map_option ((#) c) (compact_loop 0 st' stk cs)"
  using assms by (simp add: compact_byte_def append_singleton)

lemmas map_option_append = option.map_comp comp_def

lemma compact_skip:
  assumes "special c cs r d"
  shows "compact_loop d InString stk (cs @ z) = compact_loop 0 InString stk (drop d cs @ z)"
proof (cases "d = 0")
  case False
  with assms have d: "d = 2" by (auto simp: special_def)
  with assms obtain x where x: "take 2 cs = [CHR 0x80, x]" "x = CHR 0xA8 \<or> x = CHR 0xA9" by (auto simp: special_def)
  then have cs: "cs = CHR 0x80 # x # drop 2 cs" by (metis append_Cons append_Nil append_take_drop_id)
  have step: "scan_step InString stk CHR 0x80 = (ScanContinue, InString, stk)"
    "scan_step InString stk x = (ScanContinue, InString, stk)"
    using x(2) by (auto simp: byte_simps)
  have "map_option ((@) []) m = m" for m :: "bytes option" by (cases m) simp_all
  then have "compact_loop 2 InString stk (CHR 0x80 # x # w) = compact_loop 0 InString stk w" for w
    by (simp add: step del: scan_step.simps)
  with cs d show ?thesis by (metis append_Cons)
qed simp

lemma compact_hexes:
  assumes "is_hex h1" "is_hex h2" "is_hex h3" "is_hex h4"
  shows "compact_loop 0 InString stk (CHR 0x5C # CHR ''u'' # h1 # h2 # h3 # h4 # x)
    = map_option (\<lambda>y. CHR 0x5C # CHR ''u'' # h1 # h2 # h3 # h4 # y) (compact_loop 0 InString stk x)"
proof -
  have b: "compact_loop 0 InString stk (CHR 0x5C # y) = map_option ((#) (CHR 0x5C)) (compact_loop 0 InStringEsc stk y)" for y
    by (intro compact_plain) simp_all
  have u: "compact_loop 0 InStringEsc stk (CHR ''u'' # y) = map_option ((#) CHR ''u'') (compact_loop 0 InStringEscU stk y)" for y
    by (intro compact_plain) simp_all
  have h: "compact_loop 0 st stk (h # y) = map_option ((#) h) (compact_loop 0 st' stk y)"
    if "is_hex h" "scan_step st stk h = expect stk (is_hex h) st'" for st st' h y
    using that not_special_chars(2) [OF that(1)] by (intro compact_plain) (simp_all add: expect_def)
  show ?thesis using assms by (simp add: b u h map_option_append del: compact_loop.simps)
qed

lemma compact_short:
  assumes "escape_char e \<noteq> None"
  shows "compact_loop 0 InString stk (CHR 0x5C # e # x) = map_option (\<lambda>y. CHR 0x5C # e # y) (compact_loop 0 InString stk x)"
proof -
  have b: "compact_loop 0 InString stk (CHR 0x5C # y) = map_option ((#) (CHR 0x5C)) (compact_loop 0 InStringEsc stk y)" for y
    by (intro compact_plain) simp_all
  have e: "compact_loop 0 InStringEsc stk (e # x) = map_option ((#) e) (compact_loop 0 InString stk x)"
    using not_special_chars(3) [OF assms] scan_step_esc(1) [OF assms] by (intro compact_plain) simp_all
  show ?thesis by (simp add: b e map_option_append del: compact_loop.simps)
qed

lemma compact_plain_char:
  assumes "c \<noteq> CHR 0x5C" "c \<noteq> CHR 0x22" "\<not> c < CHR 0x20" "wf_body cs"
    and IH: "\<And>x. length x \<le> length cs \<Longrightarrow> wf_body x \<Longrightarrow> compact_loop 0 InString stk (x @ CHR 0x22 # rest)
      = map_option (\<lambda>a. html_body x @ CHR 0x22 # a) (compact_loop 0 EndValue stk rest)"
  shows "compact_loop 0 InString stk ((c # cs) @ CHR 0x22 # rest)
    = map_option (\<lambda>a. html_body (c # cs) @ CHR 0x22 # a) (compact_loop 0 EndValue stk rest)"
proof -
  have q: "take 2 (cs @ CHR 0x22 # rest) = [CHR 0x80, x] \<longleftrightarrow> take 2 cs = [CHR 0x80, x]" if "x \<noteq> CHR 0x22" for x
    using that by (cases cs; cases "tl cs") auto
  then have cb: "compact_byte ScanContinue c (cs @ CHR 0x22 # rest) = compact_byte ScanContinue c cs"
    unfolding compact_byte_def by (simp only: q char.inject simp_thms)
  have step: "scan_step InString stk c = (ScanContinue, InString, stk)" using assms(1-3) by simp
  show ?thesis
  proof (cases rule: html_body_cases [of c cs])
    case (special r d)
    have "wf_body (c # cs)" using assms(1-4) by (simp add: wf_body.simps(2))
    from special_decode(1) [OF special(1) this] have "compact_loop 0 InString stk (drop d cs @ CHR 0x22 # rest)
        = map_option (\<lambda>a. html_body (drop d cs) @ CHR 0x22 # a) (compact_loop 0 EndValue stk rest)"
      by (intro IH) simp_all
    then show ?thesis
      by (cases "compact_loop 0 EndValue stk rest")
        (simp_all add: step cb special(2,3) compact_skip [OF special(1)] del: scan_step.simps)
  next
    case same
    with IH [OF order_refl assms(4)] step cb show ?thesis
      by (simp add: append_singleton map_option_append del: scan_step.simps)
  qed
qed

lemma compact_body:
  "wf_body body \<Longrightarrow> compact_loop 0 InString stk (body @ CHR 0x22 # rest)
    = map_option (\<lambda>a. html_body body @ CHR 0x22 # a) (compact_loop 0 EndValue stk rest)"
proof (induction body rule: length_induct)
  case (1 body)
  have IH: "compact_loop 0 InString stk (t @ CHR 0x22 # rest)
      = map_option (\<lambda>a. html_body t @ CHR 0x22 # a) (compact_loop 0 EndValue stk rest)"
    if "length t < length body" "wf_body t" for t using "1.IH" that by blast
  from "1.prems" show ?case
  proof (cases rule: wf_body_cases)
    case Nil
    then show ?thesis by (simp add: compact_byte_def append_singleton)
  next
    case (plain c cs)
    show ?thesis unfolding plain(1) by (rule compact_plain_char [OF plain(2-5)]) (rule IH, simp_all add: plain(1))
  next
    case (short e t)
    with IH [of t] html_same [OF not_special_chars(3) [OF short(3)]] show ?thesis
      by (simp add: compact_short html_backslash map_option_append del: compact_loop.simps)
  next
    case (hex h1 h2 h3 h4 t)
    with IH [of t] show ?thesis by (simp add: compact_hexes html_hexes map_option_append del: compact_loop.simps)
  qed
qed

lemma Compact_literal: "is_literal v \<Longrightarrow> Compact v = Some (html_literal v)"
proof -
  assume "is_literal v"
  then obtain body where v: "v = CHR 0x22 # body @ [CHR 0x22]" "wf_body body" by (auto simp: is_literal_iff)
  have "compact_loop 0 BeginValue [] (CHR 0x22 # x) = map_option ((#) (CHR 0x22)) (compact_loop 0 InString [] x)" for x
    by (simp add: begin_value_quote compact_byte_def append_singleton)
  with v compact_body [OF v(2), of "[]" "[]"] show ?thesis
    by (simp add: Compact_def html_literal_def map_option_append scan_complete_def)
qed

end
