(* ===== verification/JsonIndent.thy ===== *)
theory JsonIndent
  imports JsonPrint
begin

text \<open>
  The round trip of \<open>json.MarshalIndent\<close> and \<open>json.Unmarshal\<close> on maps of string literals: the text that
  is printed is computed, the scanner accepts it, and reading it gives the same keys with values that
  denote the same strings.
\<close>

section \<open>Indenting a map of strings\<close>

text \<open>A stretch of bytes on which every step of the scanner is \<open>ScanContinue\<close>.\<close>

fun continues :: "scan_state \<Rightarrow> parse_state list \<Rightarrow> bytes \<Rightarrow> scan_state option" where
  "continues st stk [] = Some st"
| "continues st stk (c # cs) =
     (case scan_step st stk c of (opc, st', stk') \<Rightarrow>
        if opc = ScanContinue \<and> stk' = stk then continues st' stk cs else None)"

lemma continues_body: "wf_body body \<Longrightarrow> continues InString stk (body @ [CHR 0x22]) = Some EndValue"
proof (induction rule: wf_body_induct)
  case (short e t)
  then show ?case by (simp add: scan_step_esc(1) del: scan_step.simps(8))
qed (simp_all add: expect_def)

lemma append_fun: "(@) [] = (\<lambda>x. x)" "(@) (c # a) = (\<lambda>x. c # a @ x)" "(@) (a @ b) = (\<lambda>x. a @ b @ x)"
  by (simp_all add: fun_eq_iff)

lemma indent_continue:
  "scan_step st stk c = (ScanContinue, st', stk') \<Longrightarrow>
   indent_loop ind False d st stk (c # cs) = map_option ((#) c) (indent_loop ind False d st' stk' cs)"
  by (simp add: Let_def append_singleton)

lemma continues_Cons:
  assumes "continues st stk (c # cs) = Some st'"
  obtains st1 where "scan_step st stk c = (ScanContinue, st1, stk)" "continues st1 stk cs = Some st'"
  using assms by (auto split: prod.splits if_splits)

lemma continues_indent:
  "continues st stk s = Some st' \<Longrightarrow>
   indent_loop ind False d st stk (s @ rest) = map_option ((@) s) (indent_loop ind False d st' stk rest)"
proof (induction s arbitrary: st)
  case Nil
  then show ?case by (cases "indent_loop ind False d st' stk rest") simp_all
next
  case (Cons c s)
  obtain st1 where "scan_step st stk c = (ScanContinue, st1, stk)" "continues st1 stk s = Some st'"
    using Cons.prems by (rule continues_Cons)
  then show ?case by (simp add: indent_continue Cons.IH option.map_comp comp_def append_fun del: indent_loop.simps scan_step.simps)
qed

lemma indent_literal:
  assumes "is_literal v" "scan_step st stk CHR 0x22 = (ScanBeginLiteral, InString, stk)"
  shows "indent_loop ind need d st stk (v @ rest) =
    map_option ((@) ((if need then indent_newline ind (d + 1) else []) @ v))
      (indent_loop ind False (if need then d + 1 else d) EndValue stk rest)"
proof -
  from assms(1) obtain body where v: "v = CHR 0x22 # body @ [CHR 0x22]" "wf_body body" by (auto simp: is_literal_iff)
  note b = continues_indent [OF continues_body [OF v(2)], of ind _ stk rest]
  show ?thesis using b by (simp add: v Let_def assms(2) option.map_comp comp_def append_fun)
qed

abbreviation colon_space :: bytes where
  "colon_space \<equiv> '': ''"

text \<open>The text of a map of literals: every member on a line of its own.\<close>

definition member_line :: "bytes \<times> bytes \<Rightarrow> bytes" where
  "member_line kv = marshal_string (fst kv) @ colon_space @ html_literal (snd kv)"

fun lines_text :: "bytes \<Rightarrow> raw_map \<Rightarrow> bytes" where
  "lines_text ind [] = []"
| "lines_text ind [kv] = member_line kv"
| "lines_text ind (kv # kvs) = member_line kv @ '','' @ indent_newline ind 1 @ lines_text ind kvs"

definition indented_text :: "bytes \<Rightarrow> raw_map \<Rightarrow> bytes" where
  "indented_text ind kvs =
     (if kvs = [] then ''{}''
      else ''{'' @ indent_newline ind 1 @ lines_text ind kvs @ [CHR 0x0A] @ ''}'')"

definition literal_map :: "raw_map \<Rightarrow> bool" where
  "literal_map m \<longleftrightarrow> (\<forall>(k, v) \<in> set m. is_literal v)"

fun compact_members :: "raw_map \<Rightarrow> bytes" where
  "compact_members [] = []"
| "compact_members ((k, v) # kvs) = '','' @ marshal_string k @ '':'' @ html_literal v @ compact_members kvs"

lemma marshal_members_literals:
  "literal_map m \<Longrightarrow> marshal_members False m = Some (compact_members m)"
  by (induction m rule: compact_members.induct) (auto simp: literal_map_def Compact_literal)

lemma end_value_steps:
  "end_value [ParseObjectKey] CHR '':'' = (ScanObjectKey, BeginValue, [ParseObjectValue])"
  "end_value [ParseObjectValue] CHR '','' = (ScanObjectValue, BeginString, [ParseObjectKey])"
  "end_value [ParseObjectValue] CHR ''}'' = (ScanEndObject, EndTop, [])"
  by (simp_all add: end_value_def pop_state_def)

lemma begin_steps:
  "scan_step BeginString stk CHR 0x22 = (ScanBeginLiteral, InString, stk)"
  "scan_step BeginStringOrEmpty stk CHR 0x22 = (ScanBeginLiteral, InString, stk)"
  "scan_step BeginValue stk CHR 0x22 = (ScanBeginLiteral, InString, stk)"
  by (simp_all add: begin_string_def begin_value_quote)

lemma indent_member:
  assumes "is_literal v" "st = BeginString \<or> st = BeginStringOrEmpty"
  shows "indent_loop ind need d st [ParseObjectKey] (marshal_string k @ '':'' @ html_literal v @ rest) =
    map_option ((@) ((if need then indent_newline ind (d + 1) else []) @ member_line (k, v)))
      (indent_loop ind False (if need then d + 1 else d) EndValue [ParseObjectValue] rest)"
proof -
  have q: "scan_step st [ParseObjectKey] CHR 0x22 = (ScanBeginLiteral, InString, [ParseObjectKey])"
    using assms(2) begin_steps by auto
  have colon: "indent_loop ind False e EndValue [ParseObjectKey] (CHR '':'' # x) =
      map_option ((@) colon_space) (indent_loop ind False e BeginValue [ParseObjectValue] x)" for e x
    by (simp add: end_value_steps Let_def)
  show ?thesis
    unfolding indent_literal [OF is_literal_marshal q] member_line_def
    using indent_literal [OF html_literal_reads(1) [OF assms(1)] begin_steps(3), of ind False _ "[ParseObjectValue]" rest]
    by (simp add: colon option.map_comp comp_def append_fun del: indent_loop.simps)
qed

lemma indent_rest:
  "literal_map kvs \<Longrightarrow> indent_loop ind False 1 EndValue [ParseObjectValue] (compact_members kvs @ ''}'') =
    Some (concat (map (\<lambda>kv. '','' @ indent_newline ind 1 @ member_line kv) kvs) @ [CHR 0x0A] @ ''}'')"
proof (induction kvs rule: compact_members.induct)
  case 1
  then show ?case by (simp add: end_value_steps Let_def indent_newline_def scan_complete_def end_top_def)
next
  case (2 k v kvs)
  then have l: "is_literal v" "literal_map kvs" by (auto simp: literal_map_def)
  have "indent_loop ind False 1 EndValue [ParseObjectValue] (CHR '','' # x) =
      map_option ((@) ('','' @ indent_newline ind 1)) (indent_loop ind False 1 BeginString [ParseObjectKey] x)" for x
    by (simp add: end_value_steps Let_def)
  with 2 l indent_member [OF l(1), of BeginString ind False 1 k "compact_members kvs @ ''}''"]
  show ?case by simp
qed

lemma lines_text_Cons:
  "lines_text ind (kv # kvs) = member_line kv @ concat (map (\<lambda>kv. '','' @ indent_newline ind 1 @ member_line kv) kvs)"
  by (induction kvs arbitrary: kv) simp_all

lemma Indent_literals:
  assumes "literal_map m"
  shows "\<exists>t. marshal_members True m = Some t \<and> Indent ind (''{'' @ t @ ''}'') = Some (indented_text ind m)"
proof -
  have open_brace: "scan_step BeginValue [] CHR ''{'' = (ScanBeginObject, BeginStringOrEmpty, [ParseObjectKey])"
    by (simp add: begin_value_def push_state_def maxNestingDepth_def is_space_def)
  have first: "Indent ind (CHR ''{'' # x) =
      map_option ((#) (CHR ''{'')) (indent_loop ind True 0 BeginStringOrEmpty [ParseObjectKey] x)" for x
    by (simp add: Indent_def open_brace Let_def append_singleton del: scan_step.simps)
  show ?thesis
  proof (cases m)
    case Nil
    then show ?thesis
      by (simp add: first indented_text_def end_value_steps Let_def scan_complete_def end_top_def
          end_value_def pop_state_def append_singleton)
  next
    case (Cons kv kvs)
    obtain k v where kv: "kv = (k, v)" by (cases kv)
    from assms Cons kv have l: "is_literal v" "literal_map kvs" by (auto simp: literal_map_def)
    have "marshal_members True m = Some (marshal_string k @ '':'' @ html_literal v @ compact_members kvs)"
      using l marshal_members_literals [OF l(2)] by (simp add: Cons kv Compact_literal)
    moreover have "Indent ind (''{'' @ (marshal_string k @ '':'' @ html_literal v @ compact_members kvs) @ ''}'')
        = Some (indented_text ind m)"
      using indent_member [OF l(1), of BeginStringOrEmpty ind True 0 k "compact_members kvs @ ''}''"]
        indent_rest [OF l(2), of ind]
      by (simp add: first Cons kv indented_text_def lines_text_Cons)
    ultimately show ?thesis by blast
  qed
qed

section \<open>Reading an indented map\<close>

lemma continues_scan:
  "continues st stk s = Some st' \<Longrightarrow>
   scan_text st stk (s @ rest) = map_option (apfst ((@) s)) (scan_text st' stk rest)"
proof (induction s arbitrary: st)
  case Nil
  then show ?case by (cases "scan_text st' stk rest") (auto simp: apfst_def map_prod_def)
next
  case (Cons c s)
  obtain st1 where "scan_step st stk c = (ScanContinue, st1, stk)" "continues st1 stk s = Some st'"
    using Cons.prems by (rule continues_Cons)
  then show ?case
    by (simp add: Cons.IH option.map_comp comp_def apfst_compose append_fun del: scan_step.simps)
qed

lemma scan_literal:
  assumes "is_literal v" "scan_step st stk CHR 0x22 = (ScanBeginLiteral, InString, stk)"
  shows "scan_text st stk (v @ rest) = map_option (apfst ((@) v)) (scan_text EndValue stk rest)"
proof -
  from assms(1) obtain body where v: "v = CHR 0x22 # body @ [CHR 0x22]" "wf_body body" by (auto simp: is_literal_iff)
  show ?thesis
    using continues_scan [OF continues_body [OF v(2)], of stk rest]
    by (simp add: v assms(2) option.map_comp comp_def apfst_compose append_fun del: scan_step.simps)
qed

lemma scan_spaces:
  assumes "\<And>c. is_space c \<Longrightarrow> scan_step st stk c = (ScanSkipSpace, st, stk)"
  shows "list_all is_space u \<Longrightarrow> scan_text st stk (u @ rest) = map_option (apfst ((@) u)) (scan_text st stk rest)"
proof (induction u)
  case Nil
  then show ?case by (cases "scan_text st stk rest") (auto simp: apfst_def map_prod_def)
next
  case (Cons c u)
  then show ?case
    by (simp add: assms option.map_comp comp_def apfst_compose append_fun del: scan_step.simps)
qed

lemma skipping_states:
  "is_space c \<Longrightarrow> scan_step BeginString stk c = (ScanSkipSpace, BeginString, stk)"
  "is_space c \<Longrightarrow> scan_step BeginStringOrEmpty stk c = (ScanSkipSpace, BeginStringOrEmpty, stk)"
  "is_space c \<Longrightarrow> scan_step BeginValue stk c = (ScanSkipSpace, BeginValue, stk)"
  "is_space c \<Longrightarrow> scan_step EndValue [p] c = (ScanSkipSpace, EndValue, [p])"
  by (auto simp: begin_string_def begin_value_def end_value_def)

lemma scan_member:
  assumes "is_literal v" "st = BeginString \<or> st = BeginStringOrEmpty"
  shows "scan_text st [ParseObjectKey] (member_line (k, v) @ rest) =
    map_option (apfst ((@) (member_line (k, v)))) (scan_text EndValue [ParseObjectValue] rest)"
proof -
  have q: "scan_step st [ParseObjectKey] CHR 0x22 = (ScanBeginLiteral, InString, [ParseObjectKey])"
    using assms(2) begin_steps by auto
  have colon: "scan_text EndValue [ParseObjectKey] (CHR '':'' # CHR '' '' # x) =
      map_option (apfst ((@) colon_space)) (scan_text BeginValue [ParseObjectValue] x)" for x
    by (simp add: end_value_steps skipping_states begin_value_def option.map_comp comp_def apfst_compose append_fun)
  show ?thesis
    using scan_literal [OF is_literal_marshal q, of k "colon_space @ html_literal v @ rest"]
      scan_literal [OF html_literal_reads(1) [OF assms(1)] begin_steps(3), of "[ParseObjectValue]" rest]
    by (simp add: colon member_line_def option.map_comp comp_def apfst_compose append_fun del: scan_text.simps)
qed

definition rest_text :: "bytes \<Rightarrow> raw_map \<Rightarrow> bytes" where
  "rest_text ind kvs = concat (map (\<lambda>kv. '','' @ indent_newline ind 1 @ member_line kv) kvs) @ [CHR 0x0A] @ ''}''"

lemma rest_text_simps:
  "rest_text ind [] = [CHR 0x0A, CHR ''}'']"
  "rest_text ind (kv # kvs) = CHR '','' # indent_newline ind 1 @ member_line kv @ rest_text ind kvs"
  by (simp_all add: rest_text_def)

lemma is_space_newline: "list_all is_space ind \<Longrightarrow> list_all is_space (indent_newline ind d)"
  by (auto simp: indent_newline_def is_space_def list_all_iff)

lemma scan_rest:
  assumes "list_all is_space ind"
  shows "literal_map kvs \<Longrightarrow>
    scan_text EndValue [ParseObjectValue] (rest_text ind kvs @ rest) = Some (rest_text ind kvs, rest)"
proof (induction kvs)
  case Nil
  then show ?case by (simp add: rest_text_simps end_value_steps skipping_states end_value_def is_space_def pop_state_def)
next
  case (Cons kv kvs)
  obtain k v where kv: "kv = (k, v)" by (cases kv)
  from Cons.prems have l: "is_literal v" "literal_map kvs" by (auto simp: literal_map_def kv)
  have "scan_text EndValue [ParseObjectValue] (CHR '','' # x) =
      map_option (apfst ((#) (CHR '',''))) (scan_text BeginString [ParseObjectKey] x)" for x
    by (simp add: end_value_steps)
  with Cons.IH [OF l(2)] scan_spaces [OF skipping_states(1) is_space_newline [OF assms]]
    scan_member [OF l(1), of BeginString k "rest_text ind kvs @ rest"]
  show ?case by (simp add: rest_text_simps kv del: scan_text.simps)
qed

lemma indented_text_Cons:
  "indented_text ind (kv # kvs) = CHR ''{'' # indent_newline ind 1 @ member_line kv @ rest_text ind kvs"
  by (simp add: indented_text_def lines_text_Cons rest_text_def)

lemma read_indented:
  assumes "list_all is_space ind" "literal_map m"
  shows "read_value (indented_text ind m @ rest) = Some (indented_text ind m, rest)"
proof -
  have open_brace: "begin_value [] CHR ''{'' = (ScanBeginObject, BeginStringOrEmpty, [ParseObjectKey])"
    by (simp add: begin_value_def push_state_def maxNestingDepth_def is_space_def)
  have first: "read_value (CHR ''{'' # x) =
      map_option (apfst ((#) (CHR ''{''))) (scan_text BeginStringOrEmpty [ParseObjectKey] x)" for x
    by (simp add: read_value_Cons open_brace)
  show ?thesis
  proof (cases m)
    case Nil
    then show ?thesis by (simp add: indented_text_def first end_value_def pop_state_def)
  next
    case (Cons kv kvs)
    obtain k v where kv: "kv = (k, v)" by (cases kv)
    from assms(2) have l: "is_literal v" "literal_map kvs" by (auto simp: literal_map_def Cons kv)
    show ?thesis
      using scan_spaces [OF skipping_states(2) is_space_newline [OF assms(1)], of "[ParseObjectKey]" 1 "member_line kv @ rest_text ind kvs @ rest"]
        scan_member [OF l(1), of BeginStringOrEmpty k "rest_text ind kvs @ rest"] scan_rest [OF assms(1) l(2), of rest]
      by (simp add: Cons kv indented_text_Cons first del: scan_text.simps)
  qed
qed

text \<open>What the indented text of a map reads back as.\<close>

definition reread :: "raw_map \<Rightarrow> raw_map" where
  "reread kvs = map (\<lambda>(k, v). (valid_text k, html_literal v)) kvs"

lemma skip_space_append: "list_all is_space u \<Longrightarrow> skip_space (u @ x) = skip_space x"
  by (induction u) simp_all

lemma marshal_quote: "marshal_string k @ x = CHR 0x22 # tl (marshal_string k @ x)"
  by (simp add: marshal_string_def)

lemma member_read:
  assumes "is_literal v"
  shows "read_value (member_line (k, v) @ x) = Some (marshal_string k, colon_space @ html_literal v @ x)"
    and "read_value (CHR '' '' # html_literal v @ x) = Some (html_literal v, x)"
  using read_literal [OF is_literal_marshal] read_literal [OF html_literal_reads(1) [OF assms]]
  by (simp_all add: member_line_def)

lemma member_line_quote: "\<exists>cs. member_line kv @ x = CHR 0x22 # cs"
  by (simp add: member_line_def marshal_string_def)

lemma members_rest:
  assumes "list_all is_space ind"
  shows "literal_map kvs \<Longrightarrow> members False (rest_text ind kvs) = Some (reread kvs)"
proof (induction kvs)
  case Nil
  then show ?case by (simp add: rest_text_simps members.simps reread_def is_space_def)
next
  case (Cons kv kvs)
  obtain k v where kv: "kv = (k, v)" by (cases kv)
  from Cons.prems have l: "is_literal v" "literal_map kvs" by (auto simp: literal_map_def kv)
  have "read_value (indent_newline ind 1 @ member_line (k, v) @ x) = Some (marshal_string k, colon_space @ html_literal v @ x)" for x
    using member_read(1) [OF l(1)] skip_space_append [OF is_space_newline [OF assms]]
    by (metis read_value_skip)
  with Cons.IH [OF l(2)] member_read(2) [OF l(1)] show ?case
    by (subst members.simps) (simp add: rest_text_simps kv json_unquote_marshal reread_def)
qed

lemma unmarshal_indented:
  assumes "list_all is_space ind" "literal_map m" "skip_space rest = []"
  shows "unmarshal_map (indented_text ind m @ rest) = Some (map_of_members (reread m))"
proof -
  have whole: "whole_value (indented_text ind m @ rest) = Some (indented_text ind m)"
    using read_indented [OF assms(1,2)] assms(3) by (simp add: whole_value_def)
  have "members True (tl (indented_text ind m)) = Some (reread m)"
  proof (cases m)
    case Nil
    then show ?thesis by (subst members.simps) (simp add: indented_text_def reread_def)
  next
    case (Cons kv kvs)
    obtain k v where kv: "kv = (k, v)" by (cases kv)
    from assms(2) have l: "is_literal v" "literal_map kvs" by (auto simp: literal_map_def Cons kv)
    obtain cs where cs: "member_line kv @ rest_text ind kvs = CHR 0x22 # cs" using member_line_quote by blast
    have "skip_space (indent_newline ind 1 @ member_line kv @ rest_text ind kvs) = CHR 0x22 # cs"
      using skip_space_append [OF is_space_newline [OF assms(1)]] by (simp add: cs)
    moreover have "read_value (CHR 0x22 # cs) = Some (marshal_string k, colon_space @ html_literal v @ rest_text ind kvs)"
      using member_read(1) [OF l(1), of k "rest_text ind kvs"] cs by (simp add: kv)
    ultimately show ?thesis
      using members_rest [OF assms(1) l(2)] member_read(2) [OF l(1)]
      by (subst members.simps) (simp add: Cons kv indented_text_Cons json_unquote_marshal reread_def)
  qed
  then show ?thesis using whole by (cases m) (simp_all add: unmarshal_map_def indented_text_Cons, simp add: indented_text_def)
qed

section \<open>The round trip of a map\<close>

definition distinct_keys :: "raw_map \<Rightarrow> bool" where
  "distinct_keys m \<longleftrightarrow> distinct (map fst m)"

lemma map_of_members_eq: "map_of (map_of_members kvs) = map_of (rev kvs)"
proof -
  have "map_of (foldl (\<lambda>m (k, v). AList.update k v m) m kvs) = map_of m ++ map_of (rev kvs)" for m
    by (induction kvs arbitrary: m) (auto simp: update_conv' fun_eq_iff map_add_def split: option.splits)
  from this [of "[]"] show ?thesis by (simp add: map_of_members_def)
qed

lemma distinct_map_of_members: "distinct_keys (map_of_members kvs)"
proof -
  have "distinct_keys m \<Longrightarrow> distinct_keys (foldl (\<lambda>m (k, v). AList.update k v m) m kvs)" for m
    by (induction kvs arbitrary: m) (auto simp: distinct_keys_def distinct_update)
  from this [of "[]"] show ?thesis by (simp add: map_of_members_def distinct_keys_def)
qed

lemma map_of_apsnd: "map_of (map (apsnd f) xs) k = map_option f (map_of xs k)"
  by (induction xs) auto

text \<open>
  Printing a map of string literals under distinct UTF-8 keys and reading the text gives a map with the
  same keys, whose values are the literals as compacting rewrites them.
\<close>

lemma marshal_indent_reads_back:
  assumes "literal_map m" "distinct_keys m" "\<forall>k \<in> fst ` set m. valid_utf8 k"
    and "list_all is_space ind" "skip_space rest = []"
  shows "\<exists>t m'. MarshalIndent ind m = Some t \<and> unmarshal_map (t @ rest) = Some m'
    \<and> (\<forall>k. map_of m' k = map_option html_literal (map_of m k))"
proof -
  let ?s = "sort_key fst m"
  have lit: "literal_map ?s" using assms(1) by (simp add: literal_map_def)
  obtain t where t: "marshal_members True ?s = Some t" "Indent ind (''{'' @ t @ ''}'') = Some (indented_text ind ?s)"
    using Indent_literals [OF lit] by blast
  have "reread ?s = map (apsnd html_literal) ?s"
    using assms(3) by (force simp: reread_def valid_utf8_def apsnd_def map_prod_def)
  moreover have "map_of (rev (map (apsnd html_literal) ?s)) k = map_option html_literal (map_of m k)" for k
  proof -
    have d: "distinct (map fst ?s)" using assms(2) by (simp add: distinct_keys_def distinct_map)
    have "map_of (rev (map (apsnd html_literal) ?s)) = map_of (map (apsnd html_literal) ?s)"
      using d by (intro map_of_inject_set [THEN iffD2]) (simp_all add: rev_map [symmetric] comp_def)
    moreover have "map_of ?s = map_of m"
      using d assms(2) by (simp add: map_of_inject_set distinct_keys_def)
    ultimately show ?thesis by (simp add: map_of_apsnd)
  qed
  ultimately show ?thesis
    using t unmarshal_indented [OF assms(4) lit assms(5)]
    by (auto simp: MarshalIndent_def marshal_map_def map_of_members_eq)
qed

end
