(* ===== verification/Settings.thy ===== *)
theory Settings
  imports FileSys JsonIndent
begin

text \<open>
  \<open>internal/settings/settings.go\<close>: reading and rewriting claude-mem's settings file, one operation over
  the calls of \<open>FileSys\<close>. The settings in memory are an association list from keys to raw JSON values.

  The lemmas show what a rewritten file reads back as, that the file is only ever replaced as a whole,
  which concurrent writes are noticed and which are lost, and that undoing puts the old bytes back.
\<close>

section \<open>settings.go\<close>

definition DeviceIDKey :: bytes where
  "DeviceIDKey = ''CLAUDE_MEM_CLOUD_SYNC_DEVICE_ID''"

definition Read :: "os_env \<Rightarrow> bytes \<Rightarrow> (files, raw_map) action" where
  "Read env path =
     bindI (tryI (ReadFile env path)) (\<lambda>r. case r of
       Inl e \<Rightarrow> if e = ErrNotExist then returnI [] else failI e
     | Inr b \<Rightarrow>
         (case unmarshal_map b of
            None \<Rightarrow> failI (OtherError ''settings: not valid JSON; refusing to modify it'')
          | Some out \<Rightarrow> returnI out))"

text \<open>\<open>Stat\<close>, with a missing file as an answer.\<close>

definition stat_before :: "os_env \<Rightarrow> bytes \<Rightarrow> (files, file_info option) action" where
  "stat_before env path =
     bindI (tryI (Stat env path)) (\<lambda>r. case r of
       Inl e \<Rightarrow> if e = ErrNotExist then returnI None else failI e
     | Inr f \<Rightarrow> returnI (Some f))"

definition backup_name :: "bytes \<Rightarrow> int \<Rightarrow> bytes" where
  "backup_name path now = path @ ''.bak-'' @ (if now < 0 then ''-'' else []) @ format_nat (nat \<bar>now\<bar>)"

definition make_backup :: "os_env \<Rightarrow> bytes \<Rightarrow> file_info option \<Rightarrow> (files, bytes) action" where
  "make_backup env path before =
     (case before of
        None \<Rightarrow> returnI []
      | Some _ \<Rightarrow>
          bindI (nowI env) (\<lambda>now.
          bindI (ReadFile env path) (\<lambda>raw.
          bindI (WriteFile env (backup_name path now) raw private_mode) (\<lambda>_.
          returnI (backup_name path now)))))"

definition merge_settings :: "raw_map \<Rightarrow> raw_map \<Rightarrow> raw_map" where
  "merge_settings kv current = foldl (\<lambda>m (k, v). AList.update k (marshal_string v) m) current kv"

definition changed_since :: "file_info \<Rightarrow> file_info \<Rightarrow> bool" where
  "changed_since before after \<longleftrightarrow>
     length (f_data after) \<noteq> length (f_data before) \<or> f_mtime after \<noteq> f_mtime before"

definition check_unchanged :: "os_env \<Rightarrow> bytes \<Rightarrow> file_info option \<Rightarrow> (files, unit) action" where
  "check_unchanged env path before =
     (case before of
        None \<Rightarrow> returnI ()
      | Some b \<Rightarrow>
          bindI (Stat env path) (\<lambda>after.
            if changed_since b after then failI (OtherError ''settings: the file changed while we were editing it'')
            else returnI ()))"

definition replace_file :: "os_env \<Rightarrow> bytes \<Rightarrow> bytes \<Rightarrow> file_info option \<Rightarrow> (files, unit) action" where
  "replace_file env path out before =
     bindI (MkdirAll env (path_dir path)) (\<lambda>_.
     bindI (CreateTemp env (path_dir path) ''.settings-'' ''.tmp'') (\<lambda>tmp.
     finallyI
       (bindI (FdWrite env tmp out) (\<lambda>_.
        bindI (FdChmod env tmp private_mode) (\<lambda>_.
        bindI (Flush env) (\<lambda>_.
        bindI (Flush env) (\<lambda>_.
        bindI (check_unchanged env path before) (\<lambda>_.
        Rename env tmp path))))))
       (Remove env tmp)))"

definition Update :: "os_env \<Rightarrow> bytes \<Rightarrow> raw_map \<Rightarrow> (files, bytes) action" where
  "Update env path kv =
     bindI (Read env path) (\<lambda>current.
     bindI (stat_before env path) (\<lambda>before.
     bindI (make_backup env path before) (\<lambda>backup.
     case MarshalIndent ''  '' (merge_settings kv current) of
       None \<Rightarrow> failI (OtherError ''json'')
     | Some out \<Rightarrow>
         bindI (replace_file env path (out @ [CHR 0x0A]) before) (\<lambda>_. returnI backup))))"

definition Restore :: "os_env \<Rightarrow> bytes \<Rightarrow> bytes \<Rightarrow> (files, unit) action" where
  "Restore env path backup =
     bindI (ReadFile env backup) (\<lambda>raw. WriteFile env path raw private_mode)"

definition Value :: "raw_map \<Rightarrow> bytes \<Rightarrow> bytes" where
  "Value m key =
     (case map_of m key of
        None \<Rightarrow> []
      | Some raw \<Rightarrow> (case unmarshal_string raw of None \<Rightarrow> [] | Some s \<Rightarrow> s))"

text \<open>
  The loop over the backups: a file that cannot be examined is passed over, and the zero time of Go, far
  before any file's, is \<open>None\<close>. \<open>Glob\<close> reports no files when it cannot read the directory.
\<close>

fun newest_backup :: "os_env \<Rightarrow> bytes list \<Rightarrow> bytes \<times> int option \<Rightarrow> (files, bytes) action" where
  "newest_backup env [] best = returnI (fst best)"
| "newest_backup env (m # ms) best =
     bindI (tryI (Stat env m)) (\<lambda>r. case r of
       Inl _ \<Rightarrow> newest_backup env ms best
     | Inr info \<Rightarrow>
         if (case snd best of None \<Rightarrow> True | Some t \<Rightarrow> f_mtime info > t)
         then newest_backup env ms (m, Some (f_mtime info))
         else newest_backup env ms best)"

definition LatestBackup :: "os_env \<Rightarrow> bytes \<Rightarrow> (files, bytes) action" where
  "LatestBackup env path =
     bindI (tryI (os_call env (\<lambda>now fs. (Inr (glob_star (path @ ''.bak-'') fs), fs)) untorn)) (\<lambda>r.
       let matches = (case r of Inl _ \<Rightarrow> [] | Inr ms \<Rightarrow> ms) in
       if matches = [] then failI (OtherError ''settings: no backup found'')
       else newest_backup env matches (hd matches, None))"

section \<open>Other programs\<close>

text \<open>
  Other programs write to the settings file only: \<open>sched k\<close> is what is written just before the \<open>k\<close>-th
  call, if anything. \<open>latest sched k k' c\<close> is then what the path holds at call \<open>k'\<close>, if it held \<open>c\<close> at \<open>k\<close>
  and this program did not touch it.
\<close>

definition writes_of :: "bytes \<Rightarrow> (nat \<Rightarrow> file_info option) \<Rightarrow> nat \<Rightarrow> files \<Rightarrow> files" where
  "writes_of path sched k fs = (case sched k of None \<Rightarrow> fs | Some f \<Rightarrow> AList.update path f fs)"

definition latest :: "(nat \<Rightarrow> file_info option) \<Rightarrow> nat \<Rightarrow> nat \<Rightarrow> file_info option \<Rightarrow> file_info option" where
  "latest sched k k' c = foldl (\<lambda>c i. case sched i of None \<Rightarrow> c | Some f \<Rightarrow> Some f) c [k..<k']"

lemma latest_same [simp]: "latest sched k k c = c"
  by (simp add: latest_def)

lemma latest_Suc: "k \<le> k' \<Longrightarrow> latest sched k (Suc k') c = (case sched k' of None \<Rightarrow> latest sched k k' c | Some f \<Rightarrow> Some f)"
  by (cases "sched k'") (simp_all add: latest_def)

lemma latest_step [simp]: "latest sched k (Suc k) c = (case sched k of None \<Rightarrow> c | Some f \<Rightarrow> Some f)"
  by (simp add: latest_def)

lemma latest_trans: "k \<le> k1 \<Longrightarrow> k1 \<le> k2 \<Longrightarrow> latest sched k1 k2 (latest sched k k1 c) = latest sched k k2 c"
  unfolding latest_def foldl_append [symmetric] by (metis le_Suc_ex upt_add_eq_append)

lemma latest_None: "(\<And>i. k \<le> i \<Longrightarrow> i < k' \<Longrightarrow> sched i = None) \<Longrightarrow> latest sched k k' c = c"
proof (induction k')
  case (Suc k')
  then show ?case by (cases "k \<le> k'") (simp_all add: latest_Suc latest_def)
qed (simp add: latest_def)

lemma map_of_writes:
  "map_of (writes_of path sched k fs) q = (if q = path then latest sched k (Suc k) (map_of fs path) else map_of fs q)"
  by (simp add: writes_of_def update_conv' split: option.splits)

text \<open>An action that leaves the path to the other programs.\<close>

definition leaves :: "bytes \<Rightarrow> (nat \<Rightarrow> file_info option) \<Rightarrow> (files, 'a) action \<Rightarrow> bool" where
  "leaves path sched m \<longleftrightarrow> (\<forall>k fs r k' fs'. m (k, fs) = (r, k', fs') \<longrightarrow>
     k \<le> k' \<and> map_of fs' path = latest sched k k' (map_of fs path))"

named_theorems leaves_intros \<open>actions that do not touch the settings file\<close>

lemma leavesD: "leaves path sched m \<Longrightarrow> m (k, fs) = (r, k', fs') \<Longrightarrow>
    k \<le> k' \<and> map_of fs' path = latest sched k k' (map_of fs path)"
  unfolding leaves_def by blast

lemma leaves_return [leaves_intros]: "leaves path sched (returnI x)" "leaves path sched (failI e)" "leaves path sched (nowI env)"
  by (simp_all add: leaves_def nowI_def)

lemma leaves_bind [leaves_intros]:
  assumes "leaves path sched m" "\<And>x. leaves path sched (f x)"
  shows "leaves path sched (bindI m f)"
  unfolding leaves_def
proof (intro allI impI)
  fix k fs r k' fs'
  assume eq: "bindI m f (k, fs) = (r, k', fs')"
  obtain r1 k1 fs1 where m: "m (k, fs) = (r1, k1, fs1)" by (metis prod_cases3)
  note l = leavesD [OF assms(1) m]
  show "k \<le> k' \<and> map_of fs' path = latest sched k k' (map_of fs path)"
  proof (cases r1)
    case (Inl e)
    with eq m l show ?thesis by (simp add: bindI_def)
  next
    case (Inr x)
    with eq m have "f x (k1, fs1) = (r, k', fs')" by (simp add: bindI_def)
    from leavesD [OF assms(2) this] l latest_trans [of k k1 k'] show ?thesis by simp
  qed
qed

lemma leaves_try [leaves_intros]: "leaves path sched m \<Longrightarrow> leaves path sched (tryI m)"
  by (auto simp: leaves_def tryI_def split: prod.splits)

lemma leaves_finally [leaves_intros]:
  assumes "leaves path sched m" "leaves path sched c"
  shows "leaves path sched (finallyI m c)"
  unfolding leaves_def
proof (intro allI impI)
  fix k fs r k' fs'
  assume eq: "finallyI m c (k, fs) = (r, k', fs')"
  obtain r1 k1 fs1 where m: "m (k, fs) = (r1, k1, fs1)" by (metis prod_cases3)
  obtain r2 k2 fs2 where c: "c (k1, fs1) = (r2, k2, fs2)" by (metis prod_cases3)
  show "k \<le> k' \<and> map_of fs' path = latest sched k k' (map_of fs path)"
    using eq m c leavesD [OF assms(1) m] leavesD [OF assms(2) c] latest_trans [of k k1 k2 sched]
    by (auto simp: finallyI_def)
qed

lemma leaves_call [leaves_intros]:
  assumes "os_other env = writes_of path sched"
    and "\<And>now fs r fs'. f now fs = (r, fs') \<Longrightarrow> map_of fs' path = map_of fs path"
    and "\<And>n now fs. map_of (torn n now fs) path = map_of fs path"
  shows "leaves path sched (os_call env f torn)"
  unfolding leaves_def os_call_def Let_def assms(1)
  using assms(2,3) by (auto simp: map_of_writes split: fault.splits prod.splits dest: assms(2))

text \<open>An action that, when it fails, has left the path to the other programs.\<close>

definition fails_clean :: "bytes \<Rightarrow> (nat \<Rightarrow> file_info option) \<Rightarrow> (files, 'a) action \<Rightarrow> bool" where
  "fails_clean path sched m \<longleftrightarrow> (\<forall>k fs e k' fs'. m (k, fs) = (Inl e, k', fs') \<longrightarrow>
     k \<le> k' \<and> map_of fs' path = latest sched k k' (map_of fs path))"

lemma fails_cleanD: "fails_clean path sched m \<Longrightarrow> m (k, fs) = (Inl e, k', fs') \<Longrightarrow>
    k \<le> k' \<and> map_of fs' path = latest sched k k' (map_of fs path)"
  unfolding fails_clean_def by blast

lemma leaves_fails_clean: "leaves path sched m \<Longrightarrow> fails_clean path sched m"
  by (auto simp: leaves_def fails_clean_def)

lemma fails_clean_bind:
  assumes "leaves path sched m" "\<And>x. fails_clean path sched (f x)"
  shows "fails_clean path sched (bindI m f)"
  unfolding fails_clean_def
proof (intro allI impI)
  fix k fs e k' fs'
  assume eq: "bindI m f (k, fs) = (Inl e, k', fs')"
  obtain r1 k1 fs1 where m: "m (k, fs) = (r1, k1, fs1)" by (metis prod_cases3)
  note l = leavesD [OF assms(1) m]
  show "k \<le> k' \<and> map_of fs' path = latest sched k k' (map_of fs path)"
  proof (cases r1)
    case (Inl e1)
    with eq m l show ?thesis by (simp add: bindI_def)
  next
    case (Inr x)
    with eq m have "f x (k1, fs1) = (Inl e, k', fs')" by (simp add: bindI_def)
    from fails_cleanD [OF assms(2) this] l latest_trans [of k k1 k'] show ?thesis by simp
  qed
qed

lemma fails_clean_bind_result:
  assumes "leaves path sched m" "\<And>x. P x \<Longrightarrow> fails_clean path sched (f x)"
    and "\<And>k fs x k' fs'. m (k, fs) = (Inr x, k', fs') \<Longrightarrow> P x"
  shows "fails_clean path sched (bindI m f)"
proof -
  have eq: "bindI m f st = bindI m (\<lambda>x. if P x then f x else failI os_error) st" for st
    using assms(3) by (cases st) (auto simp: bindI_def split: prod.splits sum.splits)
  have "fails_clean path sched (bindI m (\<lambda>x. if P x then f x else failI os_error))"
    using assms(1,2) by (intro fails_clean_bind) (auto intro: leaves_fails_clean leaves_intros)
  then show ?thesis unfolding fails_clean_def eq .
qed

lemma fails_clean_last: "fails_clean path sched m \<Longrightarrow> fails_clean path sched (bindI m (\<lambda>x. returnI y))"
  by (auto simp: fails_clean_def bindI_def split: prod.splits sum.splits)

lemma fails_clean_finally:
  assumes "fails_clean path sched m" "leaves path sched c"
  shows "fails_clean path sched (finallyI m c)"
  unfolding fails_clean_def
proof (intro allI impI)
  fix k fs e k' fs'
  assume eq: "finallyI m c (k, fs) = (Inl e, k', fs')"
  obtain r1 k1 fs1 where m: "m (k, fs) = (r1, k1, fs1)" by (metis prod_cases3)
  obtain r2 k2 fs2 where c: "c (k1, fs1) = (r2, k2, fs2)" by (metis prod_cases3)
  from eq m c have "r1 = Inl e" "k' = k2" "fs' = fs2" by (auto simp: finallyI_def)
  with fails_cleanD [OF assms(1)] m leavesD [OF assms(2) c] latest_trans [of k k1 k2 sched]
  show "k \<le> k' \<and> map_of fs' path = latest sched k k' (map_of fs path)" by fastforce
qed

section \<open>A failed update\<close>

definition temp_name :: "os_env \<Rightarrow> bytes \<Rightarrow> bytes" where
  "temp_name env path = path_dir path @ ''/'' @ ''.settings-'' @ os_temp env @ ''.tmp''"

lemma leaves_os [leaves_intros]:
  assumes "os_other env = writes_of path sched"
  shows "leaves path sched (ReadFile env q)" "leaves path sched (Stat env q)" "leaves path sched (MkdirAll env q)"
    "leaves path sched (Flush env)"
    "q \<noteq> path \<Longrightarrow> leaves path sched (WriteFile env q d md)"
    "q \<noteq> path \<Longrightarrow> leaves path sched (FdWrite env q d)"
    "q \<noteq> path \<Longrightarrow> leaves path sched (FdChmod env q md)"
    "q \<noteq> path \<Longrightarrow> leaves path sched (Remove env q)"
  unfolding ReadFile_def Stat_def MkdirAll_def Flush_def WriteFile_def FdWrite_def FdChmod_def Remove_def
  using assms by (auto intro!: leaves_call simp: untorn_def delete_conv' split: if_splits)

lemma leaves_CreateTemp:
  assumes "os_other env = writes_of path sched" "temp_name env path \<noteq> path"
  shows "leaves path sched (CreateTemp env (path_dir path) ''.settings-'' ''.tmp'')"
  unfolding CreateTemp_def Let_def
  using assms(2) by (intro leaves_call assms(1)) (auto simp: untorn_def temp_name_def split: if_splits)

lemma CreateTemp_name:
  "CreateTemp env (path_dir path) ''.settings-'' ''.tmp'' (k, fs) = (Inr tmp, k', fs') \<Longrightarrow> tmp = temp_name env path"
  by (auto simp: CreateTemp_def Let_def temp_name_def io_simps split: if_splits)

lemma leaves_Read: "os_other env = writes_of path sched \<Longrightarrow> leaves path sched (Read env path)"
  unfolding Read_def by (intro leaves_intros) (auto intro: leaves_intros split: sum.split option.split)

lemma leaves_stat: "os_other env = writes_of path sched \<Longrightarrow> leaves path sched (stat_before env path)"
  unfolding stat_before_def by (intro leaves_intros) (auto intro: leaves_intros split: sum.split)

lemma backup_name_other: "backup_name path now \<noteq> path"
  by (simp add: backup_name_def)

lemma leaves_backup: "os_other env = writes_of path sched \<Longrightarrow> leaves path sched (make_backup env path before)"
  unfolding make_backup_def
  by (cases before) (auto intro!: leaves_intros simp: backup_name_other)

lemma leaves_check: "os_other env = writes_of path sched \<Longrightarrow> leaves path sched (check_unchanged env path before)"
  unfolding check_unchanged_def by (cases before) (auto intro!: leaves_intros)

lemma Rename_clean:
  assumes "os_other env = writes_of path sched"
  shows "fails_clean path sched (Rename env src path)"
  unfolding fails_clean_def
proof (intro allI impI)
  fix k fs e k' fs'
  assume "Rename env src path (k, fs) = (Inl e, k', fs')"
  from os_call_Inl [OF this [unfolded Rename_def]]
  show "k \<le> k' \<and> map_of fs' path = latest sched k k' (map_of fs path)"
    by (auto simp: assms map_of_writes untorn_def split: option.splits)
qed

lemma replace_clean:
  assumes o: "os_other env = writes_of path sched" and t: "temp_name env path \<noteq> path"
  shows "fails_clean path sched (replace_file env path out before)"
proof -
  let ?tmp = "temp_name env path"
  have "fails_clean path sched (finallyI
       (bindI (FdWrite env ?tmp out) (\<lambda>_. bindI (FdChmod env ?tmp private_mode) (\<lambda>_. bindI (Flush env) (\<lambda>_.
        bindI (Flush env) (\<lambda>_. bindI (check_unchanged env path before) (\<lambda>_. Rename env ?tmp path))))))
       (Remove env ?tmp))"
    using t by (intro fails_clean_finally fails_clean_bind leaves_os o leaves_check Rename_clean)
  then have body: "fails_clean path sched (finallyI
       (bindI (FdWrite env tmp out) (\<lambda>_. bindI (FdChmod env tmp private_mode) (\<lambda>_. bindI (Flush env) (\<lambda>_.
        bindI (Flush env) (\<lambda>_. bindI (check_unchanged env path before) (\<lambda>_. Rename env tmp path))))))
       (Remove env tmp))" if "tmp = ?tmp" for tmp using that by simp
  have "fails_clean path sched (bindI (CreateTemp env (path_dir path) ''.settings-'' ''.tmp'') (\<lambda>tmp. finallyI
       (bindI (FdWrite env tmp out) (\<lambda>_. bindI (FdChmod env tmp private_mode) (\<lambda>_. bindI (Flush env) (\<lambda>_.
        bindI (Flush env) (\<lambda>_. bindI (check_unchanged env path before) (\<lambda>_. Rename env tmp path))))))
       (Remove env tmp)))"
    using leaves_CreateTemp [OF o t] body CreateTemp_name by (rule fails_clean_bind_result [where P = "\<lambda>x. x = ?tmp"])
  then show ?thesis
    unfolding replace_file_def by (rule fails_clean_bind [OF leaves_os(3) [OF o]])
qed

text \<open>
  An update that fails, at whatever call and however far the call got, leaves the settings file as the
  other programs made it: never torn, never half written.
\<close>

lemma Update_clean:
  assumes o: "os_other env = writes_of path sched" and t: "temp_name env path \<noteq> path"
  shows "fails_clean path sched (Update env path kv)"
  unfolding Update_def
proof (intro fails_clean_bind leaves_Read leaves_stat leaves_backup o)
  fix current before backup
  show "fails_clean path sched (case MarshalIndent ''  '' (merge_settings kv current) of
      None \<Rightarrow> failI (OtherError ''json'')
    | Some out \<Rightarrow> bindI (replace_file env path (out @ [CHR 0x0A]) before) (\<lambda>_. returnI backup))"
    using replace_clean [OF o t]
    by (auto intro: fails_clean_last leaves_fails_clean leaves_return split: option.splits)
qed

section \<open>A successful update\<close>

lemma os_error_exists [simp]: "os_error \<noteq> ErrNotExist"
  by (simp add: os_error_def ErrNotExist_def)

definition parse_settings :: "file_info option \<Rightarrow> raw_map option" where
  "parse_settings c = (case c of None \<Rightarrow> Some [] | Some f \<Rightarrow> unmarshal_map (f_data f))"

lemma Read_Inr:
  assumes "os_other env = writes_of path sched" "Read env path (k, fs) = (Inr m, k', fs')"
  shows "k' = Suc k" "parse_settings (latest sched k (Suc k) (map_of fs path)) = Some m"
    "map_of fs' path = latest sched k (Suc k) (map_of fs path)"
proof -
  from assms(2) obtain r st1 where r1: "ReadFile env path (k, fs) = (r, st1)"
    and c: "(case r of Inl e \<Rightarrow> if e = ErrNotExist then returnI [] else failI e
        | Inr b \<Rightarrow> (case unmarshal_map b of
            None \<Rightarrow> failI (OtherError ''settings: not valid JSON; refusing to modify it'')
          | Some out \<Rightarrow> returnI out)) st1 = (Inr m, k', fs')"
    unfolding Read_def bindI_Inr by (auto simp: tryI_eq)
  have r: "ReadFile env path (k, fs) = (r, k', fs')"
    and m: "(case r of Inl e \<Rightarrow> e = ErrNotExist \<and> m = [] | Inr b \<Rightarrow> unmarshal_map b = Some m)"
    using r1 c by (cases r; auto split: option.splits if_splits)+
  show k: "k' = Suc k" using r os_call_count unfolding ReadFile_def by blast
  show "map_of fs' path = latest sched k (Suc k) (map_of fs path)"
    using leavesD [OF leaves_os(1) [OF assms(1)] r] k by simp
  show "parse_settings (latest sched k (Suc k) (map_of fs path)) = Some m"
    using r m
    by (auto simp: ReadFile_def os_call_def look_up_def assms(1) map_of_writes parse_settings_def untorn_def Let_def
        split: fault.splits option.splits sum.splits)
qed

lemma stat_Inr:
  assumes "os_other env = writes_of path sched" "stat_before env path (k, fs) = (Inr before, k', fs')"
  shows "k' = Suc k" "before = latest sched k (Suc k) (map_of fs path)"
    "map_of fs' path = latest sched k (Suc k) (map_of fs path)"
proof -
  from assms(2) obtain r st1 where r1: "Stat env path (k, fs) = (r, st1)"
    and c: "(case r of Inl e \<Rightarrow> if e = ErrNotExist then returnI None else failI e
        | Inr f \<Rightarrow> returnI (Some f)) st1 = (Inr before, k', fs')"
    unfolding stat_before_def bindI_Inr by (auto simp: tryI_eq)
  have r: "Stat env path (k, fs) = (r, k', fs')"
    and m: "(case r of Inl e \<Rightarrow> e = ErrNotExist \<and> before = None | Inr b \<Rightarrow> before = Some b)"
    using r1 c by (cases r; auto split: if_splits)+
  show k: "k' = Suc k" using r os_call_count unfolding Stat_def by blast
  show "map_of fs' path = latest sched k (Suc k) (map_of fs path)"
    using leavesD [OF leaves_os(2) [OF assms(1)] r] k by simp
  show "before = latest sched k (Suc k) (map_of fs path)"
    using r m
    by (auto simp: Stat_def os_call_def look_up_def assms(1) map_of_writes untorn_def Let_def
        split: fault.splits option.splits sum.splits)
qed

lemma backup_Inr:
  assumes "os_other env = writes_of path sched" "make_backup env path before (k, fs) = (Inr bak, k', fs')"
  shows "before = None \<Longrightarrow> bak = [] \<and> k' = k \<and> fs' = fs"
    and "before = Some b \<Longrightarrow> bak = backup_name path (os_now env k) \<and> k' = k + 2
      \<and> map_of fs' path = latest sched k (k + 2) (map_of fs path)
      \<and> map_option f_data (map_of fs' bak) = map_option f_data (latest sched k (Suc k) (map_of fs path))
      \<and> (\<forall>q. q \<noteq> path \<longrightarrow> q \<noteq> bak \<longrightarrow> map_of fs' q = map_of fs q)"
proof -
  show "before = None \<Longrightarrow> bak = [] \<and> k' = k \<and> fs' = fs"
    using assms(2) by (simp add: make_backup_def)
next
  assume b: "before = Some b"
  obtain raw fs1 where r: "ReadFile env path (k, fs) = (Inr raw, Suc k, fs1)"
    and w: "WriteFile env (backup_name path (os_now env k)) raw private_mode (Suc k, fs1) = (Inr (), k', fs')"
    and bak: "bak = backup_name path (os_now env k)"
    using assms(2) by (auto simp: b make_backup_def ReadFile_def io_simps)
  have k: "k' = k + 2" using w os_call_count unfolding WriteFile_def by fastforce
  have l1: "map_of fs1 path = latest sched k (Suc k) (map_of fs path)"
    using leavesD [OF leaves_os(1) [OF assms(1)] r] by simp
  have l2: "map_of fs' path = latest sched (Suc k) (k + 2) (map_of fs1 path)"
    using leavesD [OF leaves_os(5) [OF assms(1) backup_name_other] w] k by simp
  have raw: "map_option f_data (map_of fs1 path) = Some raw"
    using r by (auto simp: ReadFile_def io_simps look_up_def)
  have data: "map_option f_data (map_of fs' bak) = Some raw"
    using w by (auto simp: WriteFile_def io_simps bak)
  have others: "map_of fs' q = map_of fs q" if "q \<noteq> path" "q \<noteq> bak" for q
    using r w that by (auto simp: ReadFile_def WriteFile_def io_simps bak assms(1) map_of_writes)
  show "bak = backup_name path (os_now env k) \<and> k' = k + 2
      \<and> map_of fs' path = latest sched k (k + 2) (map_of fs path)
      \<and> map_option f_data (map_of fs' bak) = map_option f_data (latest sched k (Suc k) (map_of fs path))
      \<and> (\<forall>q. q \<noteq> path \<longrightarrow> q \<noteq> bak \<longrightarrow> map_of fs' q = map_of fs q)"
    using bak k l1 l2 raw data others latest_trans [of k "Suc k" "k + 2" sched "map_of fs path"] by auto
qed

lemma finallyI_Inr [io_simps]:
  "finallyI m c st = (Inr x, st') \<longleftrightarrow> (\<exists>st1. m st = (Inr x, st1) \<and> st' = snd (c st1))"
  by (auto simp: finallyI_def split: prod.splits)

lemma check_Inr:
  assumes "os_other env = writes_of path sched" "check_unchanged env path before (k, fs) = (Inr u, k', fs')"
  shows "fs' = fs \<and> k' = k \<and> before = None
    \<or> k' = Suc k \<and> fs' = writes_of path sched k fs
      \<and> (\<exists>b a. before = Some b \<and> latest sched k (Suc k) (map_of fs path) = Some a \<and> \<not> changed_since b a)"
proof (cases before)
  case None
  then show ?thesis using assms(2) by (simp add: check_unchanged_def)
next
  case (Some b)
  then show ?thesis using assms
    by (auto simp: check_unchanged_def Stat_def io_simps look_up_def map_of_writes split: if_splits)
qed

text \<open>What a success says of the replacement: it takes one call more when the file was there to be examined.\<close>

lemma CreateTemp_Inr:
  assumes "CreateTemp env (path_dir path) ''.settings-'' ''.tmp'' (k, fs) = (Inr tmp, k', fs')"
  shows "tmp = temp_name env path" "k' = Suc k" "os_other env = writes_of path sched \<Longrightarrow>
     fs' = put_file tmp [] private_mode (os_now env k) (writes_of path sched k fs)
     \<and> map_of (writes_of path sched k fs) tmp = None"
  using assms by (auto simp: CreateTemp_def Let_def temp_name_def os_call_Inr split: if_splits)

lemma on_open_same: "map_of (on_open p g fs) p = map_option g (map_of fs p)"
  by (simp add: on_open_def update_conv' split: option.splits)

lemma map_of_delete: "map_of (AList.delete p fs) q = (if q = p then None else map_of fs q)"
  by (simp add: delete_conv')

lemma Remove_other:
  assumes "os_other env = writes_of path sched" "Remove env p (k, fs) = (r, k', fs')" "q \<noteq> p" "q \<noteq> path"
  shows "map_of fs' q = map_of fs q"
  using assms by (auto simp: Remove_def os_call_def Let_def map_of_writes map_of_delete untorn_def
      split: fault.splits if_splits prod.splits)

lemma replace_Inr:
  assumes o: "os_other env = writes_of path sched" and t: "temp_name env path \<noteq> path"
    and r: "replace_file env path out before (k, fs) = (Inr u, k', fs')"
  defines "n \<equiv> k + (case before of None \<Rightarrow> 7 | Some _ \<Rightarrow> 8)"
  shows "k' = Suc n" "map_of fs' path = latest sched n (Suc n)
      (Some \<lparr>f_data = out, f_mode = private_mode, f_mtime = os_now env (k + 2)\<rparr>)"
    "before = Some b \<Longrightarrow> \<exists>a. latest sched k (k + 7) (map_of fs path) = Some a \<and> \<not> changed_since b a"
    "q \<noteq> path \<Longrightarrow> q \<noteq> temp_name env path \<Longrightarrow> map_of fs' q = map_of fs q"
proof -
  let ?tmp = "temp_name env path"
  let ?w = "writes_of path sched"
  from r obtain fs1 k6 fs6 k7 fs7 where
    c1: "fs1 = put_file ?tmp [] private_mode (os_now env (Suc k)) (?w (Suc k) (?w k fs))"
      "map_of (?w (Suc k) (?w k fs)) ?tmp = None"
    and c6: "check_unchanged env path before (k + 6, ?w (k + 5) (?w (k + 4)
        (on_open ?tmp (\<lambda>f. f\<lparr>f_mode := private_mode\<rparr>) (?w (k + 3)
          (on_open ?tmp (\<lambda>f. f\<lparr>f_data := out, f_mtime := os_now env (k + 2)\<rparr>) (?w (k + 2) fs1)))))) = (Inr (), k6, fs6)"
    and c7: "Rename env ?tmp path (k6, fs6) = (Inr (), k7, fs7)"
    and c8: "(k', fs') = snd (Remove env ?tmp (k7, fs7))"
    apply (simp add: replace_file_def bindI_Inr finallyI_Inr)
    apply (clarsimp simp: MkdirAll_def Flush_def FdWrite_def FdChmod_def os_call_Inr o)
    apply (frule CreateTemp_Inr(1), frule CreateTemp_Inr(2), drule CreateTemp_Inr(3) [OF _ o])
    apply (clarsimp simp: add.commute numeral_eq_Suc)
    done
  define F where "F = ?w (k + 5) (?w (k + 4)
        (on_open ?tmp (\<lambda>f. f\<lparr>f_mode := private_mode\<rparr>) (?w (k + 3)
          (on_open ?tmp (\<lambda>f. f\<lparr>f_data := out, f_mtime := os_now env (k + 2)\<rparr>) (?w (k + 2) fs1)))))"
  let ?new = "\<lparr>f_data = out, f_mode = private_mode, f_mtime = os_now env (k + 2)\<rparr>"
  note c6 = c6 [folded F_def]
  have T: "map_of F ?tmp = Some ?new"
    using t c1 by (simp add: F_def map_of_writes on_open_same)
  have steps: "latest sched k (k + 6) c = latest sched (k + 5) (Suc (k + 5)) (latest sched (k + 4) (Suc (k + 4))
      (latest sched (k + 3) (Suc (k + 3)) (latest sched (k + 2) (Suc (k + 2)) (latest sched (Suc k) (Suc (Suc k))
      (latest sched k (Suc k) c)))))" for c
    by (simp add: latest_def numeral_eq_Suc)
  have P: "map_of F path = latest sched k (k + 6) (map_of fs path)"
    unfolding steps using t c1 by (simp add: F_def map_of_writes del: latest_step)
  have O: "map_of F q = map_of fs q" if "q \<noteq> path" "q \<noteq> ?tmp" for q
    using that c1 by (simp add: F_def map_of_writes)
  from c7 have c7': "k7 = Suc k6" "fs7 = AList.update path (the (map_of (?w k6 fs6) ?tmp)) (AList.delete ?tmp (?w k6 fs6))"
    by (auto simp: Rename_def os_call_Inr o split: option.splits)
  have c8': "k' = Suc k7" "map_of fs' path = latest sched k7 (Suc k7) (map_of fs7 path)"
    "q \<noteq> ?tmp \<Longrightarrow> q \<noteq> path \<Longrightarrow> map_of fs' q = map_of fs7 q" for q
  proof -
    obtain r8 where e: "Remove env ?tmp (k7, fs7) = (r8, k', fs')" using c8 by (metis prod.collapse)
    from leavesD [OF leaves_os(8) [OF o t] e] os_call_count e
    show "k' = Suc k7" "map_of fs' path = latest sched k7 (Suc k7) (map_of fs7 path)"
      unfolding Remove_def by blast+
    show "q \<noteq> ?tmp \<Longrightarrow> q \<noteq> path \<Longrightarrow> map_of fs' q = map_of fs7 q" for q
      using Remove_other [OF o e] by blast
  qed
  have same: "map_of fs6 ?tmp = Some ?new \<and> (q \<noteq> path \<longrightarrow> q \<noteq> ?tmp \<longrightarrow> map_of fs6 q = map_of fs q)" for q
    using check_Inr [OF o c6] T O t by (auto simp: map_of_writes)
  have new: "map_of fs7 path = Some ?new"
    using same t by (simp add: c7' map_of_writes update_conv')
  have n: "k' = Suc n \<and> k7 = n"
    using check_Inr [OF o c6] c7' c8' by (auto simp: n_def split: option.splits)
  then show "k' = Suc n" "map_of fs' path = latest sched n (Suc n) (Some ?new)"
    using c8'(2) new by simp_all
  show "q \<noteq> path \<Longrightarrow> q \<noteq> ?tmp \<Longrightarrow> map_of fs' q = map_of fs q"
    using same c8'(3) by (simp add: c7' map_of_writes update_conv' map_of_delete)
  assume b: "before = Some b"
  have "Suc (k + 6) = k + 7" by simp
  then have "latest sched (k + 6) (Suc (k + 6)) (latest sched k (k + 6) c) = latest sched k (k + 7) c" for c
    using latest_trans [of k "k + 6" "k + 7" sched c] by (simp only:)
  with check_Inr [OF o c6] b P
  show "\<exists>a. latest sched k (k + 7) (map_of fs path) = Some a \<and> \<not> changed_since b a" by (simp del: latest_step)
qed
lemma backup_name_not_temp: "backup_name path now \<noteq> temp_name env path"
proof -
  have "format_nat n \<noteq> [] \<and> is_digit (last (format_nat n))" for n
    by (metis format_nat_digits format_nat_nonempty last_in_set list_all_iff)
  then have "is_digit (last (backup_name path now))" by (simp add: backup_name_def)
  moreover have "\<not> is_digit (last (temp_name env path))" by (simp add: temp_name_def is_digit_def)
  ultimately show ?thesis by metis
qed

lemma Update_Inr:
  assumes o: "os_other env = writes_of path sched" and t: "temp_name env path \<noteq> path"
    and r: "Update env path kv (0, fs) = (Inr bak, k', fs')"
    and b: "latest sched 0 2 (map_of fs path) = Some b"
  obtains m out f a where "parse_settings (latest sched 0 1 (map_of fs path)) = Some m"
    "MarshalIndent ''  '' (merge_settings kv m) = Some out"
    "map_of fs' path = latest sched 12 13 (Some f)" "f_data f = out @ [CHR 0x0A]" "f_mode f = private_mode"
    "latest sched 0 11 (map_of fs path) = Some a" "\<not> changed_since b a"
    "bak = backup_name path (os_now env 2)"
    "map_option f_data (map_of fs' bak) = map_option f_data (latest sched 0 3 (map_of fs path))"
proof -
  let ?c = "map_of fs path"
  from r obtain m k1 fs1 before k2 fs2 k3 fs3 out k4 where
    r1: "Read env path (0, fs) = (Inr m, k1, fs1)" and r2: "stat_before env path (k1, fs1) = (Inr before, k2, fs2)"
    and r3: "make_backup env path before (k2, fs2) = (Inr bak, k3, fs3)"
    and out: "MarshalIndent ''  '' (merge_settings kv m) = Some out"
    and r4: "replace_file env path (out @ [CHR 0x0A]) before (k3, fs3) = (Inr (), k4, fs')"
    unfolding Update_def by (auto simp: bindI_Inr split: option.splits)
  note s1 = Read_Inr [OF o r1]
  note s2 = stat_Inr [OF o r2]
  have k: "k1 = 1" "k2 = 2" using s1 s2 by simp_all
  have c2: "map_of fs2 path = latest sched 0 2 ?c"
    using s1(3) s2(3) k latest_trans [of 0 1 2 sched ?c] by (simp del: latest_step add: numeral_2_eq_2)
  have before: "before = Some b" using s2 k c2 b by simp
  note s3 = backup_Inr(2) [OF o r3 before, unfolded k]
  have c3: "map_of fs3 path = latest sched 0 4 ?c"
    using s3 c2 latest_trans [of 0 2 4 sched ?c] by simp
  have k3: "k3 = 4" using s3 by simp
  note s4 = replace_Inr [OF o t r4, unfolded before k3, simplified]
  obtain a where a: "latest sched 4 11 (map_of fs3 path) = Some a" "\<not> changed_since b a"
    using replace_Inr(3) [OF o t r4 before] k3 by auto
  then have a': "latest sched 0 11 ?c = Some a" using c3 latest_trans [of 0 4 11 sched ?c] by simp
  have "map_option f_data (map_of fs3 bak) = map_option f_data (latest sched 0 3 ?c)"
    using s3 c2 latest_trans [of 0 2 3 sched ?c] by (auto simp del: latest_step simp: numeral_eq_Suc)
  moreover have "map_of fs' bak = map_of fs3 bak"
    using s4(4) [of bak] s3 backup_name_other backup_name_not_temp by metis
  ultimately show thesis
    using that [OF _ out _ _ _ a' a(2)] s1(2) s3 s4(2) k by simp
qed

lemma os_call_fine:
  "os_fault env k = Fine \<Longrightarrow> os_call env f torn (k, fs) =
    (case f (os_now env k) (os_other env k fs) of (r, fs') \<Rightarrow> (r, Suc k, fs'))"
  by (simp add: os_call_def Let_def)

lemma latest_Some: "\<exists>f. latest sched k k' (Some b) = Some f"
proof (induction k')
  case (Suc k')
  then show ?case by (cases "k \<le> k'") (auto simp: latest_Suc latest_def split: option.splits)
qed (simp add: latest_def)

lemma replace_ok:
  assumes o: "os_other env = writes_of path sched" and t: "temp_name env path \<noteq> path"
    and fine: "\<And>k. os_fault env k = Fine" and free: "map_of fs (temp_name env path) = None"
    and a: "latest sched k (k + 7) (map_of fs path) = Some a" and same: "\<not> changed_since b a"
  shows "\<exists>st. replace_file env path out (Some b) (k, fs) = (Inr (), st)"
proof -
  let ?tmp = "temp_name env path" and ?w = "writes_of path sched"
  define F where "F = ?w (k + 5) (?w (k + 4) (on_open ?tmp (\<lambda>f. f\<lparr>f_mode := private_mode\<rparr>) (?w (k + 3)
    (on_open ?tmp (\<lambda>f. f\<lparr>f_data := out, f_mtime := os_now env (k + 2)\<rparr>) (?w (k + 2)
      (put_file ?tmp [] private_mode (os_now env (Suc k)) (?w (Suc k) (?w k fs))))))))"
  have T: "map_of F ?tmp \<noteq> None" using t by (simp add: F_def map_of_writes on_open_same)
  have "map_of F path = latest sched k (k + 6) (map_of fs path)"
    using t by (simp add: F_def map_of_writes latest_def numeral_eq_Suc)
  then have P: "latest sched (k + 6) (Suc (k + 6)) (map_of F path) = Some a"
    using a latest_trans [of k "k + 6" "k + 7" sched] by (simp add: numeral_eq_Suc del: latest_step)
  have "Stat env path (k + 6, F) = (Inr a, k + 7, ?w (k + 6) F)"
    using P by (simp add: Stat_def os_call_fine fine o look_up_def map_of_writes del: latest_step)
  then have c: "check_unchanged env path (Some b) (k + 6, F) = (Inr (), k + 7, ?w (k + 6) F)"
    using same by (simp add: check_unchanged_def bindI_def)
  have rn: "\<exists>st. Rename env ?tmp path (k + 7, ?w (k + 6) F) = (Inr (), st)"
    using T t by (auto simp: Rename_def os_call_fine fine o map_of_writes split: option.splits)
  have cr: "CreateTemp env (path_dir path) ''.settings-'' ''.tmp'' (Suc k, x) =
      (Inr ?tmp, k + 2, put_file ?tmp [] private_mode (os_now env (Suc k)) (?w (Suc k) x))"
    if "map_of (?w (Suc k) x) ?tmp = None" for x
    using that by (simp add: CreateTemp_def os_call_fine fine o temp_name_def Let_def)
  have "map_of (?w (Suc k) (?w k fs)) ?tmp = None" using free t by (simp add: map_of_writes)
  note cr = cr [OF this]
  show ?thesis
    using rn c unfolding F_def
    by (auto simp: replace_file_def bindI_def MkdirAll_def FdWrite_def FdChmod_def Flush_def os_call_fine fine o cr
        finallyI_def numeral_eq_Suc)
qed

lemma Update_ok:
  assumes o: "os_other env = writes_of path sched" and t: "temp_name env path \<noteq> path"
    and fine: "\<And>k. os_fault env k = Fine" and free: "map_of fs (temp_name env path) = None"
    and p: "parse_settings (latest sched 0 1 (map_of fs path)) = Some m"
    and out: "MarshalIndent ''  '' (merge_settings kv m) = Some out"
    and b: "latest sched 0 2 (map_of fs path) = Some b" and a: "latest sched 0 11 (map_of fs path) = Some a"
    and same: "\<not> changed_since b a"
  shows "\<exists>bak k' fs'. Update env path kv (0, fs) = (Inr bak, k', fs')"
proof (rule ccontr)
  let ?c = "map_of fs path" and ?tmp = "temp_name env path" and ?w = "writes_of path sched"
  note call = os_call_fine [OF fine]
  obtain fs1 where r1: "Read env path (0, fs) = (Inr m, 1, fs1)" and f1: "fs1 = ?w 0 fs"
    using p by (cases "latest sched 0 1 ?c")
      (auto simp: Read_def bindI_def tryI_def ReadFile_def call o look_up_def map_of_writes parse_settings_def)
  have c1: "map_of fs1 path = latest sched 0 1 ?c" using Read_Inr(3) [OF o r1] by simp
  have l2: "latest sched 1 2 (map_of fs1 path) = Some b" using c1 b latest_trans [of 0 1 2 sched ?c] by simp
  obtain fs2 where r2: "stat_before env path (1, fs1) = (Inr (Some b), 2, fs2)" and f2: "fs2 = ?w 1 fs1"
    using l2 by (auto simp: stat_before_def bindI_def tryI_def Stat_def call o look_up_def map_of_writes numeral_2_eq_2)
  have c2: "map_of fs2 path = Some b" using stat_Inr(3) [OF o r2] l2 by (simp add: numeral_2_eq_2)
  let ?bak = "backup_name path (os_now env 2)"
  obtain b' where b': "latest sched 2 (Suc 2) (Some b) = Some b'" using latest_Some by blast
  define fs3 where "fs3 = put_file ?bak (f_data b') private_mode (os_now env 3) (?w 3 (?w 2 fs2))"
  have "ReadFile env path (2, fs2) = (Inr (f_data b'), 3, ?w 2 fs2)"
    using b' c2 by (simp add: ReadFile_def call o look_up_def map_of_writes del: latest_step)
  then have r3: "make_backup env path (Some b) (2, fs2) = (Inr ?bak, 4, fs3)"
    by (simp add: make_backup_def bindI_def nowI_def WriteFile_def call o fs3_def)
  have f3: "map_of fs3 ?tmp = map_of fs2 ?tmp"
    using backup_name_not_temp [of path "os_now env 2" env] t by (simp add: fs3_def map_of_writes)
  have c3: "map_of fs3 path = latest sched 0 4 ?c"
    using backup_Inr(2) [OF o r3 refl] c2 b latest_trans [of 0 2 4 sched ?c] by simp
  have free3: "map_of fs3 ?tmp = None" using f3 f2 f1 free t by (simp add: map_of_writes)
  obtain k4 fs4 where r4: "replace_file env path (out @ [CHR 0x0A]) (Some b) (4, fs3) = (Inr (), k4, fs4)"
    using replace_ok [OF o t fine free3, of 4 a b] a same c3 latest_trans [of 0 4 11 sched ?c] by fastforce
  assume "\<nexists>bak k' fs'. Update env path kv (0, fs) = (Inr bak, k', fs')"
  then show False using r1 r2 r3 r4 out by (simp add: Update_def bindI_def)
qed

section \<open>What the settings say afterwards\<close>

lemma map_of_merge:
  assumes "distinct_keys kv"
  shows "map_of (merge_settings kv m) k = (case map_of kv k of None \<Rightarrow> map_of m k | Some v \<Rightarrow> Some (marshal_string v))"
  using assms
proof (induction kv arbitrary: m)
  case (Cons p kv)
  obtain k1 v1 where p: "p = (k1, v1)" by (cases p)
  have "merge_settings (p # kv) m = merge_settings kv (AList.update k1 (marshal_string v1) m)"
    by (simp add: merge_settings_def p)
  moreover have "map_of kv k1 = None" using Cons.prems by (simp add: distinct_keys_def p map_of_eq_None_iff)
  ultimately show ?case using Cons by (auto simp: p distinct_keys_def update_conv' split: option.splits)
qed (simp add: merge_settings_def)

lemma merge_distinct: "distinct_keys m \<Longrightarrow> distinct_keys (merge_settings kv m)"
  unfolding merge_settings_def
  by (induction kv arbitrary: m) (auto simp: distinct_keys_def distinct_update)

lemma literal_map_iff: "distinct_keys m \<Longrightarrow> literal_map m \<longleftrightarrow> (\<forall>k v. map_of m k = Some v \<longrightarrow> is_literal v)"
  by (auto simp: literal_map_def distinct_keys_def dest: map_of_SomeD)

lemma keys_dom: "fst ` set m = dom (map_of m)"
  by (simp add: dom_map_of_conv_image_fst)

lemma Value_html: "is_literal v \<Longrightarrow> unmarshal_string (html_literal v) = unmarshal_string v"
  using html_literal_reads by (simp add: unmarshal_literal)

lemma unmarshal_marshal: "unmarshal_string (marshal_string v) = Some (valid_text v)"
  by (simp add: unmarshal_literal is_literal_marshal json_unquote_marshal)

lemma parse_distinct: "parse_settings c = Some m \<Longrightarrow> distinct_keys m"
  by (auto simp: parse_settings_def unmarshal_map_def distinct_map_of_members distinct_keys_def
      split: option.splits if_splits) (metis distinct_keys_def distinct_map_of_members)

definition utf8_keys :: "raw_map \<Rightarrow> bool" where
  "utf8_keys m \<longleftrightarrow> list_all (\<lambda>(k, _). valid_utf8 k) m"

lemma utf8_keys_iff: "utf8_keys m \<longleftrightarrow> (\<forall>k v. map_of m k = Some v \<longrightarrow> valid_utf8 k)"
proof -
  have "utf8_keys m \<longleftrightarrow> (\<forall>k \<in> dom (map_of m). valid_utf8 k)"
    unfolding utf8_keys_def keys_dom [symmetric] list_all_iff by auto
  then show ?thesis by auto
qed

lemma merged_text_reads:
  assumes "literal_map m" "distinct_keys m" "utf8_keys m" "distinct_keys kv" "utf8_keys kv"
  shows "\<exists>out m'. MarshalIndent ''  '' (merge_settings kv m) = Some out
    \<and> unmarshal_map (out @ [CHR 0x0A]) = Some m'
    \<and> (\<forall>k. Value m' k = (case map_of kv k of None \<Rightarrow> Value m k | Some v \<Rightarrow> valid_text v))"
proof -
  let ?mm = "merge_settings kv m"
  note mo = map_of_merge [OF assms(4), of m]
  have d: "distinct_keys ?mm" using assms(2) by (rule merge_distinct)
  have l: "literal_map ?mm"
    using assms(1) by (auto simp: literal_map_iff [OF d] literal_map_iff [OF assms(2)] mo is_literal_marshal
        split: option.splits)
  have u: "\<forall>k \<in> fst ` set ?mm. valid_utf8 k"
    using assms(3,5) by (auto simp: keys_dom utf8_keys_iff mo split: option.splits)
  have sp: "list_all is_space ''  ''" "skip_space [CHR 0x0A] = []" by (simp_all add: is_space_def)
  obtain t m' where t: "MarshalIndent ''  '' ?mm = Some t" "unmarshal_map (t @ [CHR 0x0A]) = Some m'"
    and m': "\<And>k. map_of m' k = map_option html_literal (map_of ?mm k)"
    using marshal_indent_reads_back [OF l d u sp] by blast
  have "Value m' k = (case map_of kv k of None \<Rightarrow> Value m k | Some v \<Rightarrow> valid_text v)" for k
  proof (cases "map_of kv k")
    case None
    then show ?thesis
      using assms(1) by (auto simp: Value_def m' mo literal_map_iff [OF assms(2)] Value_html split: option.splits)
  next
    case (Some v)
    then show ?thesis by (simp add: Value_def m' mo Value_html is_literal_marshal unmarshal_marshal)
  qed
  with t show ?thesis by blast
qed

text \<open>
  C14: every setting survives an update. Whatever other programs write before the rename, a successful update of
  an existing file of string settings (which nobody writes after the rename) leaves a private file that reads back as the settings it started from with
  the given ones replaced; every other setting, the device id among them, has the value it had; and the
  backup holds the bytes of the file as it was when the backup was taken.
\<close>

theorem settings_survive_update:
  assumes "os_other env = writes_of path sched" "temp_name env path \<noteq> path"
    and "run (Update env path kv) fs = (Inr bak, fs')"
    and "latest sched 0 2 (map_of fs path) = Some b" "sched 12 = None"
    and "parse_settings (latest sched 0 1 (map_of fs path)) = Some m"
    and "literal_map m" "utf8_keys m" "distinct_keys kv" "utf8_keys kv"
  shows "\<exists>f m'. map_of fs' path = Some f \<and> f_mode f = private_mode \<and> unmarshal_map (f_data f) = Some m'
    \<and> (\<forall>k. Value m' k = (case map_of kv k of None \<Rightarrow> Value m k | Some v \<Rightarrow> valid_text v))
    \<and> map_option f_data (map_of fs' bak) = map_option f_data (latest sched 0 3 (map_of fs path))"
proof -
  obtain k' where r: "Update env path kv (0, fs) = (Inr bak, k', fs')" using assms(3) by (auto simp: run_eq)
  obtain m2 out f a where u: "parse_settings (latest sched 0 1 (map_of fs path)) = Some m2"
    "MarshalIndent ''  '' (merge_settings kv m2) = Some out"
    "map_of fs' path = latest sched 12 13 (Some f)" "f_data f = out @ [CHR 0x0A]" "f_mode f = private_mode"
    "map_option f_data (map_of fs' bak) = map_option f_data (latest sched 0 3 (map_of fs path))"
    by (rule Update_Inr [OF assms(1,2) r assms(4)])
  have "latest sched 12 13 (Some f) = Some f" using assms(5) by (simp add: latest_def numeral_eq_Suc)
  moreover from u assms(6) have "m2 = m" by simp
  moreover obtain out' m' where "MarshalIndent ''  '' (merge_settings kv m) = Some out'"
    "unmarshal_map (out' @ [CHR 0x0A]) = Some m'"
    "\<forall>k. Value m' k = (case map_of kv k of None \<Rightarrow> Value m k | Some v \<Rightarrow> valid_text v)"
    using merged_text_reads [OF assms(7) parse_distinct [OF assms(6)] assms(8-10)] by blast
  ultimately show ?thesis using u by auto
qed

text \<open>A settings file, an update of it, and surroundings in which nothing fails.\<close>

definition sample_path :: bytes where
  "sample_path = ''d/settings.json''"

definition sample_settings :: raw_map where
  "sample_settings = [(DeviceIDKey, json_string ''dev-1'')]"

definition sample_file :: file_info where
  "sample_file = \<lparr>f_data = the (MarshalIndent ''  '' sample_settings), f_mode = private_mode, f_mtime = 5\<rparr>"

definition sample_env :: "(nat \<Rightarrow> file_info option) \<Rightarrow> os_env" where
  "sample_env sched = \<lparr>os_fault = (\<lambda>_. Fine), os_other = writes_of sample_path sched, os_now = (\<lambda>_. 7),
     os_temp = ''1''\<rparr>"

lemma valid_utf8_ascii: "list_all (\<lambda>c. byte_val c < 0x80) s \<Longrightarrow> valid_utf8 s"
proof (induction s)
  case (Cons c s)
  then have c: "byte_val c < RuneSelf" by (simp add: RuneSelf_def)
  then have "valid_text (c # s) = encode_rune (byte_val c) @ valid_text s"
    using decode_rune_ascii [of c s] by (simp add: RuneSelf_def)
  with Cons c show ?case by (simp add: valid_utf8_def encode_rune_self)
qed (simp add: valid_utf8_def)

lemma sample_path_temp: "temp_name (sample_env sched) sample_path = ''d/.settings-1.tmp''"
  by (simp add: temp_name_def sample_path_def path_dir_def path_clean_def is_rooted_def sample_env_def)

lemma sample_map_ok: "literal_map sample_settings" "distinct_keys sample_settings" "\<forall>k \<in> fst ` set sample_settings. valid_utf8 k"
  by (simp_all add: sample_settings_def literal_map_def distinct_keys_def is_literal_json_string DeviceIDKey_def
      valid_utf8_ascii plain_wf_body plain_def plain_char_def byte_simps RuneSelf_def)

lemma sample_parse:
  obtains m where "parse_settings (Some (sample_file\<lparr>f_mtime := t\<rparr>)) = Some m" "literal_map m" "utf8_keys m"
    "Value m DeviceIDKey = ''dev-1''" "\<And>k. k \<noteq> DeviceIDKey \<Longrightarrow> Value m k = []"
proof -
  have "list_all is_space ''  ''" by (simp add: is_space_def)
  from marshal_indent_reads_back [OF sample_map_ok this, of "[]"] obtain out m where
    m: "MarshalIndent ''  '' sample_settings = Some out" "unmarshal_map out = Some m"
      "\<forall>k. map_of m k = map_option html_literal (map_of sample_settings k)" by auto
  have d: "distinct_keys m" using m(2) parse_distinct [of "Some (sample_file\<lparr>f_data := out\<rparr>)"] by (simp add: parse_settings_def)
  have lit: "is_literal (json_string ''dev-1'')"
    by (simp add: is_literal_json_string plain_wf_body plain_def plain_char_def byte_simps RuneSelf_def)
  have "literal_map m" using m(3) lit html_literal_reads(1) [OF lit]
    by (auto simp: literal_map_iff [OF d] sample_settings_def split: if_splits)
  moreover have "utf8_keys m" using m(3) sample_map_ok(3)
    by (auto simp: utf8_keys_iff sample_settings_def split: if_splits)
  moreover have "Value m DeviceIDKey = ''dev-1''"
    using m(3) Value_html [OF lit] by (simp add: Value_def sample_settings_def plain_def plain_char_def byte_simps RuneSelf_def)
  moreover have "Value m k = []" if "k \<noteq> DeviceIDKey" for k
    using that m(3) by (simp add: Value_def sample_settings_def)
  moreover have "parse_settings (Some (sample_file\<lparr>f_mtime := t\<rparr>)) = Some m"
    using m by (simp add: parse_settings_def sample_file_def)
  ultimately show thesis using that by blast
qed

lemma sample_update_ok:
  assumes "sched 0 = None" "latest sched 0 2 (Some sample_file) = latest sched 0 11 (Some sample_file)" "utf8_keys kv" "distinct_keys kv"
  shows "\<exists>bak fs'. run (Update (sample_env sched) sample_path kv) [(sample_path, sample_file)] = (Inr bak, fs')"
proof -
  obtain m where m: "parse_settings (Some sample_file) = Some m" "literal_map m" "utf8_keys m"
    using sample_parse [of "f_mtime sample_file"] by (metis file_info.surjective file_info.update_convs(3) sample_file_def)
  obtain b where b: "latest sched 0 2 (Some sample_file) = Some b" using latest_Some by blast
  obtain out where out: "MarshalIndent ''  '' (merge_settings kv m) = Some out"
    using merged_text_reads [OF m(2) parse_distinct [OF m(1)] m(3) assms(4,3)] by blast
  have "\<exists>bak k' fs'. Update (sample_env sched) sample_path kv (0, [(sample_path, sample_file)]) = (Inr bak, k', fs')"
  proof (rule Update_ok [where m = m and out = out and a = b and b = b])
    show "os_other (sample_env sched) = writes_of sample_path sched" by (simp add: sample_env_def)
    show "temp_name (sample_env sched) sample_path \<noteq> sample_path" by (simp only: sample_path_temp) (simp add: sample_path_def)
    show "map_of [(sample_path, sample_file)] (temp_name (sample_env sched) sample_path) = None"
      by (simp only: sample_path_temp) (simp add: sample_path_def)
  qed (use assms m out b in \<open>simp_all add: sample_env_def changed_since_def latest_def\<close>)
  then show ?thesis by (auto simp: run_eq)
qed

theorem settings_survive_update_witness:
  "\<exists>bak fs' f m'. run (Update (sample_env (\<lambda>_. None)) sample_path [(''K'', ''v'')]) [(sample_path, sample_file)] = (Inr bak, fs')
    \<and> map_of fs' sample_path = Some f \<and> unmarshal_map (f_data f) = Some m'
    \<and> Value m' DeviceIDKey = ''dev-1'' \<and> Value m' ''K'' = ''v''"
proof -
  let ?sched = "\<lambda>_. None" and ?kv = "[(''K'', ''v'')] :: raw_map" and ?fs = "[(sample_path, sample_file)]"
  have kv: "utf8_keys ?kv" "distinct_keys ?kv" by (simp_all add: utf8_keys_def distinct_keys_def valid_utf8_ascii)
  obtain bak fs' where r: "run (Update (sample_env ?sched) sample_path ?kv) ?fs = (Inr bak, fs')"
    using sample_update_ok [of ?sched ?kv] kv by (auto simp: latest_None)
  obtain m where m: "parse_settings (Some sample_file) = Some m" "literal_map m" "utf8_keys m" "Value m DeviceIDKey = ''dev-1''"
    using sample_parse [of 5] by (auto simp: sample_file_def)
  have o: "os_other (sample_env ?sched) = writes_of sample_path ?sched" by (simp add: sample_env_def)
  have t: "temp_name (sample_env ?sched) sample_path \<noteq> sample_path" by (simp only: sample_path_temp) (simp add: sample_path_def)
  have l: "latest ?sched k k' c = c" for k k' c by (simp add: latest_None)
  have "\<exists>f m'. map_of fs' sample_path = Some f \<and> f_mode f = private_mode \<and> unmarshal_map (f_data f) = Some m'
    \<and> (\<forall>k. Value m' k = (case map_of ?kv k of None \<Rightarrow> Value m k | Some v \<Rightarrow> valid_text v))
    \<and> map_option f_data (map_of fs' bak) = map_option f_data (latest ?sched 0 3 (map_of ?fs sample_path))"
    by (rule settings_survive_update [OF o t r]) (simp_all add: l m kv)
  then obtain f m' where fm: "map_of fs' sample_path = Some f" "unmarshal_map (f_data f) = Some m'"
    "\<And>k. Value m' k = (case map_of ?kv k of None \<Rightarrow> Value m k | Some v \<Rightarrow> valid_text v)" by blast
  have "valid_text ''v'' = ''v''" using valid_utf8_ascii [of "''v''"] by (simp add: valid_utf8_def)
  then have "Value m' DeviceIDKey = ''dev-1''" "Value m' ''K'' = ''v''"
    by (simp_all add: fm(3) m(4) DeviceIDKey_def [symmetric]) (simp_all add: m(4) [unfolded DeviceIDKey_def] DeviceIDKey_def)
  with r fm show ?thesis by blast
qed

text \<open>
  C15: an update that fails changes nothing. At whatever call it fails, however many bytes that call had
  written, and whatever other programs write meanwhile: when it returns after \<open>k'\<close> calls, the settings file is what
  the last of the other programs' writes before any of these calls made it, and what it was at the start if there was none.
\<close>

theorem failed_update_leaves_file:
  assumes "os_other env = writes_of path sched" "temp_name env path \<noteq> path"
    and "Update env path kv (0, fs) = (Inl e, k', fs')"
  shows "map_of fs' path = latest sched 0 k' (map_of fs path)"
  using fails_cleanD [OF Update_clean [OF assms(1,2)] assms(3)] by blast

text \<open>Only the replacement can be torn: the disk is full when the new text is written.\<close>

definition full_disk :: os_env where
  "full_disk = (sample_env (\<lambda>_. None))\<lparr>os_fault := (\<lambda>k. if k = 6 then Torn 3 else Fine)\<rparr>"

theorem failed_update_leaves_file_witness:
  "\<exists>e k' fs'. Update full_disk sample_path [] (0, [(sample_path, sample_file)]) = (Inl e, k', fs')
    \<and> map_of fs' sample_path = Some sample_file"
proof -
  let ?fs = "[(sample_path, sample_file)]"
  have o: "os_other full_disk = writes_of sample_path (\<lambda>_. None)" by (simp add: full_disk_def sample_env_def)
  have t: "temp_name full_disk sample_path \<noteq> sample_path"
    using sample_path_temp [of "\<lambda>_. None"] by (simp add: full_disk_def sample_env_def temp_name_def sample_path_def)
  have no: "Update full_disk sample_path [] (0, ?fs) \<noteq> (Inr bak, k', fs')" for bak k' fs'
  proof
    assume "Update full_disk sample_path [] (0, ?fs) = (Inr bak, k', fs')"
    then obtain m k1 fs1 before k2 fs2 k3 fs3 out k4 where
      r1: "Read full_disk sample_path (0, ?fs) = (Inr m, k1, fs1)"
      and r2: "stat_before full_disk sample_path (k1, fs1) = (Inr before, k2, fs2)"
      and r3: "make_backup full_disk sample_path before (k2, fs2) = (Inr bak, k3, fs3)"
      and r4: "replace_file full_disk sample_path out before (k3, fs3) = (Inr (), k4, fs')"
      unfolding Update_def by (auto simp: bindI_Inr split: option.splits)
    have k: "k1 = 1" "k2 = 2" "before = Some sample_file"
      using Read_Inr [OF o r1] stat_Inr [OF o r2] by simp_all
    then have "k3 = 4" using backup_Inr(2) [OF o r3 k(3)] by simp
    then obtain tmp fs5 fs6 where "FdWrite full_disk tmp out (6, fs5) = (Inr (), fs6)"
      using r4
      by (auto simp: replace_file_def bindI_Inr finallyI_Inr MkdirAll_def os_call_Inr dest!: CreateTemp_Inr(1,2))
    then show False by (cases fs6) (simp add: FdWrite_def os_call_Inr full_disk_def)
  qed
  obtain r k' fs' where r: "Update full_disk sample_path [] (0, ?fs) = (r, k', fs')" by (metis prod_cases3)
  with no obtain e where "r = Inl e" by (cases r) auto
  with r have e: "Update full_disk sample_path [] (0, ?fs) = (Inl e, k', fs')" by simp
  from failed_update_leaves_file [OF o t e] have "map_of fs' sample_path = Some sample_file"
    by (simp add: latest_None)
  with e show ?thesis by blast
qed

text \<open>
  C16: a change between the two examinations is noticed. When another program writes the file after it was
  first examined and before it is examined again (calls 2 to 10), and the last such write changes its
  size or its modification time, the update fails, and the write stays: the file is left with what was written,
  unless the update had failed for another reason before the write.
\<close>

theorem update_notices_changes:
  assumes "os_other env = writes_of path sched" "temp_name env path \<noteq> path"
    and "latest sched 0 2 (map_of fs path) = Some b" "2 \<le> j" "j \<le> 10" "sched j = Some f"
    and "\<forall>i. j < i \<longrightarrow> sched i = None" "changed_since b f"
  shows "\<exists>e k' fs'. Update env path kv (0, fs) = (Inl e, k', fs')
    \<and> map_of fs' path = (if j < k' then Some f else latest sched 0 k' (map_of fs path))"
proof -
  have step: "latest sched 0 k c = Some f" if "j < k" for k c
  proof -
    have "latest sched 0 (Suc j) c = Some f" using assms(6) by (simp add: latest_Suc)
    moreover have "latest sched (Suc j) k (Some f) = Some f" using assms(7) by (intro latest_None) simp
    ultimately show ?thesis using latest_trans [of 0 "Suc j" k sched c] that by simp
  qed
  have no: "Update env path kv (0, fs) \<noteq> (Inr bak, k', fs')" for bak k' fs'
  proof
    assume r: "Update env path kv (0, fs) = (Inr bak, k', fs')"
    obtain a where "latest sched 0 11 (map_of fs path) = Some a" "\<not> changed_since b a"
      by (rule Update_Inr [OF assms(1,2) r assms(3)])
    with step [of 11] assms(5,8) show False by simp
  qed
  obtain r k' fs' where r: "Update env path kv (0, fs) = (r, k', fs')" by (metis prod_cases3)
  with no obtain e where e: "r = Inl e" by (cases r) auto
  have "map_of fs' path = latest sched 0 k' (map_of fs path)"
    using fails_cleanD [OF Update_clean [OF assms(1,2)]] r e by blast
  with r e step show ?thesis by auto
qed

definition touched_file :: "int \<Rightarrow> file_info" where
  "touched_file t = sample_file\<lparr>f_mtime := t\<rparr>"

theorem update_notices_changes_witness:
  "\<exists>e k' fs'. Update (sample_env (\<lambda>k. if k = 5 then Some (touched_file 6) else None)) sample_path []
      (0, [(sample_path, sample_file)]) = (Inl e, k', fs')
    \<and> map_of fs' sample_path = Some (if 5 < k' then touched_file 6 else sample_file)"
proof -
  let ?sched = "\<lambda>k :: nat. if k = 5 then Some (touched_file 6) else None"
  have o: "os_other (sample_env ?sched) = writes_of sample_path ?sched" by (simp add: sample_env_def)
  have t: "temp_name (sample_env ?sched) sample_path \<noteq> sample_path" by (simp only: sample_path_temp) (simp add: sample_path_def)
  have l: "latest ?sched 0 k c = c" if "k \<le> 5" for k c using that by (simp add: latest_None)
  have b: "latest ?sched 0 2 (map_of [(sample_path, sample_file)] sample_path) = Some sample_file" by (simp add: l)
  have "changed_since sample_file (touched_file 6)"
    by (simp add: changed_since_def touched_file_def sample_file_def)
  from update_notices_changes [OF o t b _ _ _ _ this, of 5 "[]"] obtain e k' fs' where
    r: "Update (sample_env ?sched) sample_path [] (0, [(sample_path, sample_file)]) = (Inl e, k', fs')"
      "map_of fs' sample_path = (if 5 < k' then Some (touched_file 6) else latest ?sched 0 k' (Some sample_file))" by auto
  moreover have "map_of fs' sample_path = Some (if 5 < k' then touched_file 6 else sample_file)"
    using r(2) l [of k'] by simp
  ultimately show ?thesis by blast
qed

text \<open>
  A change just after the file was read is lost. The first examination comes after the reading, so a
  write between the two is what the second examination is compared with: the update succeeds and the
  settings it leaves are computed without that write, whatever the write was. (The comment in \<open>Update\<close> says
  that such a write would otherwise be silently discarded; in this window it is.)
\<close>

theorem early_write_is_lost:
  assumes "os_other env = writes_of path (\<lambda>k. if k = 1 then Some f else None)" "temp_name env path \<noteq> path"
    and "\<forall>k. os_fault env k = Fine" "map_of fs (temp_name env path) = None"
    and "parse_settings (map_of fs path) = Some m" "literal_map m" "utf8_keys m"
    and "distinct_keys kv" "utf8_keys kv"
  shows "\<exists>bak fs' f' m'. run (Update env path kv) fs = (Inr bak, fs')
    \<and> map_of fs' path = Some f' \<and> unmarshal_map (f_data f') = Some m'
    \<and> (\<forall>k. Value m' k = (case map_of kv k of None \<Rightarrow> Value m k | Some v \<Rightarrow> valid_text v))"
proof -
  let ?sched = "\<lambda>k :: nat. if k = 1 then Some f else None"
  have l: "latest ?sched 0 k c = Some f" if "2 \<le> k" for k c
  proof -
    have "latest ?sched 0 2 c = Some f" by (simp add: latest_def numeral_2_eq_2)
    moreover have "latest ?sched 2 k (Some f) = Some f" by (rule latest_None) simp
    ultimately show ?thesis using latest_trans [of 0 2 k ?sched c] that by simp
  qed
  have p: "parse_settings (latest ?sched 0 1 (map_of fs path)) = Some m" using assms(5) by (simp add: latest_def)
  obtain out where out: "MarshalIndent ''  '' (merge_settings kv m) = Some out"
    using merged_text_reads [OF assms(6) parse_distinct [OF assms(5)] assms(7-9)] by blast
  have "\<exists>bak k' fs'. Update env path kv (0, fs) = (Inr bak, k', fs')"
    by (rule Update_ok [OF assms(1,2) _ assms(4) p out l l]) (use assms(3) in \<open>simp_all add: changed_since_def\<close>)
  then obtain bak k' fs' where r: "Update env path kv (0, fs) = (Inr bak, k', fs')" by blast
  obtain m2 out2 f' where u: "parse_settings (latest ?sched 0 1 (map_of fs path)) = Some m2"
    "MarshalIndent ''  '' (merge_settings kv m2) = Some out2"
    "map_of fs' path = latest ?sched 12 13 (Some f')" "f_data f' = out2 @ [CHR 0x0A]"
    by (rule Update_Inr [OF assms(1,2) r l]) simp_all
  have "latest ?sched 12 13 (Some f') = Some f'" by (rule latest_None) simp
  with r u p merged_text_reads [OF assms(6) parse_distinct [OF assms(5)] assms(7-9)] show ?thesis
    by (fastforce simp: run_eq)
qed

theorem early_write_is_lost_witness:
  "\<exists>bak fs' f' m'. run (Update (sample_env (\<lambda>k. if k = 1 then Some \<lparr>f_data = ''anything'', f_mode = 0, f_mtime = 9\<rparr> else None))
      sample_path []) [(sample_path, sample_file)] = (Inr bak, fs')
    \<and> map_of fs' sample_path = Some f' \<and> unmarshal_map (f_data f') = Some m' \<and> Value m' DeviceIDKey = ''dev-1''"
proof -
  let ?f = "\<lparr>f_data = ''anything'', f_mode = 0, f_mtime = 9\<rparr>"
  let ?sched = "\<lambda>k :: nat. if k = 1 then Some ?f else None"
  have o: "os_other (sample_env ?sched) = writes_of sample_path ?sched" by (simp add: sample_env_def)
  have t: "temp_name (sample_env ?sched) sample_path \<noteq> sample_path" by (simp only: sample_path_temp) (simp add: sample_path_def)
  have free: "map_of [(sample_path, sample_file)] (temp_name (sample_env ?sched) sample_path) = None"
    by (simp only: sample_path_temp) (simp add: sample_path_def)
  obtain m where m: "parse_settings (Some sample_file) = Some m" "literal_map m" "utf8_keys m" "Value m DeviceIDKey = ''dev-1''"
    using sample_parse [of 5] by (auto simp: sample_file_def)
  have fine: "\<forall>k. os_fault (sample_env ?sched) k = Fine" by (simp add: sample_env_def)
  have p: "parse_settings (map_of [(sample_path, sample_file)] sample_path) = Some m" using m by simp
  have kv: "distinct_keys ([] :: raw_map)" "utf8_keys []" by (simp_all add: distinct_keys_def utf8_keys_def)
  from early_write_is_lost [OF o t fine free p m(2,3) kv] m(4) show ?thesis by auto
qed

section \<open>Undoing\<close>

text \<open>The backup of an update holds the bytes the file had, and \<open>Restore\<close> puts them back.\<close>

lemma restore_after_update:
  assumes "os_other env = writes_of path (\<lambda>_. None)" "temp_name env path \<noteq> path"
    and "run (Update env path kv) fs = (Inr bak, fs')" "map_of fs path = Some b"
    and "os_other env' = writes_of path (\<lambda>_. None)" "run (Restore env' path bak) fs' = (Inr u, fs'')"
  shows "map_option f_data (map_of fs'' path) = Some (f_data b)"
proof -
  obtain k' where r: "Update env path kv (0, fs) = (Inr bak, k', fs')" using assms(3) by (auto simp: run_eq)
  have l: "latest (\<lambda>_. None) k k' c = c" for k k' c by (simp add: latest_None)
  have bak: "bak \<noteq> path" "map_option f_data (map_of fs' bak) = Some (f_data b)"
    by (rule Update_Inr [OF assms(1,2) r], simp_all add: l assms(4) backup_name_other)+
  with assms(5,6) show ?thesis
    by (auto simp: Restore_def run_eq bindI_Inr ReadFile_def WriteFile_def os_call_Inr look_up_def map_of_writes l)
qed

end
