(* ===== verification/ClientDb.thy ===== *)
theory ClientDb
  imports Db JsonStruct
begin

text \<open>
  \<open>internal/clientdb\<close>: requeueing claude-mem's own rows (\<open>backfill.go\<close>), undoing that, counting the
  queue and reading the worker's pid file (\<open>clientdb.go\<close>). The database is claude-mem's: the three
  tables that replicate, the sessions through which a prompt reaches its project, the launch baseline
  (\<open>sync_launch_exclusions\<close>), the undo table when it exists, and the applied migrations.

  A row keeps the columns the statements read: id, \<open>synced_at\<close>, \<open>origin_device_id\<close>, project or
  session, and the length the size query sums up. SQL's \<open>NULL\<close> is \<open>None\<close>, and a comparison with
  \<open>NULL\<close> is not true.

  The lemmas: exactly the local rows in scope are requeued, a failure or a dry run changes nothing,
  an excluded project is never touched, and undo restores the baseline.
\<close>

section \<open>The database\<close>

datatype sync_table = Observations | Summaries | Prompts

definition syncTables :: "sync_table list" where
  "syncTables = [Observations, Summaries, Prompts]"

fun kind_of :: "sync_table \<Rightarrow> bytes" where
  "kind_of Observations = ''observation''"
| "kind_of Summaries = ''summary''"
| "kind_of Prompts = ''prompt''"

record crow =
  c_id :: int
  c_synced :: "int option"
  c_origin :: "bytes option"
  c_project :: "bytes option"
  c_session :: int
  c_length :: int

record exclusion =
  x_kind :: bytes
  x_local_id :: bytes
  x_rev :: bytes

record cdb =
  c_rows :: "sync_table \<Rightarrow> crow list"
  c_sessions :: "(int \<times> bytes option) list"
  c_exclusions :: "exclusion list"
  c_undo :: "exclusion list option"
  c_versions :: "int list"

record counts =
  cnt_Observations :: nat
  cnt_Summaries :: nat
  cnt_Prompts :: nat

definition Total :: "counts \<Rightarrow> nat" where
  "Total c = cnt_Observations c + cnt_Summaries c + cnt_Prompts c"

definition is_local :: "crow \<Rightarrow> bool" where
  "is_local r \<longleftrightarrow> c_origin r = None"

definition pending_in :: "sync_table \<Rightarrow> cdb \<Rightarrow> nat" where
  "pending_in t db = length (filter (\<lambda>r. c_synced r = None \<and> is_local r) (c_rows db t))"

definition Pending :: "env \<Rightarrow> (cdb, counts) action" where
  "Pending env =
     bindI (query env (pending_in Observations)) (\<lambda>a.
     bindI (query env (pending_in Summaries)) (\<lambda>b.
     bindI (query env (pending_in Prompts)) (\<lambda>c.
       returnI \<lparr>cnt_Observations = a, cnt_Summaries = b, cnt_Prompts = c\<rparr>)))"

definition SchemaVersions :: "env \<Rightarrow> (cdb, int list) action" where
  "SchemaVersions env = query env c_versions"

section \<open>The worker\<close>

text \<open>The pid file: JSON with a positive \<open>pid\<close>, or else a bare integer.\<close>

definition WorkerPID :: "bytes option \<Rightarrow> int option" where
  "WorkerPID file =
     (case file of
        None \<Rightarrow> None
      | Some raw \<Rightarrow>
          (case unmarshal_struct [(''pid'', set_int (\<lambda>v _. v))] raw 0 of
             Some pid \<Rightarrow> if pid > 0 then Some pid else Atoi (trim_space raw)
           | None \<Rightarrow> Atoi (trim_space raw)))"

definition ProcessAlive :: "(int \<Rightarrow> bool) \<Rightarrow> int \<Rightarrow> bool" where
  "ProcessAlive alive pid = (if pid \<le> 0 then False else alive pid)"

definition WorkerRunning :: "(int \<Rightarrow> bool) \<Rightarrow> bytes option \<Rightarrow> bool" where
  "WorkerRunning alive file =
     (case WorkerPID file of None \<Rightarrow> False | Some pid \<Rightarrow> ProcessAlive alive pid)"

section \<open>Scope\<close>

record backfill_opts =
  bo_DryRun :: bool
  bo_Force :: bool
  bo_Project :: bytes
  bo_Excluded :: "bytes list"

record backfill_result =
  PerTable :: "sync_table \<Rightarrow> nat"
  br_Bytes :: int
  br_Exclusions :: nat

text \<open>A prompt reaches a project only through its session.\<close>

definition project_expr :: "sync_table \<Rightarrow> cdb \<Rightarrow> crow \<Rightarrow> bytes option" where
  "project_expr t db r =
     (if t = Prompts then (case map_of (c_sessions db) (c_session r) of None \<Rightarrow> None | Some p \<Rightarrow> p)
      else c_project r)"

definition filterFor :: "sync_table \<Rightarrow> backfill_opts \<Rightarrow> cdb \<Rightarrow> crow \<Rightarrow> bool" where
  "filterFor t opts db r \<longleftrightarrow>
     (bo_Project opts = [] \<or> project_expr t db r = Some (bo_Project opts))
     \<and> list_all (\<lambda>ex. let ex' = trim_space ex in
          ex' = [] \<or> (case project_expr t db r of None \<Rightarrow> [] | Some p \<Rightarrow> p) \<noteq> ex') (bo_Excluded opts)"

definition in_scope :: "sync_table \<Rightarrow> backfill_opts \<Rightarrow> cdb \<Rightarrow> crow \<Rightarrow> bool" where
  "in_scope t opts db r \<longleftrightarrow> is_local r \<and> filterFor t opts db r"

text \<open>\<open>CAST(id AS TEXT)\<close>.\<close>

definition id_text :: "int \<Rightarrow> bytes" where
  "id_text i = (if i < 0 then ''-'' @ format_nat (nat (- i)) else format_nat (nat i))"

section \<open>Backfill\<close>

definition scope_ids :: "sync_table \<Rightarrow> backfill_opts \<Rightarrow> cdb \<Rightarrow> bytes list" where
  "scope_ids t opts db = map (\<lambda>r. id_text (c_id r)) (filter (in_scope t opts db) (c_rows db t))"

definition covered :: "sync_table \<Rightarrow> bytes list \<Rightarrow> exclusion \<Rightarrow> bool" where
  "covered t ids x \<longleftrightarrow> x_kind x = kind_of t \<and> x_local_id x \<in> set ids"

text \<open>\<open>INSERT OR IGNORE\<close> on the key (kind, origin\_local\_id).\<close>

definition same_key :: "exclusion \<Rightarrow> exclusion \<Rightarrow> bool" where
  "same_key x y \<longleftrightarrow> x_kind x = x_kind y \<and> x_local_id x = x_local_id y"

fun insert_ignore :: "exclusion list \<Rightarrow> exclusion list \<Rightarrow> exclusion list" where
  "insert_ignore [] tab = tab"
| "insert_ignore (x # xs) tab =
     insert_ignore xs (if list_ex (same_key x) tab then tab else tab @ [x])"

definition measure_table :: "env \<Rightarrow> backfill_opts \<Rightarrow> sync_table \<Rightarrow> (cdb, nat \<times> int) action" where
  "measure_table env opts t =
     query env (\<lambda>db. let rows = filter (in_scope t opts db) (c_rows db t) in
       (length rows, sum_list (map c_length rows)))"

fun measure_all :: "env \<Rightarrow> backfill_opts \<Rightarrow> sync_table list \<Rightarrow> backfill_result \<Rightarrow> (cdb, backfill_result) action" where
  "measure_all env opts [] res = returnI res"
| "measure_all env opts (t # ts) res =
     bindI (measure_table env opts t) (\<lambda>(count, bytes).
       measure_all env opts ts
         (res\<lparr>PerTable := (PerTable res)(t := count), br_Bytes := br_Bytes res + bytes\<rparr>))"

definition save_baseline :: "env \<Rightarrow> backfill_opts \<Rightarrow> sync_table \<Rightarrow> (cdb, nat) action" where
  "save_baseline env opts t =
     stmt env (\<lambda>db.
       let old = (case c_undo db of None \<Rightarrow> [] | Some tab \<Rightarrow> tab);
           new = insert_ignore (filter (covered t (scope_ids t opts db)) (c_exclusions db)) old
       in (Inr (length new - length old), db\<lparr>c_undo := Some new\<rparr>))"

definition clear_baseline :: "env \<Rightarrow> backfill_opts \<Rightarrow> sync_table \<Rightarrow> (cdb, unit) action" where
  "clear_baseline env opts t =
     exec env (\<lambda>db.
       db\<lparr>c_exclusions := filter (\<lambda>x. \<not> covered t (scope_ids t opts db) x) (c_exclusions db)\<rparr>)"

definition requeue :: "env \<Rightarrow> backfill_opts \<Rightarrow> sync_table \<Rightarrow> (cdb, unit) action" where
  "requeue env opts t =
     exec env (\<lambda>db.
       db\<lparr>c_rows := (c_rows db)(t :=
            update_where (in_scope t opts db) (\<lambda>r. r\<lparr>c_synced := None\<rparr>) (c_rows db t))\<rparr>)"

fun backfill_tables :: "env \<Rightarrow> backfill_opts \<Rightarrow> sync_table list \<Rightarrow> nat \<Rightarrow> (cdb, nat) action" where
  "backfill_tables env opts [] n = returnI n"
| "backfill_tables env opts (t # ts) n =
     bindI (save_baseline env opts t) (\<lambda>saved.
     bindI (clear_baseline env opts t) (\<lambda>_.
     bindI (requeue env opts t) (\<lambda>_.
       backfill_tables env opts ts (n + saved))))"

text \<open>\<open>CREATE TABLE IF NOT EXISTS\<close> of the undo table.\<close>

definition prepare_undo :: "env \<Rightarrow> (cdb, unit) action" where
  "prepare_undo env =
     exec env (\<lambda>db. db\<lparr>c_undo := (case c_undo db of None \<Rightarrow> Some [] | Some tab \<Rightarrow> Some tab)\<rparr>)"

definition ErrWorkerRunning :: go_error where
  "ErrWorkerRunning = OtherError ''clientdb: the worker is running''"

text \<open>The backup (\<open>VACUUM INTO\<close> and the chmod of the copy) leaves this database as it is.\<close>

definition Backfill :: "env \<Rightarrow> bool \<Rightarrow> backfill_opts \<Rightarrow> (cdb, backfill_result) action" where
  "Backfill env worker_running opts =
     (if \<not> bo_Force opts \<and> worker_running then failI ErrWorkerRunning
      else bindI (SchemaVersions env) (\<lambda>versions.
        if 47 \<notin> set versions then failI (OtherError ''clientdb: nothing to backfill'')
        else bindI (measure_all env opts syncTables \<lparr>PerTable = (\<lambda>_. 0), br_Bytes = 0, br_Exclusions = 0\<rparr>) (\<lambda>res.
          if bo_DryRun opts then returnI res
          else bindI (query env (\<lambda>_. ())) (\<lambda>_.
               bindI (query env (\<lambda>_. ())) (\<lambda>_.
               bindI (transaction env
                   (bindI (prepare_undo env) (\<lambda>_. backfill_tables env opts syncTables 0))) (\<lambda>n.
                 returnI (res\<lparr>br_Exclusions := n\<rparr>)))))))"

section \<open>Undo\<close>

definition restore_baseline :: "env \<Rightarrow> (cdb, nat) action" where
  "restore_baseline env =
     stmt env (\<lambda>db.
       let tab = (case c_undo db of None \<Rightarrow> [] | Some tab \<Rightarrow> tab);
           new = insert_ignore tab (c_exclusions db)
       in (Inr (length new - length (c_exclusions db)), db\<lparr>c_exclusions := new\<rparr>))"

definition restamp :: "env \<Rightarrow> int \<Rightarrow> sync_table \<Rightarrow> (cdb, unit) action" where
  "restamp env stamp t =
     exec env (\<lambda>db.
       let ids = map x_local_id (filter (\<lambda>x. x_kind x = kind_of t)
                   (case c_undo db of None \<Rightarrow> [] | Some tab \<Rightarrow> tab))
       in db\<lparr>c_rows := (c_rows db)(t :=
            update_where (\<lambda>r. c_synced r = None \<and> is_local r \<and> id_text (c_id r) \<in> set ids)
              (\<lambda>r. r\<lparr>c_synced := Some stamp\<rparr>) (c_rows db t))\<rparr>)"

fun restamp_all :: "env \<Rightarrow> int \<Rightarrow> sync_table list \<Rightarrow> (cdb, unit) action" where
  "restamp_all env stamp [] = returnI ()"
| "restamp_all env stamp (t # ts) = bindI (restamp env stamp t) (\<lambda>_. restamp_all env stamp ts)"

definition UndoBackfill :: "env \<Rightarrow> (cdb, nat) action" where
  "UndoBackfill env =
     bindI (query env c_undo) (\<lambda>found. case found of
       None \<Rightarrow> failI (OtherError ''clientdb: no backfill to undo'')
     | Some _ \<Rightarrow>
         transaction env
           (bindI (restore_baseline env) (\<lambda>n.
            bindI (restamp_all env (env_now env) syncTables) (\<lambda>_.
            bindI (exec env (\<lambda>db. db\<lparr>c_undo := None\<rparr>)) (\<lambda>_. returnI n)))))"

section \<open>What a backfill does\<close>

lemma in_scope_simps [simp]:
  "in_scope t opts (db\<lparr>c_rows := x\<rparr>) = in_scope t opts db"
  "in_scope t opts (db\<lparr>c_exclusions := y\<rparr>) = in_scope t opts db"
  "in_scope t opts (db\<lparr>c_undo := z\<rparr>) = in_scope t opts db"
  by (rule ext, simp add: in_scope_def filterFor_def project_expr_def)+

lemma scope_ids_simps [simp]:
  "scope_ids t opts (db\<lparr>c_exclusions := y\<rparr>) = scope_ids t opts db"
  "scope_ids t opts (db\<lparr>c_undo := z\<rparr>) = scope_ids t opts db"
  "t' \<noteq> t \<Longrightarrow> scope_ids t opts (db\<lparr>c_rows := (c_rows db)(t' := rows)\<rparr>) = scope_ids t opts db"
  by (simp_all add: scope_ids_def)

lemma measure_all_db: "measure_all env opts ts res (k, db) = (r, k', db') \<Longrightarrow> db' = db"
  by (induction ts arbitrary: res k)
    (auto simp: bindI_def measure_table_def query_def stmt_def split: if_splits sum.splits prod.splits)

lemma measure_all_count:
  "measure_all env opts ts res0 (k, db) = (Inr res, k', db') \<Longrightarrow>
   PerTable res t = (if t \<in> set ts then length (filter (in_scope t opts db) (c_rows db t)) else PerTable res0 t)"
proof (induction ts arbitrary: res0 k)
  case Nil
  then show ?case by simp
next
  case (Cons t' ts)
  then obtain n b where m: "measure_all env opts ts
      (res0\<lparr>PerTable := (PerTable res0)(t' := n), br_Bytes := br_Bytes res0 + b\<rparr>) (Suc k, db) = (Inr res, k', db')"
    and n: "n = length (filter (in_scope t' opts db) (c_rows db t'))"
    by (auto simp: io_simps measure_table_def Let_def)
  from Cons.IH [OF m] n show ?case by auto
qed

definition requeued :: "backfill_opts \<Rightarrow> cdb \<Rightarrow> sync_table \<Rightarrow> crow list" where
  "requeued opts db t = update_where (in_scope t opts db) (\<lambda>r. r\<lparr>c_synced := None\<rparr>) (c_rows db t)"

definition consumed :: "backfill_opts \<Rightarrow> cdb \<Rightarrow> exclusion \<Rightarrow> bool" where
  "consumed opts db x \<longleftrightarrow> list_ex (\<lambda>t. covered t (scope_ids t opts db) x) syncTables"

lemma in_syncTables [simp]: "t \<in> set syncTables"
  by (cases t) (simp_all add: syncTables_def)

lemma covered_kind: "covered t ids x \<Longrightarrow> covered t' ids' x \<Longrightarrow> t' = t"
  by (cases t; cases t') (auto simp: covered_def)

lemma filter_conj: "filter p (filter q xs) = filter (\<lambda>x. q x \<and> p x) xs"
  by (simp add: conj_commute)

definition undo_rows :: "cdb \<Rightarrow> exclusion list" where
  "undo_rows db = (case c_undo db of None \<Rightarrow> [] | Some tab \<Rightarrow> tab)"

text \<open>The effect of the three statements on one table, as one function.\<close>

definition table_effect :: "backfill_opts \<Rightarrow> sync_table \<Rightarrow> cdb \<Rightarrow> cdb" where
  "table_effect opts t db =
     db\<lparr>c_undo := Some (insert_ignore (filter (covered t (scope_ids t opts db)) (c_exclusions db)) (undo_rows db)),
        c_exclusions := filter (\<lambda>x. \<not> covered t (scope_ids t opts db) x) (c_exclusions db),
        c_rows := (c_rows db)(t := requeued opts db t)\<rparr>"

lemma backfill_tables_Cons:
  "backfill_tables env opts (t # ts) n (k, db) = (Inr m, k', db') \<Longrightarrow>
   \<exists>n1 k1. backfill_tables env opts ts n1 (k1, table_effect opts t db) = (Inr m, k', db')"
  by (auto simp: io_simps save_baseline_def clear_baseline_def requeue_def Let_def table_effect_def
      undo_rows_def requeued_def)

lemma backfill_tables_Inr:
  "backfill_tables env opts ts n (k, db) = (Inr m, k', db') \<Longrightarrow> db' = fold (table_effect opts) ts db"
proof (induction ts arbitrary: n k db)
  case Nil
  then show ?case by simp
next
  case (Cons t ts)
  from backfill_tables_Cons [OF Cons.prems] obtain n1 k1 where
    "backfill_tables env opts ts n1 (k1, table_effect opts t db) = (Inr m, k', db')" by blast
  from Cons.IH [OF this] show ?case by simp
qed

lemma table_effect_simps [simp]:
  "c_sessions (table_effect opts t db) = c_sessions db"
  "c_versions (table_effect opts t db) = c_versions db"
  "in_scope t' opts (table_effect opts t db) = in_scope t' opts db"
  "t' \<noteq> t \<Longrightarrow> scope_ids t' opts (table_effect opts t db) = scope_ids t' opts db"
  "t' \<noteq> t \<Longrightarrow> requeued opts (table_effect opts t db) t' = requeued opts db t'"
  "c_rows (table_effect opts t db) = (c_rows db)(t := requeued opts db t)"
  "c_exclusions (table_effect opts t db) = filter (\<lambda>x. \<not> covered t (scope_ids t opts db) x) (c_exclusions db)"
  by (simp_all add: table_effect_def requeued_def scope_ids_def)

text \<open>
  All three tables: the rows in scope are requeued, the baseline rows of their ids are gone, and every
  one of them is in the undo table unless its key was already there.
\<close>

lemma set_insert_ignore:
  "set tab \<subseteq> set (insert_ignore xs tab) \<and> set (insert_ignore xs tab) \<subseteq> set xs \<union> set tab"
proof (induction xs arbitrary: tab)
  case Nil
  then show ?case by simp
next
  case (Cons x xs)
  from Cons.IH [of "if list_ex (same_key x) tab then tab else tab @ [x]"] show ?case
    by (auto split: if_splits)
qed

lemma insert_ignore_keys:
  "x \<in> set xs \<union> set tab \<Longrightarrow> list_ex (same_key x) (insert_ignore xs tab)"
proof (induction xs arbitrary: tab)
  case Nil
  then show ?case by (auto simp: list_ex_iff same_key_def)
next
  case (Cons y xs)
  let ?tab = "if list_ex (same_key y) tab then tab else tab @ [y]"
  show ?case
  proof (cases "x = y \<and> list_ex (same_key y) tab")
    case True
    then obtain z where z: "z \<in> set tab" "same_key y z" by (auto simp: list_ex_iff)
    with Cons.IH [of ?tab] set_insert_ignore [of ?tab xs] True show ?thesis
      by (auto simp: list_ex_iff)
  next
    case False
    with Cons.prems have "x \<in> set xs \<union> set ?tab" by auto
    from Cons.IH [OF this] show ?thesis by simp
  qed
qed

definition distinct_keys :: "exclusion list \<Rightarrow> bool" where
  "distinct_keys xs \<longleftrightarrow> distinct (map (\<lambda>x. (x_kind x, x_local_id x)) xs)"

lemma same_key_eq: "distinct_keys xs \<Longrightarrow> x \<in> set xs \<Longrightarrow> y \<in> set xs \<Longrightarrow> same_key x y \<Longrightarrow> x = y"
  by (auto simp: distinct_keys_def same_key_def distinct_map dest: inj_onD)

text \<open>When the keys of both lists together determine the rows, nothing is ignored that is not there.\<close>

lemma set_insert_ignore_union:
  assumes "\<And>x y. x \<in> set xs \<union> set tab \<Longrightarrow> y \<in> set xs \<union> set tab \<Longrightarrow> same_key x y \<Longrightarrow> x = y"
  shows "set (insert_ignore xs tab) = set xs \<union> set tab"
proof
  show "set (insert_ignore xs tab) \<subseteq> set xs \<union> set tab" using set_insert_ignore by blast
  show "set xs \<union> set tab \<subseteq> set (insert_ignore xs tab)"
  proof
    fix x assume x: "x \<in> set xs \<union> set tab"
    from insert_ignore_keys [OF this] obtain z where "z \<in> set (insert_ignore xs tab)" "same_key x z"
      by (auto simp: list_ex_iff)
    with x assms set_insert_ignore [of tab xs] show "x \<in> set (insert_ignore xs tab)" by blast
  qed
qed

definition all_effects :: "backfill_opts \<Rightarrow> cdb \<Rightarrow> cdb" where
  "all_effects opts db = fold (table_effect opts) syncTables (db\<lparr>c_undo := Some (undo_rows db)\<rparr>)"

lemma undo_rows_simps [simp]:
  "undo_rows (db\<lparr>c_undo := Some tab\<rparr>) = tab"
  "undo_rows (table_effect opts t db)
     = insert_ignore (filter (covered t (scope_ids t opts db)) (c_exclusions db)) (undo_rows db)"
  by (simp_all add: undo_rows_def table_effect_def)

lemma filter_covered_other:
  "t \<noteq> t' \<Longrightarrow> filter (covered t ids) (filter (\<lambda>x. \<not> covered t' ids' x) xs) = filter (covered t ids) xs"
  using covered_kind [of t ids _ t' ids'] by (induction xs) auto

lemma requeued_undo [simp]: "requeued opts (db\<lparr>c_undo := z\<rparr>) = requeued opts db"
  by (rule ext) (simp add: requeued_def)

lemma all_effects_eq:
  "c_rows (all_effects opts db) = requeued opts db"
  "c_sessions (all_effects opts db) = c_sessions db"
  "c_exclusions (all_effects opts db) = filter (\<lambda>x. \<not> consumed opts db x) (c_exclusions db)"
proof -
  show "c_rows (all_effects opts db) = requeued opts db"
  proof
    fix t
    show "c_rows (all_effects opts db) t = requeued opts db t"
      by (cases t) (simp_all add: all_effects_def syncTables_def)
  qed
  show "c_sessions (all_effects opts db) = c_sessions db" by (simp add: all_effects_def syncTables_def)
  show "c_exclusions (all_effects opts db) = filter (\<lambda>x. \<not> consumed opts db x) (c_exclusions db)"
    by (simp add: all_effects_def syncTables_def consumed_def)
qed

lemma all_effects_undo:
  "undo_rows (all_effects opts db) =
     insert_ignore (filter (covered Prompts (scope_ids Prompts opts db)) (c_exclusions db))
     (insert_ignore (filter (covered Summaries (scope_ids Summaries opts db)) (c_exclusions db))
     (insert_ignore (filter (covered Observations (scope_ids Observations opts db)) (c_exclusions db)) (undo_rows db)))"
  "c_undo (all_effects opts db) \<noteq> None"
proof -
  show "undo_rows (all_effects opts db) =
     insert_ignore (filter (covered Prompts (scope_ids Prompts opts db)) (c_exclusions db))
     (insert_ignore (filter (covered Summaries (scope_ids Summaries opts db)) (c_exclusions db))
     (insert_ignore (filter (covered Observations (scope_ids Observations opts db)) (c_exclusions db)) (undo_rows db)))"
    by (simp add: all_effects_def syncTables_def filter_covered_other del: filter_filter)
  show "c_undo (all_effects opts db) \<noteq> None"
    by (simp add: all_effects_def syncTables_def) (simp add: table_effect_def)
qed

text \<open>What a successful backfill returns and leaves, and that any other outcome leaves the database alone.\<close>

lemma Backfill_at_Inr:
  assumes b: "Backfill env worker opts (k0, db) = (Inr res, k, db')"
  shows "PerTable res t = length (filter (in_scope t opts db) (c_rows db t))"
    "db' = (if bo_DryRun opts then db else all_effects opts db)"
    "bo_Force opts \<or> \<not> worker" "47 \<in> set (c_versions db)"
proof -
  from b have w: "bo_Force opts \<or> \<not> worker" by (auto simp: Backfill_def split: if_splits)
  with b obtain res1 k1 db1 where v: "47 \<in> set (c_versions db)"
    and m: "measure_all env opts syncTables \<lparr>PerTable = (\<lambda>_. 0), br_Bytes = 0, br_Exclusions = 0\<rparr> (Suc k0, db)
      = (Inr res1, k1, db1)"
    and r: "(if bo_DryRun opts then returnI res1
          else bindI (query env (\<lambda>_. ())) (\<lambda>_. bindI (query env (\<lambda>_. ())) (\<lambda>_.
               bindI (transaction env
                   (bindI (prepare_undo env) (\<lambda>_. backfill_tables env opts syncTables 0))) (\<lambda>n.
                 returnI (res1\<lparr>br_Exclusions := n\<rparr>))))) (k1, db1) = (Inr res, k, db')"
    by (auto simp: Backfill_def SchemaVersions_def io_simps split: if_splits)
  have db1: "db1 = db" using measure_all_db [OF m] .
  show "PerTable res t = length (filter (in_scope t opts db) (c_rows db t))"
    using measure_all_count [OF m, of t] r by (auto simp: io_simps split: if_splits)
  show "db' = (if bo_DryRun opts then db else all_effects opts db)"
  proof (cases "bo_DryRun opts")
    case True
    with r db1 show ?thesis by simp
  next
    case False
    with r obtain n k2 k3 where "backfill_tables env opts syncTables 0 (k2, db\<lparr>c_undo := Some (undo_rows db)\<rparr>)
        = (Inr n, k3, db')"
      by (auto simp: io_simps prepare_undo_def db1 undo_rows_def split: option.splits)
    from backfill_tables_Inr [OF this] False show ?thesis by (simp add: all_effects_def)
  qed
  show "bo_Force opts \<or> \<not> worker" by (rule w)
  show "47 \<in> set (c_versions db)" by (rule v)
qed

lemma Backfill_at_Inl:
  assumes b: "Backfill env worker opts (k0, db) = (Inl e, k', db')"
  shows "db' = db"
proof -
  have tx: "db'' = db" if "bindI (transaction env m) (\<lambda>n. returnI (f n)) (k, db) = (Inl e', k', db'')"
    for m :: "(cdb, nat) action" and f :: "nat \<Rightarrow> backfill_result" and k k' e' db''
    using that by (auto simp: bindI_def split: sum.splits prod.splits dest: transaction_Inl)
  from b show ?thesis
    unfolding Backfill_def SchemaVersions_def
    by (auto simp: bindI_def query_def stmt_def split: if_splits sum.splits prod.splits
        dest: measure_all_db transaction_Inl)
qed

lemma Backfill_Inr:
  assumes "run (Backfill env worker opts) db = (Inr res, db')"
  shows "PerTable res t = length (filter (in_scope t opts db) (c_rows db t))"
    "db' = (if bo_DryRun opts then db else all_effects opts db)"
    "bo_Force opts \<or> \<not> worker" "47 \<in> set (c_versions db)"
proof -
  from assms obtain k where b: "Backfill env worker opts (0, db) = (Inr res, k, db')" by (auto simp: run_eq)
  show "PerTable res t = length (filter (in_scope t opts db) (c_rows db t))" by (rule Backfill_at_Inr(1) [OF b])
  show "db' = (if bo_DryRun opts then db else all_effects opts db)" by (rule Backfill_at_Inr(2) [OF b])
  show "bo_Force opts \<or> \<not> worker" by (rule Backfill_at_Inr(3) [OF b])
  show "47 \<in> set (c_versions db)" by (rule Backfill_at_Inr(4) [OF b])
qed

lemma Backfill_Inl: "run (Backfill env worker opts) db = (Inl e, db') \<Longrightarrow> db' = db"
  by (auto simp: run_eq dest: Backfill_at_Inl)

section \<open>What undoing does\<close>

definition has_baseline :: "sync_table \<Rightarrow> exclusion list \<Rightarrow> crow \<Rightarrow> bool" where
  "has_baseline t xs r \<longleftrightarrow> list_ex (\<lambda>x. x_kind x = kind_of t \<and> x_local_id x = id_text (c_id r)) xs"

definition restamped :: "int \<Rightarrow> exclusion list \<Rightarrow> sync_table \<Rightarrow> crow list \<Rightarrow> crow list" where
  "restamped stamp tab t rows =
     update_where (\<lambda>r. c_synced r = None \<and> is_local r \<and> has_baseline t tab r) (\<lambda>r. r\<lparr>c_synced := Some stamp\<rparr>) rows"

lemma restamp_Inr:
  assumes "restamp env stamp t (k, db) = (Inr x, k', db')"
  shows "db' = db\<lparr>c_rows := (c_rows db)(t := restamped stamp (undo_rows db) t (c_rows db t))\<rparr>"
proof -
  have "(id_text (c_id r) \<in> set (map x_local_id (filter (\<lambda>x. x_kind x = kind_of t) tab))) = has_baseline t tab r"
    for r and tab
    by (force simp: has_baseline_def list_ex_iff image_iff)
  with assms show ?thesis
    by (simp add: restamp_def io_simps Let_def restamped_def undo_rows_def [symmetric])
qed

lemma restamp_all_Inr:
  "restamp_all env stamp ts (k, db) = (Inr x, k', db') \<Longrightarrow> distinct ts \<Longrightarrow>
   db' = db\<lparr>c_rows := (\<lambda>t. if t \<in> set ts then restamped stamp (undo_rows db) t (c_rows db t) else c_rows db t)\<rparr>"
proof (induction ts arbitrary: k db)
  case Nil
  then show ?case by simp
next
  case (Cons t ts)
  then obtain k1 db1 y where r: "restamp env stamp t (k, db) = (Inr y, k1, db1)"
    and rest: "restamp_all env stamp ts (k1, db1) = (Inr x, k', db')"
    by (auto simp: io_simps)
  note db1 = restamp_Inr [OF r]
  have "undo_rows db1 = undo_rows db" by (simp add: db1 undo_rows_def)
  with Cons.IH [OF rest] Cons.prems(2) show ?case
    by (auto simp: db1 fun_eq_iff intro!: cdb.equality)
qed

lemma UndoBackfill_Inr:
  assumes "run (UndoBackfill env) db = (Inr n, db')"
  shows "c_rows db' = (\<lambda>t. restamped (env_now env) (undo_rows db) t (c_rows db t))"
    "c_exclusions db' = insert_ignore (undo_rows db) (c_exclusions db)" "c_undo db' = None"
    "c_undo db \<noteq> None"
proof -
  from assms obtain k tab k1 k2 db1 x where u: "c_undo db = Some tab"
    and rs: "restamp_all env (env_now env) syncTables
        (k1, db\<lparr>c_exclusions := insert_ignore (undo_rows db) (c_exclusions db)\<rparr>) = (Inr x, k2, db1)"
    and db': "db' = db1\<lparr>c_undo := None\<rparr>"
    by (auto simp: run_eq UndoBackfill_def restore_baseline_def io_simps Let_def undo_rows_def
        split: option.splits)
  have "undo_rows (db\<lparr>c_exclusions := y\<rparr>) = undo_rows db" for y by (simp add: undo_rows_def)
  moreover have "distinct syncTables" by (simp add: syncTables_def)
  ultimately show "c_rows db' = (\<lambda>t. restamped (env_now env) (undo_rows db) t (c_rows db t))"
    "c_exclusions db' = insert_ignore (undo_rows db) (c_exclusions db)" "c_undo db' = None" "c_undo db \<noteq> None"
    using restamp_all_Inr [OF rs] db' u by simp_all
qed

lemma UndoBackfill_ok:
  assumes "\<And>k. \<not> env_fault env k" "c_undo db \<noteq> None"
  shows "\<exists>n db'. run (UndoBackfill env) db = (Inr n, db')"
proof -
  have "\<exists>k' db'. restamp_all env stamp ts (k, db0) = (Inr (), k', db')" for stamp ts k db0
  proof (induction ts arbitrary: k db0)
    case (Cons t ts)
    then show ?case using assms(1) by (simp add: bindI_def restamp_def)
  qed simp
  then obtain k' db' where "restamp_all env (env_now env) syncTables
      (3, db\<lparr>c_exclusions := insert_ignore (undo_rows db) (c_exclusions db)\<rparr>) = (Inr (), k', db')" by blast
  with assms show ?thesis
    by (auto simp: run_def UndoBackfill_def bindI_def transaction_def restore_baseline_def Let_def undo_rows_def
        numeral_3_eq_3 split: option.splits)
qed

lemma UndoBackfill_Inl: "run (UndoBackfill env) db = (Inl e, db') \<Longrightarrow> db' = db"
  by (auto simp: run_eq UndoBackfill_def bindI_def query_def stmt_def
      split: if_splits sum.splits prod.splits option.splits dest: transaction_Inl)

section \<open>Backfill, then undo\<close>

lemma undo_rows_set:
  assumes "c_undo db = None" "distinct_keys (c_exclusions db)"
  shows "set (undo_rows (all_effects opts db)) = {x \<in> set (c_exclusions db). consumed opts db x}"
proof -
  have d: "\<And>x y. x \<in> set (c_exclusions db) \<Longrightarrow> y \<in> set (c_exclusions db) \<Longrightarrow> same_key x y \<Longrightarrow> x = y"
    using same_key_eq [OF assms(2)] .
  let ?f = "\<lambda>t. filter (covered t (scope_ids t opts db)) (c_exclusions db)"
  have a: "set (insert_ignore (?f Observations) []) = set (?f Observations)"
    using d by (subst set_insert_ignore_union) auto
  have b: "set (insert_ignore (?f Summaries) (insert_ignore (?f Observations) []))
      = set (?f Summaries) \<union> set (?f Observations)"
    using d a by (subst set_insert_ignore_union) auto
  have c: "set (insert_ignore (?f Prompts) (insert_ignore (?f Summaries) (insert_ignore (?f Observations) [])))
      = set (?f Prompts) \<union> (set (?f Summaries) \<union> set (?f Observations))"
    using d b by (subst set_insert_ignore_union) auto
  have "undo_rows db = []" using assms(1) by (simp add: undo_rows_def)
  then have "set (undo_rows (all_effects opts db)) = set (?f Prompts) \<union> (set (?f Summaries) \<union> set (?f Observations))"
    using c by (simp add: all_effects_undo(1))
  then show ?thesis by (auto simp: consumed_def syncTables_def)
qed

lemma undo_restores_baseline:
  assumes "c_undo db = None" "distinct_keys (c_exclusions db)"
  shows "set (insert_ignore (undo_rows (all_effects opts db)) (c_exclusions (all_effects opts db)))
    = set (c_exclusions db)"
proof -
  note u = undo_rows_set [OF assms, of opts]
  have "set (insert_ignore (undo_rows (all_effects opts db)) (c_exclusions (all_effects opts db)))
      = set (undo_rows (all_effects opts db)) \<union> set (c_exclusions (all_effects opts db))"
    using same_key_eq [OF assms(2)] u by (intro set_insert_ignore_union) (auto simp: all_effects_eq)
  then show ?thesis using u by (auto simp: all_effects_eq)
qed

text \<open>A row in scope comes back stamped when the baseline covered it, and unstamped when it did not.\<close>

lemma undo_restamps:
  assumes "c_undo db = None" "distinct_keys (c_exclusions db)"
    and "i < length (c_rows db t)" "in_scope t opts db (c_rows db t ! i)"
  shows "restamped stamp (undo_rows (all_effects opts db)) t (c_rows (all_effects opts db) t) ! i
    = (c_rows db t ! i)\<lparr>c_synced := (if has_baseline t (c_exclusions db) (c_rows db t ! i) then Some stamp else None)\<rparr>"
proof -
  let ?r = "c_rows db t ! i"
  have "id_text (c_id ?r) \<in> set (scope_ids t opts db)"
    using assms(3,4) by (auto simp: scope_ids_def)
  then have "consumed opts db x" if "x_kind x = kind_of t" "x_local_id x = id_text (c_id ?r)" for x
    unfolding consumed_def list_ex_iff covered_def using that in_syncTables [of t] by metis
  then have "has_baseline t (undo_rows (all_effects opts db)) ?r = has_baseline t (c_exclusions db) ?r"
    unfolding has_baseline_def list_ex_iff undo_rows_set [OF assms(1,2)] by auto
  moreover have "has_baseline t xs (?r\<lparr>c_synced := y\<rparr>) = has_baseline t xs ?r" for xs y
    by (simp add: has_baseline_def)
  moreover have "is_local ?r" using assms(4) by (simp add: in_scope_def)
  ultimately show ?thesis
    using assms(3,4) by (simp add: restamped_def all_effects_eq requeued_def update_where_def is_local_def)
qed

section \<open>Properties of the backfill\<close>

definition sample_row :: "int \<Rightarrow> bytes \<Rightarrow> crow" where
  "sample_row i project = \<lparr>c_id = i, c_synced = Some 9, c_origin = None, c_project = Some project, c_session = 1, c_length = 10\<rparr>"

definition sample_cdb :: cdb where
  "sample_cdb = \<lparr>c_rows = (\<lambda>t. if t = Observations then [sample_row 1 ''a'', sample_row 2 ''b''] else []),
     c_sessions = [], c_exclusions = [\<lparr>x_kind = ''observation'', x_local_id = ''1'', x_rev = ''3''\<rparr>],
     c_undo = None, c_versions = [47]\<rparr>"

definition only_a :: backfill_opts where
  "only_a = \<lparr>bo_DryRun = False, bo_Force = False, bo_Project = ''a'', bo_Excluded = []\<rparr>"

definition calm :: env where
  "calm = \<lparr>env_now = 50, env_fault = (\<lambda>_. False), env_hook = None, env_rand_id = None, env_rand_epoch = None\<rparr>"

lemma sample_backfill:
  obtains res db' where "run (Backfill calm False only_a) sample_cdb = (Inr res, db')"
proof -
  have "\<exists>res db'. run (Backfill calm False only_a) sample_cdb = (Inr res, db')"
    by (simp add: run_def Backfill_def SchemaVersions_def bindI_def calm_def syncTables_def measure_table_def
        transaction_def prepare_undo_def save_baseline_def clear_baseline_def requeue_def Let_def)
      (simp add: sample_cdb_def only_a_def)
  with that show thesis by blast
qed

lemma sample_cdb_simps [simp]:
  "c_rows sample_cdb Observations = [sample_row 1 ''a'', sample_row 2 ''b'']" "c_undo sample_cdb = None"
  "distinct_keys (c_exclusions sample_cdb)" "bo_DryRun only_a = False"
  by (simp_all add: sample_cdb_def distinct_keys_def only_a_def)

lemma sample_scope [simp]:
  "in_scope Observations only_a sample_cdb (sample_row 1 ''a'')"
  "\<not> in_scope Observations only_a sample_cdb (sample_row 2 ''b'')"
  by (simp_all add: in_scope_def is_local_def filterFor_def project_expr_def only_a_def sample_row_def)

text \<open>
  C25: a backfill requeues exactly the rows in scope. When it succeeds (and was not a dry run) every local
  row that the project filters select is marked unsent, and every other row, a row received from
  another device in particular, is as it was; the reported count is the number selected; the
  baseline loses exactly the entries of selected rows. It ran only with the worker stopped or by force.
\<close>

theorem backfill_requeues_exactly_the_scope:
  assumes "run (Backfill env worker opts) db = (Inr res, db')" "\<not> bo_DryRun opts"
  shows "PerTable res t = length (filter (in_scope t opts db) (c_rows db t))
    \<and> length (c_rows db' t) = length (c_rows db t)
    \<and> (\<forall>i < length (c_rows db t). c_rows db' t ! i =
           (if in_scope t opts db (c_rows db t ! i) then (c_rows db t ! i)\<lparr>c_synced := None\<rparr> else c_rows db t ! i))
    \<and> c_exclusions db' = filter (\<lambda>x. \<not> consumed opts db x) (c_exclusions db)
    \<and> (bo_Force opts \<or> \<not> worker)"
  using Backfill_Inr [OF assms(1)] assms(2)
  by (simp add: all_effects_eq requeued_def update_where_def)

theorem backfill_requeues_exactly_the_scope_witness:
  "\<exists>res db'. run (Backfill calm False only_a) sample_cdb = (Inr res, db') \<and> PerTable res Observations = 1
    \<and> c_rows db' Observations ! 0 = (sample_row 1 ''a'')\<lparr>c_synced := None\<rparr>
    \<and> c_rows db' Observations ! 1 = sample_row 2 ''b''"
proof -
  obtain res db' where r: "run (Backfill calm False only_a) sample_cdb = (Inr res, db')" by (rule sample_backfill)
  have nd: "\<not> bo_DryRun only_a" by simp
  have p: "PerTable res Observations = 1" "\<forall>i < 2. c_rows db' Observations ! i =
      (if in_scope Observations only_a sample_cdb (c_rows sample_cdb Observations ! i)
       then (c_rows sample_cdb Observations ! i)\<lparr>c_synced := None\<rparr> else c_rows sample_cdb Observations ! i)"
    using backfill_requeues_exactly_the_scope [OF r nd, of Observations] by simp_all
  show ?thesis using r p(1) p(2) [rule_format, of 0] p(2) [rule_format, of 1] by auto
qed

text \<open>
  An unsuccessful or dry backfill writes nothing. Whichever call fails, at whatever point, the rows,
  the baseline and the undo table are exactly as they were; so are they after a dry run.
\<close>

theorem unsuccessful_backfill_writes_nothing:
  assumes "run (Backfill env worker opts) db = (r, db')" "bo_DryRun opts \<or> (\<exists>e. r = Inl e)"
  shows "db' = db"
proof (cases r)
  case (Inl e)
  with assms(1) Backfill_Inl show ?thesis by blast
next
  case (Inr res)
  with assms(2) Backfill_Inr(2) [OF assms(1) [unfolded Inr]] show ?thesis by simp
qed

theorem unsuccessful_backfill_writes_nothing_witness:
  "run (Backfill calm True only_a) sample_cdb = (Inl ErrWorkerRunning, sample_cdb)"
proof -
  have r: "fst (run (Backfill calm True only_a) sample_cdb) = Inl ErrWorkerRunning"
    by (simp add: Backfill_def run_def only_a_def)
  obtain x db' where q: "run (Backfill calm True only_a) sample_cdb = (x, db')" by fastforce
  with r unsuccessful_backfill_writes_nothing [OF q] show ?thesis by simp
qed

text \<open>
  Undoing restores the baseline, but not every stamp. After a backfill and an undo the baseline holds
  the entries it held before, and the undo table is gone. A row that the backfill had requeued comes
  back stamped as sent if the baseline had an entry for it; a row without an entry, one that was
  uploaded before, stays marked unsent and will be sent again.
\<close>

theorem undo_restores_baseline_not_stamps:
  assumes "run (Backfill env worker opts) db = (Inr res, db1)" "\<not> bo_DryRun opts"
    and "run (UndoBackfill env') db1 = (Inr n, db2)"
    and "c_undo db = None" "distinct_keys (c_exclusions db)"
  shows "set (c_exclusions db2) = set (c_exclusions db) \<and> c_undo db2 = None
    \<and> (\<forall>i < length (c_rows db t). in_scope t opts db (c_rows db t ! i) \<longrightarrow>
      c_synced (c_rows db2 t ! i) =
        (if has_baseline t (c_exclusions db) (c_rows db t ! i) then Some (env_now env') else None))"
proof -
  have db1: "db1 = all_effects opts db" using Backfill_Inr(2) [OF assms(1)] assms(2) by simp
  note u = UndoBackfill_Inr [OF assms(3)]
  have "set (c_exclusions db2) = set (c_exclusions db)"
    using u(2) undo_restores_baseline [OF assms(4,5)] db1 by simp
  moreover note u(3)
  moreover have "c_synced (c_rows db2 t ! i) =
        (if has_baseline t (c_exclusions db) (c_rows db t ! i) then Some (env_now env') else None)"
    if "i < length (c_rows db t)" "in_scope t opts db (c_rows db t ! i)" for i
    using undo_restamps [OF assms(4,5) that, of "env_now env'"] u(1) db1 by simp
  ultimately show ?thesis by blast
qed

theorem undo_restores_baseline_not_stamps_witness:
  "\<exists>res db1 n db2. run (Backfill calm False only_a) sample_cdb = (Inr res, db1)
    \<and> run (UndoBackfill calm) db1 = (Inr n, db2) \<and> c_undo db2 = None
    \<and> c_synced (c_rows db2 Observations ! 0) = Some 50"
proof -
  obtain res db1 where r: "run (Backfill calm False only_a) sample_cdb = (Inr res, db1)" by (rule sample_backfill)
  then have "c_undo db1 \<noteq> None" using Backfill_Inr(2) [OF r] all_effects_undo(2) by simp
  then obtain n db2 where u: "run (UndoBackfill calm) db1 = (Inr n, db2)"
    using UndoBackfill_ok [of calm db1] by (auto simp: calm_def)
  have b: "has_baseline Observations (c_exclusions sample_cdb) (sample_row 1 ''a'')"
  proof -
    have "id_text 1 = ''1''" by (simp add: id_text_def format_nat.simps [of 1] digit_char_def) code_simp
    then show ?thesis by (simp add: has_baseline_def sample_cdb_def sample_row_def)
  qed
  have nd: "\<not> bo_DryRun only_a" by simp
  note p = undo_restores_baseline_not_stamps [OF r nd u sample_cdb_simps(2,3)]
  have "c_synced (c_rows db2 Observations ! 0) = Some 50"
    using p [of Observations] b by (auto simp: calm_def)
  with r u p show ?thesis by blast
qed

end
