(* ===== verification/Netip.thy ===== *)
theory Netip
  imports Net Dec JsonStruct
begin

text \<open>
  The parts of Go's \<open>net/netip\<close> that \<open>internal/hub/bind.go\<close> relies on: parsing addresses and
  prefixes, the classification predicates and prefix containment. An address is its value and, for
  version 6, its zone. As in current Go, the predicates look through an IPv4-mapped IPv6 address,
  while \<open>Contains\<close> and \<open>IsUnspecified\<close> do not.
\<close>

datatype ip_addr = V4 nat | V6 nat bytes

section \<open>ParseAddr\<close>

definition parse_octet :: "bytes \<Rightarrow> nat option" where
  "parse_octet s =
     (if \<not> isCanonicalDecimal s then None
      else case parse_uint s of Inl _ \<Rightarrow> None | Inr n \<Rightarrow> if n \<le> 255 then Some n else None)"

definition parse_v4 :: "bytes \<Rightarrow> nat option" where
  "parse_v4 s =
     (case map parse_octet (split_on CHR ''.'' s) of
        [Some a, Some b, Some c, Some d] \<Rightarrow> Some (((a * 256 + b) * 256 + c) * 256 + d)
      | _ \<Rightarrow> None)"

definition hex_group :: "bytes \<Rightarrow> nat" where
  "hex_group s = foldl (\<lambda>a c. a * 16 + hex_val c) 0 s"

text \<open>
  The loop over the colon-separated groups; the first argument counts the groups that may still come,
  \<open>acc\<close> are the groups read, \<open>ell\<close> is where the double colon stood.
\<close>

fun v6_loop :: "nat \<Rightarrow> bytes \<Rightarrow> nat list \<Rightarrow> nat option \<Rightarrow> (nat list \<times> nat option \<times> bytes) option" where
  "v6_loop 0 s acc ell = Some (acc, ell, s)"
| "v6_loop (Suc n) s acc ell =
     (let ds = takeWhile is_hex s; rest = dropWhile is_hex s in
      if ds = [] \<or> length ds > 4 then None
      else if rest \<noteq> [] \<and> hd rest = CHR ''.'' then
        (if (ell = None \<and> length acc \<noteq> 6) \<or> length acc > 6 then None
         else case parse_v4 s of
           None \<Rightarrow> None
         | Some v \<Rightarrow> Some (acc @ [v div 65536, v mod 65536], ell, []))
      else
        let acc' = acc @ [hex_group ds] in
        if rest = [] then Some (acc', ell, [])
        else if hd rest \<noteq> CHR '':'' \<or> tl rest = [] then None
        else if hd (tl rest) = CHR '':'' then
          (if ell \<noteq> None then None
           else if tl (tl rest) = [] then Some (acc', Some (length acc'), [])
           else v6_loop n (tl (tl rest)) acc' (Some (length acc')))
        else v6_loop n (tl rest) acc' ell)"

definition expand_v6 :: "nat list \<times> nat option \<times> bytes \<Rightarrow> nat option" where
  "expand_v6 = (\<lambda>(acc, ell, s).
     if s \<noteq> [] then None
     else let groups =
         (if length acc < 8 then
            (case ell of
               None \<Rightarrow> None
             | Some i \<Rightarrow> Some (take i acc @ replicate (8 - length acc) 0 @ drop i acc))
          else if ell \<noteq> None then None else Some acc)
       in map_option (foldl (\<lambda>a g. a * 65536 + g) 0) groups)"

definition parse_v6 :: "bytes \<Rightarrow> ip_addr option" where
  "parse_v6 s0 =
     (case (case cut_first CHR ''%'' s0 of None \<Rightarrow> Some (s0, []) | Some (a, z) \<Rightarrow> if z = [] then None else Some (a, z)) of
        None \<Rightarrow> None
      | Some (s, zone) \<Rightarrow>
          if has_prefix ''::'' s then
            (if length s = 2 then Some (V6 0 zone)
             else map_option (\<lambda>v. V6 v zone) (Option.bind (v6_loop 8 (drop 2 s) [] (Some 0)) expand_v6))
          else map_option (\<lambda>v. V6 v zone) (Option.bind (v6_loop 8 s [] None) expand_v6))"

definition ParseAddr :: "bytes \<Rightarrow> ip_addr option" where
  "ParseAddr s =
     (case find (\<lambda>c. c \<in> {CHR ''.'', CHR '':'', CHR ''%''}) s of
        Some c \<Rightarrow>
          if c = CHR ''.'' then map_option V4 (parse_v4 s)
          else if c = CHR '':'' then parse_v6 s
          else None
      | None \<Rightarrow> None)"

section \<open>Classification\<close>

definition Is4In6 :: "nat \<Rightarrow> bool" where
  "Is4In6 v \<longleftrightarrow> v div 2 ^ 32 = 0xFFFF"

definition Unmap :: "ip_addr \<Rightarrow> ip_addr" where
  "Unmap a = (case a of V4 v \<Rightarrow> V4 v | V6 v z \<Rightarrow> if Is4In6 v then V4 (v mod 2 ^ 32) else V6 v z)"

definition IsUnspecified :: "ip_addr \<Rightarrow> bool" where
  "IsUnspecified a \<longleftrightarrow> a = V4 0 \<or> a = V6 0 []"

fun loopback_raw :: "ip_addr \<Rightarrow> bool" where
  "loopback_raw (V4 v) \<longleftrightarrow> v div 2 ^ 24 = 127"
| "loopback_raw (V6 v z) \<longleftrightarrow> v = 1"

fun private_raw :: "ip_addr \<Rightarrow> bool" where
  "private_raw (V4 v) \<longleftrightarrow> v div 2 ^ 24 = 10 \<or> v div 2 ^ 20 = 172 * 16 + 1 \<or> v div 2 ^ 16 = 192 * 256 + 168"
| "private_raw (V6 v z) \<longleftrightarrow> v div 2 ^ 121 = 0xFC div 2"

fun link_local_raw :: "ip_addr \<Rightarrow> bool" where
  "link_local_raw (V4 v) \<longleftrightarrow> v div 2 ^ 16 = 169 * 256 + 254"
| "link_local_raw (V6 v z) \<longleftrightarrow> v div 2 ^ 118 = 0xFE80 div 64"

text \<open>For version 6 only the flags nibble of the first group is free: \<open>ffX2\<close>.\<close>

fun link_multicast_raw :: "ip_addr \<Rightarrow> bool" where
  "link_multicast_raw (V4 v) \<longleftrightarrow> v div 2 ^ 8 = (224 * 256 + 0) * 256 + 0"
| "link_multicast_raw (V6 v z) \<longleftrightarrow> v div 2 ^ 120 = 0xFF \<and> v div 2 ^ 112 mod 16 = 2"

definition IsLoopback :: "ip_addr \<Rightarrow> bool" where "IsLoopback a \<longleftrightarrow> loopback_raw (Unmap a)"
definition IsPrivate :: "ip_addr \<Rightarrow> bool" where "IsPrivate a \<longleftrightarrow> private_raw (Unmap a)"
definition IsLinkLocalUnicast :: "ip_addr \<Rightarrow> bool" where "IsLinkLocalUnicast a \<longleftrightarrow> link_local_raw (Unmap a)"
definition IsLinkLocalMulticast :: "ip_addr \<Rightarrow> bool" where "IsLinkLocalMulticast a \<longleftrightarrow> link_multicast_raw (Unmap a)"

section \<open>Prefixes\<close>

record ip_prefix =
  px_addr :: ip_addr
  px_bits :: nat

definition ParsePrefix :: "bytes \<Rightarrow> ip_prefix option" where
  "ParsePrefix s =
     (case cut_last CHR ''/'' s of
        None \<Rightarrow> None
      | Some (host, bits) \<Rightarrow>
          (case ParseAddr host of
             None \<Rightarrow> None
           | Some a \<Rightarrow>
               if (case a of V4 _ \<Rightarrow> False | V6 _ z \<Rightarrow> z \<noteq> []) then None
               else if length bits > 1 \<and> \<not> (CHR ''1'' \<le> hd bits \<and> hd bits \<le> CHR ''9'') then None
               else (case Atoi bits of
                 None \<Rightarrow> None
               | Some n \<Rightarrow>
                   if n < 0 \<or> n > (case a of V4 _ \<Rightarrow> 32 | V6 _ _ \<Rightarrow> 128) then None
                   else Some \<lparr>px_addr = a, px_bits = nat n\<rparr>)))"

definition same_bits :: "nat \<Rightarrow> nat \<Rightarrow> nat \<Rightarrow> nat \<Rightarrow> bool" where
  "same_bits width bits x y \<longleftrightarrow> x div 2 ^ (width - bits) = y div 2 ^ (width - bits)"

definition Contains :: "ip_prefix \<Rightarrow> ip_addr \<Rightarrow> bool" where
  "Contains p a =
     (case (px_addr p, a) of
        (V4 x, V4 y) \<Rightarrow> same_bits 32 (px_bits p) x y
      | (V6 x _, V6 y z) \<Rightarrow> z = [] \<and> same_bits 128 (px_bits p) x y
      | _ \<Rightarrow> False)"

lemma parse_octet_le: "parse_octet s = Some n \<Longrightarrow> n \<le> 255"
  by (auto simp: parse_octet_def split: if_splits sum.splits)

lemma parse_v4_bound: "parse_v4 s = Some v \<Longrightarrow> v < 2 ^ 32"
proof -
  assume "parse_v4 s = Some v"
  then obtain a b c d where m: "map parse_octet (split_on CHR ''.'' s) = [Some a, Some b, Some c, Some d]"
    and v: "v = ((a * 256 + b) * 256 + c) * 256 + d"
    by (auto simp: parse_v4_def split: list.splits option.splits)
  have "\<forall>x \<in> set (map parse_octet (split_on CHR ''.'' s)). \<forall>n. x = Some n \<longrightarrow> n \<le> 255"
    using parse_octet_le by auto
  then have "a \<le> 255" "b \<le> 255" "c \<le> 255" "d \<le> 255" unfolding m by simp_all
  then show ?thesis unfolding v by simp
qed

end
