(* ===== verification/Bind.thy ===== *)
theory Bind
  imports Netip
begin

text \<open>
  \<open>internal/hub/bind.go\<close>: which addresses the hub may bind, which peers it serves, and the listener
  that closes the others at accept time.
\<close>

datatype bind_error = EmptyBind | NotHostPort | ErrPublicBind | NotAnIP | BadPort

definition DefaultAllowedCIDRs :: "bytes list" where
  "DefaultAllowedCIDRs =
     [''127.0.0.0/8'', ''::1/128'', ''10.0.0.0/8'', ''172.16.0.0/12'', ''192.168.0.0/16'',
      ''100.64.0.0/10'', ''169.254.0.0/16'', ''fe80::/10'', ''fc00::/7'']"

definition cgnat :: ip_prefix where
  "cgnat = \<lparr>px_addr = V4 ((100 * 256 + 64) * 2 ^ 16), px_bits = 10\<rparr>"

definition ula :: ip_prefix where
  "ula = \<lparr>px_addr = V6 (0xFC00 * 2 ^ 112) [], px_bits = 7\<rparr>"

definition isLocalish :: "ip_addr \<Rightarrow> bool" where
  "isLocalish a \<longleftrightarrow>
     IsLoopback a \<or> IsPrivate a \<or> IsLinkLocalUnicast a \<or> IsLinkLocalMulticast a
     \<or> Contains cgnat a \<or> Contains ula a"

text \<open>\<open>strings.Trim(host, "[]")\<close>.\<close>

definition trim_brackets :: "bytes \<Rightarrow> bytes" where
  "trim_brackets s =
     (let p = (\<lambda>c. c = CHR ''['' \<or> c = CHR '']'') in rev (dropWhile p (rev (dropWhile p s))))"

definition parse_port :: "bytes \<Rightarrow> nat option" where
  "parse_port s = (case parse_uint s of Inl _ \<Rightarrow> None | Inr n \<Rightarrow> if n \<le> 65535 then Some n else None)"

text \<open>
  \<open>ParseAddrPort\<close> of the address printed again gives back the address (\<open>netip\<close> documents that
  \<open>String\<close> and \<open>ParseAddr\<close> round-trip), so only the port can fail there.
\<close>

definition ClassifyBind :: "bytes \<Rightarrow> bool \<Rightarrow> bind_error + ip_addr \<times> nat" where
  "ClassifyBind bind allowPublic =
     (if bind = [] then Inl EmptyBind
      else case SplitHostPort bind of
        None \<Rightarrow> Inl NotHostPort
      | Some (host0, port) \<Rightarrow>
          if trim_space host0 = [] \<and> \<not> allowPublic then Inl ErrPublicBind
          else
            let host = (if trim_space host0 = [] then ''0.0.0.0'' else host0) in
            case ParseAddr (trim_brackets host) of
              None \<Rightarrow> Inl NotAnIP
            | Some addr \<Rightarrow>
                (case parse_port port of
                   None \<Rightarrow> Inl BadPort
                 | Some n \<Rightarrow>
                     if allowPublic then Inr (addr, n)
                     else if IsUnspecified addr then Inl ErrPublicBind
                     else if isLocalish addr then Inr (addr, n)
                     else Inl ErrPublicBind))"

section \<open>Peers\<close>

fun parse_prefixes :: "bytes list \<Rightarrow> ip_prefix list option" where
  "parse_prefixes [] = Some []"
| "parse_prefixes (part # parts) =
     (let p = trim_space part in
      if p = [] then parse_prefixes parts
      else case ParsePrefix p of
        None \<Rightarrow> None
      | Some px \<Rightarrow> map_option ((#) px) (parse_prefixes parts))"

definition ParseCIDRList :: "bytes \<Rightarrow> ip_prefix list option" where
  "ParseCIDRList s0 =
     (let s = (if trim_space s0 = [] then join_with CHR '','' DefaultAllowedCIDRs else s0) in
      case parse_prefixes (split_on CHR '','' s) of
        None \<Rightarrow> None
      | Some out \<Rightarrow> if out = [] then None else Some out)"

datatype net_addr = TCPAddr bytes | OtherAddr bytes

definition be_value :: "bytes \<Rightarrow> nat" where
  "be_value b = foldl (\<lambda>a c. a * 256 + byte_val c) 0 b"

definition addrOf :: "net_addr \<Rightarrow> ip_addr option" where
  "addrOf a =
     (case a of
        TCPAddr ip \<Rightarrow>
          if length ip = 4 then Some (V4 (be_value ip))
          else if length ip = 16 then Some (V6 (be_value ip) []) else None
      | OtherAddr s \<Rightarrow>
          (case SplitHostPort s of None \<Rightarrow> None | Some (host, _) \<Rightarrow> ParseAddr host))"

definition AllowCIDR :: "ip_prefix list \<Rightarrow> net_addr \<Rightarrow> bool" where
  "AllowCIDR prefixes a =
     (case addrOf a of
        None \<Rightarrow> False
      | Some addr \<Rightarrow> list_ex (\<lambda>p. Contains p (Unmap addr)) prefixes)"

text \<open>
  \<open>Accept\<close> over what the underlying listener returns: a connection, or an error. The result is the
  connection served or the error, with the connections closed before it and what is left to accept;
  \<open>None\<close> when the listener has nothing more to give yet.
\<close>

fun Accept :: "(net_addr \<Rightarrow> bool) option \<Rightarrow> (unit + net_addr) list \<Rightarrow> ((unit + net_addr) \<times> net_addr list \<times> (unit + net_addr) list) option" where
  "Accept allow [] = None"
| "Accept allow (Inl e # rest) = Some (Inl e, [], rest)"
| "Accept allow (Inr c # rest) =
     (if (case allow of None \<Rightarrow> True | Some ok \<Rightarrow> ok c) then Some (Inr c, [], rest)
      else map_option (\<lambda>(r, dropped, rest'). (r, c # dropped, rest')) (Accept allow rest))"

section \<open>What may be bound\<close>

text \<open>The local ranges, by value.\<close>

definition local_v4 :: "nat \<Rightarrow> bool" where
  "local_v4 v \<longleftrightarrow>
     v div 2 ^ 24 \<in> {10, 127} \<or> v div 2 ^ 16 \<in> {0xC0A8, 0xA9FE} \<or> v div 2 ^ 20 = 0xAC1
     \<or> v div 2 ^ 22 = 0x191 \<or> v div 2 ^ 8 = 0xE00000"

definition local_v6 :: "nat \<Rightarrow> bool" where
  "local_v6 v \<longleftrightarrow>
     v = 1 \<or> v div 2 ^ 121 = 0x7E \<or> v div 2 ^ 118 = 0x3FA \<or> (v div 2 ^ 120 = 0xFF \<and> v div 2 ^ 112 mod 16 = 2)"

definition local_addr :: "ip_addr \<Rightarrow> bool" where
  "local_addr a = (case Unmap a of V4 v \<Rightarrow> local_v4 v | V6 v _ \<Rightarrow> local_v6 v)"

lemma mapped_not_ula: "Is4In6 v \<Longrightarrow> v div 2658455991569831745807614120560689152 = 0"
proof -
  assume "Is4In6 v"
  then have "v div 2 ^ 32 div 2 ^ 89 = 0" by (simp add: Is4In6_def)
  then have "v div 2 ^ (32 + 89) = 0" by (simp only: div_exp_eq)
  then show ?thesis by simp
qed

lemma isLocalish_local: "isLocalish a \<Longrightarrow> local_addr a"
  by (cases a)
    (auto simp: isLocalish_def IsLoopback_def IsPrivate_def IsLinkLocalUnicast_def IsLinkLocalMulticast_def
      Contains_def cgnat_def ula_def same_bits_def local_addr_def local_v4_def local_v6_def Unmap_def
      split: if_splits dest: mapped_not_ula)

lemma local_not_zero: "local_addr a \<Longrightarrow> a \<noteq> V4 0 \<and> a \<noteq> V6 0 z"
  by (auto simp: local_addr_def Unmap_def Is4In6_def local_v4_def local_v6_def)

lemma ClassifyBind_Inr:
  "ClassifyBind bind allowPublic = Inr (a, n) \<Longrightarrow>
   n \<le> 65535 \<and> (\<not> allowPublic \<longrightarrow> isLocalish a \<and> \<not> IsUnspecified a)"
  by (auto simp: ClassifyBind_def parse_port_def Let_def split: if_splits option.splits sum.splits prod.splits)

section \<open>Accepting\<close>

lemma Accept_served:
  "Accept allow conns = Some (Inr c, dropped, rest) \<Longrightarrow>
   (case allow of None \<Rightarrow> True | Some ok \<Rightarrow> ok c)
   \<and> conns = map Inr dropped @ Inr c # rest
   \<and> list_all (\<lambda>d. case allow of None \<Rightarrow> False | Some ok \<Rightarrow> \<not> ok d) dropped"
  by (induction allow conns arbitrary: dropped rule: Accept.induct)
    (auto split: if_splits option.splits)

lemma be_value_zeros: "be_value (replicate n (CHR 0x00) @ xs) = be_value xs"
  by (induction n) (simp_all add: be_value_def)

lemma unmap_mapped: "(v::nat) < 2 ^ 32 \<Longrightarrow> Unmap (V6 (0xFFFF * 2 ^ 32 + v) z) = V4 v"
proof -
  assume v: "v < 2 ^ 32"
  have "(0xFFFF * 2 ^ 32 + v) div 2 ^ 32 = 0xFFFF"
    by (rule div_nat_eqI) (use v in simp_all)
  moreover have "(0xFFFF * 2 ^ 32 + v) mod 2 ^ 32 = v"
    using v by (simp only: mod_mult_self3 mod_less)
  ultimately show ?thesis unfolding Unmap_def Is4In6_def ip_addr.case by (simp only: if_True simp_thms)
qed

lemma AllowCIDR_unmap:
  assumes "length ip = 4"
  shows "AllowCIDR ps (TCPAddr (replicate 10 (CHR 0x00) @ [CHR 0xFF, CHR 0xFF] @ ip)) = AllowCIDR ps (TCPAddr ip)"
proof -
  obtain a b c d where ip: "ip = [a, b, c, d]"
    using assms by (auto simp: length_Suc_conv numeral_eq_Suc)
  define v where "v = ((byte_val a * 256 + byte_val b) * 256 + byte_val c) * 256 + byte_val d"
  have v: "v < 2 ^ 32"
    using byte_val_le [of a] byte_val_le [of b] byte_val_le [of c] byte_val_le [of d] by (simp add: v_def)
  have m: "be_value (replicate 10 (CHR 0x00) @ [CHR 0xFF, CHR 0xFF] @ ip) = 0xFFFF * 2 ^ 32 + v"
    unfolding be_value_zeros by (simp add: be_value_def ip v_def)
  have l: "length (replicate 10 (CHR 0x00) @ [CHR 0xFF, CHR 0xFF] @ ip) = 16" by (simp add: ip)
  have "be_value ip = v" by (simp add: be_value_def ip v_def)
  moreover have "Unmap (V4 v) = V4 v" by (simp add: Unmap_def)
  ultimately show ?thesis
    using assms l unmap_mapped [OF v, of "[]"]
    by (simp only: AllowCIDR_def addrOf_def net_addr.case m) simp
qed

section \<open>Properties of binding and accepting\<close>

text \<open>
  C24: the hub never binds a public address unasked. Without the explicit override, an accepted bind
  address is a loopback, private, link-local, carrier-grade NAT or unique-local address, never the
  wildcard in any spelling, and its port fits in 16 bits.
\<close>

theorem bind_is_local:
  assumes "ClassifyBind bind False = Inr (a, n)"
  shows "local_addr a \<and> a \<noteq> V4 0 \<and> a \<noteq> V6 0 z \<and> n \<le> 65535"
  using ClassifyBind_Inr [OF assms] isLocalish_local local_not_zero by blast

lemma default_bind_accepted: "ClassifyBind ''127.0.0.1:8787'' False = Inr (V4 2130706433, 8787)"
proof -
  have "SplitHostPort ''127.0.0.1:8787'' = Some (''127.0.0.1'', ''8787'')" by code_simp
  moreover have "trim_space ''127.0.0.1'' \<noteq> []"
    by (subst trim_space_solid) (simp_all add: solid_def)
  moreover have "ParseAddr (trim_brackets ''127.0.0.1'') = Some (V4 2130706433)"
    by (simp add: trim_brackets_def Let_def ParseAddr_def parse_v4_def split_on.simps parse_octet_def parse_uint_def
        is_digit_val digit_val_def isCanonicalDecimal_def)
  moreover have "parse_port ''8787'' = Some 8787"
    by (simp add: parse_port_def parse_uint_def is_digit_val digit_val_def)
  moreover have "isLocalish (V4 2130706433)" "\<not> IsUnspecified (V4 2130706433)"
    by (simp_all add: isLocalish_def IsLoopback_def Unmap_def IsUnspecified_def)
  ultimately show ?thesis by (simp add: ClassifyBind_def Let_def)
qed

theorem bind_is_local_witness: "local_addr (V4 2130706433) \<and> (8787::nat) \<le> 65535"
  using bind_is_local [OF default_bind_accepted] by simp

definition refused :: "(net_addr \<Rightarrow> bool) option \<Rightarrow> unit + net_addr \<Rightarrow> bool" where
  "refused allow x = (case (allow, x) of (Some ok, Inr c) \<Rightarrow> \<not> ok c | _ \<Rightarrow> False)"

lemma refused_simps [simp]:
  "refused None = (\<lambda>x. False)" "refused allow (Inl e) = False" "refused (Some ok) (Inr c) = (\<not> ok c)"
  by (auto simp: refused_def split: option.splits)

text \<open>
  The listener serves exactly the allowed peers. \<open>Accept\<close> skips the connections the filter refuses,
  closing each of them, and returns the first other one, or the first error; it waits only while every
  connection so far was refused. So a refused peer is never served and never stops the hub.
\<close>

theorem accept_serves_first_allowed:
  "Accept allow conns =
     (case dropWhile (refused allow) conns of
        [] \<Rightarrow> None
      | x # rest \<Rightarrow> Some (x, map projr (takeWhile (refused allow) conns), rest))"
  by (induction allow conns rule: Accept.induct)
    (auto split: option.splits list.splits, metis dropWhile_eq_Nil_conv list.distinct(1))

end
