(* ===== verification/Discover.thy ===== *)
theory Discover
  imports Bind Paths "HOL-Library.AList"
begin

text \<open>
  \<open>internal/discover\<close>: whether and as what a hub is announced on the local link, and which addresses a
  browse makes of the answers. The mDNS library is an argument: the answers it delivers, and whether its
  calls succeed. \<open>net.IP.String\<close> is written out.

  The lemmas: an address is announced only if it is reachable from elsewhere; a hub found with an IPv4
  address gives a URL whose host and port read back, and one found with IPv6 addresses only gives a URL
  whose authority cannot be split.
\<close>

section \<open>net.IP.String\<close>

definition octets :: "bytes \<Rightarrow> bytes" where
  "octets ip = join_with CHR ''.'' (map (\<lambda>c. format_nat (byte_val c)) ip)"

text \<open>\<open>To4\<close>: the last four bytes of a mapped address.\<close>

definition To4 :: "bytes \<Rightarrow> bytes option" where
  "To4 ip =
     (if length ip = 4 then Some ip
      else if length ip = 16 \<and> take 10 ip = replicate 10 (CHR 0x00) \<and> take 2 (drop 10 ip) = [CHR 0xFF, CHR 0xFF]
      then Some (drop 12 ip) else None)"

fun groups :: "bytes \<Rightarrow> nat list" where
  "groups (a # b # rest) = (byte_val a * 256 + byte_val b) # groups rest"
| "groups _ = []"

text \<open>The longest run of at least two zero groups, the first among equals; \<open>(255, 255)\<close> if there is none.\<close>

definition zero_run :: "nat list \<Rightarrow> nat \<times> nat" where
  "zero_run gs =
     foldl (\<lambda>(s, e) i. let l = length (takeWhile (\<lambda>g. g = 0) (drop i gs)) in
         if l \<ge> 2 \<and> l > e - s then (i, i + l) else (s, e)) (255, 255) [0..<8]"

definition hex_text :: "nat \<Rightarrow> bytes" where
  "hex_text g = (if g = 0 then ''0'' else dropWhile (\<lambda>c. c = CHR ''0'') (hex_digits 4 g))"

definition v6_text :: "nat list \<Rightarrow> bytes" where
  "v6_text gs =
     (case zero_run gs of (s, e) \<Rightarrow>
        if s = 255 then join_with CHR '':'' (map hex_text gs)
        else join_with CHR '':'' (map hex_text (take s gs)) @ ''::''
          @ join_with CHR '':'' (map hex_text (drop e gs)))"

definition IP_String :: "bytes \<Rightarrow> bytes" where
  "IP_String ip =
     (if ip = [] then ''<nil>''
      else if length ip \<noteq> 4 \<and> length ip \<noteq> 16 then ''?'' @ concat (map (\<lambda>c. hex_digits 2 (byte_val c)) ip)
      else case To4 ip of Some v4 \<Rightarrow> octets v4 | None \<Rightarrow> v6_text (groups ip))"

section \<open>discover.go\<close>

definition ServiceType :: bytes where "ServiceType = ''_cmemlan._tcp''"

record discover_config =
  cfg_Enabled :: bool
  cfg_InstanceName :: bytes
  cfg_Port :: nat
  cfg_BindAddr :: "ip_addr option"

record found =
  fd_Name :: bytes
  fd_Host :: bytes
  fd_Port :: nat

definition Addr :: "found \<Rightarrow> bytes" where
  "Addr f = ''http://'' @ fd_Host f @ '':'' @ format_nat (fd_Port f)"

definition txtRecords :: "discover_config \<Rightarrow> (bytes \<times> bytes) list" where
  "txtRecords cfg = [(''v'', ''1'')]"

definition ShouldAdvertise :: "discover_config \<Rightarrow> bool" where
  "ShouldAdvertise cfg =
     (if \<not> cfg_Enabled cfg then False
      else case cfg_BindAddr cfg of None \<Rightarrow> False | Some a \<Rightarrow> \<not> IsLoopback a)"

definition name_alphabet :: bytes where
  "name_alphabet = ''abcdefghijklmnopqrstuvwxyz0123456789''"

text \<open>\<open>rnd i\<close> is the \<open>i\<close>-th number below 36 that \<open>crypto/rand\<close> gives, or its failure.\<close>

definition RandomInstanceName :: "(nat \<Rightarrow> nat option) \<Rightarrow> go_error + bytes" where
  "RandomInstanceName rnd =
     (if list_all (\<lambda>i. rnd i \<noteq> None) [0..<8]
      then Inr (''cmemlan-'' @ map (\<lambda>i. name_alphabet ! the (rnd i)) [0..<8])
      else Inl (OtherError ''rand''))"

definition ResolveName :: "(nat \<Rightarrow> nat option) \<Rightarrow> discover_config \<Rightarrow> go_error + bytes" where
  "ResolveName rnd cfg = (if cfg_InstanceName cfg \<noteq> [] then Inr (cfg_InstanceName cfg) else RandomInstanceName rnd)"

definition TXTStrings :: "discover_config \<Rightarrow> bytes list" where
  "TXTStrings cfg = map (\<lambda>(k, v). k @ ''='' @ v) (txtRecords cfg)"

definition PortString :: "nat \<Rightarrow> bytes" where
  "PortString p = format_nat p"

definition BrowseTimeout :: int where "BrowseTimeout = 3 * 1000"

definition browse_wait :: "int \<Rightarrow> int" where
  "browse_wait d = (if d \<le> 0 then BrowseTimeout else d)"

section \<open>mdns.go\<close>

text \<open>A service as it is handed to the library, and whether the library's calls succeed.\<close>

record dns_service =
  ds_Name :: bytes
  ds_Type :: bytes
  ds_Port :: nat
  ds_Text :: "(bytes \<times> bytes) list"

record dns_env =
  dn_rnd :: "nat \<Rightarrow> nat option"
  dn_service :: "dns_service \<Rightarrow> go_error + unit"
  dn_responder :: "go_error + unit"
  dn_add :: "dns_service \<Rightarrow> go_error + unit"
  dn_respond :: "dns_service \<Rightarrow> go_error + unit"

text \<open>The service that was announced, if one was, and how the announcing ended.\<close>

definition Advertise :: "dns_env \<Rightarrow> discover_config \<Rightarrow> dns_service option \<times> (go_error + unit)" where
  "Advertise env cfg =
     (if \<not> ShouldAdvertise cfg then (None, Inr ())
      else case ResolveName (dn_rnd env) cfg of
        Inl e \<Rightarrow> (None, Inl e)
      | Inr name \<Rightarrow>
          let service = \<lparr>ds_Name = name, ds_Type = ServiceType, ds_Port = cfg_Port cfg, ds_Text = txtRecords cfg\<rparr> in
          (case bindE (dn_service env service) (\<lambda>_. bindE (dn_responder env) (\<lambda>_. dn_add env service)) of
             Inl e \<Rightarrow> (None, Inl e)
           | Inr _ \<Rightarrow> (Some service, dn_respond env service)))"

record browse_entry =
  be_Name :: bytes
  be_Host :: bytes
  be_Port :: nat
  be_IPs :: "bytes list"

definition pickAddress :: "bytes list \<Rightarrow> bytes" where
  "pickAddress ips =
     (case List.find (\<lambda>ip. To4 ip \<noteq> None) ips of
        Some ip \<Rightarrow> IP_String (the (To4 ip))
      | None \<Rightarrow> (case ips of [] \<Rightarrow> [] | ip # _ \<Rightarrow> IP_String ip))"

definition entry_host :: "browse_entry \<Rightarrow> bytes" where
  "entry_host e = (if be_IPs e \<noteq> [] then pickAddress (be_IPs e) else be_Host e)"

text \<open>The map of the hubs seen, by host and port: a later answer replaces an earlier one.\<close>

definition add_entry :: "(bytes \<times> found) list \<Rightarrow> browse_entry \<Rightarrow> (bytes \<times> found) list" where
  "add_entry seen e =
     (let host = entry_host e in
      if host = [] then seen
      else AList.update (host @ '':'' @ format_nat (be_Port e))
             \<lparr>fd_Name = be_Name e, fd_Host = host, fd_Port = be_Port e\<rparr> seen)"

text \<open>
  \<open>lookup\<close> is what the library delivered and whether it failed before the time was up; \<open>order\<close> is the
  order in which Go walks the map.
\<close>

definition Browse :: "goos \<Rightarrow> browse_entry list \<times> bool \<Rightarrow> (found list \<Rightarrow> found list) \<Rightarrow> go_error + found list" where
  "Browse os lookup order =
     (if os = Windows then Inl (OtherError ''discover: not supported on Windows'')
      else case lookup of (entries, failed) \<Rightarrow>
        if failed then Inl (OtherError ''discover: browsing'')
        else Inr (order (map snd (foldl add_entry [] entries))))"

section \<open>What is announced\<close>

lemma Advertise_reachable:
  "Advertise env cfg = (Some service, r) \<Longrightarrow>
   cfg_Enabled cfg \<and> (\<exists>a. cfg_BindAddr cfg = Some a \<and> \<not> IsLoopback a) \<and> ds_Port service = cfg_Port cfg
   \<and> ds_Text service = [(''v'', ''1'')]"
  by (auto simp: Advertise_def ShouldAdvertise_def txtRecords_def Let_def split: if_splits sum.splits option.splits)

section \<open>The URL of a hub that was found\<close>

abbreviation url_bytes :: "char set" where
  "url_bytes \<equiv> {CHR '':'', CHR ''['', CHR '']''}"

lemma decimal_no_colon: "set (format_nat n) \<inter> url_bytes = {}"
  using format_nat_digits [of n] by (auto simp: list_all_iff is_digit_def byte_simps)

lemma set_join: "set (join_with sep ps) \<subseteq> insert sep (\<Union> (set ` set ps))"
  by (induction sep ps rule: join_with.induct) auto

lemma octets_plain: "set (octets ip) \<inter> url_bytes = {}"
proof -
  have "set (octets ip) \<subseteq> insert CHR ''.'' (\<Union> (set ` set (map (\<lambda>c. format_nat (byte_val c)) ip)))"
    unfolding octets_def by (rule set_join)
  then show ?thesis using decimal_no_colon by fastforce
qed

lemma hex_char_plain: "n < 16 \<Longrightarrow> hex_char n \<noteq> CHR ''[''"
  by (auto simp: hex_char_def digit_char_def byte_val_eq [symmetric] split: if_splits)

lemma hex_digits_plain: "CHR ''['' \<notin> set (hex_digits n r)"
  by (induction n arbitrary: r) (auto simp: hex_char_plain [of "r mod 16" for r, THEN not_sym])

lemma hex_text_plain: "CHR ''['' \<notin> set (hex_text g)"
  using hex_digits_plain by (auto simp: hex_text_def dest: set_dropWhileD)

lemma v6_text_plain: "CHR ''['' \<notin> set (v6_text gs)"
proof -
  have j: "CHR ''['' \<notin> set (join_with CHR '':'' (map hex_text ps))" for ps
    using set_join [of "CHR '':''" "map hex_text ps"] hex_text_plain by fastforce
  show ?thesis by (simp add: v6_text_def j split: prod.split)
qed

lemma length_groups: "length (groups ip) = length ip div 2"
  by (induction ip rule: groups.induct) auto

lemma join_has_sep: "2 \<le> length ps \<Longrightarrow> sep \<in> set (join_with sep ps)"
  by (cases ps rule: remdups_adj.cases) auto

lemma v6_text_colon: "length gs = 8 \<Longrightarrow> CHR '':'' \<in> set (v6_text gs)"
  by (cases "zero_run gs") (auto simp: v6_text_def intro: join_has_sep)

lemma SplitHostPort_two_colons:
  assumes "CHR '':'' \<in> set host" "hd host \<noteq> CHR ''[''" "CHR '':'' \<notin> set port"
  shows "SplitHostPort (host @ '':'' @ port) = None"
proof -
  have "cut_last CHR '':'' (host @ CHR '':'' # port) = Some (host, port)"
    using assms(3) by (rule cut_last_append)
  moreover have "hd (host @ CHR '':'' # port) \<noteq> CHR ''[''" using assms(1,2) by (cases host) auto
  ultimately show ?thesis using assms(1) by (simp add: SplitHostPort_def has_byte_def)
qed

lemma To4_length: "To4 ip = Some v \<Longrightarrow> length ip \<in> {4, 16} \<Longrightarrow> length v = 4"
  by (auto simp: To4_def split: if_splits)

lemma To4_again: "length v = 4 \<Longrightarrow> To4 v = Some v"
  by (simp add: To4_def)

lemma pickAddress_v4:
  assumes "List.find (\<lambda>ip. To4 ip \<noteq> None) ips = Some ip" "\<forall>x \<in> set ips. length x \<in> {4, 16}"
  shows "\<exists>v. pickAddress ips = octets v"
proof -
  from find_SomeD [OF assms(1)] assms(2) obtain v where v: "To4 ip = Some v" "length v = 4"
    by (auto dest: To4_length)
  with assms(1) have "pickAddress ips = octets v" by (auto simp: pickAddress_def IP_String_def To4_again)
  then show ?thesis ..
qed

lemma pickAddress_v6:
  assumes "List.find (\<lambda>ip. To4 ip \<noteq> None) ips = None" "ips \<noteq> []" "\<forall>x \<in> set ips. length x \<in> {4, 16}"
  shows "\<exists>gs. length gs = 8 \<and> pickAddress ips = v6_text gs"
proof -
  obtain ip rest where ips: "ips = ip # rest" using assms(2) by (cases ips) auto
  with assms(1) have "To4 ip = None" by (auto split: if_splits)
  with assms(3) ips have "length ip = 16" by (auto simp: To4_def)
  with \<open>To4 ip = None\<close> assms(1) ips show ?thesis
    by (intro exI [of _ "groups ip"]) (auto simp: length_groups pickAddress_def IP_String_def)
qed

text \<open>
  The URL of a hub that was found can be used exactly when one of its addresses is an IPv4 address: then
  host and port read back. Otherwise the IPv6 address stands in the URL without brackets, and the
  authority does not split into a host and a port.
\<close>

theorem found_url_usable_iff_v4:
  assumes "be_IPs e \<noteq> []" "\<forall>ip \<in> set (be_IPs e). length ip \<in> {4, 16}"
    and "Browse Linux ([e], False) (\<lambda>fs. fs) = Inr [f]"
  shows "SplitHostPort (drop 7 (Addr f)) =
    (if \<exists>ip \<in> set (be_IPs e). To4 ip \<noteq> None then Some (fd_Host f, format_nat (fd_Port f)) else None)"
proof -
  have host: "fd_Host f = pickAddress (be_IPs e)" "drop 7 (Addr f) = fd_Host f @ '':'' @ format_nat (fd_Port f)"
    using assms(1,3) by (auto simp: Browse_def add_entry_def entry_host_def Let_def Addr_def split: if_splits)
  show ?thesis
  proof (cases "List.find (\<lambda>ip. To4 ip \<noteq> None) (be_IPs e)")
    case None
    with pickAddress_v6 [OF None assms(1,2)] host obtain gs where gs: "length gs = 8" "fd_Host f = v6_text gs" by auto
    have "CHR '':'' \<in> set (fd_Host f)" "hd (fd_Host f) \<noteq> CHR ''[''"
      using v6_text_colon [OF gs(1)] v6_text_plain [of gs] gs(2) by (simp, metis hd_in_set empty_iff empty_set)
    moreover have "CHR '':'' \<notin> set (format_nat (fd_Port f))" using decimal_no_colon by auto
    ultimately have "SplitHostPort (drop 7 (Addr f)) = None"
      unfolding host(2) by (rule SplitHostPort_two_colons)
    with None show ?thesis by (auto simp: find_None_iff)
  next
    case (Some ip)
    with pickAddress_v4 [OF Some assms(2)] host obtain v where "fd_Host f = octets v" by auto
    then have "SplitHostPort (drop 7 (Addr f)) = Some (fd_Host f, format_nat (fd_Port f))"
      using SplitHostPort_plain [OF octets_plain decimal_no_colon] unfolding host(2) by simp
    with find_SomeD [OF Some] show ?thesis by auto
  qed
qed

definition v6_only :: browse_entry where
  "v6_only = \<lparr>be_Name = ''hub'', be_Host = ''hub.local.'', be_Port = 8787,
     be_IPs = [[CHR 0xFD, CHR 0x00, CHR 0x00, CHR 0x00, CHR 0x00, CHR 0x00, CHR 0x00, CHR 0x00,
       CHR 0x00, CHR 0x00, CHR 0x00, CHR 0x00, CHR 0x00, CHR 0x00, CHR 0x00, CHR 0x01]]\<rparr>"

theorem found_url_usable_iff_v4_witness:
  "\<exists>f. Browse Linux ([v6_only], False) (\<lambda>fs. fs) = Inr [f] \<and> SplitHostPort (drop 7 (Addr f)) = None"
proof -
  have to4: "To4 (hd (be_IPs v6_only)) = None" by (simp add: To4_def v6_only_def)
  then obtain gs where "length gs = 8" "pickAddress (be_IPs v6_only) = v6_text gs"
    using pickAddress_v6 [of "be_IPs v6_only"] by (auto simp: v6_only_def)
  then have "entry_host v6_only \<noteq> []"
    using v6_text_colon [of gs] by (auto simp: entry_host_def v6_only_def)
  then obtain f where f: "Browse Linux ([v6_only], False) (\<lambda>fs. fs) = Inr [f]"
    by (auto simp: Browse_def add_entry_def Let_def)
  with to4 found_url_usable_iff_v4 [OF _ _ f] f show ?thesis by (auto simp: v6_only_def)
qed

end
