(* ===== verification/Logging.thy ===== *)
theory Logging
  imports Dec Strings
begin

text \<open>
  \<open>internal/logging/logging.go\<close>: the level and the format a logger is built with, and the rendering of
  secrets. \<open>strings.ToLower\<close> is compared with ASCII words only: outside ASCII exactly U+0130 and U+212A
  become ASCII letters.
\<close>

datatype level = LevelDebug | LevelInfo | LevelWarn | LevelError

datatype log_handler = JSONHandler level | TextHandler level

definition lower_rune :: "nat \<Rightarrow> nat" where
  "lower_rune r =
     (if 65 \<le> r \<and> r \<le> 90 then r + 32
      else if r = 0x130 then 105
      else if r = 0x212A then 107
      else r)"

definition lower_is :: "bytes \<Rightarrow> bytes \<Rightarrow> bool" where
  "lower_is s word \<longleftrightarrow> map lower_rune (runes s) = map byte_val word"

definition parseLevel :: "bytes \<Rightarrow> level" where
  "parseLevel s0 =
     (let s = trim_space s0 in
      if lower_is s ''debug'' then LevelDebug
      else if lower_is s ''warn'' \<or> lower_is s ''warning'' then LevelWarn
      else if lower_is s ''error'' then LevelError
      else LevelInfo)"

definition New_logger :: "bytes \<Rightarrow> bytes \<Rightarrow> log_handler" where
  "New_logger level format =
     (if equal_fold format ''json'' then JSONHandler (parseLevel level) else TextHandler (parseLevel level))"

definition Redact :: "bytes \<Rightarrow> bytes" where
  "Redact v = (if v = [] then ''[empty]'' else ''[redacted len='' @ format_nat (length v) @ '']'')"

text \<open>A secret leaves nothing but its length.\<close>

lemma Redact_length: "length v = length v' \<Longrightarrow> Redact v = Redact v'"
  by (auto simp: Redact_def)

end
