(* ===== verification/Cli.thy ===== *)
theory Cli
  imports Flags Settings Store Devices Pair ClientDb Emit Discover Logging
begin

text \<open>
  What the commands of \<open>internal/cli\<close> share: the world they act on, \<open>Env\<close>, printing and exit codes, and
  the small helpers \<open>cmp\<close>, \<open>dataDirFor\<close>, \<open>sanitise\<close> and \<open>humanBytes\<close>.

  A command is an action on the world that either goes on with a value or has returned an exit code. The
  world holds what was printed, the client machine's files and claude-mem database, and the hub's data
  directories by path. The environment holds what the surroundings decide, and the texts that only end
  up on the terminal: of errors, of the flag package's messages, of durations and times, and the columns
  of \<open>text/tabwriter\<close>. Durations are in milliseconds.
\<close>

section \<open>World and environment\<close>

record hub_dir =
  hd_db :: db
  hd_pair :: pair_dir

record world =
  w_out :: bytes
  w_err :: bytes
  w_calls :: nat
  w_files :: files
  w_mem :: cdb
  w_dirs :: "bytes \<Rightarrow> hub_dir"

record StatusResult =
  sr_Epoch :: bytes
  sr_HeadSeq :: bytes
  sr_ProjectedSeq :: bytes
  sr_SyncMode :: bytes

text \<open>A request of the HTTP client, and the answer of whatever is at the other end, or no answer.\<close>

record http_request =
  hr_method :: bytes
  hr_url :: bytes
  hr_header :: "(bytes \<times> bytes) list"
  hr_body :: bytes

record http_response =
  hp_status :: nat
  hp_header :: "(bytes \<times> bytes) list"
  hp_body :: bytes

record cli_env =
  ce_proc :: proc_env
  ce_data_dir :: bytes
  ce_hub :: "(bytes \<Rightarrow> bytes \<Rightarrow> bytes \<Rightarrow> go_error + StatusResult) option"
  ce_do :: "http_request \<Rightarrow> go_error + http_response"
  ce_os :: os_env
  ce_sql :: env
  ce_pair :: pair_env
  ce_journal :: bytes
  ce_alive :: "int \<Rightarrow> bool"
  ce_hostname :: "go_error + bytes"
  ce_exec :: "bytes list \<Rightarrow> bytes list \<Rightarrow> bytes \<times> go_error option"
  ce_browse :: "browse_entry list \<times> bool"
  ce_order :: "found list \<Rightarrow> found list"
  ce_now :: int
  ce_version :: bytes
  ce_duration :: "bytes \<Rightarrow> int option"
  ce_text :: "go_error \<Rightarrow> bytes"
  ce_pair_text :: "pair_error \<Rightarrow> bytes"
  ce_flag_text :: "bytes \<Rightarrow> flag_error \<Rightarrow> bytes"
  ce_show_duration :: "int \<Rightarrow> bytes"
  ce_show_time :: "int \<Rightarrow> bytes"
  ce_tabulate :: "bytes \<Rightarrow> bytes"
  ce_printable :: "nat \<Rightarrow> bool"

section \<open>Commands\<close>

type_synonym 'a command = "world \<Rightarrow> (nat + 'a) \<times> world"

definition returnC :: "'a \<Rightarrow> 'a command" where
  "returnC x = (\<lambda>w. (Inr x, w))"

definition exitC :: "nat \<Rightarrow> 'a command" where
  "exitC code = (\<lambda>w. (Inl code, w))"

definition bindC :: "'a command \<Rightarrow> ('a \<Rightarrow> 'b command) \<Rightarrow> 'b command" where
  "bindC m f = (\<lambda>w. case m w of (Inl code, w') \<Rightarrow> (Inl code, w') | (Inr x, w') \<Rightarrow> f x w')"

definition outC :: "bytes \<Rightarrow> unit command" where
  "outC s = (\<lambda>w. (Inr (), w\<lparr>w_out := w_out w @ s\<rparr>))"

definition errC :: "bytes \<Rightarrow> unit command" where
  "errC s = (\<lambda>w. (Inr (), w\<lparr>w_err := w_err w @ s\<rparr>))"

text \<open>An operation on a part of the world; its error is a value the command looks at.\<close>

definition filesC :: "(files, 'a) action \<Rightarrow> (go_error + 'a) command" where
  "filesC m = (\<lambda>w. case m (w_calls w, w_files w) of
     (r, k, fs) \<Rightarrow> (Inr r, w\<lparr>w_calls := k, w_files := fs\<rparr>))"

definition memC :: "(cdb, 'a) action \<Rightarrow> (go_error + 'a) command" where
  "memC m = (\<lambda>w. case m (w_calls w, w_mem w) of
     (r, k, c) \<Rightarrow> (Inr r, w\<lparr>w_calls := k, w_mem := c\<rparr>))"

definition storeC :: "bytes \<Rightarrow> 'a io \<Rightarrow> (go_error + 'a) command" where
  "storeC dir m = (\<lambda>w. case m (w_calls w, hd_db (w_dirs w dir)) of
     (r, k, d) \<Rightarrow> (Inr r, w\<lparr>w_calls := k, w_dirs := (w_dirs w)(dir := (w_dirs w dir)\<lparr>hd_db := d\<rparr>)\<rparr>))"

definition pairC :: "bytes \<Rightarrow> (pair_dir \<Rightarrow> (pair_error + 'a) \<times> pair_dir) \<Rightarrow> (pair_error + 'a) command" where
  "pairC dir f = (\<lambda>w. case f (hd_pair (w_dirs w dir)) of
     (r, p) \<Rightarrow> (Inr r, w\<lparr>w_dirs := (w_dirs w)(dir := (w_dirs w dir)\<lparr>hd_pair := p\<rparr>)\<rparr>))"

definition nl :: bytes where
  "nl = [CHR 0x0A]"

text \<open>\<open>fmt.Fprintf(env.Stderr, "cmemlan: %v\\n", err); return 1\<close>, where an error ends a command.\<close>

definition dieC :: "bytes \<Rightarrow> 'a command" where
  "dieC msg = bindC (errC (''cmemlan: '' @ msg @ nl)) (\<lambda>_. exitC 1)"

definition orDie :: "cli_env \<Rightarrow> go_error + 'a \<Rightarrow> 'a command" where
  "orDie env r = (case r of Inl e \<Rightarrow> dieC (ce_text env e) | Inr x \<Rightarrow> returnC x)"

definition orDieP :: "cli_env \<Rightarrow> pair_error + 'a \<Rightarrow> 'a command" where
  "orDieP env r = (case r of Inl e \<Rightarrow> dieC (ce_pair_text env e) | Inr x \<Rightarrow> returnC x)"

text \<open>Parsing the flags of a command; the flag package reports an error itself.\<close>

definition with_flags :: "cli_env \<Rightarrow> bytes \<Rightarrow> flag_set \<Rightarrow> bytes list \<Rightarrow> (flag_set \<times> bytes list) command" where
  "with_flags env cmd fl args =
     (case parseFlags (ce_duration env) fl args of
        Inl e \<Rightarrow> bindC (errC (ce_flag_text env cmd e)) (\<lambda>_. exitC 2)
      | Inr r \<Rightarrow> returnC r)"

text \<open>The exit code of a command and the world it leaves.\<close>

definition run_command :: "nat command \<Rightarrow> world \<Rightarrow> nat \<times> world" where
  "run_command m w = (case m w of (Inl code, w') \<Rightarrow> (code, w') | (Inr code, w') \<Rightarrow> (code, w'))"

section \<open>Helpers\<close>

definition cmp :: "bytes \<Rightarrow> bytes \<Rightarrow> bytes" where
  "cmp a b = (if a \<noteq> [] then a else b)"

definition dataDirFor :: "cli_env \<Rightarrow> bytes \<Rightarrow> go_error + bytes" where
  "dataDirFor env flag = DataDir (ce_proc env) (cmp flag (ce_data_dir env))"

definition sanitise :: "bytes \<Rightarrow> bytes" where
  "sanitise s =
     (let out = filter (\<lambda>r. \<not> (r < 0x20 \<or> r = 0x7F)) (runes s) in
      if out = [] then ''(unnamed)'' else concat (map encode_rune out))"

text \<open>Runes outside ASCII that the messages contain: a dash, an ellipsis, marks and an arrow.\<close>

definition dash :: bytes where "dash = encode_rune 0x2014"
definition ellipsis :: bytes where "ellipsis = encode_rune 0x2026"
definition cross :: bytes where "cross = encode_rune 0x2717"
definition tick :: bytes where "tick = encode_rune 0x2713"
definition arrow :: bytes where "arrow = encode_rune 0x2192"

section \<open>Rules\<close>

named_theorems cli_simps \<open>what a step of a command did\<close>

lemma returnC_eq [cli_simps]: "returnC x w = (r, w') \<longleftrightarrow> r = Inr x \<and> w' = w"
  by (auto simp: returnC_def)

lemma exitC_eq [cli_simps]: "exitC code w = (r, w') \<longleftrightarrow> r = Inl code \<and> w' = w"
  by (auto simp: exitC_def)

lemma outC_eq [cli_simps]: "outC s w = (r, w') \<longleftrightarrow> r = Inr () \<and> w' = w\<lparr>w_out := w_out w @ s\<rparr>"
  by (auto simp: outC_def)

lemma errC_eq [cli_simps]: "errC s w = (r, w') \<longleftrightarrow> r = Inr () \<and> w' = w\<lparr>w_err := w_err w @ s\<rparr>"
  by (auto simp: errC_def)

lemma bindC_Inr [cli_simps]: "bindC m f w = (Inr y, w') \<longleftrightarrow> (\<exists>x w1. m w = (Inr x, w1) \<and> f x w1 = (Inr y, w'))"
  by (auto simp: bindC_def split: prod.splits sum.splits)

lemma bindC_Inl [cli_simps]:
  "bindC m f w = (Inl code, w') \<longleftrightarrow> m w = (Inl code, w') \<or> (\<exists>x w1. m w = (Inr x, w1) \<and> f x w1 = (Inl code, w'))"
  by (auto simp: bindC_def split: prod.splits sum.splits)

lemma filesC_eq [cli_simps]:
  "filesC m w = (r, w') \<longleftrightarrow> (\<exists>x k fs. r = Inr x \<and> m (w_calls w, w_files w) = (x, k, fs)
     \<and> w' = w\<lparr>w_calls := k, w_files := fs\<rparr>)"
  by (auto simp: filesC_def split: prod.splits)

lemma memC_eq [cli_simps]:
  "memC m w = (r, w') \<longleftrightarrow> (\<exists>x k c. r = Inr x \<and> m (w_calls w, w_mem w) = (x, k, c)
     \<and> w' = w\<lparr>w_calls := k, w_mem := c\<rparr>)"
  by (auto simp: memC_def split: prod.splits)

lemma storeC_eq [cli_simps]:
  "storeC dir m w = (r, w') \<longleftrightarrow> (\<exists>x k d. r = Inr x \<and> m (w_calls w, hd_db (w_dirs w dir)) = (x, k, d)
     \<and> w' = w\<lparr>w_calls := k, w_dirs := (w_dirs w)(dir := (w_dirs w dir)\<lparr>hd_db := d\<rparr>)\<rparr>)"
  by (auto simp: storeC_def split: prod.splits)

lemma pairC_eq [cli_simps]:
  "pairC dir f w = (r, w') \<longleftrightarrow> (\<exists>x p. r = Inr x \<and> f (hd_pair (w_dirs w dir)) = (x, p)
     \<and> w' = w\<lparr>w_dirs := (w_dirs w)(dir := (w_dirs w dir)\<lparr>hd_pair := p\<rparr>)\<rparr>)"
  by (auto simp: pairC_def split: prod.splits)

lemma dieC_eq [cli_simps]: "dieC msg w = (r, w') \<longleftrightarrow> r = Inl 1 \<and> w' = w\<lparr>w_err := w_err w @ ''cmemlan: '' @ msg @ nl\<rparr>"
  by (auto simp: dieC_def bindC_def errC_def exitC_def)

lemma orDie_Inr [cli_simps]: "orDie env r w = (Inr x, w') \<longleftrightarrow> r = Inr x \<and> w' = w"
  by (auto simp: orDie_def cli_simps split: sum.splits)

lemma orDie_Inl [cli_simps]: "orDie env r w = (Inl code, w') \<longleftrightarrow>
    (\<exists>e. r = Inl e \<and> code = 1 \<and> w' = w\<lparr>w_err := w_err w @ ''cmemlan: '' @ ce_text env e @ nl\<rparr>)"
  by (auto simp: orDie_def cli_simps split: sum.splits)

lemma orDieP_Inr [cli_simps]: "orDieP env r w = (Inr x, w') \<longleftrightarrow> r = Inr x \<and> w' = w"
  by (auto simp: orDieP_def cli_simps split: sum.splits)

lemma orDieP_Inl [cli_simps]: "orDieP env r w = (Inl code, w') \<longleftrightarrow>
    (\<exists>e. r = Inl e \<and> code = 1 \<and> w' = w\<lparr>w_err := w_err w @ ''cmemlan: '' @ ce_pair_text env e @ nl\<rparr>)"
  by (auto simp: orDieP_def cli_simps split: sum.splits)

lemma with_flags_Inr [cli_simps]:
  "with_flags env cmd fl args w = (Inr r, w') \<longleftrightarrow> parseFlags (ce_duration env) fl args = Inr r \<and> w' = w"
  by (auto simp: with_flags_def cli_simps split: sum.splits)

lemma with_flags_Inl [cli_simps]:
  "with_flags env cmd fl args w = (Inl code, w') \<longleftrightarrow>
     (\<exists>e. parseFlags (ce_duration env) fl args = Inl e \<and> code = 2 \<and> w' = w\<lparr>w_err := w_err w @ ce_flag_text env cmd e\<rparr>)"
  by (auto simp: with_flags_def cli_simps split: sum.splits)

lemma bind_with_flags: "parseFlags (ce_duration env) fl args = Inr r \<Longrightarrow> bindC (with_flags env cmd fl args) f = f r"
  by (simp add: with_flags_def bindC_def returnC_def)

lemma run_command_eq: "run_command m w = (code, w') \<longleftrightarrow> m w = (Inl code, w') \<or> m w = (Inr code, w')"
  by (auto simp: run_command_def split: prod.splits sum.splits)

lemma bind_steps:
  "bindC (outC s) f w = f () (w\<lparr>w_out := w_out w @ s\<rparr>)" "bindC (returnC x) g = g x" "bindC (orDie env (Inr x)) g = g x"
  by (simp_all add: bindC_def outC_def returnC_def orDie_def)

section \<open>Exit codes\<close>

text \<open>Whatever happens, a code that \<open>m\<close> returns satisfies \<open>P\<close>, and a value it goes on with \<open>Q\<close>.\<close>

definition exits :: "(nat \<Rightarrow> bool) \<Rightarrow> ('a \<Rightarrow> bool) \<Rightarrow> 'a command \<Rightarrow> bool" where
  "exits P Q m \<longleftrightarrow> (\<forall>w. case fst (m w) of Inl code \<Rightarrow> P code | Inr x \<Rightarrow> Q x)"

named_theorems exits_intros \<open>what a step can end with\<close>

lemma exits_code: "exits P P m \<Longrightarrow> P (fst (run_command m w))"
  by (auto simp: exits_def run_command_def split: prod.splits sum.splits) (metis fst_conv sum.case)+

lemma exits_bind: "exits P Q m \<Longrightarrow> (\<And>x. Q x \<Longrightarrow> exits P R (f x)) \<Longrightarrow> exits P R (bindC m f)"
  by (auto simp: exits_def bindC_def split: prod.splits sum.splits) (metis fst_conv sum.case)+

lemma exits_step [exits_intros]:
  "exits P (\<lambda>_. True) (outC s)" "exits P (\<lambda>_. True) (errC s)" "exits P (\<lambda>_. True) (filesC m)" "exits P (\<lambda>_. True) (memC m')"
  "P code \<Longrightarrow> exits P Q (exitC code)" "Q x \<Longrightarrow> exits P Q (returnC x)"
  by (simp_all add: exits_def outC_def errC_def filesC_def memC_def exitC_def returnC_def split: prod.splits)

lemma exits_if: "exits P Q m \<Longrightarrow> exits P Q m' \<Longrightarrow> exits P Q (if b then m else m')"
  by simp

lemma exits_die: "P 1 \<Longrightarrow> exits P Q (dieC s)"
  unfolding dieC_def by (rule exits_bind [OF exits_intros(2)]) (rule exits_intros)

lemma exits_orDie: "P 1 \<Longrightarrow> exits P (\<lambda>x. r = Inr x) (orDie env r)"
  by (cases r) (simp_all add: orDie_def exits_die exits_intros)

lemma exits_flags: "P 2 \<Longrightarrow> exits P (\<lambda>_. True) (with_flags env cmd fl args)"
  unfolding with_flags_def
  by (cases "parseFlags (ce_duration env) fl args") (auto intro!: exits_bind [OF exits_intros(2)] exits_intros)

definition failing :: "nat \<Rightarrow> bool" where
  "failing code \<longleftrightarrow> code \<noteq> 0"

lemma failing_codes: "failing 1" "failing 2" "failing (Suc 0)"
  by (simp_all add: failing_def)

section \<open>What a command leaves alone\<close>

definition keeps :: "(world \<Rightarrow> 'x) \<Rightarrow> 'a command \<Rightarrow> bool" where
  "keeps g m \<longleftrightarrow> (\<forall>w. g (snd (m w)) = g w)"

named_theorems keeps_intros \<open>commands that leave a part of the world alone\<close>

lemma keepsD: "keeps g m \<Longrightarrow> m w = (r, w') \<Longrightarrow> g w' = g w"
  by (metis keeps_def snd_conv)

lemma keeps_simple [keeps_intros]: "keeps g (returnC x)" "keeps g (exitC code)"
  by (simp_all add: keeps_def returnC_def exitC_def)

lemma keeps_bind [keeps_intros]: "keeps g m \<Longrightarrow> (\<And>x. keeps g (f x)) \<Longrightarrow> keeps g (bindC m f)"
  by (auto simp: keeps_def bindC_def split: prod.splits sum.splits) (metis snd_conv)+

text \<open>If a part of the world changed although the first step leaves it alone, the step went on and the rest changed it.\<close>

lemma bind_changed:
  assumes "bindC m f w = (x, w')" "keeps g m" "g w' \<noteq> g w"
  obtains y w1 where "m w = (Inr y, w1)" "g w1 = g w" "f y w1 = (x, w')"
  using assms by (auto simp: bindC_def split: prod.splits sum.splits dest: keepsD)

lemma keeps_if [keeps_intros]: "keeps g m \<Longrightarrow> keeps g m' \<Longrightarrow> keeps g (if b then m else m')"
  by simp

lemma keeps_print [keeps_intros]:
  "keeps w_files (outC s)" "keeps w_files (errC s)" "keeps w_mem (outC s)" "keeps w_mem (errC s)"
  "keeps w_dirs (outC s)" "keeps w_dirs (errC s)"
  by (simp_all add: keeps_def outC_def errC_def)

lemma keeps_die [keeps_intros]: "keeps w_files (dieC s)" "keeps w_mem (dieC s)" "keeps w_dirs (dieC s)"
  unfolding dieC_def by (intro keeps_intros)+

lemma keeps_orDie [keeps_intros]:
  "keeps w_files (orDie env r)" "keeps w_mem (orDie env r)" "keeps w_dirs (orDie env r)"
  by (cases r; simp add: orDie_def keeps_intros)+

lemma keeps_other [keeps_intros]: "keeps w_mem (filesC m)" "keeps w_dirs (filesC m)" "keeps w_files (memC m')" "keeps w_dirs (memC m')"
  by (simp_all add: keeps_def filesC_def memC_def split: prod.splits)

text \<open>Looking at the files changes nothing when no other program does.\<close>

definition undisturbed :: "cli_env \<Rightarrow> bool" where
  "undisturbed env \<longleftrightarrow> os_other (ce_os env) = (\<lambda>_ fs. fs)"

lemma keeps_look [keeps_intros]:
  assumes "undisturbed env" "\<And>now fs. snd (f now fs) = fs"
  shows "keeps w_files (filesC (os_call (ce_os env) f untorn))"
  using assms
  by (auto simp: keeps_def filesC_def os_call_def untorn_def undisturbed_def Let_def split: prod.splits fault.splits)
    (metis snd_conv)+

lemma keeps_Stat [keeps_intros]: "undisturbed env \<Longrightarrow> keeps w_files (filesC (Stat (ce_os env) path))"
  unfolding Stat_def by (rule keeps_look) simp_all

lemma keeps_ReadFile [keeps_intros]: "undisturbed env \<Longrightarrow> keeps w_files (filesC (ReadFile (ce_os env) path))"
  unfolding ReadFile_def by (rule keeps_look) simp_all

lemma keeps_calls [keeps_intros]: "keeps w_calls (outC s)" "keeps w_calls (errC s)" "keeps w_calls (dieC s)" "keeps w_calls (orDie env r)"
  by (auto simp: keeps_def outC_def errC_def orDie_def dieC_def bindC_def exitC_def returnC_def split: sum.splits)

section \<open>Steps that go on\<close>

definition yields :: "('a \<Rightarrow> bool) \<Rightarrow> 'a command \<Rightarrow> bool" where
  "yields P m \<longleftrightarrow> (\<forall>w. \<exists>x w'. m w = (Inr x, w') \<and> P x)"

named_theorems yields_intros \<open>steps that always go on\<close>

lemma yieldsD: "yields P m \<Longrightarrow> \<exists>x w'. m w = (Inr x, w') \<and> P x"
  by (simp add: yields_def)

lemma yields_return: "P x \<Longrightarrow> yields P (returnC x)"
  by (simp add: yields_def returnC_def)

lemma yields_bind: "yields (\<lambda>_. True) m \<Longrightarrow> (\<And>x. yields P (f x)) \<Longrightarrow> yields P (bindC m f)"
  by (auto simp: yields_def bindC_def split: prod.splits sum.splits) (metis Inr_not_Inl Pair_inject Inr_inject)+

lemma yields_if: "yields P m \<Longrightarrow> yields P m' \<Longrightarrow> yields P (if b then m else m')"
  by simp

lemma yields_step [yields_intros]:
  "yields (\<lambda>_. True) (outC s)" "yields (\<lambda>_. True) (errC s)" "yields (\<lambda>_. True) (filesC m)" "yields (\<lambda>_. True) (memC m')"
  "yields (\<lambda>_. True) (returnC x)"
  by (simp_all add: yields_def outC_def errC_def filesC_def memC_def returnC_def split: prod.splits)

lemmas yields_rules = yields_bind yields_if yields_return yields_intros

section \<open>Display names\<close>

lemma encode_rune_printable:
  assumes "\<not> (r < 0x20 \<or> r = 0x7F)"
  shows "\<forall>c \<in> set (encode_rune r). 0x20 \<le> byte_val c \<and> byte_val c \<noteq> 0x7F"
  using assms by (auto simp: encode_rune_def RuneError_def)

section \<open>A sample\<close>

text \<open>A machine where every call succeeds and nothing answers on the network, with its data in one place.\<close>

definition sample_proc :: proc_env where
  "sample_proc = \<lparr>pv_getenv = (\<lambda>n. if n = EnvDataDir then ''/d'' else if n = EnvClaudeMemDir then ''d'' else []),
     pv_goos = Linux\<rparr>"

definition sample_cli :: cli_env where
  "sample_cli = \<lparr>ce_proc = sample_proc, ce_data_dir = [], ce_hub = None, ce_do = (\<lambda>_. Inl os_error),
     ce_os = sample_env (\<lambda>_. None), ce_sql = quiet_env, ce_pair = good_files 0, ce_journal = ''wal'',
     ce_alive = (\<lambda>_. False), ce_hostname = Inr ''box'', ce_exec = (\<lambda>_ _. ([], None)),
     ce_browse = ([], False), ce_order = (\<lambda>fs. fs), ce_now = 0, ce_version = ''dev'',
     ce_duration = (\<lambda>_. None), ce_text = (\<lambda>_. ''error''), ce_pair_text = (\<lambda>_. ''error''),
     ce_flag_text = (\<lambda>_ _. ''usage''), ce_show_duration = (\<lambda>_. ''5m0s''), ce_show_time = (\<lambda>_. ''now''),
     ce_tabulate = (\<lambda>s. s), ce_printable = (\<lambda>_. True)\<rparr>"

definition world_of :: "files \<Rightarrow> cdb \<Rightarrow> hub_dir \<Rightarrow> world" where
  "world_of fs mem d = \<lparr>w_out = [], w_err = [], w_calls = 0, w_files = fs, w_mem = mem, w_dirs = (\<lambda>_. d)\<rparr>"

lemma sample_data_dir [simp]: "dataDirFor sample_cli f = Inr ''/d''"
  by (simp add: dataDirFor_def DataDir_def sample_cli_def sample_proc_def path_clean_def is_rooted_def)

lemma sample_cli_simps [simp]:
  "ce_sql sample_cli = quiet_env" "ce_pair sample_cli = good_files 0" "ce_journal sample_cli = ''wal''"
  "ce_os sample_cli = sample_env (\<lambda>_. None)"
  by (simp_all add: sample_cli_def)

lemma sample_duration: "ce_duration sample_cli = (\<lambda>_. None)" "ce_proc sample_cli = sample_proc"
  by (simp_all add: sample_cli_def)

lemma world_of_simps [simp]:
  "w_files (world_of fs mem d) = fs" "w_mem (world_of fs mem d) = mem" "w_dirs (world_of fs mem d) dir = d"
  "w_calls (world_of fs mem d) = 0"
  by (simp_all add: world_of_def)

end
