(* ===== verification/PairCmd.thy ===== *)
theory PairCmd
  imports Cli HubProps
begin

text \<open>
  \<open>internal/cli/pair_cmd.go\<close>: the commands run beside a hub. They act on the data directory that
  \<open>dataDirFor\<close> resolves, on the key and the window (\<open>Pair\<close>) or on the database (\<open>Store\<close>, \<open>Devices\<close>).

  The lemmas say what each command changes, what a revocation does to a hub that is already running, and
  what a rotated key does.
\<close>

section \<open>The commands\<close>

definition runPair :: "cli_env \<Rightarrow> bytes list \<Rightarrow> nat command" where
  "runPair env args =
     bindC (with_flags env ''pair'' [(''data-dir'', VString []), (''ttl'', VDuration DefaultWindow)] args) (\<lambda>(fl, _).
     bindC (orDie env (dataDirFor env (flag_string fl ''data-dir''))) (\<lambda>dir.
     bindC (bindC (pairC dir (LoadOrCreate (ce_pair env))) (orDieP env)) (\<lambda>keys.
     bindC (bindC (pairC dir (FileWindow_Open (ce_pair env) (flag_int fl ''ttl''))) (orDieP env)) (\<lambda>(code, expires).
     bindC (outC (''pairing open for '' @ ce_show_duration env (expires - ce_now env) @ nl @ nl)) (\<lambda>_.
     bindC (outC (''  code         '' @ code @ nl)) (\<lambda>_.
     bindC (outC (''  fingerprint  '' @ Fingerprint keys @ nl @ nl)) (\<lambda>_.
     bindC (outC (''On the other machine:'' @ nl @ ''  cmemlan connect http://<this-host>:8787 --code '' @ code @ nl @ nl)) (\<lambda>_.
     bindC (outC (''Check that it shows the same fingerprint before confirming.'' @ nl)) (\<lambda>_.
       returnC 0)))))))))"

definition device_line :: "cli_env \<Rightarrow> device \<Rightarrow> bytes" where
  "device_line env d =
     (let tab = [CHR 0x09]; status = (if Revoked d then ''revoked'' else ''active'') in
      device_ID d @ tab @ sanitise (device_Name d) @ tab @ ce_show_time env (LastSeen d) @ tab @ status @ nl)"

definition devices_header :: bytes where
  "devices_header = (let tab = [CHR 0x09] in ''DEVICE ID'' @ tab @ ''NAME'' @ tab @ ''LAST SEEN'' @ tab @ ''STATUS'' @ nl)"

definition open_store :: "cli_env \<Rightarrow> bytes \<Rightarrow> store command" where
  "open_store env dir = bindC (storeC dir (Open (ce_sql env) (ce_journal env))) (orDie env)"

definition runDevices :: "cli_env \<Rightarrow> bytes list \<Rightarrow> nat command" where
  "runDevices env args =
     bindC (with_flags env ''devices'' [(''data-dir'', VString [])] args) (\<lambda>(fl, _).
     bindC (orDie env (dataDirFor env (flag_string fl ''data-dir''))) (\<lambda>dir.
     bindC (open_store env dir) (\<lambda>st.
     bindC (bindC (storeC dir (ListDevices (ce_sql env) (st_userID st))) (orDie env)) (\<lambda>devices.
       if devices = [] then bindC (outC (''no devices have contacted this hub yet'' @ nl)) (\<lambda>_. returnC 0)
       else bindC (outC (ce_tabulate env (devices_header @ concat (map (device_line env) devices)))) (\<lambda>_. returnC 0)))))"

definition runRevoke :: "cli_env \<Rightarrow> bytes list \<Rightarrow> nat command" where
  "runRevoke env args =
     bindC (with_flags env ''revoke'' [(''data-dir'', VString [])] args) (\<lambda>(fl, pos).
       if length pos \<noteq> 1 then bindC (errC (''usage: cmemlan revoke <device-id>'' @ nl)) (\<lambda>_. exitC 2)
       else
     bindC (orDie env (dataDirFor env (flag_string fl ''data-dir''))) (\<lambda>dir.
     bindC (open_store env dir) (\<lambda>st.
     bindC (bindC (storeC dir (RevokeDevice (ce_sql env) (st_userID st) (hd pos))) (orDie env)) (\<lambda>_.
     bindC (outC (''revoked '' @ hd pos @ nl)) (\<lambda>_.
     bindC (outC (''Restart the hub if it is running, so the change takes effect immediately.'' @ nl)) (\<lambda>_.
       returnC 0))))))"

definition runRotateToken :: "cli_env \<Rightarrow> bytes list \<Rightarrow> nat command" where
  "runRotateToken env args =
     bindC (with_flags env ''rotate-token'' [(''data-dir'', VString [])] args) (\<lambda>(fl, _).
     bindC (orDie env (dataDirFor env (flag_string fl ''data-dir''))) (\<lambda>dir.
     bindC (bindC (pairC dir (Rotate (ce_pair env))) (orDieP env)) (\<lambda>keys.
     bindC (outC (''key rotated'' @ nl @ nl @ ''  fingerprint  '' @ Fingerprint keys @ nl @ nl)) (\<lambda>_.
     bindC (outC (''Every device must pair again: run `cmemlan pair` here, then'' @ nl)) (\<lambda>_.
     bindC (outC (''`cmemlan connect <url> --code <code>` on each machine.'' @ nl)) (\<lambda>_.
     bindC (outC (''Existing memories are unaffected and will not be re-synced.'' @ nl)) (\<lambda>_.
       returnC 0)))))))"

section \<open>Names on the terminal\<close>

lemma sanitise_bytes: "c \<in> set (sanitise s) \<Longrightarrow> 0x20 \<le> byte_val c \<and> byte_val c \<noteq> 0x7F"
proof (cases "filter (\<lambda>r. \<not> (r < 0x20 \<or> r = 0x7F)) (runes s) = []")
  case True
  moreover assume "c \<in> set (sanitise s)"
  ultimately have "c \<in> set ''(unnamed)''" by (simp only: sanitise_def Let_def simp_thms if_True)
  then show ?thesis by (auto simp: byte_simps)
next
  case False
  moreover assume "c \<in> set (sanitise s)"
  ultimately have "c \<in> set (concat (map encode_rune (filter (\<lambda>r. \<not> (r < 0x20 \<or> r = 0x7F)) (runes s))))"
    by (simp only: sanitise_def Let_def if_False)
  then obtain r where "\<not> (r < 0x20 \<or> r = 0x7F)" "c \<in> set (encode_rune r)" by auto
  then show ?thesis using encode_rune_printable by blast
qed

text \<open>
  The C1 controls are not stripped: U+009B, which terminals may take for the start of an escape sequence,
  passes.
\<close>

lemma sanitise_keeps_c1: "sanitise [CHR 0xC2, CHR 0x9B] = [CHR 0xC2, CHR 0x9B]"
  by (simp add: sanitise_def Let_def runes.simps(2) decode_rune.simps lead_info_def RuneSelf_def encode_rune_def RuneError_def byte_val_eq [symmetric])

section \<open>Revoking while the hub runs\<close>

lemma verify_user: "verifyHeadConsistency env s (k, db) = (Inr s', k', db') \<Longrightarrow>
    st_userID s' = st_userID s \<and> devices_table db' = devices_table db"
  by (auto simp: verifyHeadConsistency_def io_simps Let_def set_epoch_def update_head_def split: option.splits if_splits)

lemma Open_user:
  assumes "Open env mode (k, db) = (Inr s, k', db')" "user_version db = schemaVersion" "first_meta db = Some (u, e)"
  shows "st_userID s = u" "devices_table db' = devices_table db"
proof -
  obtain k2 db1 s0 k4 db3 where
    m: "migrate env (Suc (Suc (Suc (Suc k))), db) = (Inr (), k2, db1)"
    and l: "loadOrCreateMeta env (Suc k2, db1) = (Inr s0, k4, db3)"
    and v: "verifyHeadConsistency env s0 (Suc (Suc (Suc k4)), db3) = (Inr s, k', db')"
    using assms(1) by (auto simp: Open_def restrictPermissions_def io_simps)
  from migrate_Inr [OF m] assms(2) have "db1 = db" by auto
  with loadOrCreateMeta_Inr [OF l] assms(3) have "db3 = db" "st_userID s0 = u"
    by (auto simp: first_meta_def split: list.splits)
  with v show "st_userID s = u" "devices_table db' = devices_table db" by (auto dest: verify_user)
qed

lemma RevokeDevice_Inr:
  "RevokeDevice env u dev (k, db) = (Inr x, k', db') \<Longrightarrow> is_revoked u dev db'"
  by (auto simp: RevokeDevice_def io_simps stmt_def is_revoked_RevokeDevice find_device_def find_None_iff is_active_def
      filter_empty_conv split: if_splits)

lemma one_positional: "\<not> is_flag p \<Longrightarrow> parseFlags dur fl [p] = Inr (fl, [p])"
  using flags_interleave_lemma [of dur fl "[Pos p]"] by simp

lemma no_arguments: "parseFlags dur fl [] = Inr (fl, [])"
  using flags_interleave_lemma [of dur fl "[]"] by simp

lemma runRevoke_done:
  assumes "run_command (runRevoke env [dev]) w = (0, w')" "\<not> is_flag dev" "dataDirFor env [] = Inr dir"
    and "user_version (hd_db (w_dirs w dir)) = schemaVersion" "first_meta (hd_db (w_dirs w dir)) = Some (u, e)"
  shows "is_revoked u dev (hd_db (w_dirs w' dir))"
proof -
  have p: "parseFlags (ce_duration env) [(''data-dir'', VString [])] [dev] = Inr ([(''data-dir'', VString [])], [dev])"
    using assms(2) by (rule one_positional)
  from assms(1) obtain k s k1 db1 k2 db2 where
    o: "Open (ce_sql env) (ce_journal env) (k, hd_db (w_dirs w dir)) = (Inr s, k1, db1)"
    and r: "RevokeDevice (ce_sql env) (st_userID s) dev (k1, db1) = (Inr (), k2, db2)"
    and w': "hd_db (w_dirs w' dir) = db2"
    by (auto simp: run_command_eq runRevoke_def cli_simps p flag_string_def assms(3) open_store_def)
  from RevokeDevice_Inr [OF r] Open_user(1) [OF o assms(4,5)] w' show ?thesis by simp
qed

text \<open>
  C26: Revoking works at once. When \<open>cmemlan revoke\<close> succeeds, a hub that is already running on the same data
  directory refuses the device from then on: every sync request that names it is answered with an error
  and changes nothing. No restart is needed, whatever the command prints.
\<close>

theorem revoke_needs_no_restart:
  assumes "run_command (runRevoke env [header_of r ''X-Device-Id'']) w = (0, w')"
    and "\<not> is_flag (header_of r ''X-Device-Id'')" "dataDirFor env [] = Inr dir"
    and "user_version (hd_db (w_dirs w dir)) = schemaVersion"
    and "first_meta (hd_db (w_dirs w dir)) = Some (st_userID (hs_store st), e)"
    and "rq_path r \<notin> {''/healthz'', ''/pair''}" "hs_db st = hd_db (w_dirs w' dir)"
  shows "snd (Handler s n ctx r st) = st \<and> is_error s (fst (Handler s n ctx r st))"
  using Handler_refused [OF _ revoked_not_admitted] runRevoke_done [OF assms(1-5)] assms(6,7) by simp

definition laptop_db :: db where
  "laptop_db = new_db\<lparr>devices_table :=
     [\<lparr>dev_user = ''hub'', dev_id = ''laptop'', dev_name = None, first_seen = 1, last_seen = 1, revoked_at = None\<rparr>]\<rparr>"

lemma open_laptop: "\<exists>k'. Open quiet_env ''wal'' (k, laptop_db) = (Inr new_store, k', laptop_db)"
  by (simp add: Open_def bindI_def file_call_def ignoreI_def verifyWAL_def migrate_def loadOrCreateMeta_def
      restrictPermissions_def verifyHeadConsistency_def first_meta_def epoch_of_def stored_five Let_def
      laptop_db_def new_db_def schemaVersion_def find_head_def max_seq_def user_ops_def actual_seq_def new_store_def)

lemma revoke_laptop: "\<exists>w'. run_command (runRevoke sample_cli [''laptop'']) (world_of [] sample_cdb \<lparr>hd_db = laptop_db, hd_pair = paired_dir\<rparr>) = (0, w')"
proof -
  obtain k' where o: "Open quiet_env ''wal'' (0, laptop_db) = (Inr new_store, k', laptop_db)" using open_laptop ..
  have p: "parseFlags d [(''data-dir'', VString [])] [''laptop''] = Inr ([(''data-dir'', VString [])], [''laptop''])" for d
    by (rule one_positional) (simp add: is_flag_def)
  have r: "\<exists>k db. RevokeDevice quiet_env ''hub'' ''laptop'' (k', laptop_db) = (Inr (), k, db)"
    by (simp add: RevokeDevice_def bindI_def laptop_db_def is_active_def same_device_def stmt_def quiet_env_def)
  then show ?thesis
    by (auto simp: run_command_eq runRevoke_def cli_simps p open_store_def o new_store_def)
qed

theorem revoke_needs_no_restart_witness:
  "\<exists>w'. run_command (runRevoke sample_cli [''laptop'']) (world_of [] sample_cdb \<lparr>hd_db = laptop_db, hd_pair = paired_dir\<rparr>) = (0, w')
    \<and> is_error (New sample_options (\<lambda>_. True)) (fst (Handler (New sample_options (\<lambda>_. True)) 0 quiet_ctx
        (sample_request ''GET'' ''/v1/sync/status'' ''key'' []) (sample_hub\<lparr>hs_db := hd_db (w_dirs w' ''/d'')\<rparr>)))"
proof -
  let ?w = "world_of [] sample_cdb \<lparr>hd_db = laptop_db, hd_pair = paired_dir\<rparr>"
  let ?r = "sample_request ''GET'' ''/v1/sync/status'' ''key'' []"
  obtain w' where w': "run_command (runRevoke sample_cli [''laptop'']) ?w = (0, w')" using revoke_laptop by blast
  let ?st = "sample_hub\<lparr>hs_db := hd_db (w_dirs w' ''/d'')\<rparr>"
  have dev: "header_of ?r ''X-Device-Id'' = ''laptop''" "rq_path ?r = ''/v1/sync/status''" by (simp_all only: sample_request_simps)
  have "is_error (New sample_options (\<lambda>_. True)) (fst (Handler (New sample_options (\<lambda>_. True)) 0 quiet_ctx ?r ?st))"
  proof (rule conjunct2 [OF revoke_needs_no_restart])
    show "run_command (runRevoke sample_cli [header_of ?r ''X-Device-Id'']) ?w = (0, w')"
      unfolding dev by (rule w')
    show "first_meta (hd_db (w_dirs ?w ''/d'')) = Some (st_userID (hs_store ?st), ''5'')"
      by (simp add: first_meta_def laptop_db_def new_db_def sample_hub_def new_store_def)
  qed (simp_all add: dev is_flag_def laptop_db_def new_db_def schemaVersion_def)
  with w' show ?thesis by blast
qed

section \<open>Rotating while the hub runs\<close>

lemma digest_char_solid: "digest_char c \<Longrightarrow> solid c"
  by (auto simp: digest_char_def solid_def byte_simps)

lemma b64_solid: "b64_encode b \<noteq> [] \<Longrightarrow> solid (hd (b64_encode b)) \<and> solid (last (b64_encode b))"
  using b64_encode_chars [of b] by (simp add: list_all_iff digest_char_solid)

lemma trim_newline: "trim_space [CHR 0x0A] = []"
proof -
  have "find (\<lambda>w. w \<noteq> [] \<and> has_prefix w [CHR 0x0A]) space_encodings = Some [CHR 0x0A]"
    by (simp add: space_encodings_bytes has_prefix_def)
  moreover have "strip ws [] = []" for ws
    by (subst strip.simps) (auto simp: has_prefix_def dest!: find_SomeD split: option.splits)
  ultimately show ?thesis by (subst trim_space_def) (subst (2) strip.simps, simp)
qed

text \<open>The key file round trip: what \<open>Rotate\<close> wrote, \<open>LoadOrCreate\<close> reads.\<close>

lemma trim_key: "trim_space (b64_encode b @ [CHR 0x0A]) = b64_encode b"
  using trim_space_line [of "b64_encode b"] b64_solid [of b] trim_newline by (cases "b64_encode b = []") simp_all

lemma Rotate_key: "Rotate env dir = (Inr ks, dir') \<Longrightarrow> pd_key dir' = Some (PSK ks @ [CHR 0x0A])"
  by (auto simp: Rotate_def split: sum.splits if_splits)

lemma Rotate_then_load:
  assumes "Rotate env dir = (Inr ks, dir')" "LoadOrCreate env' dir'' = (Inr ks', d)" "pd_key dir'' = pd_key dir'"
  shows "ks' = ks"
  using assms by (auto simp: Rotate_def newSecret_def LoadOrCreate_def Let_def trim_key split: option.splits sum.splits if_splits)

lemma redeemed_key:
  "FileWindow_Redeem (env, code) dir = (Inr token, dir') \<Longrightarrow> \<exists>d. LoadOrCreate env dir = (Inr \<lparr>PSK = token\<rparr>, d)"
  by (auto simp: FileWindow_Redeem_def Let_def split: if_splits option.splits window_file.splits sum.splits prod.splits bool.splits)

lemma runRotateToken_done:
  assumes "run_command (runRotateToken env []) w = (0, w')" "dataDirFor env [] = Inr dir"
  shows "\<exists>ks. Rotate (ce_pair env) (hd_pair (w_dirs w dir)) = (Inr ks, hd_pair (w_dirs w' dir))
    \<and> hd_db (w_dirs w' dir) = hd_db (w_dirs w dir)"
  using assms by (auto simp: run_command_eq runRotateToken_def cli_simps no_arguments flag_string_def)

text \<open>
  C27: Rotation reaches a running hub in part. After \<open>cmemlan rotate-token\<close> the window file hands out the new
  key, but a hub started before still compares with the old one: every sync request that carries the key
  it has just handed out is refused.
\<close>

theorem rotated_key_is_refused:
  assumes "run_command (runRotateToken env []) w = (0, w')" "dataDirFor env [] = Inr dir"
    and "opt_Auth (srv_opts s) = Some (StaticToken_Verify u old)"
    and "FileWindow_Redeem (penv, code) (hd_pair (w_dirs w' dir)) = (Inr token, p)" "old \<noteq> token"
    and "bearerToken r = token" "rq_path r \<notin> {''/healthz'', ''/pair''}"
  shows "pd_key (hd_pair (w_dirs w' dir)) = Some (token @ [CHR 0x0A])
    \<and> is_error s (fst (Handler s n ctx r st)) \<and> snd (Handler s n ctx r st) = st"
proof -
  obtain ks where rot: "Rotate (ce_pair env) (hd_pair (w_dirs w dir)) = (Inr ks, hd_pair (w_dirs w' dir))"
    using runRotateToken_done [OF assms(1,2)] by blast
  obtain d where "LoadOrCreate penv (hd_pair (w_dirs w' dir)) = (Inr \<lparr>PSK = token\<rparr>, d)"
    using redeemed_key [OF assms(4)] ..
  from Rotate_then_load [OF rot this] have "ks = \<lparr>PSK = token\<rparr>" by simp
  with Rotate_key [OF rot] have "pd_key (hd_pair (w_dirs w' dir)) = Some (token @ [CHR 0x0A])" by simp
  moreover have "\<not> admitted s r st"
    using assms(3,5,6) by (simp add: admitted_def verify_auth_def StaticToken_Verify_def)
  ultimately show ?thesis using Handler_refused [of r s st n ctx] assms(7) by simp
qed

definition window_dir :: pair_dir where
  "window_dir = \<lparr>pd_key = Some ''old'', pd_window = Some (Parsed \<lparr>CodeHash = hashCode ''1'', ExpiresAt = 9, Attempts = 0\<rparr>)\<rparr>"

lemma rotate_window_dir: "\<exists>w'. run_command (runRotateToken sample_cli []) (world_of [] sample_cdb \<lparr>hd_db = new_db, hd_pair = window_dir\<rparr>) = (0, w')
    \<and> hd_pair (w_dirs w' ''/d'') = window_dir\<lparr>pd_key := Some (b64_encode [CHR 0x01] @ [CHR 0x0A])\<rparr>"
  by (auto simp: run_command_eq runRotateToken_def cli_simps no_arguments Rotate_def newSecret_def good_files_def)

lemma rotated_redeems:
  "FileWindow_Redeem (good_files 3, ''1'') (window_dir\<lparr>pd_key := Some (b64_encode [CHR 0x01] @ [CHR 0x0A])\<rparr>)
    = (Inr (b64_encode [CHR 0x01]), window_dir\<lparr>pd_key := Some (b64_encode [CHR 0x01] @ [CHR 0x0A]), pd_window := None\<rparr>)"
proof -
  have "b64_encode [CHR 0x01] \<noteq> []" by simp
  then show ?thesis
    by (simp add: FileWindow_Redeem_def window_dir_def good_files_def LoadOrCreate_def trim_key FileWindow_Close_def
        MaxAttempts_def Let_def del: b64_encode.simps)
qed

theorem rotated_key_is_refused_witness:
  "\<exists>w'. run_command (runRotateToken sample_cli []) (world_of [] sample_cdb \<lparr>hd_db = new_db, hd_pair = window_dir\<rparr>) = (0, w')
    \<and> fst (FileWindow_Redeem (good_files 3, ''1'') (hd_pair (w_dirs w' ''/d''))) = Inr (b64_encode [CHR 0x01])
    \<and> is_error (New sample_options (\<lambda>_. True)) (fst (Handler (New sample_options (\<lambda>_. True)) 0 quiet_ctx
        (sample_request ''GET'' ''/v1/sync/status'' (b64_encode [CHR 0x01]) []) sample_hub))"
proof -
  let ?r = "sample_request ''GET'' ''/v1/sync/status'' (b64_encode [CHR 0x01]) []"
  obtain w' where w': "run_command (runRotateToken sample_cli []) (world_of [] sample_cdb \<lparr>hd_db = new_db, hd_pair = window_dir\<rparr>) = (0, w')"
    and p: "hd_pair (w_dirs w' ''/d'') = window_dir\<lparr>pd_key := Some (b64_encode [CHR 0x01] @ [CHR 0x0A])\<rparr>"
    using rotate_window_dir by blast
  have "is_error (New sample_options (\<lambda>_. True)) (fst (Handler (New sample_options (\<lambda>_. True)) 0 quiet_ctx ?r sample_hub))"
  proof (rule conjunct1 [OF conjunct2 [OF rotated_key_is_refused [OF w' sample_data_dir]]])
    show "opt_Auth (srv_opts (New sample_options (\<lambda>_. True))) = Some (StaticToken_Verify ''hub'' ''key'')"
      by (simp add: New_def withDefaults_def sample_options_def)
    show "FileWindow_Redeem (good_files 3, ''1'') (hd_pair (w_dirs w' ''/d''))
        = (Inr (b64_encode [CHR 0x01]), window_dir\<lparr>pd_key := Some (b64_encode [CHR 0x01] @ [CHR 0x0A]), pd_window := None\<rparr>)"
      unfolding p by (rule rotated_redeems)
    show "''key'' \<noteq> b64_encode [CHR 0x01]" by (simp add: Let_def)
    show "bearerToken ?r = b64_encode [CHR 0x01]"
      by (simp add: bearerToken_def sample_request_def get_value_def Let_def)
  qed (simp only: sample_request_simps, simp)
  with w' p rotated_redeems show ?thesis by auto
qed

end
