(* ===== verification/JsonCompact.thy ===== *)
theory JsonCompact
  imports JsonIndent JsonStruct Wrapper
begin

text \<open>
  Reading an object written without spaces whose keys need no escape and whose values are string
  literals or integers: the bodies the hub and its clients exchange on the pairing path, and the file of
  a pairing window. The text reads as one value, and its members read back.
\<close>

section \<open>Values inside an object\<close>

text \<open>A value that the scanner takes as a whole, whatever follows it in an object.\<close>

definition scannable :: "bytes \<Rightarrow> bool" where
  "scannable v \<longleftrightarrow> v \<noteq> [] \<and> \<not> is_space (hd v)
     \<and> (\<forall>stk c rest. c \<in> {CHR '','', CHR ''}''}
          \<longrightarrow> scan_text BeginValue stk (v @ c # rest) = map_option (apfst ((@) v)) (scan_text EndValue stk (c # rest)))"

lemma scannableD:
  "scannable v \<Longrightarrow> c \<in> {CHR '','', CHR ''}''} \<Longrightarrow>
     scan_text BeginValue stk (v @ c # rest) = map_option (apfst ((@) v)) (scan_text EndValue stk (c # rest))"
  unfolding scannable_def by blast

lemma scannable_literal:
  assumes "is_literal v"
  shows "scannable v"
proof -
  have "v \<noteq> [] \<and> \<not> is_space (hd v)" using assms by (auto simp: is_literal_iff is_space_def)
  then show ?thesis
    using scan_literal [OF assms begin_steps(3)] by (simp add: scannable_def del: scan_text.simps)
qed

lemma scan_on:
  "scan_step st stk d = (opc, st', stk) \<Longrightarrow> opc = ScanBeginLiteral \<or> opc = ScanContinue \<Longrightarrow>
     scan_text st stk (d # s) = map_option (apfst ((#) d)) (scan_text st' stk s)"
  by auto

lemma scan_put: "map_option (apfst ((#) d)) (map_option (apfst ((@) ds)) r) = map_option (apfst ((@) (d # ds))) r"
  "map_option (apfst ((#) d)) r = map_option (apfst ((@) [d])) r" "map_option (apfst (\<lambda>x. x)) r = r"
  by (cases r; auto)+

lemma scan_stop: "scan_step st stk c = end_value stk c \<Longrightarrow> scan_text st stk (c # rest) = scan_text EndValue stk (c # rest)"
  by simp

lemma scan_digits:
  "list_all is_digit ds \<Longrightarrow> c \<in> {CHR '','', CHR ''}''} \<Longrightarrow>
     scan_text Num1 stk (ds @ c # rest) = map_option (apfst ((@) ds)) (scan_text EndValue stk (c # rest))"
proof (induction ds)
  case Nil
  then have "scan_step Num1 stk c = end_value stk c" by (auto simp: is_digit_def num_0_def)
  from scan_stop [OF this] show ?case by (simp only: append_Nil scan_put(3))
next
  case (Cons d ds)
  then have "scan_step Num1 stk d = (ScanContinue, Num1, stk)" by simp
  note digit = scan_on [OF this disjI2 [OF refl]]
  have "scan_text Num1 stk ((d # ds) @ c # rest) =
      map_option (apfst ((#) d)) (map_option (apfst ((@) ds)) (scan_text EndValue stk (c # rest)))"
    using Cons by (simp only: append_Cons digit list.pred_inject)
  then show ?case by (simp only: scan_put(1))
qed

lemma digit_not_special:
  assumes "is_digit d"
  shows "\<not> is_space d" "d \<noteq> CHR ''{''" "d \<noteq> CHR ''[''" "d \<noteq> CHR 0x22" "d \<noteq> CHR ''-''" "d \<noteq> CHR ''t''" "d \<noteq> CHR ''f''" "d \<noteq> CHR ''n''"
  using assms by (auto simp: is_digit_def is_space_def)

lemma begin_digit: "is_digit d \<Longrightarrow> d \<noteq> CHR ''0'' \<Longrightarrow> begin_value stk d = (ScanBeginLiteral, Num1, stk)"
  using digit_not_special [of d] by (simp add: begin_value_def)

lemma scan_format_nat:
  assumes "c \<in> {CHR '','', CHR ''}''}" "st = BeginValue \<or> st = NumNeg"
  shows "scan_text st stk (format_nat n @ c # rest) = map_option (apfst ((@) (format_nat n))) (scan_text EndValue stk (c # rest))"
proof -
  obtain d ds where f: "format_nat n = d # ds" by (metis format_nat_nonempty neq_Nil_conv)
  then have dig: "is_digit d" "list_all is_digit ds" using format_nat_digits [of n] by simp_all
  show ?thesis
  proof (cases "n = 0")
    case True
    then have d: "d = CHR ''0''" "ds = []" using f by (simp_all add: format_nat_0)
    have "\<exists>opc. scan_step st stk d = (opc, Num0, stk) \<and> (opc = ScanBeginLiteral \<or> opc = ScanContinue)"
      using assms(2) d(1) by (auto simp: begin_value_def is_space_def)
    then obtain opc where o: "scan_step st stk d = (opc, Num0, stk)" "opc = ScanBeginLiteral \<or> opc = ScanContinue"
      by (elim exE conjE) (rule that)
    have "scan_step Num0 stk c = end_value stk c" using assms(1) by (auto simp: num_0_def)
    then have "scan_text Num0 stk (c # rest) = scan_text EndValue stk (c # rest)" by (rule scan_stop)
    with scan_on [OF o, of "c # rest"] show ?thesis by (simp only: f d(2) append_Cons append_Nil scan_put(2))
  next
    case False
    then have "d \<noteq> CHR ''0''" using hd_format_nat [of n] f by simp
    then have "\<exists>opc. scan_step st stk d = (opc, Num1, stk) \<and> (opc = ScanBeginLiteral \<or> opc = ScanContinue)"
      using assms(2) begin_digit [OF dig(1), of stk] dig(1) by (elim disjE) simp_all
    then obtain opc where o: "scan_step st stk d = (opc, Num1, stk)" "opc = ScanBeginLiteral \<or> opc = ScanContinue"
      by (elim exE conjE) (rule that)
    have "scan_text st stk ((d # ds) @ c # rest) =
        map_option (apfst ((#) d)) (map_option (apfst ((@) ds)) (scan_text EndValue stk (c # rest)))"
      by (simp only: append_Cons scan_on [OF o] scan_digits [OF dig(2) assms(1)])
    then show ?thesis by (simp only: f scan_put(1))
  qed
qed

lemma scannable_nat: "scannable (format_nat n)"
proof -
  have "is_digit (hd (format_nat n))" using format_nat_digits [of n] by (cases "format_nat n") simp_all
  then have "\<not> is_space (hd (format_nat n))" by (auto simp: is_digit_def is_space_def)
  then show ?thesis unfolding scannable_def using scan_format_nat by simp
qed

lemma scannable_negative: "scannable (CHR ''-'' # format_nat n)"
proof -
  have "scan_step BeginValue stk CHR ''-'' = (ScanBeginLiteral, NumNeg, stk)" for stk
    by (simp add: begin_value_def is_space_def)
  note minus = scan_on [OF this disjI1 [OF refl]]
  have "scan_text BeginValue stk ((CHR ''-'' # format_nat n) @ c # rest) =
      map_option (apfst ((@) (CHR ''-'' # format_nat n))) (scan_text EndValue stk (c # rest))"
    if "c \<in> {CHR '','', CHR ''}''}" for stk c rest
  proof -
    have "scan_text BeginValue stk ((CHR ''-'' # format_nat n) @ c # rest) =
        map_option (apfst ((#) CHR ''-'')) (map_option (apfst ((@) (format_nat n))) (scan_text EndValue stk (c # rest)))"
      by (simp only: append_Cons minus scan_format_nat [OF that disjI2 [OF refl]])
    then show ?thesis by (simp only: scan_put(1))
  qed
  then show ?thesis unfolding scannable_def by (simp add: is_space_def)
qed

lemma read_scannable:
  assumes "scannable v" "c \<in> {CHR '','', CHR ''}''}"
  shows "read_value (v @ c # rest) = Some (v, c # rest)"
proof -
  have "scan_text EndValue [] (c # rest) = Some ([], c # rest)" by simp
  moreover have "skip_space v = v" using assms(1) by (cases v) (simp_all add: scannable_def skip_space_def)
  ultimately show ?thesis using scannableD [OF assms, of "[]" rest] by (simp add: read_value_def)
qed

section \<open>Objects\<close>

definition value_members :: "raw_map \<Rightarrow> bool" where
  "value_members kvs \<longleftrightarrow> list_all (\<lambda>(k, v). plain k \<and> scannable v) kvs"

definition literal_members :: "raw_map \<Rightarrow> bool" where
  "literal_members kvs \<longleftrightarrow> list_all (\<lambda>(k, v). plain k \<and> is_literal v) kvs"

lemma literal_value_members: "literal_members kvs \<Longrightarrow> value_members kvs"
  unfolding literal_members_def value_members_def by (auto simp: list_all_iff intro: scannable_literal)

fun more_members :: "raw_map \<Rightarrow> bytes" where
  "more_members [] = ''}''"
| "more_members ((k, v) # kvs) = CHR '','' # json_string k @ CHR '':'' # v @ more_members kvs"

fun compact_text :: "raw_map \<Rightarrow> bytes" where
  "compact_text [] = ''{}''"
| "compact_text ((k, v) # kvs) = CHR ''{'' # json_string k @ CHR '':'' # v @ more_members kvs"

lemma more_members_start: obtains c r where "more_members kvs = c # r" "c \<in> {CHR '','', CHR ''}''}"
  by (cases kvs rule: more_members.cases) auto

lemma is_literal_plain: "plain k \<Longrightarrow> is_literal (json_string k)"
  by (simp add: is_literal_json_string plain_wf_body)

lemma scan_compact_member:
  assumes "plain k" "scannable v" "st = BeginString \<or> st = BeginStringOrEmpty"
  shows "scan_text st [ParseObjectKey] (json_string k @ CHR '':'' # v @ more_members kvs @ rest) =
    map_option (apfst ((@) (json_string k @ CHR '':'' # v))) (scan_text EndValue [ParseObjectValue] (more_members kvs @ rest))"
proof -
  have q: "scan_step st [ParseObjectKey] CHR 0x22 = (ScanBeginLiteral, InString, [ParseObjectKey])"
    using assms(3) begin_steps by auto
  have colon: "scan_text EndValue [ParseObjectKey] (CHR '':'' # x) =
      map_option (apfst ((#) CHR '':'')) (scan_text BeginValue [ParseObjectValue] x)" for x
    by (simp add: end_value_steps)
  obtain c r where c: "more_members kvs = c # r" "c \<in> {CHR '','', CHR ''}''}" by (rule more_members_start)
  show ?thesis
    using scan_literal [OF is_literal_plain [OF assms(1)] q, of "CHR '':'' # v @ c # r @ rest"]
      scannableD [OF assms(2) c(2), of "[ParseObjectValue]" "r @ rest"]
    by (simp add: c(1) colon option.map_comp comp_def apfst_compose append_fun del: scan_text.simps)
qed

lemma scan_more:
  "value_members kvs \<Longrightarrow> scan_text EndValue [ParseObjectValue] (more_members kvs @ rest) = Some (more_members kvs, rest)"
proof (induction kvs rule: more_members.induct)
  case 1
  then show ?case by (simp add: end_value_steps)
next
  case (2 k v kvs)
  then have l: "plain k" "scannable v" "value_members kvs" by (simp_all add: value_members_def)
  have "scan_text EndValue [ParseObjectValue] (CHR '','' # x) =
      map_option (apfst ((#) (CHR '',''))) (scan_text BeginString [ParseObjectKey] x)" for x
    by (simp add: end_value_steps)
  with 2 l scan_compact_member [OF l(1,2), of BeginString kvs rest] show ?case
    by (simp del: scan_text.simps)
qed

lemma read_members:
  assumes "value_members kvs"
  shows "read_value (compact_text kvs @ rest) = Some (compact_text kvs, rest)"
proof -
  have open_brace: "begin_value [] CHR ''{'' = (ScanBeginObject, BeginStringOrEmpty, [ParseObjectKey])"
    by (simp add: begin_value_def push_state_def maxNestingDepth_def is_space_def)
  have first: "read_value (CHR ''{'' # x) =
      map_option (apfst ((#) (CHR ''{''))) (scan_text BeginStringOrEmpty [ParseObjectKey] x)" for x
    by (simp add: read_value_Cons open_brace)
  show ?thesis
  proof (cases kvs)
    case Nil
    then show ?thesis by (simp add: first end_value_def pop_state_def)
  next
    case (Cons kv kvs')
    obtain k v where kv: "kv = (k, v)" by (cases kv)
    from assms have l: "plain k" "scannable v" "value_members kvs'" by (simp_all add: value_members_def Cons kv)
    show ?thesis
      using scan_compact_member [OF l(1,2), of BeginStringOrEmpty kvs' rest] scan_more [OF l(3), of rest]
      by (simp add: Cons kv first del: scan_text.simps)
  qed
qed

lemma read_compact: "literal_members kvs \<Longrightarrow> read_value (compact_text kvs @ rest) = Some (compact_text kvs, rest)"
  by (rule read_members [OF literal_value_members])

lemma read_key: "plain k \<Longrightarrow> read_value (json_string k @ rest) = Some (json_string k, rest)"
  by (rule read_literal [OF is_literal_plain])

lemma read_member_value: "scannable v \<Longrightarrow> read_value (v @ more_members kvs) = Some (v, more_members kvs)"
  using more_members_start [of kvs] read_scannable by metis

lemma json_string_quote: "json_string k @ x = CHR 0x22 # tl (json_string k @ x)"
  by (simp add: json_string_def)

lemma members_more: "value_members kvs \<Longrightarrow> members False (more_members kvs) = Some kvs"
proof (induction kvs rule: more_members.induct)
  case 1
  then show ?case by (subst members.simps) simp
next
  case (2 k v kvs)
  then have l: "plain k" "scannable v" "value_members kvs" by (simp_all add: value_members_def)
  with 2 read_key [OF l(1)] read_member_value [OF l(2)] json_unquote_string [OF l(1)] show ?case
    by (subst members.simps) simp
qed

lemma members_compact:
  assumes "value_members kvs"
  shows "members True (tl (compact_text kvs)) = Some kvs"
proof (cases kvs)
  case Nil
  then show ?thesis by (subst members.simps) simp
next
  case (Cons kv kvs')
  obtain k v where kv: "kv = (k, v)" by (cases kv)
  from assms have l: "plain k" "scannable v" "value_members kvs'" by (simp_all add: value_members_def Cons kv)
  have "skip_space (json_string k @ CHR '':'' # v @ more_members kvs') = json_string k @ CHR '':'' # v @ more_members kvs'"
    by (subst (1 2) json_string_quote) simp
  then obtain cs where cs: "skip_space (json_string k @ CHR '':'' # v @ more_members kvs') = CHR 0x22 # cs"
    "CHR 0x22 # cs = json_string k @ CHR '':'' # v @ more_members kvs'"
    by (metis json_string_quote)
  have r: "read_value (CHR 0x22 # cs) = Some (json_string k, CHR '':'' # v @ more_members kvs')"
    unfolding cs(2) by (rule read_key [OF l(1)])
  show ?thesis
    using members_more [OF l(3)] read_member_value [OF l(2)] json_unquote_string [OF l(1)]
    by (subst members.simps) (simp add: Cons kv cs(1) r)
qed

lemma hd_compact: "hd (compact_text kvs) = CHR ''{''"
  by (cases kvs rule: compact_text.cases) simp_all

lemma decode_compact:
  "literal_members kvs \<Longrightarrow> decode_struct fs (compact_text kvs) s = decode_members fs kvs s"
  by (simp add: decode_struct_def hd_compact members_compact literal_value_members)

lemma unmarshal_compact:
  "value_members kvs \<Longrightarrow> unmarshal_struct fs (compact_text kvs) s = decode_members fs kvs s"
  using read_members [of kvs "[]"]
  by (simp add: unmarshal_struct_def whole_value_def decode_struct_def hd_compact members_compact skip_space_def)

end
