(* ===== verification/PairFiles.thy ===== *)
theory PairFiles
  imports PairCmd JsonCompact FileSys Settings
begin

text \<open>
  The key and the pairing window as files: \<open>internal/pair/pair.go\<close> and \<open>internal/pair/window_file.go\<close> again,
  this time over the file system of \<open>FileSys\<close>, with the window as the JSON text that is written, every call
  that may fail or break off, and the temporary files. \<open>Pair\<close> models the same functions on the contents of a
  directory, with one switch per kind of failure.

  The theorems: replacing the window is atomic; opening a window and redeeming a code on files are runs of \<open>Pair\<close>'s
  functions on their contents, with its switches as the calls went; replacing the key is atomic, and writing the first key is not.
  Other processes are left out (\<open>alone\<close>): the lock keeps them away.
\<close>

section \<open>The window as text\<close>

definition marshal_window :: "window_state \<Rightarrow> bytes" where
  "marshal_window st =
     compact_text [(''code_hash'', marshal_string (CodeHash st)), (''expires_at_ms'', id_text (ExpiresAt st)),
       (''attempts'', id_text (Attempts st))]"

definition window_fields :: "(bytes \<times> (bytes \<Rightarrow> window_state \<Rightarrow> window_state option)) list" where
  "window_fields =
     [(''code_hash'', set_string (\<lambda>x r. r\<lparr>CodeHash := x\<rparr>)), (''expires_at_ms'', set_int (\<lambda>x r. r\<lparr>ExpiresAt := x\<rparr>)),
      (''attempts'', set_int (\<lambda>x r. r\<lparr>Attempts := x\<rparr>))]"

definition unmarshal_window :: "bytes \<Rightarrow> window_state option" where
  "unmarshal_window b = unmarshal_struct window_fields b \<lparr>CodeHash = [], ExpiresAt = 0, Attempts = 0\<rparr>"

section \<open>The operations on files\<close>

definition KeyFile :: bytes where "KeyFile = ''psk''"
definition WindowFile :: bytes where "WindowFile = ''pairing.json''"

definition key_path :: "bytes \<Rightarrow> bytes" where "key_path dir = path_join [dir, KeyFile]"
definition window_path :: "bytes \<Rightarrow> bytes" where "window_path dir = path_join [dir, WindowFile]"

text \<open>\<open>os.Chmod\<close>, which looks the path up again.\<close>

definition Chmod :: "os_env \<Rightarrow> bytes \<Rightarrow> nat \<Rightarrow> (files, unit) action" where
  "Chmod env path mode =
     os_call env (\<lambda>now fs.
       case map_of fs path of
         None \<Rightarrow> (Inl ErrNotExist, fs)
       | Some f \<Rightarrow> (Inr (), AList.update path (f\<lparr>f_mode := mode\<rparr>) fs)) untorn"

text \<open>A call whose error the function wraps and returns.\<close>

definition callP :: "(files, 'a) action \<Rightarrow> bytes \<Rightarrow> ('a \<Rightarrow> (files, pair_error + 'b) action) \<Rightarrow> (files, pair_error + 'b) action" where
  "callP m msg f = bindI (tryI m) (\<lambda>r. case r of Inl e \<Rightarrow> returnI (Inl (PairOther msg)) | Inr x \<Rightarrow> f x)"

definition load_key :: "os_env \<Rightarrow> bytes option \<Rightarrow> bytes \<Rightarrow> (files, pair_error + keys) action" where
  "load_key env secret dir =
     callP (MkdirAll env dir) ''pair: creating data directory'' (\<lambda>_.
     bindI (tryI (ReadFile env (key_path dir))) (\<lambda>r. case r of
       Inr b \<Rightarrow>
         let psk = trim_space b in
         if psk = [] then returnI (Inl (PairOther ''pair: stored key is empty''))
         else callP (Chmod env (key_path dir) private_mode) ''pair: securing key file'' (\<lambda>_. returnI (Inr \<lparr>PSK = psk\<rparr>))
     | Inl e \<Rightarrow>
         if e = ErrNotExist then
           (case secret of
              None \<Rightarrow> returnI (Inl (PairOther ''pair: generating random material''))
            | Some b \<Rightarrow>
                callP (WriteFile env (key_path dir) (b64_encode b @ [CHR 0x0A]) private_mode) ''pair: writing key file'' (\<lambda>_.
                  returnI (Inr \<lparr>PSK = b64_encode b\<rparr>)))
         else returnI (Inl (PairOther ''pair: reading key file''))))"

definition rotate_key :: "os_env \<Rightarrow> bytes option \<Rightarrow> bytes \<Rightarrow> (files, pair_error + keys) action" where
  "rotate_key env secret dir =
     (case secret of
        None \<Rightarrow> returnI (Inl (PairOther ''pair: generating random material''))
      | Some b \<Rightarrow>
          callP (WriteFile env (key_path dir @ ''.tmp'') (b64_encode b @ [CHR 0x0A]) private_mode) ''pair: writing new key'' (\<lambda>_.
          callP (Rename env (key_path dir @ ''.tmp'') (key_path dir)) ''pair: replacing key file'' (\<lambda>_.
            returnI (Inr \<lparr>PSK = b64_encode b\<rparr>))))"

definition writeAtomic :: "os_env \<Rightarrow> bytes \<Rightarrow> bytes \<Rightarrow> (files, unit) action" where
  "writeAtomic env dir b =
     bindI (CreateTemp env dir ''.pairing-'' ''.tmp'') (\<lambda>name.
     finallyI
       (bindI (FdWrite env name b) (\<lambda>_.
        bindI (FdChmod env name private_mode) (\<lambda>_.
        bindI (Flush env) (\<lambda>_.
        Rename env name (window_path dir)))))
       (Remove env name))"

definition close_window :: "os_env \<Rightarrow> bytes \<Rightarrow> (files, unit) action" where
  "close_window env dir =
     bindI (tryI (Remove env (window_path dir))) (\<lambda>r. case r of
       Inl e \<Rightarrow> if e = ErrNotExist then returnI () else failI e
     | Inr _ \<Rightarrow> returnI ())"

text \<open>\<open>Open\<close>; the lock is taken once the directory is there.\<close>

definition open_window :: "os_env \<Rightarrow> bool \<Rightarrow> int \<Rightarrow> (nat \<Rightarrow> nat option) \<Rightarrow> int \<Rightarrow> bytes \<Rightarrow> (files, pair_error + bytes \<times> int) action" where
  "open_window env locked now rnd ttl0 dir =
     (let ttl = (if ttl0 \<le> 0 then DefaultWindow else ttl0) in
      case newCode rnd of
        Inl e \<Rightarrow> returnI (Inl e)
      | Inr code \<Rightarrow>
          (let expires = now + ttl;
               state = \<lparr>CodeHash = hashCode code, ExpiresAt = expires, Attempts = 0\<rparr> in
           callP (MkdirAll env dir) ''mkdir'' (\<lambda>_.
           if \<not> locked then returnI (Inl (PairOther ''pair: locking the pairing window''))
           else callP (writeAtomic env dir (marshal_window state)) ''pair: writing the pairing window'' (\<lambda>_.
             returnI (Inr (code, expires))))))"

definition quietly :: "(files, 'a) action \<Rightarrow> pair_error + 'b \<Rightarrow> (files, pair_error + 'b) action" where
  "quietly m r = bindI (tryI m) (\<lambda>_. returnI r)"

text \<open>\<open>Redeem\<close> once the window is locked (\<open>PairLock\<close>), or was not.\<close>

definition redeem_window :: "os_env \<Rightarrow> bool \<Rightarrow> int \<Rightarrow> bytes option \<Rightarrow> bytes \<Rightarrow> bytes \<Rightarrow> (files, pair_error + bytes) action" where
  "redeem_window env locked now secret code dir =
     (if \<not> locked then returnI (Inl (PairOther ''pair: locking the pairing window''))
      else bindI (tryI (ReadFile env (window_path dir))) (\<lambda>r. case r of
        Inl e \<Rightarrow> returnI (Inl (if e = ErrNotExist then ErrNoWindow else PairOther ''pair: reading the pairing window''))
      | Inr b \<Rightarrow>
          (case unmarshal_window b of
             None \<Rightarrow> returnI (Inl ErrNoWindow)
           | Some state \<Rightarrow>
               if now > ExpiresAt state then quietly (close_window env dir) (Inl ErrNoWindow)
               else if Attempts state \<ge> int MaxAttempts then quietly (close_window env dir) (Inl ErrTooManyAttempts)
               else if hashCode code \<noteq> CodeHash state then
                 (let state' = state\<lparr>Attempts := Attempts state + 1\<rparr> in
                  bindI (tryI (writeAtomic env dir (marshal_window state'))) (\<lambda>_.
                  if Attempts state' \<ge> int MaxAttempts then quietly (close_window env dir) (Inl ErrTooManyAttempts)
                  else returnI (Inl ErrBadCode)))
               else
                 bindI (load_key env secret dir) (\<lambda>k. case k of
                   Inl e \<Rightarrow> returnI (Inl e)
                 | Inr ks \<Rightarrow> callP (close_window env dir) ''remove'' (\<lambda>_. returnI (Inr (PSK ks)))))))"

section \<open>The window reads back\<close>

lemma id_text_value: "scannable (id_text i)"
  by (simp add: id_text_def scannable_nat scannable_negative)

lemma parse_uint_nat: "n < 2 ^ 64 \<Longrightarrow> parse_uint (format_nat n) = Inr n"
  by (simp add: parse_uint_def parse_uint_format)

lemma hd_nat_digit: "is_digit (hd (format_nat n))"
  using format_nat_digits [of n] by (cases "format_nat n") simp_all

lemma set_int_id_text:
  assumes "- (2 ^ 63) \<le> i" "i < 2 ^ 63"
  shows "set_int put (id_text i) s = Some (put i s)"
proof (cases "i < 0")
  case True
  have "parse_uint (format_nat (nat (- i))) = Inr (nat (- i))" using assms by (intro parse_uint_nat) (simp add: nat_less_iff)
  then show ?thesis using True assms by (simp add: set_int_def id_text_def parse_int64_def)
next
  case False
  obtain c cs where f: "format_nat (nat i) = c # cs" by (metis format_nat_nonempty neq_Nil_conv)
  then have dig: "is_digit c" using hd_nat_digit [of "nat i"] by simp
  then have c: "c \<noteq> CHR ''-''" "c \<noteq> CHR ''+''" by (auto simp: is_digit_def)
  have "parse_uint (format_nat (nat i)) = Inr (nat i)" using assms False by (intro parse_uint_nat) (simp add: nat_less_iff)
  with f c dig show ?thesis using False assms by (simp add: set_int_def id_text_def parse_int64_def)
qed

definition window_ok :: "window_state \<Rightarrow> bool" where
  "window_ok st \<longleftrightarrow> valid_utf8 (CodeHash st) \<and> - (2 ^ 63) \<le> ExpiresAt st \<and> ExpiresAt st < 2 ^ 63
     \<and> - (2 ^ 63) \<le> Attempts st \<and> Attempts st < 2 ^ 63"

text \<open>
  The file format is a round trip: the text of a window reads back as the window.
\<close>

lemma window_reads_back:
  assumes "window_ok st"
  shows "unmarshal_window (marshal_window st) = Some st"
proof -
  let ?kvs = "[(''code_hash'', marshal_string (CodeHash st)), (''expires_at_ms'', id_text (ExpiresAt st)), (''attempts'', id_text (Attempts st))]"
  have ok: "value_members ?kvs"
    by (simp add: value_members_def id_text_value scannable_literal is_literal_marshal plain_def plain_char_def RuneSelf_def byte_simps)
  have fold: "\<not> equal_fold ''expires_at_ms'' ''code_hash''" "\<not> equal_fold ''attempts'' ''code_hash''"
    "\<not> equal_fold ''attempts'' ''expires_at_ms''"
    by code_simp+
  have setters: "field_setter window_fields ''code_hash'' = Some (set_string (\<lambda>x r. r\<lparr>CodeHash := x\<rparr>))"
    "field_setter window_fields ''expires_at_ms'' = Some (set_int (\<lambda>x r. r\<lparr>ExpiresAt := x\<rparr>))"
    "field_setter window_fields ''attempts'' = Some (set_int (\<lambda>x r. r\<lparr>Attempts := x\<rparr>))"
    by (simp_all add: field_setter_def window_fields_def fold)
  have "set_string put (marshal_string (CodeHash st)) s = Some (put (CodeHash st) s)" for put :: "bytes \<Rightarrow> window_state \<Rightarrow> window_state" and s
    using assms json_unquote_marshal [of "CodeHash st"] by (simp add: set_string_def window_ok_def valid_utf8_def marshal_string_def)
  then show ?thesis
    unfolding unmarshal_window_def marshal_window_def unmarshal_compact [OF ok]
    using assms by (simp add: setters set_int_id_text window_ok_def)
qed

section \<open>Effects of the calls\<close>

definition alone :: "os_env \<Rightarrow> bool" where
  "alone env \<longleftrightarrow> os_other env = (\<lambda>_ fs. fs)"

definition temp_path :: "os_env \<Rightarrow> bytes \<Rightarrow> bytes" where
  "temp_path env dir = dir @ ''/'' @ ''.pairing-'' @ os_temp env @ ''.tmp''"

lemma os_call_alone:
  "alone env \<Longrightarrow> os_call env f torn (k, fs) =
    (case os_fault env k of
       Fine \<Rightarrow> (case f (os_now env k) fs of (r, fs') \<Rightarrow> (r, Suc k, fs'))
     | Refused \<Rightarrow> (Inl os_error, Suc k, fs)
     | Torn n \<Rightarrow> (Inl os_error, Suc k, torn n (os_now env k) fs))"
  by (simp add: os_call_def alone_def)

lemma ReadFile_effect:
  "alone env \<Longrightarrow> ReadFile env p (k, fs) = (r, k', fs') \<Longrightarrow> fs' = fs
    \<and> (r = Inl os_error \<or> r = (case map_of fs p of None \<Rightarrow> Inl ErrNotExist | Some f \<Rightarrow> Inr (f_data f)))"
  by (auto simp: ReadFile_def os_call_alone look_up_def untorn_def split: fault.splits option.splits)

lemma Remove_effect:
  "alone env \<Longrightarrow> Remove env p (k, fs) = (r, k', fs') \<Longrightarrow>
    r = Inl os_error \<and> fs' = fs \<or> map_of fs p = None \<and> r = Inl ErrNotExist \<and> fs' = fs
    \<or> map_of fs p \<noteq> None \<and> r = Inr () \<and> fs' = AList.delete p fs"
  by (auto simp: Remove_def os_call_alone untorn_def split: fault.splits if_splits)

lemma MkdirAll_effect: "alone env \<Longrightarrow> MkdirAll env p (k, fs) = (r, k', fs') \<Longrightarrow> fs' = fs"
  by (auto simp: MkdirAll_def os_call_alone untorn_def split: fault.splits)

lemma FdChmod_effect:
  "alone env \<Longrightarrow> FdChmod env p m (k, fs) = (r, k', fs') \<Longrightarrow> map_option f_data (map_of fs' q) = map_option f_data (map_of fs q)"
  by (cases "q = p") (auto simp: FdChmod_def os_call_alone untorn_def on_open_def update_conv' split: fault.splits option.splits)

lemma Chmod_effect:
  "alone env \<Longrightarrow> Chmod env p m (k, fs) = (r, k', fs') \<Longrightarrow> map_option f_data (map_of fs' q) = map_option f_data (map_of fs q)"
  by (cases "q = p") (auto simp: Chmod_def os_call_alone untorn_def update_conv' split: fault.splits option.splits)

lemma Rename_effect:
  "alone env \<Longrightarrow> Rename env p q (k, fs) = (r, k', fs') \<Longrightarrow> (\<exists>e. r = Inl e) \<and> fs' = fs
    \<or> (\<exists>f. map_of fs p = Some f \<and> r = Inr () \<and> fs' = AList.update q f (AList.delete p fs))"
  by (auto simp: Rename_def os_call_alone untorn_def split: fault.splits option.splits)

lemma FdWrite_effect:
  "alone env \<Longrightarrow> FdWrite env p d (k, fs) = (r, k', fs') \<Longrightarrow> (\<forall>q. q \<noteq> p \<longrightarrow> map_of fs' q = map_of fs q)
    \<and> (r = Inr () \<longrightarrow> map_of fs p \<noteq> None \<longrightarrow> map_option f_data (map_of fs' p) = Some d)"
  by (auto simp: FdWrite_def os_call_alone on_open_def update_conv' split: fault.splits option.splits)

lemma CreateTemp_effect:
  "alone env \<Longrightarrow> CreateTemp env dir ''.pairing-'' ''.tmp'' (k, fs) = (r, k', fs') \<Longrightarrow>
    (\<exists>e. r = Inl e) \<and> fs' = fs
    \<or> r = Inr (temp_path env dir) \<and> map_of fs (temp_path env dir) = None
      \<and> fs' = put_file (temp_path env dir) [] private_mode (os_now env k) fs"
  by (auto simp: CreateTemp_def temp_path_def os_call_alone untorn_def Let_def split: fault.splits if_splits)

section \<open>Replacing the window is atomic\<close>

lemma atomic_body:
  assumes "alone env" "t \<noteq> window_path dir" "map_of fs t \<noteq> None"
    and "bindI (FdWrite env t b) (\<lambda>_. bindI (FdChmod env t private_mode) (\<lambda>_. bindI (Flush env) (\<lambda>_. Rename env t (window_path dir)))) (k, fs)
      = (r, k', fs')"
  shows "(\<forall>q. q \<noteq> t \<longrightarrow> q \<noteq> window_path dir \<longrightarrow> map_option f_data (map_of fs' q) = map_option f_data (map_of fs q))
    \<and> map_option f_data (map_of fs' (window_path dir)) =
      (case r of Inr _ \<Rightarrow> Some b | Inl _ \<Rightarrow> map_option f_data (map_of fs (window_path dir)))"
proof -
  obtain r1 k1 fs1 where w: "FdWrite env t b (k, fs) = (r1, k1, fs1)" by (metis surj_pair)
  note we = FdWrite_effect [OF assms(1) w]
  show ?thesis
  proof (cases r1)
    case (Inl e)
    with assms(2,4) w we show ?thesis by (auto simp: bindI_def)
  next
    case (Inr u)
    with we assms(3) have d1: "map_option f_data (map_of fs1 t) = Some b" by auto
    obtain r2 k2 fs2 where c: "FdChmod env t private_mode (k1, fs1) = (r2, k2, fs2)" by (metis surj_pair)
    note ce = FdChmod_effect [OF assms(1) c]
    show ?thesis
    proof (cases r2)
      case (Inl e)
      with Inr assms(2,4) w we c ce show ?thesis by (auto simp: bindI_def)
    next
      case r2: (Inr v)
      obtain r3 k3 where f: "Flush env (k2, fs2) = (r3, k3, fs2)"
        using assms(1) by (cases "os_fault env k2") (simp_all add: Flush_def os_call_alone untorn_def)
      show ?thesis
      proof (cases r3)
        case (Inl e)
        with Inr r2 assms(2,4) w we c ce f show ?thesis by (auto simp: bindI_def)
      next
        case r3: (Inr x)
        have "Rename env t (window_path dir) (k3, fs2) = (r, k', fs')"
          using assms(4) Inr r2 r3 w c f by (simp add: bindI_def)
        note re = Rename_effect [OF assms(1) this]
        have d2: "map_option f_data (map_of fs2 t) = Some b" using ce [of t] d1 by simp
        have frame: "map_option f_data (map_of fs2 q) = map_option f_data (map_of fs q)" if "q \<noteq> t" for q
          using ce [of q] we that by simp
        from re show ?thesis
        proof (elim disjE exE conjE)
          fix e assume "r = Inl e" "fs' = fs2"
          then show ?thesis using frame assms(2) [symmetric] by simp
        next
          fix f assume "map_of fs2 t = Some f" "r = Inr ()" "fs' = AList.update (window_path dir) f (AList.delete t fs2)"
          then show ?thesis using frame d2 by (simp add: update_conv' map_of_delete)
        qed
      qed
    qed
  qed
qed

text \<open>
  A reader never sees half a window. When nothing else touches the directory, \<open>writeAtomic\<close> either succeeds, and
  the window file has exactly the new bytes, or fails, at whichever call and after any number of bytes, and
  the file has the bytes it had; the contents of every other file but the temporary one stay.
\<close>

lemma write_atomic:
  assumes "alone env" "temp_path env dir \<noteq> window_path dir" "writeAtomic env dir b (k, fs) = (r, k', fs')"
  shows "(\<forall>q. q \<noteq> temp_path env dir \<longrightarrow> q \<noteq> window_path dir \<longrightarrow> map_option f_data (map_of fs' q) = map_option f_data (map_of fs q))
    \<and> map_option f_data (map_of fs' (window_path dir)) =
      (case r of Inr _ \<Rightarrow> Some b | Inl _ \<Rightarrow> map_option f_data (map_of fs (window_path dir)))"
proof -
  obtain r1 k1 fs1 where c: "CreateTemp env dir ''.pairing-'' ''.tmp'' (k, fs) = (r1, k1, fs1)" by (metis surj_pair)
  note ce = CreateTemp_effect [OF assms(1) c]
  show ?thesis
  proof (cases r1)
    case (Inl e)
    with assms(3) c ce show ?thesis by (auto simp: writeAtomic_def bindI_def)
  next
    case (Inr t)
    with ce have t: "t = temp_path env dir" "fs1 = put_file t [] private_mode (os_now env k) fs" by auto
    obtain r2 k2 fs2 where body: "bindI (FdWrite env t b) (\<lambda>_. bindI (FdChmod env t private_mode) (\<lambda>_. bindI (Flush env) (\<lambda>_.
        Rename env t (window_path dir)))) (k1, fs1) = (r2, k2, fs2)" by (metis surj_pair)
    obtain r3 k3 fs3 where rm: "Remove env t (k2, fs2) = (r3, k3, fs3)" by (metis surj_pair)
    have run: "r = r2" "fs' = fs3" using assms(3) c Inr body rm by (simp_all add: writeAtomic_def bindI_def finallyI_def)
    have "map_of fs1 t \<noteq> None" by (simp add: t(2))
    note ab = atomic_body [OF assms(1) _ this body]
    have be:
      "(\<forall>q. q \<noteq> t \<longrightarrow> q \<noteq> window_path dir \<longrightarrow> map_option f_data (map_of fs2 q) = map_option f_data (map_of fs1 q))"
      "map_option f_data (map_of fs2 (window_path dir)) = (case r2 of Inr _ \<Rightarrow> Some b | Inl _ \<Rightarrow> map_option f_data (map_of fs1 (window_path dir)))"
      using ab assms(2) t(1) by simp_all
    have after: "map_of fs3 q = map_of fs2 q" if "q \<noteq> t" for q
      using Remove_effect [OF assms(1) rm] that by (auto simp: map_of_delete)
    have before: "map_of fs1 q = map_of fs q" if "q \<noteq> t" for q
      using that by (simp add: t(2) put_file_other)
    have w: "window_path dir \<noteq> t" using assms(2) t(1) by simp
    show ?thesis unfolding run t(1) [symmetric] using be before [OF w] after [OF w] by (auto simp: after before split: sum.splits)
  qed
qed

section \<open>Redeeming on files is a run of Pair\<close>

definition contents :: "bytes \<Rightarrow> files \<Rightarrow> pair_dir" where
  "contents dir fs =
     \<lparr>pd_key = map_option f_data (map_of fs (key_path dir)),
      pd_window = map_option (\<lambda>b. case unmarshal_window b of None \<Rightarrow> Unreadable | Some st \<Rightarrow> Parsed st)
        (map_option f_data (map_of fs (window_path dir)))\<rparr>"

text \<open>The switches of \<open>Pair\<close>: locking, reading, writing and removing the window, and the three calls on the key.\<close>

definition switches :: "int \<Rightarrow> bytes option \<Rightarrow> bool \<Rightarrow> bool \<Rightarrow> bool \<Rightarrow> bool \<Rightarrow> bool \<Rightarrow> bool \<Rightarrow> bool \<Rightarrow> pair_env" where
  "switches now secret locked rd wr rm md kr ch =
     \<lparr>pe_now = now, pe_secret = secret, pe_rnd = (\<lambda>_. None), pe_mkdir_ok = md, pe_lock_ok = locked, pe_read_ok = rd, pe_write_ok = wr,
      pe_remove_ok = rm, pe_chmod_ok = ch, pe_key_read_ok = kr, pe_key_write_ok = True, pe_rename_ok = True\<rparr>"

text \<open>
  How they are set is read off the faults of the calls. Replacing the window takes five calls from the \<open>k\<close>-th on (create,
  write, change the mode, close, rename) and a name that is not in use. A run of \<open>Redeem\<close> reads the window with
  call \<open>k\<close>; what follows is either the replacing, or the three calls on the key; when it removes the window, that is
  its last call.
\<close>

definition call_ok :: "os_env \<Rightarrow> nat \<Rightarrow> bool" where
  "call_ok env k \<longleftrightarrow> os_fault env k = Fine"

definition write_ok :: "os_env \<Rightarrow> bytes \<Rightarrow> files \<Rightarrow> nat \<Rightarrow> bool" where
  "write_ok env dir fs k \<longleftrightarrow> map_of fs (temp_path env dir) = None
     \<and> call_ok env k \<and> call_ok env (k + 1) \<and> call_ok env (k + 2) \<and> call_ok env (k + 3) \<and> call_ok env (k + 4)"

definition run_switches :: "os_env \<Rightarrow> bytes \<Rightarrow> files \<Rightarrow> nat \<Rightarrow> nat \<Rightarrow> int \<Rightarrow> bytes option \<Rightarrow> bool \<Rightarrow> pair_env" where
  "run_switches env dir fs k k' now secret locked =
     switches now secret locked (call_ok env k) (write_ok env dir fs (k + 1)) (call_ok env (k' - 1))
       (call_ok env (k + 1)) (call_ok env (k + 2)) (call_ok env (k + 3))"

lemma ReadFile_runs:
  assumes "alone env" "ReadFile env p (k, fs) = (r, k', fs')"
  shows "k' = Suc k" "fs' = fs"
    "r = (if call_ok env k then (case map_of fs p of None \<Rightarrow> Inl ErrNotExist | Some f \<Rightarrow> Inr (f_data f)) else Inl os_error)"
  using assms by (auto simp: ReadFile_def os_call_alone look_up_def untorn_def call_ok_def split: fault.splits option.splits)

lemma MkdirAll_runs:
  assumes "alone env" "MkdirAll env p (k, fs) = (r, k', fs')"
  shows "k' = Suc k" "fs' = fs" "r = (if call_ok env k then Inr () else Inl os_error)"
  using assms by (auto simp: MkdirAll_def os_call_alone untorn_def call_ok_def split: fault.splits)

lemma Chmod_runs:
  assumes "alone env" "map_of fs p \<noteq> None" "Chmod env p m (k, fs) = (r, k', fs')"
  shows "r = (if call_ok env k then Inr () else Inl os_error)"
  using assms by (auto simp: Chmod_def os_call_alone untorn_def call_ok_def split: fault.splits)

lemma Remove_runs:
  assumes "alone env" "map_of fs p \<noteq> None" "Remove env p (k, fs) = (r, k', fs')"
  shows "k' = Suc k" "r = (if call_ok env k then Inr () else Inl os_error)" "fs' = (if call_ok env k then AList.delete p fs else fs)"
  using assms by (auto simp: Remove_def os_call_alone untorn_def call_ok_def split: fault.splits)

lemma map_of_on_open: "map_of (on_open p g fs) p = map_option g (map_of fs p)"
  by (simp add: on_open_def update_conv' split: option.splits)

lemma CreateTemp_path:
  "CreateTemp env dir ''.pairing-'' ''.tmp'' = os_call env (\<lambda>now fs.
     if map_of fs (temp_path env dir) = None then (Inr (temp_path env dir), put_file (temp_path env dir) [] private_mode now fs)
     else (Inl os_error, fs)) untorn"
  unfolding CreateTemp_def temp_path_def Let_def by simp

lemma write_runs:
  assumes "alone env" "writeAtomic env dir b (k, fs) = (r, k', fs')"
  shows "(\<exists>u. r = Inr u) \<longleftrightarrow> write_ok env dir fs k"
  using assms
  by (auto simp: writeAtomic_def bindI_def finallyI_def CreateTemp_path FdWrite_def FdChmod_def Flush_def Rename_def
      os_call_alone untorn_def write_ok_def call_ok_def map_of_on_open eval_nat_numeral
      split: fault.splits option.splits prod.splits sum.splits if_splits)

lemma close_effect:
  assumes "alone env" "key_path dir \<noteq> window_path dir" "map_of fs (window_path dir) \<noteq> None"
    and "close_window env dir (k, fs) = (r, k', fs')"
  shows "k' = Suc k" "r = Inr () \<longleftrightarrow> call_ok env k"
    "FileWindow_Close (switches now secret locked rd wr (call_ok env k) md kr ch) (contents dir fs) = (call_ok env k, contents dir fs')"
proof -
  obtain r1 k1 fs1 where rm: "Remove env (window_path dir) (k, fs) = (r1, k1, fs1)" by (metis surj_pair)
  note rr = Remove_runs [OF assms(1,3) rm]
  have "k' = k1" "fs' = fs1" "r = Inr () \<longleftrightarrow> (r1 = Inr () \<or> r1 = Inl ErrNotExist)"
    using assms(4) rm by (auto simp: close_window_def bindI_def tryI_def returnI_def failI_def split: sum.splits if_splits)
  with rr assms(2,3) show "k' = Suc k" "r = Inr () \<longleftrightarrow> call_ok env k"
    "FileWindow_Close (switches now secret locked rd wr (call_ok env k) md kr ch) (contents dir fs) = (call_ok env k, contents dir fs')"
    by (auto simp: FileWindow_Close_def switches_def contents_def map_of_delete)
qed

lemma load_effect:
  assumes "alone env" "map_of fs (key_path dir) \<noteq> None" "load_key env secret dir (k, fs) = (r, k', fs')"
  shows "\<exists>res. r = Inr res \<and> contents dir fs' = contents dir fs
    \<and> (\<forall>now locked rd wr rm. LoadOrCreate (switches now secret locked rd wr rm (call_ok env k) (call_ok env (k + 1)) (call_ok env (k + 2)))
         (contents dir fs) = (res, contents dir fs))"
proof -
  obtain f where f: "map_of fs (key_path dir) = Some f" using assms(2) by blast
  let ?psk = "trim_space (f_data f)"
  let ?res = "if \<not> call_ok env k then Inl (PairOther ''pair: creating data directory'')
    else if \<not> call_ok env (k + 1) then Inl (PairOther ''pair: reading key file'')
    else if ?psk = [] then Inl (PairOther ''pair: stored key is empty'')
    else if call_ok env (k + 2) then Inr \<lparr>PSK = ?psk\<rparr> else Inl (PairOther ''pair: securing key file'')"
  obtain r1 k1 where mk: "MkdirAll env dir (k, fs) = (r1, k1, fs)" using MkdirAll_effect [OF assms(1)] by (metis surj_pair)
  note mkr = MkdirAll_runs(1,3) [OF assms(1) mk]
  obtain r2 k2 where rd: "ReadFile env (key_path dir) (k1, fs) = (r2, k2, fs)" using ReadFile_effect [OF assms(1)] by (metis surj_pair)
  note rdr = ReadFile_runs(1,3) [OF assms(1) rd]
  obtain r3 k3 fs3 where ch: "Chmod env (key_path dir) private_mode (k2, fs) = (r3, k3, fs3)" by (metis surj_pair)
  have r3: "r3 = (if call_ok env (k + 2) then Inr () else Inl os_error)"
    using Chmod_runs [OF assms(1,2) ch] mkr rdr by (simp add: eval_nat_numeral)
  have fs3: "contents dir fs3 = contents dir fs" by (simp add: contents_def Chmod_effect [OF assms(1) ch])
  have "r = Inr ?res" "contents dir fs' = contents dir fs"
    using assms(3) mk mkr rd rdr ch r3 fs3 f
    by (auto simp: load_key_def callP_def bindI_def tryI_def returnI_def Let_def split: if_splits)
  moreover have "LoadOrCreate (switches now secret locked rd wr rm (call_ok env k) (call_ok env (k + 1)) (call_ok env (k + 2)))
      (contents dir fs) = (?res, contents dir fs)" for now locked rd wr rm
    using f by (simp add: LoadOrCreate_def switches_def contents_def Let_def)
  ultimately show ?thesis by blast
qed

lemma write_effect:
  assumes "alone env" "temp_path env dir \<noteq> window_path dir" "temp_path env dir \<noteq> key_path dir" "key_path dir \<noteq> window_path dir"
    and "window_ok st" "writeAtomic env dir (marshal_window st) (k, fs) = (r, k', fs')"
  shows "contents dir fs' = write_state (switches now secret locked rd (write_ok env dir fs k) rm md kr ch) st (contents dir fs)"
proof -
  note wa = write_atomic [OF assms(1,2,6)]
  have key: "map_option f_data (map_of fs' (key_path dir)) = map_option f_data (map_of fs (key_path dir))"
    using wa assms(3,4) by simp
  show ?thesis
  proof (cases r)
    case (Inl e)
    then have "\<not> write_ok env dir fs k" using write_runs [OF assms(1,6)] by simp
    with Inl wa key show ?thesis by (simp add: contents_def write_state_def switches_def)
  next
    case (Inr u)
    then have "write_ok env dir fs k" using write_runs [OF assms(1,6)] by simp
    moreover have w: "map_option f_data (map_of fs' (window_path dir)) = Some (marshal_window st)" using Inr wa by simp
    ultimately show ?thesis
      by (simp add: contents_def key w window_reads_back [OF assms(5)] write_state_def switches_def del: map_option_eq_Some)
  qed
qed

lemma write_keeps_window:
  assumes "alone env" "temp_path env dir \<noteq> window_path dir" "map_of fs (window_path dir) \<noteq> None"
    and "writeAtomic env dir b (k, fs) = (r, k', fs')"
  shows "map_of fs' (window_path dir) \<noteq> None"
  using write_atomic [OF assms(1,2,4)] assms(3) by (cases r) auto

text \<open>The directory a hub has: the three names differ, the key is there, and a window that reads is one \<open>Open\<close> can have written.\<close>

definition pair_files :: "os_env \<Rightarrow> bytes \<Rightarrow> files \<Rightarrow> bool" where
  "pair_files env dir fs \<longleftrightarrow>
     temp_path env dir \<noteq> window_path dir \<and> temp_path env dir \<noteq> key_path dir \<and> key_path dir \<noteq> window_path dir
     \<and> map_of fs (key_path dir) \<noteq> None
     \<and> (case map_of fs (window_path dir) of
          None \<Rightarrow> True
        | Some f \<Rightarrow> (case unmarshal_window (f_data f) of None \<Rightarrow> True | Some st \<Rightarrow> window_ok st))"

lemma quiet_close:
  assumes "alone env" "key_path dir \<noteq> window_path dir" "map_of fs (window_path dir) \<noteq> None"
    and "quietly (close_window env dir) x (k, fs) = (r, k', fs')"
  shows "r = Inr x" "k' = Suc k"
    "snd (FileWindow_Close (switches now secret locked rd wr (call_ok env k) md kr ch) (contents dir fs)) = contents dir fs'"
proof -
  obtain r1 k1 fs1 where c: "close_window env dir (k, fs) = (r1, k1, fs1)" by (metis surj_pair)
  have "r = Inr x" "k' = k1" "fs' = fs1" using assms(4) c by (simp_all add: quietly_def bindI_def tryI_def returnI_def)
  with close_effect [OF assms(1-3) c] show "r = Inr x" "k' = Suc k"
    "snd (FileWindow_Close (switches now secret locked rd wr (call_ok env k) md kr ch) (contents dir fs)) = contents dir fs'"
    by simp_all
qed

lemma switches_fields [simp]:
  "pe_lock_ok (switches now secret locked rd wr rm md kr ch) = locked"
  "pe_read_ok (switches now secret locked rd wr rm md kr ch) = rd"
  "pe_now (switches now secret locked rd wr rm md kr ch) = now"
  by (simp_all add: switches_def)

lemma contents_window:
  "map_of fs (window_path dir) = Some f \<Longrightarrow> pd_window (contents dir fs)
    = Some (case unmarshal_window (f_data f) of None \<Rightarrow> Unreadable | Some st \<Rightarrow> Parsed st)"
  by (simp add: contents_def)

text \<open>The relation of the refinement: the answer and the contents afterwards are those of \<open>Pair\<close> with the switches as the calls went.\<close>

definition runs_as :: "os_env \<Rightarrow> bytes \<Rightarrow> nat \<Rightarrow> int \<Rightarrow> bytes option \<Rightarrow> bytes \<Rightarrow> files \<Rightarrow> go_error + (pair_error + bytes) \<Rightarrow> nat \<Rightarrow> files \<Rightarrow> bool" where
  "runs_as env dir k now secret code fs r k' fs' \<longleftrightarrow>
     (\<exists>res. r = Inr res \<and> FileWindow_Redeem (run_switches env dir fs k k' now secret True, code) (contents dir fs) = (res, contents dir fs'))"

lemma redeem_guess:
  assumes "alone env" "pair_files env dir fs" "map_of fs (window_path dir) = Some f" "unmarshal_window (f_data f) = Some st"
    and "now \<le> ExpiresAt st" "Attempts st < int MaxAttempts" "hashCode code \<noteq> CodeHash st"
    and "redeem_window env True now secret code dir (k, fs) = (r, k', fs')"
    and rd: "ReadFile env (window_path dir) (k, fs) = (Inr (f_data f), Suc k, fs)" "call_ok env k"
  shows "runs_as env dir k now secret code fs r k' fs'"
proof -
  let ?st = "st\<lparr>Attempts := Attempts st + 1\<rparr>" and ?wr = "write_ok env dir fs (k + 1)"
  let ?md = "call_ok env (k + 1)" and ?kr = "call_ok env (k + 2)" and ?ch = "call_ok env (k + 3)"
  have names: "temp_path env dir \<noteq> window_path dir" "temp_path env dir \<noteq> key_path dir" "key_path dir \<noteq> window_path dir" "window_ok st"
    using assms(2-4) by (simp_all add: pair_files_def)
  have ok: "window_ok ?st" using names(4) assms(6) by (simp add: window_ok_def MaxAttempts_def)
  obtain r2 k2 fs2 where w: "writeAtomic env dir (marshal_window ?st) (k + 1, fs) = (r2, k2, fs2)" by (metis surj_pair)
  have state: "contents dir fs2 = write_state (switches now secret True True ?wr rm ?md ?kr ?ch) ?st (contents dir fs)" for rm
    by (rule write_effect [OF assms(1) names(1-3) ok w])
  have there: "map_of fs2 (window_path dir) \<noteq> None"
    using write_keeps_window [OF assms(1) names(1) _ w] assms(3) by simp
  note run = assms(8) [unfolded redeem_window_def]
  show ?thesis
  proof (cases "Attempts ?st \<ge> int MaxAttempts")
    case True
    with run assms(4-7) rd(1) w have "quietly (close_window env dir) (Inl ErrTooManyAttempts) (k2, fs2) = (r, k', fs')"
      by (simp add: bindI_def tryI_def Let_def)
    note q = quiet_close [OF assms(1) names(3) there this]
    have "FileWindow_Redeem (switches now secret True True ?wr (call_ok env k2) ?md ?kr ?ch, code) (contents dir fs)
        = (Inl ErrTooManyAttempts, contents dir fs')"
      using q(3) [of now secret True True ?wr ?md ?kr ?ch] True assms(4-7) state [of "call_ok env k2"]
      by (simp add: FileWindow_Redeem_def contents_window [OF assms(3)] Let_def)
    with q(1,2) rd(2) show ?thesis by (simp add: runs_as_def run_switches_def)
  next
    case False
    with run assms(4-7) rd(1) w have res: "r = Inr (Inl ErrBadCode)" "fs' = fs2"
      by (simp_all add: bindI_def tryI_def Let_def returnI_def)
    have "FileWindow_Redeem (switches now secret True True ?wr rm ?md ?kr ?ch, code) (contents dir fs)
        = (Inl ErrBadCode, contents dir fs')" for rm
      using res(2) False assms(4-7) state [of rm] by (simp add: FileWindow_Redeem_def contents_window [OF assms(3)] Let_def)
    with res(1) rd(2) show ?thesis by (simp add: runs_as_def run_switches_def)
  qed
qed

lemma redeem_match:
  assumes "alone env" "pair_files env dir fs" "map_of fs (window_path dir) = Some f" "unmarshal_window (f_data f) = Some st"
    and "now \<le> ExpiresAt st" "Attempts st < int MaxAttempts" "hashCode code = CodeHash st"
    and "redeem_window env True now secret code dir (k, fs) = (r, k', fs')"
    and rd: "ReadFile env (window_path dir) (k, fs) = (Inr (f_data f), Suc k, fs)" "call_ok env k"
  shows "runs_as env dir k now secret code fs r k' fs'"
proof -
  have names: "key_path dir \<noteq> window_path dir" "map_of fs (key_path dir) \<noteq> None"
    using assms(2) by (simp_all add: pair_files_def)
  let ?wr = "write_ok env dir fs (k + 1)"
  let ?md = "call_ok env (k + 1)" and ?kr = "call_ok env (k + 2)" and ?ch = "call_ok env (k + 3)"
  obtain r2 k2 fs2 where l: "load_key env secret dir (k + 1, fs) = (r2, k2, fs2)" by (metis surj_pair)
  from load_effect [OF assms(1) names(2) l] obtain res where r2: "r2 = Inr res" and same: "contents dir fs2 = contents dir fs"
    and lc: "\<And>rm. LoadOrCreate (switches now secret True True ?wr rm ?md ?kr ?ch) (contents dir fs) = (res, contents dir fs)"
    by (auto simp: numeral_2_eq_2 numeral_3_eq_3)
  have win: "map_option f_data (map_of fs2 (window_path dir)) \<noteq> None"
    using arg_cong [OF same, of pd_window] assms(3) by (auto simp: contents_def)
  note run = assms(8) [unfolded redeem_window_def]
  show ?thesis
  proof (cases res)
    case (Inl e)
    with run assms(4-7) rd(1) l r2 have r: "r = Inr (Inl e)" "fs' = fs2" by (simp_all add: bindI_def tryI_def returnI_def)
    have "FileWindow_Redeem (switches now secret True True ?wr rm ?md ?kr ?ch, code) (contents dir fs) = (Inl e, contents dir fs')" for rm
      using r(2) same Inl assms(4-7) lc [of rm] by (simp add: FileWindow_Redeem_def contents_window [OF assms(3)])
    with r(1) rd(2) show ?thesis by (simp add: runs_as_def run_switches_def)
  next
    case (Inr ks)
    obtain r3 k3 fs3 where c: "close_window env dir (k2, fs2) = (r3, k3, fs3)" by (metis surj_pair)
    let ?rm = "call_ok env k2"
    have "map_of fs2 (window_path dir) \<noteq> None" using win by simp
    note cl = close_effect [OF assms(1) names(1) this c, unfolded same]
    have r: "r = Inr (if ?rm then Inr (PSK ks) else Inl (PairOther ''remove''))" "fs' = fs3" "k' = Suc k2"
      using run assms(4-7) rd(1) l r2 Inr c cl(1,2) by (auto simp: bindI_def tryI_def returnI_def callP_def split: sum.splits)
    have "FileWindow_Redeem (switches now secret True True ?wr ?rm ?md ?kr ?ch, code) (contents dir fs)
        = (if ?rm then Inr (PSK ks) else Inl (PairOther ''remove''), contents dir fs')"
      using r(2) Inr assms(4-7) lc [of ?rm] cl(3) by (simp add: FileWindow_Redeem_def contents_window [OF assms(3)])
    with r(1,3) rd(2) show ?thesis by (simp add: runs_as_def run_switches_def)
  qed
qed

lemma redeem_unread:
  assumes "alone env" "redeem_window env True now secret code dir (k, fs) = (r, k', fs')"
    and rd: "ReadFile env (window_path dir) (k, fs) = (Inl e, k1, fs)"
  shows "runs_as env dir k now secret code fs r k' fs'"
proof -
  have res: "r = Inr (Inl (if e = ErrNotExist then ErrNoWindow else PairOther ''pair: reading the pairing window''))" "fs' = fs"
    using assms(2) rd by (simp_all add: redeem_window_def bindI_def tryI_def returnI_def)
  show ?thesis
  proof (cases "call_ok env k")
    case True
    with ReadFile_runs(3) [OF assms(1) rd] have "map_of fs (window_path dir) = None" "e = ErrNotExist" by (auto split: option.splits)
    with res True show ?thesis by (simp add: runs_as_def run_switches_def FileWindow_Redeem_def contents_def)
  next
    case False
    with ReadFile_runs(3) [OF assms(1) rd] have "e = os_error" by simp
    with res False show ?thesis by (simp add: runs_as_def run_switches_def FileWindow_Redeem_def)
  qed
qed

lemma redeem_closed:
  assumes "alone env" "pair_files env dir fs" "map_of fs (window_path dir) = Some f" "unmarshal_window (f_data f) = Some st"
    and "now > ExpiresAt st \<or> Attempts st \<ge> int MaxAttempts"
    and "redeem_window env True now secret code dir (k, fs) = (r, k', fs')"
    and rd: "ReadFile env (window_path dir) (k, fs) = (Inr (f_data f), Suc k, fs)" "call_ok env k"
  shows "runs_as env dir k now secret code fs r k' fs'"
proof -
  have names: "key_path dir \<noteq> window_path dir" "map_of fs (window_path dir) \<noteq> None"
    using assms(2,3) by (simp_all add: pair_files_def)
  let ?e = "if now > ExpiresAt st then ErrNoWindow else ErrTooManyAttempts"
  have "quietly (close_window env dir) (Inl ?e) (Suc k, fs) = (r, k', fs')"
    using assms(4-6) rd(1) by (auto simp: redeem_window_def bindI_def tryI_def)
  note q = quiet_close [OF assms(1) names this]
  have "FileWindow_Redeem (switches now secret True True wr (call_ok env (Suc k)) md kr ch, code) (contents dir fs)
      = (Inl ?e, contents dir fs')" for wr md kr ch
    using assms(4,5) q(3) by (auto simp: FileWindow_Redeem_def contents_window [OF assms(3)])
  with q(1,2) rd(2) show ?thesis by (simp add: runs_as_def run_switches_def)
qed

lemma redeem_found:
  assumes "alone env" "pair_files env dir fs" "map_of fs (window_path dir) = Some f"
    and "redeem_window env True now secret code dir (k, fs) = (r, k', fs')"
    and rd: "ReadFile env (window_path dir) (k, fs) = (Inr (f_data f), Suc k, fs)" "call_ok env k"
  shows "runs_as env dir k now secret code fs r k' fs'"
proof (cases "unmarshal_window (f_data f)")
  case None
  then have "r = Inr (Inl ErrNoWindow)" "fs' = fs"
    using assms(4) rd(1) by (simp_all add: redeem_window_def bindI_def tryI_def returnI_def)
  with None rd(2) show ?thesis
    by (simp add: runs_as_def run_switches_def FileWindow_Redeem_def contents_window [OF assms(3)])
next
  case (Some st)
  consider (closed) "now > ExpiresAt st \<or> Attempts st \<ge> int MaxAttempts"
    | (guess) "now \<le> ExpiresAt st" "Attempts st < int MaxAttempts" "hashCode code \<noteq> CodeHash st"
    | (match) "now \<le> ExpiresAt st" "Attempts st < int MaxAttempts" "hashCode code = CodeHash st" by linarith
  then show ?thesis
  proof cases
    case closed
    then show ?thesis by (rule redeem_closed [OF assms(1-3) Some _ assms(4-6)])
  next
    case guess
    then show ?thesis by (rule redeem_guess [OF assms(1-3) Some _ _ _ assms(4-6)])
  next
    case match
    then show ?thesis by (rule redeem_match [OF assms(1-3) Some _ _ _ assms(4-6)])
  qed
qed

text \<open>
  C22: Redeeming a code on the files of a directory does what the redeeming of \<open>Pair\<close> does on their contents. The
  switches of \<open>Pair\<close> are what the calls of this run did: reading the window (call \<open>k\<close>), replacing it (its five calls
  and a free temporary name), the three calls on the key, and removing it (the last call). With these, the answer is the
  same and so are the contents afterwards, whatever fails, also a window file written in part. Nothing else touches the
  directory meanwhile, the key is there, and a window that reads is within the ranges of its types. What \<open>Pair\<close> proves of
  its redeeming carries over.
\<close>

theorem redeem_on_files_refines:
  assumes "alone env" "pair_files env dir fs" "redeem_window env locked now secret code dir (k, fs) = (r, k', fs')"
  shows "\<exists>res. r = Inr res \<and>
    FileWindow_Redeem (run_switches env dir fs k k' now secret locked, code) (contents dir fs) = (res, contents dir fs')"
proof (cases locked)
  case False
  with assms(3) have "r = Inr (Inl (PairOther ''pair: locking the pairing window''))" "fs' = fs"
    by (simp_all add: redeem_window_def returnI_def)
  with False show ?thesis by (simp add: FileWindow_Redeem_def run_switches_def)
next
  case True
  obtain r1 k1 fs1 where rd0: "ReadFile env (window_path dir) (k, fs) = (r1, k1, fs1)" by (metis surj_pair)
  with ReadFile_runs(1,2) [OF assms(1) rd0] have rd: "ReadFile env (window_path dir) (k, fs) = (r1, Suc k, fs)" by simp
  have whole: "redeem_window env True now secret code dir (k, fs) = (r, k', fs')" using assms(3) True by simp
  have "runs_as env dir k now secret code fs r k' fs'"
  proof (cases r1)
    case (Inl e)
    then show ?thesis using redeem_unread [OF assms(1) whole] rd by simp
  next
    case (Inr b)
    with ReadFile_runs(3) [OF assms(1) rd] obtain f where "map_of fs (window_path dir) = Some f" "b = f_data f" "call_ok env k"
      by (auto split: option.splits if_splits)
    then show ?thesis using redeem_found [OF assms(1,2) _ whole] rd Inr by simp
  qed
  with True show ?thesis by (simp add: runs_as_def)
qed

section \<open>Opening a window on files\<close>

lemma valid_utf8_b64: "valid_utf8 (b64_encode b)"
proof (rule valid_utf8_ascii)
  show "list_all (\<lambda>c. byte_val c < 0x80) (b64_encode b)"
    using b64_encode_chars [of b] by (auto simp: list_all_iff digest_char_def byte_simps)
qed

lemma opened_window_ok: "- (2 ^ 63) \<le> t \<Longrightarrow> t < 2 ^ 63 \<Longrightarrow> window_ok \<lparr>CodeHash = hashCode code, ExpiresAt = t, Attempts = 0\<rparr>"
  by (simp add: window_ok_def hashCode_def valid_utf8_b64)

text \<open>
  Opening on files does what \<open>Pair\<close>'s opening does, with making the directory as call \<open>k\<close> did and replacing the window as
  the calls after it did; the expiry has to be a time an \<open>int64\<close> of milliseconds can hold.
\<close>

theorem open_on_files_refines:
  assumes "alone env" "pair_files env dir fs" "open_window env locked now rnd ttl dir (k, fs) = (r, k', fs')"
    and "- (2 ^ 63) \<le> now" "now + max ttl DefaultWindow < 2 ^ 63"
  shows "\<exists>res. r = Inr res \<and>
    FileWindow_Open ((switches now None locked True (write_ok env dir fs (k + 1)) True (call_ok env k) True True)\<lparr>pe_rnd := rnd\<rparr>) ttl
      (contents dir fs) = (res, contents dir fs')"
proof (cases "newCode rnd")
  case (Inl e)
  with assms(3) show ?thesis by (simp add: open_window_def returnI_def FileWindow_Open_def)
next
  case (Inr c)
  let ?t = "now + (if ttl \<le> 0 then DefaultWindow else ttl)" and ?wr = "write_ok env dir fs (k + 1)"
  let ?st = "\<lparr>CodeHash = hashCode c, ExpiresAt = ?t, Attempts = 0\<rparr>"
  have names: "temp_path env dir \<noteq> window_path dir" "temp_path env dir \<noteq> key_path dir" "key_path dir \<noteq> window_path dir"
    using assms(2) by (simp_all add: pair_files_def)
  have ok: "window_ok ?st" using assms(4,5) by (intro opened_window_ok) (auto simp: DefaultWindow_def max_def split: if_splits)
  obtain r1 k1 fs1 where mk0: "MkdirAll env dir (k, fs) = (r1, k1, fs1)" by (metis surj_pair)
  with MkdirAll_runs [OF assms(1) mk0] have mk: "MkdirAll env dir (k, fs) = (r1, Suc k, fs)"
    and r1: "r1 = (if call_ok env k then Inr () else Inl os_error)" by simp_all
  obtain r2 k2 fs2 where w: "writeAtomic env dir (marshal_window ?st) (k + 1, fs) = (r2, k2, fs2)" by (metis surj_pair)
  have r2: "(\<exists>u. r2 = Inr u) \<longleftrightarrow> ?wr" by (rule write_runs [OF assms(1) w])
  have eff: "contents dir fs2 = write_state (switches now None locked True ?wr True True True True) ?st (contents dir fs)"
    by (rule write_effect [OF assms(1) names ok w])
  note run = assms(3) [unfolded open_window_def Let_def]
  consider (mkdir) "\<not> call_ok env k" | (lock) "call_ok env k" "\<not> locked" | (written) "call_ok env k" "locked" by blast
  then show ?thesis
  proof cases
    case mkdir
    then have "r = Inr (Inl (PairOther ''mkdir''))" "fs' = fs" using run Inr mk r1 by (simp_all add: callP_def bindI_def tryI_def returnI_def)
    with mkdir Inr show ?thesis by (simp add: FileWindow_Open_def Let_def switches_def)
  next
    case lock
    then have "r = Inr (Inl (PairOther ''pair: locking the pairing window''))" "fs' = fs"
      using run Inr mk r1 by (simp_all add: callP_def bindI_def tryI_def returnI_def)
    with lock Inr show ?thesis by (simp add: FileWindow_Open_def Let_def switches_def)
  next
    case written
    then have "r = Inr (if ?wr then Inr (c, ?t) else Inl (PairOther ''pair: writing the pairing window''))" "fs' = fs2"
      using run Inr mk r1 w r2 by (auto simp: callP_def bindI_def tryI_def returnI_def split: sum.splits)
    with written Inr eff show ?thesis by (simp add: FileWindow_Open_def Let_def switches_def write_state_def)
  qed
qed

section \<open>Replacing the key is atomic, writing the first one is not\<close>

lemma WriteFile_effect:
  "alone env \<Longrightarrow> WriteFile env p d m (k, fs) = (r, k', fs') \<Longrightarrow> (\<forall>q. q \<noteq> p \<longrightarrow> map_of fs' q = map_of fs q)
    \<and> (r = Inr () \<longrightarrow> map_option f_data (map_of fs' p) = Some d)"
  by (auto simp: WriteFile_def os_call_alone split: fault.splits)

text \<open>
  Whatever fails while \<open>Rotate\<close> runs, afterwards the key file has the new key and \<open>Rotate\<close> said so, or it is as it was.
\<close>

lemma rotate_atomic:
  assumes "alone env" "rotate_key env secret dir (k, fs) = (r, k', fs')"
  shows "\<exists>res. r = Inr res \<and> (case res of
      Inl _ \<Rightarrow> map_of fs' (key_path dir) = map_of fs (key_path dir)
    | Inr ks \<Rightarrow> map_option f_data (map_of fs' (key_path dir)) = Some (PSK ks @ [CHR 0x0A]))"
proof (cases secret)
  case None
  with assms(2) have "r = Inr (Inl (PairOther ''pair: generating random material''))" "fs' = fs"
    by (simp_all add: rotate_key_def returnI_def)
  then show ?thesis by simp
next
  case (Some b)
  let ?tmp = "key_path dir @ ''.tmp''" and ?text = "b64_encode b @ [CHR 0x0A]"
  have ne: "key_path dir \<noteq> ?tmp" by simp
  obtain r1 k1 fs1 where w: "WriteFile env ?tmp ?text private_mode (k, fs) = (r1, k1, fs1)" by (metis surj_pair)
  obtain r2 k2 fs2 where rn: "Rename env ?tmp (key_path dir) (k1, fs1) = (r2, k2, fs2)" by (metis surj_pair)
  have we: "map_of fs1 (key_path dir) = map_of fs (key_path dir)" "r1 = Inr () \<longrightarrow> map_option f_data (map_of fs1 ?tmp) = Some ?text"
    using WriteFile_effect [OF assms(1) w] ne by auto
  note run = assms(2) [unfolded rotate_key_def callP_def Some]
  show ?thesis
  proof (cases "r1 = Inr () \<and> r2 = Inr ()")
    case True
    with run w rn have "r = Inr (Inr \<lparr>PSK = b64_encode b\<rparr>)" "fs' = fs2" by (simp_all add: bindI_def tryI_def returnI_def)
    moreover have "map_option f_data (map_of fs2 (key_path dir)) = Some ?text"
      using Rename_effect [OF assms(1) rn] we True by (auto simp: update_conv')
    ultimately show ?thesis by simp
  next
    case False
    then have "(\<exists>e. r = Inr (Inl e)) \<and> (fs' = fs1 \<or> fs' = fs2 \<and> r1 = Inr ())"
      using run w rn by (cases r1; cases r2) (auto simp: bindI_def tryI_def returnI_def)
    moreover have "fs2 = fs1" if "r1 = Inr ()"
      using Rename_effect [OF assms(1) rn] False that by auto
    ultimately show ?thesis using we(1) by auto
  qed
qed

lemma trim_prefix: "trim_space (take n (b64_encode b)) = take n (b64_encode b)"
proof (cases "take n (b64_encode b) = []")
  case True
  show ?thesis unfolding True by simp
next
  case False
  have each: "solid c" if "c \<in> set (take n (b64_encode b))" for c
    using b64_encode_chars [of b] that by (auto simp: list_all_iff digest_char_solid dest: in_set_takeD)
  then show ?thesis by (intro trim_space_solid [OF False] each hd_in_set last_in_set False)
qed

text \<open>
  The first key is written in place. When that write breaks off, \<open>LoadOrCreate\<close> reports the failure, but the
  part that was written stays: the next start takes it for the key. After a single character the hub has a
  key of 64 possible values, and after none it never starts again without the file being removed by hand.
\<close>

theorem torn_first_key_is_accepted:
  assumes "alone env" "map_of fs (key_path dir) = None" "n \<le> length (b64_encode secret)"
    and "os_fault env k = Fine" "os_fault env (k + 1) = Fine" "os_fault env (k + 2) = Torn n"
    and "os_fault env (k + 3) = Fine" "os_fault env (k + 4) = Fine" "os_fault env (k + 5) = Fine"
  shows "\<exists>fs'. load_key env (Some secret) dir (k, fs) = (Inr (Inl (PairOther ''pair: writing key file'')), k + 3, fs')
    \<and> fst (load_key env other dir (k + 3, fs')) =
       (if n = 0 then Inr (Inl (PairOther ''pair: stored key is empty''))
        else Inr (Inr \<lparr>PSK = take n (b64_encode secret)\<rparr>))"
proof -
  let ?fs = "put_file (key_path dir) (take n (b64_encode secret)) private_mode (os_now env (k + 2)) fs"
  have first: "load_key env (Some secret) dir (k, fs) = (Inr (Inl (PairOther ''pair: writing key file'')), k + 3, ?fs)"
    using assms by (simp add: load_key_def callP_def bindI_def tryI_def returnI_def MkdirAll_def ReadFile_def WriteFile_def
        os_call_alone untorn_def look_up_def of_option_def bindE_def eval_nat_numeral)
  have empty: "take n (b64_encode secret) = [] \<longleftrightarrow> n = 0" using assms(3) by auto
  have second: "fst (load_key env other dir (k + 3, ?fs)) =
       (if n = 0 then Inr (Inl (PairOther ''pair: stored key is empty''))
        else Inr (Inr \<lparr>PSK = take n (b64_encode secret)\<rparr>))"
    using assms empty by (simp add: load_key_def callP_def bindI_def tryI_def returnI_def MkdirAll_def ReadFile_def Chmod_def
        os_call_alone untorn_def look_up_def of_option_def bindE_def Let_def trim_prefix eval_nat_numeral)
  show ?thesis using first second by (intro exI [of _ ?fs] conjI)
qed

section \<open>The theorems at work\<close>

text \<open>A directory with a key and a window, and a disk on which the write of the temporary file breaks off.\<close>

definition sample_os :: "nat \<Rightarrow> nat \<Rightarrow> os_env" where
  "sample_os k0 n =
     \<lparr>os_fault = (\<lambda>k. if k = k0 then Torn n else Fine), os_other = (\<lambda>_ fs. fs), os_now = (\<lambda>k. int k), os_temp = ''1''\<rparr>"

definition sample_files :: files where
  "sample_files =
     [(''d/psk'', \<lparr>f_data = ''key'', f_mode = private_mode, f_mtime = 0\<rparr>),
      (''d/pairing.json'', \<lparr>f_data = marshal_window \<lparr>CodeHash = ''x'', ExpiresAt = 300000, Attempts = 3\<rparr>,
         f_mode = private_mode, f_mtime = 0\<rparr>)]"

lemma sample_pair_paths: "key_path ''d'' = ''d/psk''" "window_path ''d'' = ''d/pairing.json''"
  by code_simp+

lemma sample_pair_files: "alone (sample_os k n)" "pair_files (sample_os k n) ''d'' sample_files"
proof -
  have "window_ok \<lparr>CodeHash = ''x'', ExpiresAt = 300000, Attempts = 3\<rparr>"
    by (simp add: window_ok_def valid_utf8_ascii)
  then show "pair_files (sample_os k n) ''d'' sample_files"
    by (simp add: pair_files_def sample_pair_paths temp_path_def sample_os_def sample_files_def window_reads_back)
qed (simp add: alone_def sample_os_def)

text \<open>The write of the temporary file breaks off, so the wrong code is not counted.\<close>

theorem redeem_on_files_refines_witness:
  "\<exists>res k' fs'. redeem_window (sample_os 2 5) True 0 None ''1'' ''d'' (0, sample_files) = (Inr res, k', fs')
    \<and> FileWindow_Redeem (run_switches (sample_os 2 5) ''d'' sample_files 0 k' 0 None True, ''1'') (contents ''d'' sample_files) =
       (res, contents ''d'' fs')
    \<and> \<not> pe_write_ok (run_switches (sample_os 2 5) ''d'' sample_files 0 k' 0 None True)"
proof -
  obtain r k fs where run: "redeem_window (sample_os 2 5) True 0 None ''1'' ''d'' (0, sample_files) = (r, k, fs)" by (metis surj_pair)
  have "\<not> pe_write_ok (run_switches (sample_os 2 5) ''d'' sample_files 0 k 0 None True)"
    by (simp add: run_switches_def switches_def write_ok_def call_ok_def sample_os_def)
  with redeem_on_files_refines [OF sample_pair_files run] run show ?thesis by auto
qed

theorem open_on_files_refines_witness:
  "\<exists>res k' fs'. open_window (sample_os 1 0) True 0 (\<lambda>_. Some 0) 0 ''d'' (0, sample_files) = (Inr res, k', fs')
    \<and> FileWindow_Open ((switches 0 None True True (write_ok (sample_os 1 0) ''d'' sample_files 1) True True True True)\<lparr>pe_rnd := \<lambda>_. Some 0\<rparr>) 0
       (contents ''d'' sample_files) = (res, contents ''d'' fs')"
proof -
  obtain r k fs where run: "open_window (sample_os 1 0) True 0 (\<lambda>_. Some 0) 0 ''d'' (0, sample_files) = (r, k, fs)" by (metis surj_pair)
  have "0 + max 0 DefaultWindow < 2 ^ 63" by (simp add: DefaultWindow_def)
  moreover have "call_ok (sample_os 1 0) 0" by (simp add: call_ok_def sample_os_def)
  ultimately show ?thesis using open_on_files_refines [OF sample_pair_files run] run by auto
qed

text \<open>One character of the key reached the disk: the hub serves with the key \<open>A\<close>.\<close>

theorem torn_first_key_is_accepted_witness:
  "\<exists>fs'. load_key (sample_os 2 1) (Some [CHR 0x00, CHR 0x00, CHR 0x00]) ''d'' (0, []) = (Inr (Inl (PairOther ''pair: writing key file'')), 3, fs')
    \<and> fst (load_key (sample_os 2 1) None ''d'' (3, fs')) = Inr (Inr \<lparr>PSK = ''A''\<rparr>)"
proof -
  have "byte_of 65 = CHR ''A''" by code_simp
  then have c: "b64_char 0 = CHR ''A''" by (simp add: b64_char_def byte_simps)
  have f: "os_fault (sample_os 2 1) k = (if k = 2 then Torn 1 else Fine)" for k by (simp add: sample_os_def)
  have one: "take 1 (x # xs) = [x]" for x :: char and xs by simp
  note r = torn_first_key_is_accepted [OF sample_pair_files(1) [of 2 1], of "[]" "''d''" 1 "[CHR 0x00, CHR 0x00, CHR 0x00]" 0 None]
  show ?thesis using r by (simp add: c f one del: One_nat_def)
qed

end
