(* ===== verification/DigestNull.thy ===== *)
theory DigestNull
  imports Digest
begin

text \<open>
  A known answer of \<open>Digest\<close>, computed in the kernel: the digest of the four bytes \<open>null\<close> is the
  constant \<open>NullPayloadDigest\<close> that \<open>internal/proto/digest.go\<close> pins, so the model of SHA-256 and of the
  base64url alphabet agrees with the client's on this input. The evaluation is cut into lemmas: the
  round constants, the message schedule, and the rounds sixteen at a time.
\<close>

definition null_block :: "w32 list" where
  "null_block = [1853189228, 2147483648] @ replicate 13 0 @ [32]"

lemma be64_32: "be64 32 = [CHR 0x00, CHR 0x00, CHR 0x00, CHR 0x00, CHR 0x00, CHR 0x00, CHR 0x00, CHR '' '']"
  by (simp add: be64_def byte_simps char_of_def bit_Suc_0_iff)

lemma words_of_zero: "words_of (replicate (4 * n) (CHR 0x00) @ rest) = replicate n 0 @ words_of rest"
proof -
  have "be32 (replicate 4 (CHR 0x00)) = 0" by code_simp
  then show ?thesis by (induction n) (simp_all add: numeral_eq_Suc)
qed

lemma padding_zeros: "replicate 51 z @ z # z # z # z # z # z # z # ys = z # z # z # replicate 52 z @ z # z # z # ys"
proof -
  have "replicate 51 z @ replicate 7 z = replicate 3 z @ replicate 52 z @ replicate 3 z"
    unfolding replicate_add [symmetric] by simp
  then have "(replicate 51 z @ replicate 7 z) @ ys = (replicate 3 z @ replicate 52 z @ replicate 3 z) @ ys"
    by (rule arg_cong)
  moreover have "replicate 7 z = [z, z, z, z, z, z, z]" "replicate 3 z = [z, z, z]"
    by (simp_all add: numeral_eq_Suc)
  ultimately show ?thesis by simp
qed

lemma null_block: "words_of (sha_pad ''null'') = null_block"
proof -
  have "be32 ''null'' = 1853189228" by code_simp
  moreover have "be32 [CHR 0x80, CHR 0x00, CHR 0x00, CHR 0x00] = 2147483648" by code_simp
  moreover have "be32 [CHR 0x00, CHR 0x00, CHR 0x00, CHR '' ''] = 32" by code_simp
  moreover have "sha_pad ''null'' = ''null'' @ [CHR 0x80, CHR 0x00, CHR 0x00, CHR 0x00]
      @ replicate (4 * 13) (CHR 0x00) @ [CHR 0x00, CHR 0x00, CHR 0x00, CHR '' '']"
    using padding_zeros [of "CHR 0x00" "[CHR '' '']"] by (simp add: sha_pad_def be64_32)
  ultimately show ?thesis
    using words_of_zero [of 13 "[CHR 0x00, CHR 0x00, CHR 0x00, CHR '' '']"] by (simp add: null_block_def)
qed

lemma round_constants_0:
  "map (root_fraction 3) (take 16 (drop 0 primes64)) =
    [1116352408, 1899447441, 3049323471, 3921009573, 961987163, 1508970993, 2453635748,
     2870763221, 3624381080, 310598401, 607225278, 1426881987, 1925078388, 2162078206,
     2614888103, 3248222580]"
  by code_simp

lemma round_constants_1:
  "map (root_fraction 3) (take 16 (drop 16 primes64)) =
    [3835390401, 4022224774, 264347078, 604807628, 770255983, 1249150122, 1555081692,
     1996064986, 2554220882, 2821834349, 2952996808, 3210313671, 3336571891, 3584528711,
     113926993, 338241895]"
  by code_simp

lemma round_constants_2:
  "map (root_fraction 3) (take 16 (drop 32 primes64)) =
    [666307205, 773529912, 1294757372, 1396182291, 1695183700, 1986661051, 2177026350,
     2456956037, 2730485921, 2820302411, 3259730800, 3345764771, 3516065817, 3600352804,
     4094571909, 275423344]"
  by code_simp

lemma round_constants_3:
  "map (root_fraction 3) (take 16 (drop 48 primes64)) =
    [430227734, 506948616, 659060556, 883997877, 958139571, 1322822218, 1537002063,
     1747873779, 1955562222, 2024104815, 2227730452, 2361852424, 2428436474, 2756734187,
     3204031479, 3329325298]"
  by code_simp

lemma initial_state:
  "sha_H0 = [1779033703, 3144134277, 1013904242, 2773480762, 1359893119, 2600822924, 528734635,
      1541459225]"
  by code_simp

definition null_schedule :: "w32 list" where
  "null_schedule =
    [1853189228, 2147483648, 0, 0, 0, 0, 0, 0, 0, 0, 0, 0, 0, 0, 0, 32, 2138410092,
     2148794368, 2007264567, 2149602568, 3139484733, 537221121, 1236771579, 2256421312,
     2772738053, 1620982167, 1145801770, 2533505039, 3615936592, 2765855978, 2023608907,
     386995582, 1149846065, 3888820718, 2889660366, 2847390527, 2104676236, 3666919366,
     2695150401, 1259866679, 78070465, 3493196769, 3138025777, 1803143494, 1284515362,
     276946582, 2534387094, 720023110, 2775124811, 1256380987, 1095167979, 3511154990,
     4045653877, 783091464, 3429915487, 1713223480, 467649074, 1765462402, 2576645159,
     3557588853, 2256749664, 1644027063, 3932447292, 1574219347]"

lemma null_schedule: "rev (sha_schedule 48 (rev null_block)) = null_schedule"
  by code_simp

lemma null_rounds_0:
  "foldl sha_round [1779033703, 3144134277, 1013904242, 2773480762, 1359893119, 2600822924, 528734635,
      1541459225]
     (zip [1116352408, 1899447441, 3049323471, 3921009573, 961987163, 1508970993, 2453635748,
      2870763221, 3624381080, 310598401, 607225278, 1426881987, 1925078388, 2162078206,
      2614888103, 3248222580] (take 16 (drop 0 null_schedule)))
   = [3115562371, 687438075, 684374674, 972643952, 4012938864, 781131812, 4024312756, 1720195121]"
  by code_simp

lemma null_rounds_1:
  "foldl sha_round [3115562371, 687438075, 684374674, 972643952, 4012938864, 781131812, 4024312756, 1720195121]
     (zip [3835390401, 4022224774, 264347078, 604807628, 770255983, 1249150122, 1555081692,
      1996064986, 2554220882, 2821834349, 2952996808, 3210313671, 3336571891, 3584528711,
      113926993, 338241895] (take 16 (drop 16 null_schedule)))
   = [3879360568, 1503843266, 973174453, 2738974305, 621502668, 47174699, 9028174, 1441974336]"
  by code_simp

lemma null_rounds_2:
  "foldl sha_round [3879360568, 1503843266, 973174453, 2738974305, 621502668, 47174699, 9028174, 1441974336]
     (zip [666307205, 773529912, 1294757372, 1396182291, 1695183700, 1986661051, 2177026350,
      2456956037, 2730485921, 2820302411, 3259730800, 3345764771, 3516065817, 3600352804,
      4094571909, 275423344] (take 16 (drop 32 null_schedule)))
   = [2729585485, 3610376887, 3661919740, 2605492224, 176038502, 2892362394, 3389689812,
      1595875402]"
  by code_simp

lemma null_rounds_3:
  "foldl sha_round [2729585485, 3610376887, 3661919740, 2605492224, 176038502, 2892362394, 3389689812,
      1595875402]
     (zip [430227734, 506948616, 659060556, 883997877, 958139571, 1322822218, 1537002063,
      1747873779, 1955562222, 2024104815, 2227730452, 2361852424, 2428436474, 2756734187,
      3204031479, 3329325298] (take 16 (drop 48 null_schedule)))
   = [169437233, 4102003466, 2037120641, 3312640592, 2066039269, 1581975471, 1820180199,
      2644634610]"
  by code_simp

definition null_hash :: "w32 list" where
  "null_hash = [1948470936, 2951170447, 3051024883, 1791154058, 3425932388, 4182798395, 2348914834,
      4186093835]"

lemma take_drop_16: "length xs = 64 \<Longrightarrow>
  xs = take 16 (drop 0 xs) @ take 16 (drop 16 xs) @ take 16 (drop 32 xs) @ take 16 (drop 48 xs)"
  using take_add [of 16 48 xs] take_add [of 16 32 "drop 16 xs"] take_add [of 16 16 "drop 32 xs"] by simp

lemma foldl_16: "length zs = 64 \<Longrightarrow> foldl f s zs
  = foldl f (foldl f (foldl f (foldl f s (take 16 (drop 0 zs))) (take 16 (drop 16 zs))) (take 16 (drop 32 zs)))
      (take 16 (drop 48 zs))"
  by (subst take_drop_16) simp_all

lemma sha_block_null: "sha_block sha_H0 null_block = null_hash"
proof -
  let ?zs = "zip sha_K null_schedule"
  have l: "length ?zs = 64" by (simp add: sha_K_def length_primes64 null_schedule_def)
  have z: "take 16 (drop i ?zs) = zip (map (root_fraction 3) (take 16 (drop i primes64))) (take 16 (drop i null_schedule))"
    for i by (simp add: sha_K_def take_zip drop_zip take_map drop_map)
  have "foldl sha_round sha_H0 ?zs = [169437233, 4102003466, 2037120641, 3312640592, 2066039269, 1581975471, 1820180199,
      2644634610]"
    unfolding foldl_16 [OF l] z round_constants_0 round_constants_1 round_constants_2 round_constants_3
      initial_state null_rounds_0 null_rounds_1 null_rounds_2 null_rounds_3 ..
  then show ?thesis
    by (simp add: sha_block_def null_schedule initial_state null_hash_def)
qed

lemma bytes_of_null_hash:
  "concat (map bytes_of_word null_hash) = map byte_of [116, 35, 78, 152, 175, 231, 73, 143, 181, 218, 241, 243, 106, 194, 215, 138, 204, 51,
      148, 100, 249, 80, 112, 59, 140, 1, 152, 146, 249, 130, 185, 11]"
  by (simp add: null_hash_def bytes_of_word_def Let_def)

text \<open>
  The pinned digest is the digest of \<open>null\<close>: the constant every mutation operation carries as
  \<open>payload_sha256\<close> is what \<open>Digest\<close> computes for the canonical literal.
\<close>

theorem NullPayloadDigest_correct: "Digest ''null'' = NullPayloadDigest"
proof -
  have l: "length null_block = 16" by (simp add: null_block_def)
  have "sha256 ''null'' = map byte_of [116, 35, 78, 152, 175, 231, 73, 143, 181, 218, 241, 243, 106, 194, 215, 138, 204, 51,
      148, 100, 249, 80, 112, 59, 140, 1, 152, 146, 249, 130, 185, 11]"
    by (simp add: sha256_def null_block sha_blocks.simps [of _ null_block] sha_blocks.simps [of _ "[]"]
        l sha_block_null bytes_of_null_hash)
  then show ?thesis
    by (simp add: Digest_def NullPayloadDigest_def b64_char_def byte_simps char_of_def bit_Suc_0_iff)
qed

end
