(* ===== verification/HubClient.thy ===== *)
theory HubClient
  imports Cli HubProps JsonCompact
begin

text \<open>
  \<open>internal/cli/hubclient.go\<close>: the requests a client machine sends to a hub, and what it makes of the
  answers. The network is the argument \<open>do\<close> (\<open>http.Client.Do\<close>, with building the request).

  The lemmas compose the client with the hub's handlers: a status request is never answered with the
  status, and a code that the hub's window accepts gets the client the key and the hub id.
\<close>

section \<open>hubclient.go\<close>

definition trim_slashes :: "bytes \<Rightarrow> bytes" where
  "trim_slashes s = rev (dropWhile (\<lambda>c. c = CHR ''/'') (rev s))"

definition status_fields :: "(bytes \<times> (bytes \<Rightarrow> StatusResult \<Rightarrow> StatusResult option)) list" where
  "status_fields =
     [(''epoch'', set_string (\<lambda>x r. r\<lparr>sr_Epoch := x\<rparr>)),
      (''head_seq'', set_string (\<lambda>x r. r\<lparr>sr_HeadSeq := x\<rparr>)),
      (''projected_seq'', set_string (\<lambda>x r. r\<lparr>sr_ProjectedSeq := x\<rparr>))]"

text \<open>\<open>json.NewDecoder(body).Decode(&v)\<close>: one value; what follows it is not looked at.\<close>

definition decode_body :: "(bytes \<times> (bytes \<Rightarrow> 's \<Rightarrow> 's option)) list \<Rightarrow> bytes \<Rightarrow> 's \<Rightarrow> 's option" where
  "decode_body fs body s = (case read_value body of None \<Rightarrow> None | Some (v, _) \<Rightarrow> decode_struct fs v s)"

definition Status :: "(http_request \<Rightarrow> go_error + http_response) \<Rightarrow> bytes \<Rightarrow> bytes \<Rightarrow> bytes \<Rightarrow> go_error + StatusResult" where
  "Status do url userID token =
     bindE (do \<lparr>hr_method = ''GET'', hr_url = trim_slashes url @ ''/v1/sync/status'',
                hr_header = [(''Authorization'', ''Bearer '' @ token), (''X-User-Id'', userID)], hr_body = []\<rparr>) (\<lambda>resp.
       if hp_status resp = 401 \<or> hp_status resp = 403
       then Inl (OtherError (''hub rejected our credentials (HTTP '' @ format_nat (hp_status resp) @ '')''))
       else if hp_status resp \<noteq> 200 then Inl (OtherError (''hub returned HTTP '' @ format_nat (hp_status resp)))
       else case decode_body status_fields (hp_body resp)
           \<lparr>sr_Epoch = [], sr_HeadSeq = [], sr_ProjectedSeq = [], sr_SyncMode = []\<rparr> of
         None \<Rightarrow> Inl (OtherError ''hub response was not valid JSON'')
       | Some body \<Rightarrow> Inr (body\<lparr>sr_SyncMode := get_value (hp_header resp) ''X-Sync-Mode''\<rparr>))"

record pairResult =
  pr_Token :: bytes
  pr_UserID :: bytes

definition pair_fields :: "(bytes \<times> (bytes \<Rightarrow> pairResult \<Rightarrow> pairResult option)) list" where
  "pair_fields =
     [(''token'', set_string (\<lambda>x r. r\<lparr>pr_Token := x\<rparr>)), (''user_id'', set_string (\<lambda>x r. r\<lparr>pr_UserID := x\<rparr>))]"

definition redeem :: "(http_request \<Rightarrow> go_error + http_response) \<Rightarrow> bytes \<Rightarrow> bytes \<Rightarrow> go_error + pairResult" where
  \<open>redeem do url code =
     bindE (do \<lparr>hr_method = ''POST'', hr_url = trim_slashes url @ ''/pair'',
                hr_header = [(''Content-Type'', ''application/json'')],
                hr_body = ''{"code":'' @ marshal_string code @ ''}''\<rparr>) (\<lambda>resp.
       if hp_status resp \<noteq> 200
       then Inl (OtherError (''pairing was refused (HTTP '' @ format_nat (hp_status resp) @ '')''))
       else case decode_body pair_fields (hp_body resp) \<lparr>pr_Token = [], pr_UserID = []\<rparr> of
         None \<Rightarrow> Inl (OtherError ''json'')
       | Some out \<Rightarrow>
           if pr_Token out = [] \<or> pr_UserID out = []
           then Inl (OtherError ''the hub returned an incomplete pairing response'')
           else Inr out)\<close>

text \<open>The client a command uses: the injected one, or the one over HTTP.\<close>

definition hub :: "cli_env \<Rightarrow> bytes \<Rightarrow> bytes \<Rightarrow> bytes \<Rightarrow> go_error + StatusResult" where
  "hub env = (case ce_hub env of Some f \<Rightarrow> f | None \<Rightarrow> Status (ce_do env))"

section \<open>A hub at the other end\<close>

text \<open>
  A hub that listens on \<open>base\<close> and gets the request as \<open>net/http\<close> hands it over: the path is what follows
  the base in the URL.
\<close>

definition as_request :: "bytes \<Rightarrow> bytes \<Rightarrow> http_request \<Rightarrow> request" where
  "as_request base host q =
     \<lparr>rq_method = hr_method q, rq_path = drop (length base) (hr_url q), rq_query = [], rq_header = hr_header q,
      rq_host = host, rq_body = hr_body q, rq_body_ok = True\<rparr>"

definition answer :: "response \<Rightarrow> http_response" where
  "answer resp = \<lparr>hp_status = resp_status resp, hp_header = resp_header resp, hp_body = resp_body resp\<rparr>"

definition served_by :: "server \<Rightarrow> nat \<Rightarrow> req_ctx \<Rightarrow> hub_state \<Rightarrow> bytes \<Rightarrow> bytes \<Rightarrow> http_request \<Rightarrow> go_error + http_response" where
  "served_by s n ctx st base host q = Inr (answer (fst (Handler s n ctx (as_request base host q) st)))"

section \<open>Status\<close>

lemma Status_not_200:
  assumes "\<And>q. \<exists>resp. do q = Inr resp \<and> hp_status resp \<noteq> 200"
  shows "\<exists>e. Status do url userID token = Inl e"
proof -
  obtain resp where "do \<lparr>hr_method = ''GET'', hr_url = trim_slashes url @ ''/v1/sync/status'',
      hr_header = [(''Authorization'', ''Bearer '' @ token), (''X-User-Id'', userID)], hr_body = []\<rparr> = Inr resp"
    "hp_status resp \<noteq> 200" using assms by blast
  then show ?thesis by (auto simp: Status_def)
qed

lemma Status_refused: "\<exists>e. Status (served_by s n ctx st (trim_slashes url) host) url userID token = Inl e"
proof -
  let ?r = "as_request (trim_slashes url) host \<lparr>hr_method = ''GET'', hr_url = trim_slashes url @ ''/v1/sync/status'',
      hr_header = [(''Authorization'', ''Bearer '' @ token), (''X-User-Id'', userID)], hr_body = []\<rparr>"
  have "\<not> admitted s ?r st" by (simp add: admitted_def as_request_def get_value_def)
  moreover have "sync_path ?r" by (simp add: as_request_def)
  ultimately have "is_error s (fst (Handler s n ctx ?r st))" using Handler_refused by blast
  then have "resp_status (fst (Handler s n ctx ?r st)) \<noteq> 200" by (rule is_error_status)
  then show ?thesis by (auto simp: Status_def served_by_def answer_def)
qed

section \<open>Pairing\<close>

lemma decode_pair_code:
  assumes "length (marshal_string code) \<le> 4000" "valid_utf8 code"
  shows "decode_pair (''{'' @ json_string ''code'' @ '':'' @ marshal_string code @ ''}'') = Some code"
proof -
  let ?kvs = "[(''code'', marshal_string code)]"
  have l: "literal_members ?kvs"
    by (simp add: literal_members_def is_literal_marshal plain_def plain_char_def RuneSelf_def byte_simps)
  have t: "''{'' @ json_string ''code'' @ '':'' @ marshal_string code @ ''}'' = compact_text ?kvs" by simp
  have len: "length (compact_text ?kvs) \<le> pair_body_limit"
    using assms(1) by (simp add: pair_body_limit_def json_string_def)
  have "read_value (compact_text ?kvs) = Some (compact_text ?kvs, [])" using read_compact [OF l, of "[]"] by simp
  moreover have "hd (marshal_string code) = CHR 0x22" by (simp add: marshal_string_def)
  ultimately show ?thesis
    using len assms(2) unfolding t decode_pair_def
    by (simp add: decode_compact [OF l] field_setter_def set_string_def json_unquote_marshal valid_utf8_def
        del: compact_text.simps)
qed

lemma decode_pair_answer:
  assumes "quotable up token" "quotable up userID"
  shows "decode_body pair_fields (pair_body up token userID) \<lparr>pr_Token = [], pr_UserID = []\<rparr>
    = Some \<lparr>pr_Token = token, pr_UserID = userID\<rparr>"
proof -
  let ?kvs = "[(''token'', Quote up token), (''user_id'', Quote up userID)]"
  have l: "literal_members ?kvs"
    using assms by (simp add: literal_members_def is_literal_Quote plain_def plain_char_def RuneSelf_def byte_simps)
  have t: "pair_body up token userID = compact_text ?kvs" by (simp add: pair_body_def json_string_def)
  have "hd (Quote up x) = CHR 0x22" for x by (simp add: Quote_def)
  moreover have "\<not> equal_fold ''user_id'' ''token''" by code_simp
  ultimately show ?thesis
    using read_compact [OF l, of "[]"] assms
    by (simp add: decode_body_def t decode_compact [OF l] pair_fields_def field_setter_def set_string_def
        json_unquote_Quote del: compact_text.simps)
qed

text \<open>The hub's side of the exchange: the request passes the middleware and reaches the window.\<close>

lemma Handler_pair:
  assumes "srv_pair s = Some rd" "rd code (hs_pair st) = (Inr token, p')"
    and "int n < opt_MaxInFlight (srv_opts s)" "opt_AllowedHosts (srv_opts s) = [] \<or> hostAllowed s host"
    and "\<not> srv_recording s" "valid_utf8 code" "length (marshal_string code) \<le> 4000"
  shows "fst (Handler s n ctx (as_request base host \<lparr>hr_method = ''POST'', hr_url = base @ ''/pair'',
      hr_header = [(''Content-Type'', ''application/json'')],
      hr_body = ''{'' @ json_string ''code'' @ '':'' @ marshal_string code @ ''}''\<rparr>) st)
    = writeJSON s (pair_body (srv_printable s) token (opt_UserID (srv_opts s)))"
proof -
  have "isJSONContentType ''application/json''" by (simp add: isJSONContentType_def)
  then show ?thesis
    using assms decode_pair_code [OF assms(7,6)]
    by (auto simp: Handler_def limitInFlight_def checkHostAndOrigin_def record_request_def route_def handlePair_def
        as_request_def get_value_def)
qed

lemma redeem_body: \<open>''{"code":'' @ x = ''{'' @ json_string ''code'' @ '':'' @ x\<close>
  by (simp add: json_string_def)

text \<open>
  Pairing over HTTP. A code that a window displayed, typed with any spaces or dashes and sent by the
  client to the hub on that data directory before the window expires, gets the client exactly the stored
  key and the hub's id.
\<close>

lemma pairing_over_http:
  assumes "FileWindow_Open env ttl dir = (Inr (code, expires), dir')" "normalise guess = normalise code"
    and "files_ok env'" "pe_now env' \<le> expires" "pd_key dir = Some k" "trim_space k \<noteq> []"
    and "srv_pair s = Some (\<lambda>c. FileWindow_Redeem (env', c))" "hs_pair st = dir'"
    and "int n < opt_MaxInFlight (srv_opts s)" "opt_AllowedHosts (srv_opts s) = [] \<or> hostAllowed s host"
    and "\<not> srv_recording s" "valid_utf8 guess" "length (marshal_string guess) \<le> 4000"
    and "quotable (srv_printable s) (trim_space k)" "quotable (srv_printable s) (opt_UserID (srv_opts s))"
    and "opt_UserID (srv_opts s) \<noteq> []"
  shows "redeem (served_by s n ctx st (trim_slashes url) host) url guess
    = Inr \<lparr>pr_Token = trim_space k, pr_UserID = opt_UserID (srv_opts s)\<rparr>"
proof -
  have "FileWindow_Redeem (env', guess) (hs_pair st) = (Inr (trim_space k), dir'\<lparr>pd_window := None\<rparr>)"
    unfolding assms(8) by (rule Redeem_after_Open [OF assms(1-6)])
  from Handler_pair [OF assms(7) this assms(9-13), of ctx "trim_slashes url"]
  show ?thesis
    using decode_pair_answer [OF assms(14,15)] assms(6,16)
    unfolding redeem_def redeem_body served_by_def
    by (simp add: answer_def writeJSON_def)
qed

lemma printable_key: "printable_ascii ''key''" "printable_ascii ''hub''"
  by (simp_all add: printable_ascii_def)

lemma sample_code: "newCode Some = Inr ''012-345-678''" "normalise ''012 345 678'' = normalise ''012-345-678''"
  by code_simp+

end
