(* ===== verification/Connect.thy ===== *)
theory Connect
  imports HubClient
begin

text \<open>
  \<open>internal/cli/connect.go\<close> and \<open>internal/cli/worker.go\<close>: pointing a machine's claude-mem at a hub.

  The lemmas say which steps leave the files alone, what a successful update does when nothing else runs,
  and when a connect succeeds. \<open>ConnectProps\<close> holds the theorems.
\<close>

section \<open>worker.go\<close>

text \<open>\<open>filepath.Glob\<close> with one star between two fixed texts.\<close>

definition glob_within :: "bytes \<Rightarrow> bytes \<Rightarrow> files \<Rightarrow> bytes list" where
  "glob_within prefix suffix fs =
     sort (filter (\<lambda>p. has_prefix prefix p \<and> has_prefix (rev suffix) (rev p) \<and> length prefix + length suffix \<le> length p
         \<and> CHR ''/'' \<notin> set (take (length p - length prefix - length suffix) (drop (length prefix) p))) (map fst fs))"

definition worker_script :: bytes where "worker_script = ''worker-service.cjs''"

definition findWorkerScripts :: "cli_env \<Rightarrow> (go_error + bytes) command" where
  "findWorkerScripts env =
     (case UserHomeDir (ce_proc env) of
        Inl e \<Rightarrow> returnC (Inl e)
      | Inr home \<Rightarrow>
          bindC (filesC (os_call (ce_os env) (\<lambda>now fs. (Inr (glob_within
              (path_join [home, ''.claude'', ''plugins'', ''cache'', ''thedotmack'', ''claude-mem''] @ ''/'')
              (''/scripts/'' @ worker_script) fs), fs)) untorn)) (\<lambda>found.
            let matches = (case found of Inl _ \<Rightarrow> [] | Inr ms \<Rightarrow> ms) in
            if matches = [] then
              (let alt = path_join [home, ''.claude'', ''plugins'', ''marketplaces'', ''thedotmack'', ''plugin'', ''scripts'', worker_script] in
               bindC (filesC (Stat (ce_os env) alt)) (\<lambda>r. case r of
                 Inr _ \<Rightarrow> returnC (Inr (path_dir alt))
               | Inl _ \<Rightarrow> returnC (Inl (OtherError ''claude-mem does not appear to be installed''))))
            else returnC (Inr (path_dir (last (sort matches))))))"

definition restartWorker :: "cli_env \<Rightarrow> bytes \<Rightarrow> (go_error + unit) command" where
  "restartWorker env dataDir =
     bindC (findWorkerScripts env) (\<lambda>r. case r of
       Inl e \<Rightarrow> returnC (Inl e)
     | Inr scripts \<Rightarrow>
         (case ce_exec env [''CLAUDE_MEM_DATA_DIR='' @ dataDir]
             [''node'', path_join [scripts, ''bun-runner.js''], path_join [scripts, worker_script], ''restart''] of
            (out, None) \<Rightarrow> returnC (Inr ())
          | (out, Some e) \<Rightarrow> returnC (Inl (OtherError (''restarting the claude-mem worker: '' @ ce_text env e @ '': '' @ out)))))"

section \<open>connect.go\<close>

definition keyHubURL :: bytes where "keyHubURL = ''CLAUDE_MEM_CLOUD_SYNC_HUB_URL''"
definition keyToken :: bytes where "keyToken = ''CLAUDE_MEM_CLOUD_SYNC_TOKEN''"
definition keyUserID :: bytes where "keyUserID = ''CLAUDE_MEM_CLOUD_SYNC_USER_ID''"
definition keyDeviceName :: bytes where "keyDeviceName = ''CLAUDE_MEM_CLOUD_SYNC_DEVICE_NAME''"
definition keyWS :: bytes where "keyWS = ''CLAUDE_MEM_CLOUD_SYNC_WS''"

definition hostname :: "cli_env \<Rightarrow> bytes" where
  "hostname env = (case ce_hostname env of Inl _ \<Rightarrow> ''unknown'' | Inr h \<Rightarrow> if h = [] then ''unknown'' else h)"

definition discoverHub :: "cli_env \<Rightarrow> (go_error + bytes) command" where
  "discoverHub env =
     bindC (outC (''looking for a hub on this network'' @ ellipsis @ nl)) (\<lambda>_.
       case Browse (pv_goos (ce_proc env)) (ce_browse env) (ce_order env) of
         Inl e \<Rightarrow> returnC (Inl (OtherError (ce_text env e @ nl @ nl
           @ ''Pass the hub's address instead: cmemlan connect http://<host>:8787'')))
       | Inr found \<Rightarrow>
           (case found of
              [] \<Rightarrow> returnC (Inl (OtherError (''no hub found on this network.'' @ nl @ nl
                @ ''mDNS does not cross Tailscale or reach other subnets, so pass the address:'' @ nl
                @ ''  cmemlan connect http://<host>:8787'')))
            | [f] \<Rightarrow> bindC (outC (''found '' @ fd_Name f @ '' at '' @ Addr f @ nl @ nl)) (\<lambda>_. returnC (Inr (Addr f)))
            | fs \<Rightarrow> returnC (Inl (OtherError (''several hubs are advertising; pass the one you want:'' @ nl
                @ concat (map (\<lambda>f. ''  cmemlan connect '' @ Addr f @ ''   ('' @ fd_Name f @ '')'' @ nl) fs))))))"

definition connect_flags :: flag_set where
  "connect_flags =
     [(''code'', VString []), (''token'', VString []), (''user-id'', VString []), (''fingerprint'', VString []),
      (''yes'', VBool False), (''device-name'', VString []), (''no-restart'', VBool False), (''undo'', VBool False)]"

text \<open>\<open>connect --undo\<close>.\<close>

definition connect_undo :: "cli_env \<Rightarrow> bytes \<Rightarrow> nat command" where
  "connect_undo env settingsPath =
     bindC (bindC (filesC (LatestBackup (ce_os env) settingsPath)) (orDie env)) (\<lambda>backup.
     bindC (bindC (filesC (Restore (ce_os env) settingsPath backup)) (orDie env)) (\<lambda>_.
     bindC (outC (''restored '' @ settingsPath @ '' from '' @ backup @ nl)) (\<lambda>_. returnC 0)))"

definition explicit_address_text :: bytes where
  "explicit_address_text = ''cmemlan: pairing requires the hub's address to be given explicitly'' @ nl @ nl
     @ ''Discovery is unauthenticated: anything on this network can advertise itself'' @ nl
     @ ''and relay to your real hub. Type the address `cmemlan pair` printed:'' @ nl @ nl
     @ ''  cmemlan connect http://<host>:8787 --code <code> --fingerprint <fingerprint>'' @ nl"

text \<open>The hub's URL: the one given, or without a code one that was found.\<close>

definition connect_url :: "cli_env \<Rightarrow> bytes \<Rightarrow> bytes list \<Rightarrow> bytes command" where
  "connect_url env code pos =
     (case pos of
        [p] \<Rightarrow> returnC (trim_slashes p)
      | [] \<Rightarrow>
          if code \<noteq> [] then bindC (errC explicit_address_text) (\<lambda>_. exitC 2)
          else bindC (discoverHub env) (orDie env)
      | _ \<Rightarrow> bindC (errC (''usage: cmemlan connect [hub-url] [--code <code> | --token <key> --user-id <id>]'' @ nl)) (\<lambda>_. exitC 2))"

definition fingerprint_required_text :: "bytes \<Rightarrow> bytes" where
  "fingerprint_required_text url = ''cmemlan: --fingerprint is required'' @ nl @ nl
     @ ''`cmemlan pair` printed a fingerprint on the hub. Pass it here so this machine can'' @ nl
     @ ''verify it is talking to that hub and not something relaying to it:'' @ nl @ nl
     @ ''  cmemlan connect '' @ url @ '' --code <code> --fingerprint <fingerprint>'' @ nl @ nl
     @ ''Pass --yes to skip the check if you accept that risk.'' @ nl"

definition mismatch_text :: "bytes \<Rightarrow> bytes \<Rightarrow> bytes" where
  "mismatch_text expected got = ''cmemlan: fingerprint mismatch'' @ nl @ ''  expected  '' @ expected @ nl
     @ ''  received  '' @ got @ nl @ nl
     @ ''Nothing was written. Something is answering for this hub that is not the hub '' @ dash @ nl
     @ ''open a fresh pairing window and check the address you are connecting to.'' @ nl"

definition sync_settings :: "bytes \<Rightarrow> bytes \<Rightarrow> bytes \<Rightarrow> bytes \<Rightarrow> raw_map" where
  "sync_settings url token user name =
     [(keyHubURL, url), (keyToken, token), (keyUserID, user), (keyDeviceName, name), (keyWS, ''false'')]"

text \<open>Restarting the worker, whose failure is only reported.\<close>

definition connect_restart :: "cli_env \<Rightarrow> unit command" where
  "connect_restart env =
     (case ClaudeMemDir (ce_proc env) of
        Inl _ \<Rightarrow> returnC ()
      | Inr dir \<Rightarrow>
          bindC (restartWorker env dir) (\<lambda>r. case r of
            Inl e \<Rightarrow> errC (nl @ ''cmemlan: could not restart the worker automatically: '' @ ce_text env e @ nl
              @ ''Restart Claude Code, or run: npx claude-mem restart'' @ nl)
          | Inr _ \<Rightarrow> outC (nl @ ''restarted the claude-mem worker'' @ nl)))"

text \<open>The credentials: redeemed for the code, or those given.\<close>

definition connect_credentials :: "cli_env \<Rightarrow> flag_set \<Rightarrow> bytes \<Rightarrow> (bytes \<times> bytes) command" where
  "connect_credentials env fl url =
     bindC (if flag_string fl ''code'' \<noteq> []
            then bindC (orDie env (redeem (ce_do env) url (flag_string fl ''code''))) (\<lambda>r. returnC (pr_Token r, pr_UserID r))
            else returnC (flag_string fl ''token'', flag_string fl ''user-id'')) (\<lambda>(token, user).
       if token = [] \<or> user = []
       then bindC (errC (''cmemlan: provide --code, or both --token and --user-id'' @ nl)) (\<lambda>_. exitC 2)
       else returnC (token, user))"

text \<open>Writing the settings, and what is printed about it.\<close>

definition connect_report :: "cli_env \<Rightarrow> flag_set \<Rightarrow> bytes \<Rightarrow> bytes \<Rightarrow> bytes \<Rightarrow> bytes \<Rightarrow> go_error + bytes \<Rightarrow> nat command" where
  "connect_report env fl settingsPath url token user result =
     bindC (orDie env result) (\<lambda>backup.
     bindC (outC (''configured '' @ settingsPath @ nl)) (\<lambda>_.
     bindC (if backup \<noteq> [] then outC (''  backup     '' @ backup @ ''  (restore with: cmemlan connect --undo)'' @ nl)
            else returnC ()) (\<lambda>_.
     bindC (outC (''  hub        '' @ url @ nl)) (\<lambda>_.
     bindC (outC (''  hub id     '' @ user @ nl)) (\<lambda>_.
     bindC (outC (''  fingerprint '' @ Fingerprint \<lparr>PSK = token\<rparr> @ nl)) (\<lambda>_.
     bindC (if flag_bool fl ''no-restart'' then returnC () else connect_restart env) (\<lambda>_.
     bindC (outC (nl @ ''Existing memories are not uploaded automatically.'' @ nl)) (\<lambda>_.
     bindC (outC (''Preview what would upload:  cmemlan backfill --dry-run'' @ nl)) (\<lambda>_.
       returnC 0)))))))))"

definition device_name :: "cli_env \<Rightarrow> flag_set \<Rightarrow> bytes" where
  "device_name env fl = (if flag_string fl ''device-name'' = [] then hostname env else flag_string fl ''device-name'')"

definition connect_write :: "cli_env \<Rightarrow> flag_set \<Rightarrow> bytes \<Rightarrow> bytes \<Rightarrow> bytes \<Rightarrow> bytes \<Rightarrow> nat command" where
  "connect_write env fl settingsPath url token user =
     bindC (filesC (Update (ce_os env) settingsPath (sync_settings url token user (device_name env fl))))
       (connect_report env fl settingsPath url token user)"

text \<open>The checks between knowing the URL and writing; the fingerprint is missed before the network is used.\<close>

definition connect_to :: "cli_env \<Rightarrow> flag_set \<Rightarrow> bytes \<Rightarrow> bytes \<Rightarrow> nat command" where
  "connect_to env fl settingsPath url =
     (if flag_string fl ''fingerprint'' = [] \<and> \<not> flag_bool fl ''yes''
      then bindC (errC (fingerprint_required_text url)) (\<lambda>_. exitC 2)
      else
        bindC (connect_credentials env fl url) (\<lambda>(token, user).
          let got = Fingerprint \<lparr>PSK = token\<rparr>; expected = flag_string fl ''fingerprint'' in
          if expected \<noteq> [] \<and> \<not> equal_fold (trim_space expected) got
          then bindC (errC (mismatch_text expected got)) (\<lambda>_. exitC 1)
          else connect_write env fl settingsPath url token user))"

definition runConnect :: "cli_env \<Rightarrow> bytes list \<Rightarrow> nat command" where
  "runConnect env args =
     bindC (with_flags env ''connect'' connect_flags args) (\<lambda>(fl, pos).
     bindC (orDie env (ClaudeMemSettings (ce_proc env))) (\<lambda>settingsPath.
       if flag_bool fl ''undo'' then connect_undo env settingsPath
       else bindC (connect_url env (flag_string fl ''code'') pos) (connect_to env fl settingsPath)))"

section \<open>What is written\<close>

lemma keeps_find [keeps_intros]: "undisturbed env \<Longrightarrow> keeps w_files (findWorkerScripts env)"
  unfolding findWorkerScripts_def
  by (auto split: sum.split simp: Let_def intro!: keeps_intros)

lemma keeps_restart [keeps_intros]: "undisturbed env \<Longrightarrow> keeps w_files (connect_restart env)"
  unfolding connect_restart_def restartWorker_def
  by (auto split: sum.split prod.split option.split intro!: keeps_intros)

lemma keeps_url [keeps_intros]: "keeps w_files (connect_url env code pos)"
  unfolding connect_url_def discoverHub_def
  by (auto split: list.split sum.split intro!: keeps_intros)

lemma keeps_credentials [keeps_intros]: "keeps w_files (connect_credentials env fl url)"
  unfolding connect_credentials_def by (auto intro!: keeps_intros)

lemma keeps_with_flags [keeps_intros]: "keeps w_files (with_flags env cmd fl args)"
  unfolding with_flags_def by (auto split: sum.split intro!: keeps_intros)

lemma keeps_report [keeps_intros]: "undisturbed env \<Longrightarrow> keeps w_files (connect_report env fl path url token user r)"
  unfolding connect_report_def by (intro keeps_intros)

lemma connect_write_files:
  assumes "undisturbed env"
  shows "w_files (snd (connect_write env fl path url token user w)) =
    snd (snd (Update (ce_os env) path (sync_settings url token user (device_name env fl)) (w_calls w, w_files w)))"
  using keeps_report [OF assms]
  by (auto simp: connect_write_def bindC_def filesC_def keeps_def split: prod.splits)

section \<open>A successful connect\<close>

lemma Update_quiet:
  assumes "undisturbed env" "\<forall>k. os_fault (ce_os env) k = Fine" "map_of fs path = Some b"
    and "map_of fs (temp_name (ce_os env) path) = None" "unmarshal_map (f_data b) = Some m"
    and "literal_map m" "utf8_keys m" "JsonIndent.distinct_keys kv" "utf8_keys kv"
  shows "\<exists>bak k' fs' f m'. Update (ce_os env) path kv (0, fs) = (Inr bak, k', fs') \<and> map_of fs' path = Some f
    \<and> f_mode f = private_mode \<and> unmarshal_map (f_data f) = Some m'
    \<and> (\<forall>k. Value m' k = (case map_of kv k of None \<Rightarrow> Value m k | Some v \<Rightarrow> valid_text v))"
proof -
  let ?sched = "\<lambda>_. None"
  have o: "os_other (ce_os env) = writes_of path ?sched"
    using assms(1) by (simp add: undisturbed_def writes_of_def fun_eq_iff)
  have t: "temp_name (ce_os env) path \<noteq> path" using assms(3,4) by auto
  have l: "latest ?sched k k' c = c" for k k' c by (simp add: latest_None)
  have p: "parse_settings (map_of fs path) = Some m" using assms(3,5) by (simp add: parse_settings_def)
  obtain out m' where out: "MarshalIndent ''  '' (merge_settings kv m) = Some out"
    "unmarshal_map (out @ [CHR 0x0A]) = Some m'"
    "\<forall>k. Value m' k = (case map_of kv k of None \<Rightarrow> Value m k | Some v \<Rightarrow> valid_text v)"
    using merged_text_reads [OF assms(6) parse_distinct [OF p] assms(7-9)] by blast
  have "\<exists>bak k' fs'. Update (ce_os env) path kv (0, fs) = (Inr bak, k', fs')"
    by (rule Update_ok [OF o t _ assms(4), of m kv out b b]) (use assms(2,3) p out in \<open>simp_all add: l changed_since_def\<close>)
  then obtain bak k' fs' where u: "Update (ce_os env) path kv (0, fs) = (Inr bak, k', fs')" by blast
  have lb: "latest ?sched 0 2 (map_of fs path) = Some b" by (simp add: l assms(3))
  obtain m2 out2 f where "parse_settings (latest ?sched 0 1 (map_of fs path)) = Some m2"
    "MarshalIndent ''  '' (merge_settings kv m2) = Some out2" "map_of fs' path = latest ?sched 12 13 (Some f)"
    "f_data f = out2 @ [CHR 0x0A]" "f_mode f = private_mode"
    by (rule Update_Inr [OF o t u lb])
  then have "parse_settings (map_of fs path) = Some m2" "MarshalIndent ''  '' (merge_settings kv m2) = Some out2"
    "map_of fs' path = Some f" "f_data f = out2 @ [CHR 0x0A]" "f_mode f = private_mode" by (simp_all only: l)
  with p out u show ?thesis by auto
qed

lemma yields_restart [yields_intros]: "yields (\<lambda>_. True) (connect_restart env)"
  unfolding connect_restart_def restartWorker_def findWorkerScripts_def
  by (auto split: sum.splits prod.splits option.splits simp: Let_def intro!: yields_rules)

lemma yields_report: "yields (\<lambda>code. code = 0) (connect_report env fl path url token user (Inr bak))"
  unfolding connect_report_def orDie_def sum.case
  by (intro yields_rules yields_intros) simp_all

text \<open>The settings that a machine ends up with.\<close>

definition configured :: "cli_env \<Rightarrow> flag_set \<Rightarrow> raw_map \<Rightarrow> bytes \<Rightarrow> bytes \<Rightarrow> bytes \<Rightarrow> raw_map \<Rightarrow> bool" where
  "configured env fl m url token user m' \<longleftrightarrow>
     Value m' keyHubURL = valid_text url \<and> Value m' keyToken = valid_text token \<and> Value m' keyUserID = valid_text user
     \<and> Value m' keyDeviceName = valid_text (device_name env fl) \<and> Value m' keyWS = ''false''
     \<and> (\<forall>k. k \<notin> {keyHubURL, keyToken, keyUserID, keyDeviceName, keyWS} \<longrightarrow> Value m' k = Value m k)"

lemma sync_settings_keys: "JsonIndent.distinct_keys (sync_settings url token user name)" "utf8_keys (sync_settings url token user name)"
  by (simp_all add: sync_settings_def JsonIndent.distinct_keys_def utf8_keys_def keyHubURL_def keyToken_def keyUserID_def
      keyDeviceName_def keyWS_def valid_utf8_ascii)

lemma valid_text_false: "valid_text ''false'' = ''false''"
  using valid_utf8_ascii [of "''false''"] by (simp add: valid_utf8_def)

lemma key_values: "distinct [keyHubURL, keyToken, keyUserID, keyDeviceName, keyWS]"
  by (simp add: keyHubURL_def keyToken_def keyUserID_def keyDeviceName_def keyWS_def)

lemma configured_by:
  assumes "\<forall>k. Value m' k = (case map_of (sync_settings url token user (device_name env fl)) k of
    None \<Rightarrow> Value m k | Some v \<Rightarrow> valid_text v)"
  shows "configured env fl m url token user m'"
  using assms key_values by (auto simp: configured_def sync_settings_def valid_text_false)

text \<open>What a machine has before: settings that read, and room for the temporary file.\<close>

definition ready :: "cli_env \<Rightarrow> bytes \<Rightarrow> raw_map \<Rightarrow> world \<Rightarrow> bool" where
  "ready env path m w \<longleftrightarrow> undisturbed env \<and> (\<forall>k. os_fault (ce_os env) k = Fine) \<and> w_calls w = 0
     \<and> ClaudeMemSettings (ce_proc env) = Inr path \<and> map_of (w_files w) (temp_name (ce_os env) path) = None
     \<and> (\<exists>b. map_of (w_files w) path = Some b \<and> unmarshal_map (f_data b) = Some m) \<and> literal_map m \<and> utf8_keys m"

definition settings_in :: "world \<Rightarrow> bytes \<Rightarrow> raw_map \<Rightarrow> bool" where
  "settings_in w path m \<longleftrightarrow> (\<exists>f. map_of (w_files w) path = Some f \<and> f_mode f = private_mode \<and> unmarshal_map (f_data f) = Some m)"

lemma connect_ok:
  assumes "parseFlags (ce_duration env) connect_flags args = Inr (fl, pos)" "\<not> flag_bool fl ''undo''"
    and "ready env path m w" "connect_url env (flag_string fl ''code'') pos w = (Inr url, w1)" "w_calls w1 = w_calls w"
    and "flag_string fl ''fingerprint'' \<noteq> []" "connect_credentials env fl url w1 = (Inr (token, user), w1)"
    and "equal_fold (trim_space (flag_string fl ''fingerprint'')) (Fingerprint \<lparr>PSK = token\<rparr>)"
  shows "\<exists>w' m'. run_command (runConnect env args) w = (0, w') \<and> settings_in w' path m' \<and> configured env fl m url token user m'"
proof -
  let ?kv = "sync_settings url token user (device_name env fl)"
  note rd = assms(3) [unfolded ready_def]
  have files: "w_files w1 = w_files w" using keepsD [OF keeps_url assms(4)] .
  obtain b where b: "map_of (w_files w) path = Some b" "unmarshal_map (f_data b) = Some m" using rd by blast
  from rd have q: "undisturbed env" "\<forall>k. os_fault (ce_os env) k = Fine" and tf: "map_of (w_files w) (temp_name (ce_os env) path) = None"
    and lm: "literal_map m" "utf8_keys m" and calls: "w_calls w = 0" by auto
  obtain bak k' fs' f m' where u: "Update (ce_os env) path ?kv (0, w_files w) = (Inr bak, k', fs')"
    "map_of fs' path = Some f" "f_mode f = private_mode" "unmarshal_map (f_data f) = Some m'"
    "\<forall>k. Value m' k = (case map_of ?kv k of None \<Rightarrow> Value m k | Some v \<Rightarrow> valid_text v)"
    using Update_quiet [OF q b(1) tf b(2) lm sync_settings_keys] by blast
  let ?w2 = "w1\<lparr>w_calls := k', w_files := fs'\<rparr>"
  have "filesC (Update (ce_os env) path ?kv) w1 = (Inr (Inr bak), ?w2)"
    using u(1) files calls assms(5) by (simp add: filesC_def)
  moreover obtain w' where w': "connect_report env fl path url token user (Inr bak) ?w2 = (Inr 0, w')"
    using yieldsD [OF yields_report] by metis
  ultimately have "connect_write env fl path url token user w1 = (Inr 0, w')"
    by (simp add: connect_write_def bindC_def)
  then have "connect_to env fl path url w1 = (Inr 0, w')"
    using assms(6-8) by (simp add: connect_to_def bindC_def Let_def)
  then have "runConnect env args w = (Inr 0, w')"
    using assms(2,4) rd unfolding runConnect_def bind_with_flags [OF assms(1)] prod.case
    by (simp add: orDie_def bindC_def returnC_def)
  moreover have "w_files w' = fs'" using keepsD [OF keeps_report [OF q(1)] w'] by simp
  ultimately show ?thesis using u configured_by [OF u(5)] by (auto simp: run_command_def settings_in_def)
qed

end
