(* ===== verification/ConnectProps.thy ===== *)
theory ConnectProps
  imports Connect PairCmd
begin

text \<open>
  The theorems on \<open>connect\<close>: without \<open>--yes\<close> the settings change only after the fingerprint of the very key
  that is written was compared; the code of a window on the hub configures the machine with the hub's key,
  every other setting as it was; and a key given on the command line goes to whatever answered on the network.
\<close>

section \<open>Nothing unverified is trusted\<close>

lemma connect_to_changed:
  assumes "\<not> flag_bool fl ''yes''" "connect_to env fl path url w1 = (x, w')" "w_files w' \<noteq> w_files w1"
  shows "\<exists>token user w2. w_files w2 = w_files w1
    \<and> equal_fold (trim_space (flag_string fl ''fingerprint'')) (Fingerprint \<lparr>PSK = token\<rparr>)
    \<and> w_files w' = w_files (snd (connect_write env fl path url token user w2))"
proof -
  let ?fp = "flag_string fl ''fingerprint''"
  have fp: "?fp \<noteq> []"
  proof
    assume "?fp = []"
    with assms(1,2) have "bindC (errC (fingerprint_required_text url)) (\<lambda>_. exitC 2) w1 = (x, w')"
      by (simp add: connect_to_def)
    moreover have "keeps w_files (bindC (errC (fingerprint_required_text url)) (\<lambda>_. exitC 2 :: nat command))"
      by (intro keeps_intros)
    ultimately have "w_files w' = w_files w1" using keepsD by blast
    with assms(3) show False by simp
  qed
  let ?next = "\<lambda>(token, user). if \<not> equal_fold (trim_space ?fp) (Fingerprint \<lparr>PSK = token\<rparr>)
         then bindC (errC (mismatch_text ?fp (Fingerprint \<lparr>PSK = token\<rparr>))) (\<lambda>_. exitC 1)
         else connect_write env fl path url token user"
  from assms(2) [unfolded connect_to_def] fp have "bindC (connect_credentials env fl url) ?next w1 = (x, w')" by (simp add: Let_def)
  from bind_changed [OF this keeps_credentials assms(3)] obtain y w2 where w2: "w_files w2 = w_files w1"
    and d0: "?next y w2 = (x, w')" .
  obtain token user where y: "y = (token, user)" by (cases y)
  note d = d0 [unfolded y prod.case]
  have ok: "equal_fold (trim_space ?fp) (Fingerprint \<lparr>PSK = token\<rparr>)"
  proof (rule ccontr)
    assume "\<not> ?thesis"
    with d have "bindC (errC (mismatch_text ?fp (Fingerprint \<lparr>PSK = token\<rparr>))) (\<lambda>_. exitC 1) w2 = (x, w')" by simp
    moreover have "keeps w_files (bindC (errC (mismatch_text ?fp (Fingerprint \<lparr>PSK = token\<rparr>))) (\<lambda>_. exitC 1 :: nat command))"
      by (intro keeps_intros)
    ultimately have "w_files w' = w_files w2" using keepsD by blast
    with w2 assms(3) show False by simp
  qed
  with d have "w_files w' = w_files (snd (connect_write env fl path url token user w2))" by simp
  with w2 ok show ?thesis by (intro exI conjI)
qed

text \<open>
  C28: Nothing unverified is trusted. Unless \<open>--yes\<close> or \<open>--undo\<close> is given, connect changes files only by
  writing settings with a key whose fingerprint is the one on the command line; so a host that relays to
  the hub, or anything else that answers with another key, leaves the machine as it was.
\<close>

theorem connect_trusts_only_verified:
  assumes "parseFlags (ce_duration env) connect_flags args = Inr (fl, pos)"
    and "\<not> flag_bool fl ''yes''" "\<not> flag_bool fl ''undo''" "undisturbed env"
    and "run_command (runConnect env args) w = (code, w')" "w_files w' \<noteq> w_files w"
  shows "\<exists>path url token user (w1 :: world). ClaudeMemSettings (ce_proc env) = Inr path
    \<and> equal_fold (trim_space (flag_string fl ''fingerprint'')) (Fingerprint \<lparr>PSK = token\<rparr>)
    \<and> w_files w1 = w_files w
    \<and> w_files w' = snd (snd (Update (ce_os env) path (sync_settings url token user (device_name env fl)) (w_calls w1, w_files w1)))"
proof -
  obtain x where r: "runConnect env args w = (x, w')" using assms(5) by (auto simp: run_command_eq)
  then have "bindC (orDie env (ClaudeMemSettings (ce_proc env))) (\<lambda>path.
      bindC (connect_url env (flag_string fl ''code'') pos) (connect_to env fl path)) w = (x, w')"
    using assms(3) by (simp add: runConnect_def bind_with_flags [OF assms(1)])
  from bind_changed [OF this keeps_orDie(1) assms(6)] obtain path w0
    where o: "orDie env (ClaudeMemSettings (ce_proc env)) w = (Inr path, w0)"
      and u0: "bindC (connect_url env (flag_string fl ''code'') pos) (connect_to env fl path) w0 = (x, w')" .
  from o have path: "ClaudeMemSettings (ce_proc env) = Inr path" and "w0 = w" by (simp_all add: orDie_Inr)
  with u0 have u: "bindC (connect_url env (flag_string fl ''code'') pos) (connect_to env fl path) w = (x, w')" by simp
  from bind_changed [OF u keeps_url assms(6)] obtain url w1 where w1: "w_files w1 = w_files w"
    and c: "connect_to env fl path url w1 = (x, w')" .
  have "w_files w' \<noteq> w_files w1" using assms(6) w1 by simp
  from connect_to_changed [OF assms(2) c this] obtain token user w2 where w2: "w_files w2 = w_files w1"
    and ok: "equal_fold (trim_space (flag_string fl ''fingerprint'')) (Fingerprint \<lparr>PSK = token\<rparr>)"
    and w': "w_files w' = w_files (snd (connect_write env fl path url token user w2))"
    by (elim exE conjE) (rule that)
  show ?thesis
    using path ok w1 w2 w' connect_write_files [OF assms(4), of fl path url token user w2]
    by (intro exI [of _ path] exI [of _ url] exI [of _ token] exI [of _ user] exI [of _ w2]) simp
qed

section \<open>Pairing, then connecting\<close>

lemma trim_slashes_idem [simp]: "trim_slashes (trim_slashes s) = trim_slashes s"
proof -
  have "dropWhile P (dropWhile P xs) = dropWhile P xs" for P and xs :: bytes by (induction xs) simp_all
  then show ?thesis by (simp add: trim_slashes_def)
qed

lemma Fingerprint_not_empty [simp]: "Fingerprint k \<noteq> []"
  by (simp add: Fingerprint_def Let_def)

lemma redeem_trimmed: "redeem do (trim_slashes url) code = redeem do url code"
  by (simp add: redeem_def)

text \<open>
  C29: Pairing end to end. The code that a window on the hub displayed, typed on another machine before the
  window expires with the address and the fingerprint of the stored key, configures that machine, when its
  settings are strings: connect exits with 0, and the settings read back with the hub's address, its key and its id, the WebSocket off,
  and every other setting, the device id among them, as it was.
\<close>

theorem pair_then_connect:
  assumes "parseFlags (ce_duration env) connect_flags args = Inr (fl, [p])" "\<not> flag_bool fl ''undo''"
    and "ready env path m w" "ce_do env = served_by s n ctx st (trim_slashes p) host"
    and "flag_string fl ''code'' = guess" "guess \<noteq> []"
    and "trim_space (flag_string fl ''fingerprint'') = Fingerprint \<lparr>PSK = trim_space k\<rparr>"
    and "FileWindow_Open env1 ttl dir = (Inr (code, expires), dir')" "normalise guess = normalise code"
    and "files_ok env'" "pe_now env' \<le> expires" "pd_key dir = Some k" "trim_space k \<noteq> []"
    and "srv_pair s = Some (\<lambda>c. FileWindow_Redeem (env', c))" "hs_pair st = dir'"
    and "int n < opt_MaxInFlight (srv_opts s)" "opt_AllowedHosts (srv_opts s) = [] \<or> hostAllowed s host"
    and "\<not> srv_recording s" "valid_utf8 guess" "length (marshal_string guess) \<le> 4000"
    and "quotable (srv_printable s) (trim_space k)" "quotable (srv_printable s) (opt_UserID (srv_opts s))"
    and "opt_UserID (srv_opts s) \<noteq> []"
  shows "\<exists>w' m'. run_command (runConnect env args) w = (0, w') \<and> settings_in w' path m'
    \<and> configured env fl m (trim_slashes p) (trim_space k) (opt_UserID (srv_opts s)) m'"
proof (rule connect_ok [OF assms(1-3)])
  show "connect_url env (flag_string fl ''code'') [p] w = (Inr (trim_slashes p), w)"
    by (simp add: connect_url_def returnC_def)
  show "flag_string fl ''fingerprint'' \<noteq> []" using assms(7) Fingerprint_not_empty by (metis trim_space_Nil)
  have "redeem (ce_do env) (trim_slashes p) guess = Inr \<lparr>pr_Token = trim_space k, pr_UserID = opt_UserID (srv_opts s)\<rparr>"
    unfolding assms(4) redeem_trimmed by (rule pairing_over_http [OF assms(8-23)])
  then show "connect_credentials env fl (trim_slashes p) w = (Inr (trim_space k, opt_UserID (srv_opts s)), w)"
    using assms(5,6,13,23) by (simp add: connect_credentials_def bindC_def orDie_def returnC_def)
qed (simp_all add: assms(7))

text \<open>
  C30: A key given on the command line goes to whatever answers on the network. Without an address and a code,
  the one service that answered, whoever advertised it, becomes the hub of this machine; the fingerprint
  check passes, because it is the given key that is compared, not the one of the host that was found.
\<close>

theorem key_goes_to_discovered_host:
  assumes "parseFlags (ce_duration env) connect_flags args = Inr (fl, [])" "\<not> flag_bool fl ''undo''"
    and "ready env path m w" "flag_string fl ''code'' = []"
    and "Browse (pv_goos (ce_proc env)) (ce_browse env) (ce_order env) = Inr [f]"
    and "flag_string fl ''token'' \<noteq> []" "flag_string fl ''user-id'' \<noteq> []"
    and "trim_space (flag_string fl ''fingerprint'') = Fingerprint \<lparr>PSK = flag_string fl ''token''\<rparr>"
  shows "\<exists>w' m'. run_command (runConnect env args) w = (0, w') \<and> settings_in w' path m'
    \<and> configured env fl m (Addr f) (flag_string fl ''token'') (flag_string fl ''user-id'') m'"
proof -
  obtain w1 where w1: "connect_url env [] [] w = (Inr (Addr f), w1)" "w_calls w1 = w_calls w"
    using assms(5) by (auto simp: connect_url_def discoverHub_def bindC_def outC_def returnC_def orDie_def)
  show ?thesis
  proof (rule connect_ok [OF assms(1-3)])
    show "connect_url env (flag_string fl ''code'') [] w = (Inr (Addr f), w1)" using w1 assms(4) by simp
    show "flag_string fl ''fingerprint'' \<noteq> []" using assms(8) Fingerprint_not_empty by (metis trim_space_Nil)
    show "connect_credentials env fl (Addr f) w1 = (Inr (flag_string fl ''token'', flag_string fl ''user-id''), w1)"
      using assms(4,6,7) by (simp add: connect_credentials_def bindC_def returnC_def)
  qed (simp_all add: assms(8) w1)
qed

lemma configuredD:
  assumes "configured env fl m url token user m'"
  shows "Value m' keyHubURL = valid_text url" "Value m' keyToken = valid_text token"
    "k \<notin> {keyHubURL, keyToken, keyUserID, keyDeviceName, keyWS} \<Longrightarrow> Value m' k = Value m k"
  using assms unfolding configured_def by blast+

section \<open>Samples\<close>

definition connected_cli :: "bytes \<Rightarrow> pair_dir \<Rightarrow> cli_env" where
  "connected_cli p dir' = sample_cli\<lparr>ce_do := served_by
     ((New sample_options (\<lambda>_. True))\<lparr>srv_pair := Some (\<lambda>c. FileWindow_Redeem (good_files 5, c))\<rparr>) 0
     quiet_ctx (sample_hub\<lparr>hs_pair := dir'\<rparr>) (trim_slashes p) ''hub.lan''\<rparr>"

definition found_cli :: cli_env where
  "found_cli = sample_cli\<lparr>ce_browse := ([\<lparr>be_Name = ''hub'', be_Host = ''rogue.lan'', be_Port = 8787, be_IPs = []\<rparr>], False)\<rparr>"

abbreviation sample_machine :: world where
  "sample_machine \<equiv> world_of [(sample_path, sample_file)] sample_cdb \<lparr>hd_db = new_db, hd_pair = paired_dir\<rparr>"

lemma trim_Fingerprint: "trim_space (Fingerprint k) = Fingerprint k"
proof -
  define e where "e = b64_encode (sha256 (''cmemlan-fingerprint-v1:'' @ PSK k))"
  have len: "length e = 43" unfolding e_def by (simp only: length_b64 sha256_length)
  have solid: "\<forall>c \<in> set e. solid c" using b64_encode_chars digest_char_solid by (auto simp: list_all_iff e_def)
  have f: "Fingerprint k = take 4 e @ ''-'' @ take 4 (drop 4 e) @ ''-'' @ take 4 (drop 8 e)"
    by (simp only: Fingerprint_def e_def Let_def)
  have "take 4 e \<noteq> []" "take 4 (drop 8 e) \<noteq> []" using len by auto
  then have "hd (Fingerprint k) = e ! 0" "last (Fingerprint k) = last (take 4 (drop 8 e))" using len unfolding f
    by (simp_all add: hd_conv_nth nth_append)
  moreover have "e ! 0 \<in> set e" "last (take 4 (drop 8 e)) \<in> set e"
    using len in_set_dropD [OF in_set_takeD [OF last_in_set [OF \<open>take 4 (drop 8 e) \<noteq> []\<close>]]] by simp_all
  ultimately show ?thesis using solid by (intro trim_space_solid) auto
qed

lemma sample_ready:
  assumes "ce_os env = ce_os sample_cli" "ce_proc env = sample_proc"
  obtains m where "ready env sample_path m sample_machine" "Value m DeviceIDKey = ''dev-1''" "Value m keyToken = []"
proof -
  obtain m where m: "parse_settings (Some (sample_file\<lparr>f_mtime := 5\<rparr>)) = Some m" "literal_map m" "utf8_keys m"
    "Value m DeviceIDKey = ''dev-1''" "Value m keyToken = []"
    by (rule sample_parse [of 5]) (simp add: DeviceIDKey_def keyToken_def)
  have "ClaudeMemSettings sample_proc = Inr sample_path"
    by (simp add: ClaudeMemSettings_def ClaudeMemDir_def sample_proc_def sample_path_def EnvClaudeMemDir_def EnvDataDir_def
        path_join_def path_clean_def is_rooted_def)
  moreover have "temp_name (ce_os sample_cli) sample_path \<noteq> sample_path"
    by (simp only: sample_cli_simps sample_path_temp) (simp add: sample_path_def)
  ultimately have "ready env sample_path m sample_machine"
    using m assms by (simp add: ready_def undisturbed_def sample_env_def writes_of_def fun_eq_iff parse_settings_def sample_file_def)
  with m(4,5) show thesis using that by blast
qed

lemma connect_args:
  assumes "\<not> is_flag p" "dur = (\<lambda>_. None)"
  shows "parseFlags dur connect_flags [p, ''--code'', c, ''--fingerprint'', fp] =
      Inr (set_flag ''fingerprint'' (VString fp) (set_flag ''code'' (VString c) connect_flags), [p])"
    and "parseFlags dur connect_flags [''--token'', t, ''--user-id'', u, ''--fingerprint'', fp] =
      Inr (set_flag ''fingerprint'' (VString fp) (set_flag ''user-id'' (VString u) (set_flag ''token'' (VString t) connect_flags)), [])"
  using flags_interleave_lemma [of dur connect_flags "[Pos p, Setting ''code'' c, Setting ''fingerprint'' fp]"]
    flags_interleave_lemma [of dur connect_flags "[Setting ''token'' t, Setting ''user-id'' u, Setting ''fingerprint'' fp]"] assms
  by (simp_all add: connect_flags_def good_name_def set_flag_def)

lemma sample_port: "format_nat 8787 = ''8787''"
  by (simp add: format_nat.simps digit_char_def) code_simp

theorem key_goes_to_discovered_host_witness:
  "\<exists>w' m'. run_command (runConnect found_cli [''--token'', ''key'', ''--user-id'', ''hub'', ''--fingerprint'',
      Fingerprint \<lparr>PSK = ''key''\<rparr>]) sample_machine = (0, w')
    \<and> settings_in w' sample_path m' \<and> Value m' keyHubURL = ''http://rogue.lan:8787'' \<and> Value m' keyToken = ''key''"
proof -
  let ?fp = "Fingerprint \<lparr>PSK = ''key''\<rparr>"
  let ?fl = "set_flag ''fingerprint'' (VString ?fp) (set_flag ''user-id'' (VString ''hub'') (set_flag ''token'' (VString ''key'') connect_flags))"
  let ?f = "\<lparr>fd_Name = ''hub'', fd_Host = ''rogue.lan'', fd_Port = 8787\<rparr>"
  let ?args = "[''--token'', ''key'', ''--user-id'', ''hub'', ''--fingerprint'', ?fp]"
  have args: "parseFlags (ce_duration found_cli) connect_flags ?args = Inr (?fl, [])" by (rule connect_args(2) [of "[]"]) (simp_all add: found_cli_def sample_duration is_flag_def)
  obtain m where m: "ready found_cli sample_path m sample_machine"
    by (rule sample_ready [of found_cli]) (simp_all add: found_cli_def sample_duration)
  have found: "Browse (pv_goos (ce_proc found_cli)) (ce_browse found_cli) (ce_order found_cli) = Inr [?f]"
    by (simp add: Browse_def found_cli_def sample_cli_def sample_proc_def add_entry_def entry_host_def Let_def)
  have flags: "\<not> flag_bool ?fl ''undo''" "flag_string ?fl ''code'' = []" "flag_string ?fl ''token'' = ''key''"
    "flag_string ?fl ''user-id'' = ''hub''" "flag_string ?fl ''fingerprint'' = ?fp"
    by (simp_all add: flag_bool_def flag_string_def map_of_set_flag connect_flags_def)
  have "\<exists>w' m'. run_command (runConnect found_cli ?args) sample_machine = (0, w') \<and> settings_in w' sample_path m'
      \<and> configured found_cli ?fl m (Addr ?f) (flag_string ?fl ''token'') (flag_string ?fl ''user-id'') m'"
  proof (rule key_goes_to_discovered_host [OF args flags(1) m flags(2) found])
    show "flag_string ?fl ''token'' \<noteq> []" "flag_string ?fl ''user-id'' \<noteq> []" unfolding flags by simp_all
    show "trim_space (flag_string ?fl ''fingerprint'') = Fingerprint \<lparr>PSK = flag_string ?fl ''token''\<rparr>"
      unfolding flags by (rule trim_Fingerprint)
  qed
  then obtain w' m' where r: "run_command (runConnect found_cli ?args) sample_machine = (0, w')" "settings_in w' sample_path m'"
    and c: "configured found_cli ?fl m (Addr ?f) (flag_string ?fl ''token'') (flag_string ?fl ''user-id'') m'"
    by (elim exE conjE) (rule that)
  have "Value m' keyHubURL = valid_text (Addr ?f)" "Value m' keyToken = valid_text ''key''"
    using configuredD(1,2) [OF c] unfolding flags by this+
  moreover have "Addr ?f = ''http://rogue.lan:8787''" by (simp add: Addr_def sample_port)
  moreover have "valid_text ''http://rogue.lan:8787'' = ''http://rogue.lan:8787''" "valid_text ''key'' = ''key''"
    using valid_utf8_ascii [of "''http://rogue.lan:8787''"] valid_utf8_ascii [of "''key''"] by (simp_all add: valid_utf8_def)
  ultimately have "Value m' keyHubURL = ''http://rogue.lan:8787''" "Value m' keyToken = ''key''" by simp_all
  with r show ?thesis by (intro exI conjI)
qed

theorem pair_then_connect_witness:
  "\<exists>dir' w' m'. run_command (runConnect (connected_cli ''http://hub.lan/'' dir') [''http://hub.lan/'', ''--code'', ''012 345 678'',
      ''--fingerprint'', Fingerprint \<lparr>PSK = ''key''\<rparr>]) sample_machine = (0, w')
    \<and> settings_in w' sample_path m' \<and> Value m' keyToken = ''key'' \<and> Value m' DeviceIDKey = ''dev-1''"
proof -
  let ?p = "''http://hub.lan/''" and ?c = "''012 345 678''" and ?fp = "Fingerprint \<lparr>PSK = ''key''\<rparr>"
  let ?fl = "set_flag ''fingerprint'' (VString ?fp) (set_flag ''code'' (VString ?c) connect_flags)"
  let ?s = "(New sample_options (\<lambda>_. True))\<lparr>srv_pair := Some (\<lambda>c. FileWindow_Redeem (good_files 5, c))\<rparr>"
  obtain dir' where op: "FileWindow_Open (good_files 1) 10 paired_dir = (Inr (''012-345-678'', 11), dir')"
    using sample_code(1) by (simp add: FileWindow_Open_def Let_def good_files_def)
  have t: "trim_space ''key'' = ''key''"
    by (rule trim_space_solid) (simp_all add: solid_def)
  have args: "parseFlags (ce_duration (connected_cli ?p dir')) connect_flags [?p, ''--code'', ?c, ''--fingerprint'', ?fp] = Inr (?fl, [?p])"
    by (rule connect_args(1)) (simp_all add: connected_cli_def sample_duration is_flag_def)
  obtain m where m: "ready (connected_cli ?p dir') sample_path m sample_machine" "Value m DeviceIDKey = ''dev-1''"
    by (rule sample_ready [of "connected_cli ?p dir'"]) (simp_all add: connected_cli_def sample_duration)
  have flags: "flag_string ?fl ''code'' = ?c" "flag_string ?fl ''fingerprint'' = ?fp" "\<not> flag_bool ?fl ''undo''"
    by (simp_all add: flag_bool_def flag_string_def map_of_set_flag connect_flags_def)
  have "\<exists>w' m'. run_command (runConnect (connected_cli ?p dir') [?p, ''--code'', ?c, ''--fingerprint'', ?fp]) sample_machine = (0, w')
    \<and> settings_in w' sample_path m' \<and> configured (connected_cli ?p dir') ?fl m (trim_slashes ?p) (trim_space ''key'') (opt_UserID (srv_opts ?s)) m'"
  proof (rule pair_then_connect [OF args flags(3) m(1) _ flags(1), of ?s 0 quiet_ctx "sample_hub\<lparr>hs_pair := dir'\<rparr>" "''hub.lan''"
      "''key''" "good_files 1" 10 paired_dir "''012-345-678''" 11 dir' "good_files 5"])
    show "ce_do (connected_cli ?p dir') = served_by ?s 0 quiet_ctx (sample_hub\<lparr>hs_pair := dir'\<rparr>) (trim_slashes ?p) ''hub.lan''"
      by (simp add: connected_cli_def)
    show "trim_space (flag_string ?fl ''fingerprint'') = Fingerprint \<lparr>PSK = trim_space ''key''\<rparr>"
      by (simp only: flags t trim_Fingerprint)
    show "files_ok (good_files 5)" "pe_now (good_files 5) \<le> 11" "pd_key paired_dir = Some ''key''"
      by (simp_all add: files_ok_def good_files_def paired_dir_def)
    show "trim_space ''key'' \<noteq> []" unfolding t by simp
    have "hostAllowed ?s ''hub.lan''"
      by (simp add: hostAllowed_def New_def withDefaults_def sample_options_def)
    then show "opt_AllowedHosts (srv_opts ?s) = [] \<or> hostAllowed ?s ''hub.lan''" ..
    show "valid_utf8 ?c" by (rule valid_utf8_ascii) simp
    show "length (marshal_string ?c) \<le> 4000"
      by (simp add: marshal_string_def marshal_body.simps(2) html_safe_def byte_simps RuneSelf_def)
    show "quotable (srv_printable ?s) (trim_space ''key'')" "quotable (srv_printable ?s) (opt_UserID (srv_opts ?s))"
      using printable_key by (simp_all add: t quotable_ascii New_def withDefaults_def sample_options_def)
    show "FileWindow_Open (good_files 1) 10 paired_dir = (Inr (''012-345-678'', 11), dir')" by (rule op)
    show "normalise ?c = normalise ''012-345-678''" by (rule sample_code(2))
  qed (simp_all add: New_def withDefaults_def sample_options_def)
  then obtain w' m' where r: "run_command (runConnect (connected_cli ?p dir') [?p, ''--code'', ?c, ''--fingerprint'', ?fp]) sample_machine = (0, w')"
    "settings_in w' sample_path m'" "configured (connected_cli ?p dir') ?fl m (trim_slashes ?p) (trim_space ''key'') (opt_UserID (srv_opts ?s)) m'"
    by (elim exE conjE) (rule that)
  have "valid_text ''key'' = ''key''" using valid_utf8_ascii [of "''key''"] by (simp add: valid_utf8_def)
  moreover have "DeviceIDKey \<notin> {keyHubURL, keyToken, keyUserID, keyDeviceName, keyWS}"
    by (simp add: DeviceIDKey_def keyHubURL_def keyToken_def keyUserID_def keyDeviceName_def keyWS_def)
  ultimately have "Value m' keyToken = ''key''" "Value m' DeviceIDKey = ''dev-1''"
    using r(3) m(2) unfolding configured_def t by auto
  with r(1,2) show ?thesis by (intro exI conjI)
qed

text \<open>The witness for the first theorem: a machine whose settings change.\<close>

theorem connect_trusts_only_verified_witness:
  "\<exists>w' path url token user (w1 :: world). run_command (runConnect found_cli [''--token'', ''key'', ''--user-id'', ''hub'',
      ''--fingerprint'', Fingerprint \<lparr>PSK = ''key''\<rparr>]) sample_machine = (0, w')
    \<and> ClaudeMemSettings (ce_proc found_cli) = Inr path
    \<and> equal_fold (trim_space (Fingerprint \<lparr>PSK = ''key''\<rparr>)) (Fingerprint \<lparr>PSK = token\<rparr>)"
proof -
  let ?fp = "Fingerprint \<lparr>PSK = ''key''\<rparr>"
  let ?fl = "set_flag ''fingerprint'' (VString ?fp) (set_flag ''user-id'' (VString ''hub'') (set_flag ''token'' (VString ''key'') connect_flags))"
  let ?args = "[''--token'', ''key'', ''--user-id'', ''hub'', ''--fingerprint'', ?fp]"
  let ?f = "\<lparr>fd_Name = ''hub'', fd_Host = ''rogue.lan'', fd_Port = 8787\<rparr>"
  have args: "parseFlags (ce_duration found_cli) connect_flags ?args = Inr (?fl, [])"
    by (rule connect_args(2) [of "[]"]) (simp_all add: found_cli_def sample_duration is_flag_def)
  obtain m where m: "ready found_cli sample_path m sample_machine" "Value m keyToken = []"
    by (rule sample_ready [of found_cli]) (simp_all add: found_cli_def sample_duration)
  obtain w1 where w1: "connect_url found_cli [] [] sample_machine = (Inr (Addr ?f), w1)" "w_calls w1 = 0"
    by (auto simp: connect_url_def discoverHub_def bindC_def outC_def returnC_def orDie_def Browse_def found_cli_def
        sample_cli_def sample_proc_def add_entry_def entry_host_def Let_def)
  have "\<exists>w' m'. run_command (runConnect found_cli ?args) sample_machine = (0, w') \<and> settings_in w' sample_path m'
      \<and> configured found_cli ?fl m (Addr ?f) ''key'' ''hub'' m'"
  proof (rule connect_ok [OF args _ m(1)])
    show "connect_url found_cli (flag_string ?fl ''code'') [] sample_machine = (Inr (Addr ?f), w1)"
      using w1 by (simp add: flag_string_def map_of_set_flag connect_flags_def)
    show "connect_credentials found_cli ?fl (Addr ?f) w1 = (Inr (''key'', ''hub''), w1)"
      by (simp add: connect_credentials_def bindC_def returnC_def flag_string_def map_of_set_flag connect_flags_def)
  qed (simp_all add: w1 flag_bool_def flag_string_def map_of_set_flag connect_flags_def trim_Fingerprint)
  then obtain w' m' where r: "run_command (runConnect found_cli ?args) sample_machine = (0, w')" "settings_in w' sample_path m'"
    "configured found_cli ?fl m (Addr ?f) ''key'' ''hub'' m'" by (elim exE conjE) (rule that)
  have "w_files w' \<noteq> w_files sample_machine"
  proof
    assume "w_files w' = w_files sample_machine"
    with r(2) m(1) have "m' = m" by (auto simp: settings_in_def ready_def)
    moreover have "valid_text ''key'' = ''key''" using valid_utf8_ascii [of "''key''"] by (simp add: valid_utf8_def)
    ultimately show False using r(3) m(2) by (simp add: configured_def)
  qed
  from connect_trusts_only_verified [OF args _ _ _ r(1) this] m(1) r(1) show ?thesis
    by (auto simp: ready_def flag_bool_def flag_string_def map_of_set_flag connect_flags_def)
qed

end
