(* ===== verification/Health.thy ===== *)
theory Health
  imports Connect
begin

text \<open>
  \<open>internal/cli/status.go\<close> and \<open>internal/cli/doctor.go\<close>: what a client machine reports about its own state
  and its hub. The handle on claude-mem's database is the file it stands for; counting its queue is the
  action of \<open>ClientDb\<close>.

  The lemmas follow the doctor through its steps on a machine where nothing fails. The theorems: it is
  content exactly when every check of the list holds, and against a hub of this program neither command
  ever is.
\<close>

section \<open>clientdb.Open and the worker\<close>

text \<open>\<open>strings.Join\<close>.\<close>

fun Join :: "bytes list \<Rightarrow> bytes \<Rightarrow> bytes" where
  "Join [] sep = []"
| "Join [p] sep = p"
| "Join (p # ps) sep = p @ sep @ Join ps sep"

definition openC :: "cli_env \<Rightarrow> bytes \<Rightarrow> (go_error + unit) command" where
  "openC env path =
     bindC (filesC (Stat (ce_os env) path)) (\<lambda>r. returnC (case r of
       Inl _ \<Rightarrow> Inl (OtherError (''clientdb: '' @ path @ '' not found; is claude-mem installed?''))
     | Inr _ \<Rightarrow> Inr ()))"

definition worker_running :: "cli_env \<Rightarrow> bytes \<Rightarrow> bool command" where
  "worker_running env dbPath =
     bindC (filesC (ReadFile (ce_os env) (path_join [path_dir dbPath, ''worker.pid'']))) (\<lambda>r.
       returnC (WorkerRunning (ce_alive env) (case r of Inl _ \<Rightarrow> None | Inr raw \<Rightarrow> Some raw)))"

section \<open>status.go\<close>

definition status_queue :: "counts \<Rightarrow> bytes" where
  "status_queue c = nl @ ''waiting to upload'' @ nl
     @ ''  observations  '' @ format_nat (cnt_Observations c) @ nl
     @ ''  summaries     '' @ format_nat (cnt_Summaries c) @ nl
     @ ''  prompts       '' @ format_nat (cnt_Prompts c) @ nl"

definition status_database :: "cli_env \<Rightarrow> unit command" where
  "status_database env =
     (case ClaudeMemDB (ce_proc env) of
        Inl _ \<Rightarrow> returnC ()
      | Inr dbPath \<Rightarrow>
          bindC (openC env dbPath) (\<lambda>r. case r of
            Inl _ \<Rightarrow> returnC ()
          | Inr _ \<Rightarrow>
              bindC (memC (Pending (ce_sql env))) (\<lambda>c.
              bindC (case c of Inl _ \<Rightarrow> returnC () | Inr counts \<Rightarrow> outC (status_queue counts)) (\<lambda>_.
              bindC (worker_running env dbPath) (\<lambda>running.
                outC (nl @ (if running then ''worker     running'' else ''worker     not running (nothing will sync)'') @ nl))))))"

definition runStatus :: "cli_env \<Rightarrow> bytes list \<Rightarrow> nat command" where
  "runStatus env args =
     bindC (with_flags env ''status'' [] args) (\<lambda>_.
     bindC (orDie env (ClaudeMemSettings (ce_proc env))) (\<lambda>settingsPath.
     bindC (bindC (filesC (Read (ce_os env) settingsPath)) (orDie env)) (\<lambda>current.
       let hubURL = Value current keyHubURL; token = Value current keyToken; userID = Value current keyUserID in
       if hubURL = [] then
         bindC (outC (''sync is not configured on this machine'' @ nl
           @ ''run: cmemlan connect <hub-url> --code <code>'' @ nl)) (\<lambda>_. returnC 0)
       else
         bindC (outC (''hub        '' @ hubURL @ nl @ ''hub id     '' @ userID @ nl)) (\<lambda>_.
         bindC (status_database env) (\<lambda>_.
           case hub env hubURL userID token of
             Inl e \<Rightarrow>
               bindC (outC (nl @ ''hub        unreachable '' @ dash @ '' '' @ ce_text env e @ nl
                 @ ''Queued memories are safe locally and will upload when the hub returns.'' @ nl)) (\<lambda>_. returnC 1)
           | Inr res \<Rightarrow>
               bindC (outC (nl @ ''hub epoch  '' @ sr_Epoch res @ nl @ ''hub head   '' @ sr_HeadSeq res @ nl)) (\<lambda>_. returnC 0))))))"

section \<open>doctor.go\<close>

record check =
  ck_ok :: bool
  ck_warn :: bool
  ck_label :: bytes
  ck_detail :: bytes
  ck_remedy :: bytes

definition check_write :: "check \<Rightarrow> bytes" where
  "check_write c =
     (if ck_ok c then tick else if ck_warn c then ''!'' else cross) @ '' '' @ ck_label c
     @ (if ck_detail c \<noteq> [] then '' '' @ dash @ '' '' @ ck_detail c else []) @ nl
     @ (if ck_remedy c \<noteq> [] \<and> \<not> ck_ok c then ''    '' @ arrow @ '' '' @ ck_remedy c @ nl else [])"

definition passed :: "bytes \<Rightarrow> bytes \<Rightarrow> check" where
  "passed label detail = \<lparr>ck_ok = True, ck_warn = False, ck_label = label, ck_detail = detail, ck_remedy = []\<rparr>"

definition warned :: "bytes \<Rightarrow> bytes \<Rightarrow> bytes \<Rightarrow> check" where
  "warned label detail remedy = \<lparr>ck_ok = False, ck_warn = True, ck_label = label, ck_detail = detail, ck_remedy = remedy\<rparr>"

definition wrong :: "bytes \<Rightarrow> bytes \<Rightarrow> bytes \<Rightarrow> check" where
  "wrong label detail remedy = \<lparr>ck_ok = False, ck_warn = False, ck_label = label, ck_detail = detail, ck_remedy = remedy\<rparr>"

text \<open>\<open>Env map[string]json.RawMessage\<close>: a second member adds to the map, \<open>null\<close> empties it.\<close>

definition set_raw_map :: "(raw_map \<Rightarrow> 's \<Rightarrow> 's) \<Rightarrow> ('s \<Rightarrow> raw_map) \<Rightarrow> bytes \<Rightarrow> 's \<Rightarrow> 's option" where
  "set_raw_map put get raw s =
     (if hd raw = CHR ''n'' then Some (put [] s)
      else map_option (\<lambda>m. put (foldl (\<lambda>acc (k, v). AList.update k v acc) (get s) m) s) (unmarshal_map raw))"

definition parsed_env :: "bytes \<Rightarrow> raw_map option" where
  "parsed_env raw = unmarshal_struct [(''env'', set_raw_map (\<lambda>m _. m) (\<lambda>m. m))] raw []"

definition shadow_keys :: "bytes \<Rightarrow> bytes list" where
  "shadow_keys raw =
     (case parsed_env raw of
        None \<Rightarrow> []
      | Some m \<Rightarrow> filter (\<lambda>k. map_of m k \<noteq> None) [keyHubURL, keyToken, keyUserID, keyWS, DeviceIDKey])"

definition shadowingKeys :: "cli_env \<Rightarrow> bytes \<Rightarrow> bytes list command" where
  "shadowingKeys env path =
     bindC (filesC (ReadFile (ce_os env) path)) (\<lambda>r.
       returnC (case r of Inl _ \<Rightarrow> [] | Inr raw \<Rightarrow> shadow_keys raw))"

text \<open>Each step gives the checks it adds and whether it found a failure.\<close>

type_synonym checked = "check list \<times> bool"

definition doctor_read :: "cli_env \<Rightarrow> (raw_map \<times> checked) command" where
  "doctor_read env =
     bindC (filesC (Read (ce_os env) (case ClaudeMemSettings (ce_proc env) of Inl _ \<Rightarrow> [] | Inr p \<Rightarrow> p))) (\<lambda>r.
       returnC (case r of
         Inl e \<Rightarrow> ([], [wrong ''settings readable'' (ce_text env e) []], True)
       | Inr current \<Rightarrow> (current, [], False)))"

definition has_sync :: "raw_map \<Rightarrow> bool" where
  "has_sync m \<longleftrightarrow> Value m keyHubURL \<noteq> [] \<and> Value m keyToken \<noteq> [] \<and> Value m keyUserID \<noteq> []"

definition doctor_configured :: "raw_map \<Rightarrow> checked" where
  "doctor_configured current =
     (if \<not> has_sync current
      then ([wrong ''sync configured''
               (''hub url, token, or hub id is empty '' @ dash @ '' claude-mem only enables sync when all three are set'')
               ''run: cmemlan connect <hub-url> --code <code>''], True)
      else ([passed ''sync configured'' (Value current keyHubURL)], False))"

definition doctor_device :: "raw_map \<Rightarrow> checked" where
  "doctor_device current =
     (if Value current DeviceIDKey = []
      then ([warned ''device id'' ''not yet minted; claude-mem creates one on its next start'' []], False)
      else ([passed ''device id present'' []], False))"

definition doctor_shadow :: "cli_env \<Rightarrow> checked command" where
  "doctor_shadow env =
     (case ClaudeCodeSettings (ce_proc env) of
        Inl _ \<Rightarrow> returnC ([], False)
      | Inr codePath \<Rightarrow>
          bindC (shadowingKeys env codePath) (\<lambda>shadow. returnC
            (if shadow \<noteq> []
             then ([wrong ''no conflicting configuration'' (codePath @ '' also sets '' @ Join shadow '', '')
                      ''remove those keys: environment values override claude-mem's own settings file''], True)
             else ([passed ''no conflicting configuration'' []], False))))"

definition doctor_database :: "cli_env \<Rightarrow> bytes \<Rightarrow> checked command" where
  "doctor_database env dbPath =
     bindC (openC env dbPath) (\<lambda>r. case r of
       Inl e \<Rightarrow> returnC ([wrong ''database readable'' (ce_text env e) []], True)
     | Inr _ \<Rightarrow>
         bindC (worker_running env dbPath) (\<lambda>running.
         bindC (memC (Pending (ce_sql env))) (\<lambda>c. returnC
           ([if running then passed ''claude-mem worker running'' []
             else warned ''claude-mem worker not running'' ''nothing will sync until it starts''
                    ''open Claude Code, or run: npx claude-mem start'']
            @ (case c of Inl _ \<Rightarrow> [] | Inr counts \<Rightarrow> [passed ''local queue'' (format_nat (Total counts) @ '' waiting to upload'')]),
            False))))"

definition doctor_hub :: "cli_env \<Rightarrow> raw_map \<Rightarrow> checked" where
  "doctor_hub env current =
     (if \<not> has_sync current then ([], False)
      else case hub env (Value current keyHubURL) (Value current keyUserID) (Value current keyToken) of
        Inl e \<Rightarrow> ([wrong ''hub reachable'' (ce_text env e)
                     ''check the hub is running (systemctl --user status cmemlan) and reachable from here''], True)
      | Inr res \<Rightarrow>
          (passed ''hub reachable'' (''epoch '' @ sr_Epoch res @ '', head '' @ sr_HeadSeq res)
           # (if sr_SyncMode res = ''poll'' then [passed ''websocket disabled by the hub (expected)'' []] else []), False))"

definition TestedClaudeMem :: bytes where
  "TestedClaudeMem = ''13.15.0''"

definition buildinfo_String :: "bytes \<Rightarrow> bytes" where
  "buildinfo_String version = ''cmemlan '' @ version @ '' (verified against claude-mem '' @ TestedClaudeMem @ '')''"

definition doctor_verdict :: "checked list \<Rightarrow> nat command" where
  "doctor_verdict steps =
     bindC (outC (concat (map check_write (concat (map fst steps))))) (\<lambda>_.
       if list_ex snd steps
       then bindC (outC (nl @ ''Some checks failed. Fix the items marked '' @ cross @ '' and run doctor again.'' @ nl)) (\<lambda>_. returnC 1)
       else bindC (outC (nl @ ''Everything looks healthy.'' @ nl)) (\<lambda>_. returnC 0))"

text \<open>From the settings on: the steps that read files, and the verdict.\<close>

definition doctor_checks :: "cli_env \<Rightarrow> bytes \<Rightarrow> nat command" where
  "doctor_checks env dbPath =
     bindC (doctor_read env) (\<lambda>(current, readable).
     bindC (doctor_shadow env) (\<lambda>shadow.
     bindC (doctor_database env dbPath) (\<lambda>database.
       doctor_verdict [([passed ''claude-mem database found'' dbPath], False), readable, doctor_configured current,
         doctor_device current, shadow, database, doctor_hub env current])))"

definition runDoctor :: "cli_env \<Rightarrow> bytes list \<Rightarrow> nat command" where
  "runDoctor env args =
     bindC (with_flags env ''doctor'' [] args) (\<lambda>_.
     bindC (outC (buildinfo_String (ce_version env) @ nl @ nl)) (\<lambda>_.
     bindC (orDie env (ClaudeMemDir (ce_proc env))) (\<lambda>memDir.
       let dbPath = path_join [memDir, ''claude-mem.db''] in
       bindC (filesC (Stat (ce_os env) dbPath)) (\<lambda>r. case r of
         Inl _ \<Rightarrow>
           bindC (outC (check_write (wrong ''claude-mem installed'' (dbPath @ '' not found'')
             ''install claude-mem, or set CLAUDE_MEM_DATA_DIR if it lives elsewhere''))) (\<lambda>_. returnC 1)
       | Inr _ \<Rightarrow> doctor_checks env dbPath))))"

section \<open>Reading files\<close>

text \<open>\<open>reads P m\<close>: on every world \<open>m\<close> goes on with a value that \<open>P\<close> relates to the files, which stay.\<close>

definition reads :: "(files \<Rightarrow> 'a \<Rightarrow> bool) \<Rightarrow> 'a command \<Rightarrow> bool" where
  "reads P m \<longleftrightarrow> (\<forall>w. \<exists>x w'. m w = (Inr x, w') \<and> P (w_files w) x \<and> w_files w' = w_files w)"

named_theorems reads_intros \<open>steps that only read files\<close>

lemma readsD: "reads P m \<Longrightarrow> \<exists>x w'. m w = (Inr x, w') \<and> P (w_files w) x \<and> w_files w' = w_files w"
  by (simp add: reads_def)

lemma reads_bind:
  assumes "reads P m" "\<And>x. reads (Q x) (f x)"
  shows "reads (\<lambda>fs y. \<exists>x. P fs x \<and> Q x fs y) (bindC m f)"
  unfolding reads_def
proof
  fix w
  obtain x w1 where m: "m w = (Inr x, w1)" "P (w_files w) x" "w_files w1 = w_files w"
    using readsD [OF assms(1)] by blast
  obtain y w2 where "f x w1 = (Inr y, w2)" "Q x (w_files w1) y" "w_files w2 = w_files w1"
    using readsD [OF assms(2)] by blast
  with m show "\<exists>y w'. bindC m f w = (Inr y, w') \<and> (\<exists>x. P (w_files w) x \<and> Q x (w_files w) y) \<and> w_files w' = w_files w"
    by (auto simp: bindC_def)
qed

lemma reads_mono: "reads P m \<Longrightarrow> (\<And>fs x. P fs x \<Longrightarrow> P' fs x) \<Longrightarrow> reads P' m"
  unfolding reads_def by meson

lemma reads_return: "reads (\<lambda>_ y. y = x) (returnC x)"
  by (simp add: reads_def returnC_def)

lemma reads_returnI: "(\<And>fs. P fs x) \<Longrightarrow> reads P (returnC x)"
  by (simp add: reads_def returnC_def)

lemma reads_out_return: "(\<And>fs. P fs x) \<Longrightarrow> reads P (bindC (outC s) (\<lambda>_. returnC x))"
  by (simp add: reads_def returnC_def outC_def bindC_def)

lemma reads_out: "reads (\<lambda>_ _. True) (outC s)"
  by (simp add: reads_def outC_def)

lemma reads_mem: "reads (\<lambda>_ _. True) (memC m)"
  by (simp add: reads_def memC_def split: prod.splits)

text \<open>A machine where no call fails and no other program writes.\<close>

definition smooth :: "cli_env \<Rightarrow> bool" where
  "smooth env \<longleftrightarrow> undisturbed env \<and> (\<forall>k. os_fault (ce_os env) k = Fine)"

lemma smooth_call: "smooth env \<Longrightarrow> os_call (ce_os env) f torn (k, fs) = (case f (os_now (ce_os env) k) fs of (r, fs') \<Rightarrow> (r, Suc k, fs'))"
  by (simp add: os_call_def smooth_def undisturbed_def)

lemma reads_Stat: "smooth env \<Longrightarrow> reads (\<lambda>fs r. r = look_up p fs) (filesC (Stat (ce_os env) p))"
  by (simp add: reads_def filesC_def Stat_def smooth_call)

lemma reads_ReadFile: "smooth env \<Longrightarrow> reads (\<lambda>fs r. r = bindE (look_up p fs) (\<lambda>f. Inr (f_data f))) (filesC (ReadFile (ce_os env) p))"
  by (simp add: reads_def filesC_def ReadFile_def smooth_call)

lemma reads_Read: "smooth env \<Longrightarrow>
    reads (\<lambda>fs r. r = (case parse_settings (map_of fs p) of
      None \<Rightarrow> Inl (OtherError ''settings: not valid JSON; refusing to modify it'') | Some m \<Rightarrow> Inr m)) (filesC (Read (ce_os env) p))"
  by (simp add: reads_def filesC_def Read_def ReadFile_def smooth_call bindI_def tryI_def look_up_def of_option_def
      parse_settings_def returnI_def failI_def split: option.splits)

lemma reads_open: "smooth env \<Longrightarrow> reads (\<lambda>fs r. (\<exists>u. r = Inr u) \<longleftrightarrow> map_of fs p \<noteq> None) (openC env p)"
  unfolding openC_def
  by (rule reads_mono [OF reads_bind [OF reads_Stat reads_return]])
    (auto simp: look_up_def of_option_def split: option.splits sum.splits)

lemma reads_worker: "smooth env \<Longrightarrow> reads (\<lambda>_ _. True) (worker_running env p)"
  unfolding worker_running_def by (rule reads_mono [OF reads_bind [OF reads_ReadFile reads_return]]) simp_all

lemma reads_doctor_read: "smooth env \<Longrightarrow> ClaudeMemSettings (ce_proc env) = Inr path \<Longrightarrow>
    reads (\<lambda>fs (current, checks, failed). (case parse_settings (map_of fs path) of
      None \<Rightarrow> current = [] \<and> failed | Some m \<Rightarrow> current = m \<and> \<not> failed)) (doctor_read env)"
  unfolding doctor_read_def
  by (rule reads_mono [OF reads_bind [OF reads_Read reads_return]]) (auto split: option.splits)

text \<open>The sync keys that Claude Code's own settings set.\<close>

definition shadowed :: "cli_env \<Rightarrow> files \<Rightarrow> bool" where
  "shadowed env fs \<longleftrightarrow>
     (case ClaudeCodeSettings (ce_proc env) of
        Inl _ \<Rightarrow> False
      | Inr p \<Rightarrow> (case map_of fs p of None \<Rightarrow> False | Some f \<Rightarrow> shadow_keys (f_data f) \<noteq> []))"

lemma reads_shadowing: "smooth env \<Longrightarrow>
    reads (\<lambda>fs r. r = (case map_of fs p of None \<Rightarrow> [] | Some f \<Rightarrow> shadow_keys (f_data f))) (shadowingKeys env p)"
  unfolding shadowingKeys_def
  by (rule reads_mono [OF reads_bind [OF reads_ReadFile reads_return]]) (auto simp: look_up_def of_option_def split: option.splits)

lemma reads_doctor_shadow:
  assumes "smooth env"
  shows "reads (\<lambda>fs (checks, failed). failed \<longleftrightarrow> shadowed env fs) (doctor_shadow env)"
proof (cases "ClaudeCodeSettings (ce_proc env)")
  case (Inl e)
  then show ?thesis by (simp add: doctor_shadow_def shadowed_def reads_returnI)
next
  case (Inr p)
  then show ?thesis unfolding doctor_shadow_def shadowed_def
    by simp (rule reads_mono [OF reads_bind [OF reads_shadowing [OF assms] reads_return]], auto split: option.splits)
qed

lemma reads_doctor_database:
  assumes "smooth env"
  shows "reads (\<lambda>fs (checks, failed). failed \<longleftrightarrow> map_of fs p = None) (doctor_database env p)"
proof -
  have "reads (\<lambda>_ (checks, failed). failed = (\<forall>u. r \<noteq> Inr u))
      (case r of Inl e \<Rightarrow> returnC ([wrong ''database readable'' (ce_text env e) []], True)
       | Inr _ \<Rightarrow> bindC (worker_running env p) (\<lambda>running. bindC (memC (Pending (ce_sql env))) (\<lambda>c. returnC (g running c, False))))"
    for r :: "go_error + unit" and g
  proof (cases r)
    case (Inl e)
    then show ?thesis by (simp add: reads_returnI)
  next
    case (Inr u)
    then show ?thesis
      by simp (rule reads_mono [OF reads_bind [OF reads_worker [OF assms] reads_bind [OF reads_mem reads_return]]], auto)
  qed
  note step = this
  show ?thesis unfolding doctor_database_def
    by (rule reads_mono [OF reads_bind [OF reads_open [OF assms] step]]) auto
qed

lemma reads_verdict: "reads (\<lambda>_ code. code = (if list_ex snd steps then 1 else 0)) (doctor_verdict steps)"
proof -
  have "reads (\<lambda>_ code. code = (if b then 1 else 0)) (if b then bindC (outC s) (\<lambda>_. returnC 1) else bindC (outC t) (\<lambda>_. returnC (0::nat)))" for b s t
    by (cases b) (simp_all add: reads_out_return)
  note step = this
  show ?thesis unfolding doctor_verdict_def
    by (rule reads_mono [OF reads_bind [OF reads_out step]]) simp
qed

section \<open>When the doctor is content\<close>

lemma doctor_configured_failed: "snd (doctor_configured m) \<longleftrightarrow> \<not> has_sync m"
  by (simp add: doctor_configured_def)

lemma doctor_device_failed: "\<not> snd (doctor_device m)"
  by (simp add: doctor_device_def)

lemma doctor_hub_failed:
  "snd (doctor_hub env m) \<longleftrightarrow> has_sync m \<and> (\<exists>e. hub env (Value m keyHubURL) (Value m keyUserID) (Value m keyToken) = Inl e)"
  by (simp add: doctor_hub_def split: sum.split)

text \<open>What a healthy machine is.\<close>

definition healthy :: "cli_env \<Rightarrow> bytes \<Rightarrow> bytes \<Rightarrow> files \<Rightarrow> bool" where
  "healthy env settingsPath dbPath fs \<longleftrightarrow>
     map_of fs dbPath \<noteq> None \<and> \<not> shadowed env fs
     \<and> (case parse_settings (map_of fs settingsPath) of
          None \<Rightarrow> False
        | Some m \<Rightarrow> has_sync m \<and> (\<exists>res. hub env (Value m keyHubURL) (Value m keyUserID) (Value m keyToken) = Inr res))"

lemma reads_doctor_checks:
  assumes "smooth env" "ClaudeMemSettings (ce_proc env) = Inr path"
  shows "reads (\<lambda>fs code. code = (if healthy env path dbPath fs then 0 else 1)) (doctor_checks env dbPath)"
proof -
  have inr: "(\<nexists>e. r = Inl e) \<longleftrightarrow> (\<exists>x. r = Inr x)" for r :: "go_error + StatusResult" by (cases r) auto
  have nosync: "\<not> has_sync []" by (simp add: has_sync_def Value_def)
  have "reads (\<lambda>fs code. \<exists>shadow. (case shadow of (cs, f) \<Rightarrow> f = shadowed env fs)
      \<and> (\<exists>database. (case database of (cs, f) \<Rightarrow> f = (map_of fs dbPath = None))
      \<and> code = (if list_ex snd [([passed ''claude-mem database found'' dbPath], False), readable, doctor_configured current,
         doctor_device current, shadow, database, doctor_hub env current] then 1 else 0)))
    (bindC (doctor_shadow env) (\<lambda>shadow. bindC (doctor_database env dbPath) (\<lambda>database.
       doctor_verdict [([passed ''claude-mem database found'' dbPath], False), readable, doctor_configured current,
         doctor_device current, shadow, database, doctor_hub env current])))" for current readable
    by (intro reads_bind reads_doctor_shadow reads_doctor_database reads_verdict assms)
  then have step: "reads (\<lambda>fs code. code = (if shadowed env fs \<or> map_of fs dbPath = None \<or> snd readable \<or> snd (doctor_configured current)
        \<or> snd (doctor_hub env current) then 1 else 0))
    (bindC (doctor_shadow env) (\<lambda>shadow. bindC (doctor_database env dbPath) (\<lambda>database.
       doctor_verdict [([passed ''claude-mem database found'' dbPath], False), readable, doctor_configured current,
         doctor_device current, shadow, database, doctor_hub env current])))" for current readable
    by (rule reads_mono) (auto simp: doctor_device_failed split: prod.splits)
  have step': "reads (\<lambda>fs code. code = (if shadowed env fs \<or> map_of fs dbPath = None \<or> snd (snd x) \<or> snd (doctor_configured (fst x))
        \<or> snd (doctor_hub env (fst x)) then 1 else 0))
    ((\<lambda>(current, readable). bindC (doctor_shadow env) (\<lambda>shadow. bindC (doctor_database env dbPath) (\<lambda>database.
       doctor_verdict [([passed ''claude-mem database found'' dbPath], False), readable, doctor_configured current,
         doctor_device current, shadow, database, doctor_hub env current]))) x)" for x
    using step [of "snd x" "fst x"] by (cases x) simp
  show ?thesis unfolding doctor_checks_def
    by (rule reads_mono [OF reads_bind [OF reads_doctor_read [OF assms] step']])
      (auto simp: healthy_def doctor_configured_failed doctor_hub_failed nosync inr [symmetric] split: option.splits if_splits)
qed

text \<open>
  C31: The doctor is content exactly on a healthy machine: claude-mem's database is there, the settings read and
  have all three sync values, Claude Code's settings set none of the sync keys, and the hub answers.
\<close>

theorem doctor_content_iff_healthy:
  assumes "smooth env" "parseFlags (ce_duration env) [] args = Inr r" "ClaudeMemDir (ce_proc env) = Inr dir"
  shows "fst (run_command (runDoctor env args) w) =
    (if healthy env (path_join [dir, ''settings.json'']) (path_join [dir, ''claude-mem.db'']) (w_files w) then 0 else 1)"
proof -
  let ?db = "path_join [dir, ''claude-mem.db'']" and ?path = "path_join [dir, ''settings.json'']"
  define w0 where "w0 = w\<lparr>w_out := w_out w @ buildinfo_String (ce_version env) @ nl @ nl\<rparr>"
  have path: "ClaudeMemSettings (ce_proc env) = Inr ?path" using assms(3) by (simp add: ClaudeMemSettings_def)
  obtain w1 where st: "filesC (Stat (ce_os env) ?db) w0 = (Inr (look_up ?db (w_files w)), w1)" "w_files w1 = w_files w"
    using readsD [OF reads_Stat [OF assms(1)], of ?db w0] by (auto simp: w0_def)
  obtain w2 where checks: "doctor_checks env ?db w1 = (Inr (if healthy env ?path ?db (w_files w) then 0 else 1), w2)"
    using readsD [OF reads_doctor_checks [OF assms(1) path], of ?db w1] st(2) by auto
  have "run_command (runDoctor env args) w = run_command (bindC (filesC (Stat (ce_os env) ?db)) (\<lambda>r. case r of
         Inl _ \<Rightarrow>
           bindC (outC (check_write (wrong ''claude-mem installed'' (?db @ '' not found'')
             ''install claude-mem, or set CLAUDE_MEM_DATA_DIR if it lives elsewhere''))) (\<lambda>_. returnC 1)
       | Inr _ \<Rightarrow> doctor_checks env ?db)) w0"
    unfolding runDoctor_def bind_with_flags [OF assms(2)] assms(3)
    by (simp only: bind_steps Let_def run_command_def w0_def prod.case)
  then show ?thesis using st checks
    by (cases "map_of (w_files w) ?db")
      (simp_all add: run_command_def bindC_def outC_def returnC_def look_up_def of_option_def healthy_def)
qed

section \<open>Against a hub\<close>

lemma exits_verdict: "list_ex snd steps \<Longrightarrow> P 1 \<Longrightarrow> exits P P (doctor_verdict steps)"
  unfolding doctor_verdict_def by (simp add: exits_bind [OF exits_intros(1) exits_bind [OF exits_intros(1)]] exits_intros)

text \<open>Whatever is asked for its status is a hub of this program, in any state, or does not answer.\<close>

definition only_hubs_answer :: "cli_env \<Rightarrow> bool" where
  "only_hubs_answer env \<longleftrightarrow> (\<forall>url q. hr_url q = trim_slashes url @ ''/v1/sync/status'' \<longrightarrow>
     (\<exists>s n ctx st host. ce_do env q = served_by s n ctx st (trim_slashes url) host q) \<or> (\<exists>e. ce_do env q = Inl e))"

lemma hub_refuses:
  assumes "ce_hub env = None" "only_hubs_answer env"
  shows "\<exists>e. hub env url user token = Inl e"
proof -
  let ?q = "\<lparr>hr_method = ''GET'', hr_url = trim_slashes url @ ''/v1/sync/status'',
      hr_header = [(''Authorization'', ''Bearer '' @ token), (''X-User-Id'', user)], hr_body = []\<rparr>"
  have hub: "hub env url user token = Status (ce_do env) url user token" using assms(1) by (simp add: hub_def)
  have "hr_url ?q = trim_slashes url @ ''/v1/sync/status''" by simp
  from assms(2) [unfolded only_hubs_answer_def, rule_format, OF this]
  consider (hub) s n ctx st host where "ce_do env ?q = served_by s n ctx st (trim_slashes url) host ?q"
    | (none) e where "ce_do env ?q = Inl e"
    by blast
  then show ?thesis
  proof cases
    case hub: hub
    then have "Status (ce_do env) url user token = Status (served_by s n ctx st (trim_slashes url) host) url user token"
      by (simp add: Status_def)
    with Status_refused \<open>hub env url user token = _\<close> show ?thesis by simp
  next
    case none
    with \<open>hub env url user token = _\<close> show ?thesis by (simp add: Status_def)
  qed
qed

lemma exits_doctor:
  assumes "ce_hub env = None" "only_hubs_answer env"
  shows "exits failing failing (runDoctor env args)"
proof -
  have fails: "list_ex snd [a, readable, doctor_configured current, b, shadow, database, doctor_hub env current]"
    for a b readable current shadow database
    using hub_refuses [OF assms] by (auto simp: doctor_configured_failed doctor_hub_failed)
  have verdict: "exits failing failing (doctor_verdict [a, readable, doctor_configured current, b, shadow, database, doctor_hub env current])"
    for a b readable current shadow database
    by (rule exits_verdict [OF fails]) (rule failing_codes)
  have any: "exits failing (\<lambda>_. True) (doctor_read env)" "exits failing (\<lambda>_. True) (doctor_shadow env)"
    "exits failing (\<lambda>_. True) (doctor_database env p)" for p
    unfolding doctor_read_def doctor_shadow_def shadowingKeys_def doctor_database_def openC_def worker_running_def
    by (auto intro!: exits_intros exits_bind [where Q = "\<lambda>_. True"] split: sum.split)
  have checks: "exits failing failing (doctor_checks env p)" for p
    unfolding doctor_checks_def
    by (rule exits_bind [OF any(1)], clarify, rule exits_bind [OF any(2)], rule exits_bind [OF any(3)], rule verdict)
  show ?thesis unfolding runDoctor_def Let_def
    by (rule exits_bind [OF exits_flags [of failing, OF failing_codes(2)]], rule exits_bind [OF exits_intros(1)],
        rule exits_bind [OF exits_orDie [of failing, OF failing_codes(1)]], rule exits_bind [OF exits_intros(3)])
      (auto intro!: checks exits_bind [OF exits_intros(1)] exits_intros failing_codes split: sum.split)
qed

lemma exits_read: "exits P (\<lambda>_. True) (filesC m)"
  by (rule exits_intros)

text \<open>The status command exits with 0 only when no hub was configured.\<close>

lemma exits_status:
  assumes "ce_hub env = None" "only_hubs_answer env" "Value m keyHubURL \<noteq> []"
    and "parseFlags (ce_duration env) [] args = Inr r" "ClaudeMemSettings (ce_proc env) = Inr path"
    and "Read (ce_os env) path (w_calls w, w_files w) = (Inr m, k, fs)"
  shows "fst (run_command (runStatus env args) w) = 1"
proof -
  let ?url = "Value m keyHubURL" and ?user = "Value m keyUserID" and ?w = "w\<lparr>w_calls := k, w_files := fs\<rparr>"
  obtain e where e: "hub env ?url ?user (Value m keyToken) = Inl e" using hub_refuses [OF assms(1,2)] by blast
  have database: "exits ((=) 1) (\<lambda>_. True) (status_database env)"
    unfolding status_database_def openC_def worker_running_def
    by (auto intro!: exits_intros exits_bind [where Q = "\<lambda>_. True"] split: sum.split)
  have "exits ((=) 1) ((=) 1) (bindC (outC (''hub        '' @ ?url @ nl @ ''hub id     '' @ ?user @ nl)) (\<lambda>_.
      bindC (status_database env) (\<lambda>_. bindC (outC (nl @ ''hub        unreachable '' @ dash @ '' '' @ ce_text env e @ nl
        @ ''Queued memories are safe locally and will upload when the hub returns.'' @ nl)) (\<lambda>_. returnC 1))))"
    by (rule exits_bind [OF exits_intros(1)], rule exits_bind [OF database], rule exits_bind [OF exits_intros(1)], rule exits_intros(6)) simp
  note rest = exits_code [OF this, of ?w]
  have "filesC (Read (ce_os env) path) w = (Inr (Inr m), ?w)" using assms(6) by (simp add: filesC_def)
  then have read: "bindC (bindC (filesC (Read (ce_os env) path)) (orDie env)) f w = f m ?w" for f :: "raw_map \<Rightarrow> nat command"
    by (simp add: bindC_def orDie_def returnC_def)
  have "run_command (runStatus env args) w = run_command (bindC (outC (''hub        '' @ ?url @ nl @ ''hub id     '' @ ?user @ nl)) (\<lambda>_.
      bindC (status_database env) (\<lambda>_. bindC (outC (nl @ ''hub        unreachable '' @ dash @ '' '' @ ce_text env e @ nl
        @ ''Queued memories are safe locally and will upload when the hub returns.'' @ nl)) (\<lambda>_. returnC 1)))) ?w"
    unfolding run_command_def runStatus_def bind_with_flags [OF assms(4)] assms(5) bind_steps read
    using assms(3) e by (simp add: Let_def)
  with rest show ?thesis by simp
qed

text \<open>
  C32: A hub of this program never satisfies these commands. Whatever is asked for its status is such a hub, in
  any state and with the right key, or does not answer: then the doctor always exits with a failure, and the
  status command reports the configured hub as unreachable. The client sends no device id, without which
  the hub refuses every sync request.
\<close>

theorem hub_never_found_healthy:
  assumes "ce_hub env = None" "only_hubs_answer env" "Value m keyHubURL \<noteq> []"
    and "parseFlags (ce_duration env) [] args = Inr r" "ClaudeMemSettings (ce_proc env) = Inr path"
    and "Read (ce_os env) path (w_calls w, w_files w) = (Inr m, k, fs)"
  shows "fst (run_command (runDoctor env args) w) \<noteq> 0 \<and> fst (run_command (runStatus env args) w) = 1"
  using exits_code [OF exits_doctor [OF assms(1,2)]] exits_status [OF assms] by (simp add: failing_def)

section \<open>Samples\<close>

text \<open>A connected machine: settings with the three sync values, and claude-mem's database.\<close>

lemma connected_settings:
  obtains out m where "parse_settings (Some \<lparr>f_data = out, f_mode = private_mode, f_mtime = 5\<rparr>) = Some m" "has_sync m"
proof -
  let ?kv = "sync_settings ''http://hub.lan:8787'' ''key'' ''hub'' ''box''"
  have "literal_map []" "JsonIndent.distinct_keys []" "utf8_keys []"
    by (simp_all add: literal_map_def JsonIndent.distinct_keys_def utf8_keys_def)
  from merged_text_reads [OF this sync_settings_keys, of "''http://hub.lan:8787''" "''key''" "''hub''" "''box''"]
  obtain out m where m: "unmarshal_map (out @ [CHR 0x0A]) = Some m"
    "\<forall>k. Value m k = (case map_of ?kv k of None \<Rightarrow> Value [] k | Some v \<Rightarrow> valid_text v)" by blast
  have "valid_text ''http://hub.lan:8787'' \<noteq> []" "valid_text ''key'' \<noteq> []" "valid_text ''hub'' \<noteq> []"
    using valid_utf8_ascii [of "''http://hub.lan:8787''"] valid_utf8_ascii [of "''key''"] valid_utf8_ascii [of "''hub''"]
    by (simp_all add: valid_utf8_def)
  then have "has_sync m" using key_values by (simp add: has_sync_def m(2) sync_settings_def)
  with m(1) that [of "out @ [CHR 0x0A]" m] show thesis by (simp add: parse_settings_def)
qed

definition connected_files :: "bytes \<Rightarrow> files" where
  "connected_files out = [(sample_path, \<lparr>f_data = out, f_mode = private_mode, f_mtime = 5\<rparr>),
     (''d/claude-mem.db'', \<lparr>f_data = [], f_mode = private_mode, f_mtime = 5\<rparr>)]"

abbreviation sample_world :: "files \<Rightarrow> world" where
  "sample_world fs \<equiv> world_of fs sample_cdb \<lparr>hd_db = new_db, hd_pair = paired_dir\<rparr>"

definition monitored_cli :: cli_env where
  "monitored_cli = sample_cli\<lparr>ce_hub := Some (\<lambda>_ _ _. Inr \<lparr>sr_Epoch = ''5'', sr_HeadSeq = ''0'', sr_ProjectedSeq = ''0'', sr_SyncMode = ''poll''\<rparr>)\<rparr>"

definition hub_everywhere_cli :: cli_env where
  "hub_everywhere_cli = sample_cli\<lparr>ce_do := (\<lambda>q. served_by (New sample_options (\<lambda>_. True)) 0 quiet_ctx sample_hub
     (take (length (hr_url q) - length ''/v1/sync/status'') (hr_url q)) ''hub.lan'' q)\<rparr>"

lemma sample_smooth: "ce_os env = ce_os sample_cli \<Longrightarrow> smooth env"
  by (simp add: smooth_def undisturbed_def sample_env_def writes_of_def fun_eq_iff)

lemma sample_paths:
  "ClaudeMemDir sample_proc = Inr ''d''" "ClaudeMemSettings sample_proc = Inr sample_path"
  "path_join [''d'', ''settings.json''] = sample_path" "path_join [''d'', ''claude-mem.db''] = ''d/claude-mem.db''"
  "\<exists>e. ClaudeCodeSettings sample_proc = Inl e"
  by (simp_all add: ClaudeMemSettings_def ClaudeMemDir_def ClaudeCodeSettings_def UserHomeDir_def sample_proc_def sample_path_def
      EnvClaudeMemDir_def EnvClaudeConfigDir_def EnvDataDir_def path_join_def path_clean_def is_rooted_def Let_def)

lemma Parse_none: "parseFlags dur [] [] = Inr ([], [])"
  using flags_interleave_lemma [of dur "[]" "[]"] by simp

theorem doctor_content_iff_healthy_witness:
  "\<exists>out. fst (run_command (runDoctor monitored_cli []) (sample_world (connected_files out))) = 0"
proof -
  obtain out m where m: "parse_settings (Some \<lparr>f_data = out, f_mode = private_mode, f_mtime = 5\<rparr>) = Some m" "has_sync m"
    by (rule connected_settings)
  have proc: "ce_proc monitored_cli = sample_proc" by (simp add: monitored_cli_def sample_duration)
  have "healthy monitored_cli sample_path ''d/claude-mem.db'' (connected_files out)"
    using m sample_paths(5) by (auto simp: healthy_def connected_files_def shadowed_def sample_duration hub_def monitored_cli_def sample_path_def)
  with doctor_content_iff_healthy [of monitored_cli "[]" "([], [])" "''d''" "sample_world (connected_files out)"]
  have "fst (run_command (runDoctor monitored_cli []) (sample_world (connected_files out))) = 0"
    by (simp add: sample_smooth monitored_cli_def Parse_none sample_paths proc [unfolded monitored_cli_def])
  then show ?thesis ..
qed

theorem hub_never_found_healthy_witness:
  "\<exists>out. fst (run_command (runDoctor hub_everywhere_cli []) (sample_world (connected_files out))) \<noteq> 0
    \<and> fst (run_command (runStatus hub_everywhere_cli []) (sample_world (connected_files out))) = 1"
proof -
  obtain out m where m: "parse_settings (Some \<lparr>f_data = out, f_mode = private_mode, f_mtime = 5\<rparr>) = Some m" "has_sync m"
    by (rule connected_settings)
  have env: "ce_hub hub_everywhere_cli = None" "ce_proc hub_everywhere_cli = sample_proc" "ce_os hub_everywhere_cli = ce_os sample_cli"
    by (simp_all add: hub_everywhere_cli_def sample_duration) (simp add: sample_cli_def)
  have hubs: "only_hubs_answer hub_everywhere_cli"
    unfolding only_hubs_answer_def
  proof (intro allI impI disjI1)
    fix url and q :: http_request
    assume "hr_url q = trim_slashes url @ ''/v1/sync/status''"
    then have "ce_do hub_everywhere_cli q =
        served_by (New sample_options (\<lambda>_. True)) 0 quiet_ctx sample_hub (trim_slashes url) ''hub.lan'' q"
      by (simp add: hub_everywhere_cli_def)
    then show "\<exists>s n ctx st host. ce_do hub_everywhere_cli q = served_by s n ctx st (trim_slashes url) host q" by (intro exI)
  qed
  obtain k fs where "Read (ce_os hub_everywhere_cli) sample_path (0, connected_files out) = (Inr m, k, fs)"
    using readsD [OF reads_Read [OF sample_smooth [OF env(3)]], of sample_path "sample_world (connected_files out)"] m(1)
    by (auto simp: filesC_def connected_files_def split: prod.splits)
  with hub_never_found_healthy [OF env(1) hubs _ Parse_none, of m sample_path "sample_world (connected_files out)" k fs] m(2)
  show ?thesis by (auto simp: has_sync_def env sample_paths)
qed

end
