(* ===== verification/BackfillCmd.thy ===== *)
theory BackfillCmd
  imports Health
begin

text \<open>
  \<open>internal/cli/backfill_cmd.go\<close>: the backfill command over the modelled package, the projects it leaves
  out, and its report.

  The theorems: a project that the readable settings exclude is never requeued, whatever the command does;
  and settings that cannot be read, or that hold the list as an array, exclude nothing.
\<close>

section \<open>excludedProjects\<close>

text \<open>\<open>json.Unmarshal\<close> into \<open>[]string\<close>.\<close>

definition string_element :: "bytes \<Rightarrow> bytes option" where
  "string_element v =
     (if hd v = CHR 0x22 then json_unquote v else if hd v = CHR ''n'' then Some [] else None)"

definition unmarshal_strings :: "bytes \<Rightarrow> bytes list option" where
  "unmarshal_strings raw =
     (case whole_value raw of
        None \<Rightarrow> None
      | Some v \<Rightarrow>
          if hd v = CHR ''['' then
            (case elements True (tl v) of
               None \<Rightarrow> None
             | Some vs \<Rightarrow>
                 if list_all (\<lambda>v. string_element v \<noteq> None) vs then Some (map (\<lambda>v. the (string_element v)) vs) else None)
          else if hd v = CHR ''n'' then Some [] else None)"

definition keyExcluded :: bytes where
  "keyExcluded = ''CLAUDE_MEM_EXCLUDED_PROJECTS''"

definition comma_list :: "bytes \<Rightarrow> bytes list" where
  "comma_list raw = filter (\<lambda>p. p \<noteq> []) (map trim_space (split_on CHR '','' raw))"

definition excluded_in :: "raw_map \<Rightarrow> bytes list" where
  "excluded_in m =
     (let raw = Value m keyExcluded in
      if trim_space raw = [] then []
      else if has_prefix ''['' (trim_space raw)
      then (case unmarshal_strings raw of Some arr \<Rightarrow> arr | None \<Rightarrow> comma_list raw)
      else comma_list raw)"

definition excludedProjects :: "cli_env \<Rightarrow> bytes list command" where
  "excludedProjects env =
     (case ClaudeMemSettings (ce_proc env) of
        Inl _ \<Rightarrow> returnC []
      | Inr path \<Rightarrow>
          bindC (filesC (Read (ce_os env) path)) (\<lambda>r. returnC (case r of Inl _ \<Rightarrow> [] | Inr m \<Rightarrow> excluded_in m)))"

section \<open>humanBytes\<close>

text \<open>A quotient rounded to the nearest number, ties to even.\<close>

definition round_div :: "nat \<Rightarrow> nat \<Rightarrow> nat" where
  "round_div a b =
     (let q = a div b; r = a mod b in if 2 * r > b \<or> (2 * r = b \<and> odd q) then q + 1 else q)"

text \<open>\<open>float64(n)\<close>: from \<open>2 ^ 53\<close> on the lowest bits are rounded off. Halving and scaling by ten are exact.\<close>

fun float_bits :: "nat \<Rightarrow> nat" where
  "float_bits n = (if n < 2 ^ 53 then 0 else Suc (float_bits (n div 2)))"

declare float_bits.simps [simp del]

definition float64 :: "nat \<Rightarrow> nat" where
  "float64 n = round_div n (2 ^ float_bits n) * 2 ^ float_bits n"

text \<open>\<open>%.1f\<close> of \<open>float64(n)/unit\<close>, for a power of two.\<close>

definition tenths :: "nat \<Rightarrow> nat \<Rightarrow> bytes" where
  "tenths n unit =
     (let t = round_div (float64 n * 10) unit in format_nat (t div 10) @ ''.'' @ format_nat (t mod 10))"

definition humanBytes :: "int \<Rightarrow> bytes" where
  "humanBytes n =
     (if n > 2 ^ 20 then tenths (nat n) (2 ^ 20) @ '' MB''
      else if n > 2 ^ 10 then tenths (nat n) (2 ^ 10) @ '' KB''
      else id_text n @ '' B'')"

section \<open>runBackfill\<close>

definition backfill_flags :: flag_set where
  "backfill_flags = [(''dry-run'', VBool False), (''force'', VBool False), (''project'', VString []), (''undo'', VBool False)]"

definition backup_path :: "cli_env \<Rightarrow> bytes \<Rightarrow> bytes" where
  "backup_path env dbPath = path_join [path_dir dbPath, ''claude-mem.backup-'' @ id_text (env_now (ce_sql env)) @ ''.db'']"

definition backfill_report :: "cli_env \<Rightarrow> bytes \<Rightarrow> backfill_opts \<Rightarrow> backfill_result \<Rightarrow> bytes" where
  "backfill_report env dbPath opts res =
     (if bo_DryRun opts then ''dry run '' @ dash @ '' nothing was changed'' @ nl @ nl else [])
     @ ''  observations  '' @ format_nat (PerTable res Observations) @ nl
     @ ''  summaries     '' @ format_nat (PerTable res Summaries) @ nl
     @ ''  prompts       '' @ format_nat (PerTable res Prompts) @ nl
     @ ''  total         '' @ format_nat (sum_list (map (PerTable res) syncTables)) @ '' rows, roughly ''
     @ humanBytes (br_Bytes res) @ '' of content'' @ nl
     @ (if bo_Excluded opts \<noteq> [] then nl @ ''  excluded projects: '' @ Join (bo_Excluded opts) '', '' @ nl else [])
     @ (if bo_DryRun opts then nl @ ''Run without --dry-run to queue these for upload.'' @ nl
        else nl @ ''backup       '' @ backup_path env dbPath @ nl @ ''undo with    cmemlan backfill --undo'' @ nl
          @ nl @ ''The worker uploads these in the background. Watch with: cmemlan status'' @ nl)"

definition backfill_undo :: "cli_env \<Rightarrow> nat command" where
  "backfill_undo env =
     bindC (bindC (memC (UndoBackfill (ce_sql env))) (orDie env)) (\<lambda>n.
     bindC (outC (''restored '' @ format_nat n @ '' baseline entries; queued memories were un-queued'' @ nl)) (\<lambda>_. returnC 0))"

definition backfill_opts_of :: "flag_set \<Rightarrow> bytes list \<Rightarrow> backfill_opts" where
  "backfill_opts_of fl excluded = \<lparr>bo_DryRun = flag_bool fl ''dry-run'', bo_Force = flag_bool fl ''force'',
     bo_Project = flag_string fl ''project'', bo_Excluded = excluded\<rparr>"

text \<open>\<open>Backfill\<close> looks for the worker unless it is forced.\<close>

definition backfill_run :: "cli_env \<Rightarrow> bytes \<Rightarrow> backfill_opts \<Rightarrow> nat command" where
  "backfill_run env dbPath opts =
     bindC (if bo_Force opts then returnC False else worker_running env dbPath) (\<lambda>running.
     bindC (bindC (memC (Backfill (ce_sql env) running opts)) (orDie env)) (\<lambda>res.
     bindC (outC (backfill_report env dbPath opts res)) (\<lambda>_. returnC 0)))"

definition runBackfill :: "cli_env \<Rightarrow> bytes list \<Rightarrow> nat command" where
  "runBackfill env args =
     bindC (with_flags env ''backfill'' backfill_flags args) (\<lambda>(fl, _).
     bindC (orDie env (ClaudeMemDB (ce_proc env))) (\<lambda>dbPath.
     bindC (bindC (openC env dbPath) (orDie env)) (\<lambda>_.
       if flag_bool fl ''undo'' then backfill_undo env
       else bindC (excludedProjects env) (\<lambda>excluded. backfill_run env dbPath (backfill_opts_of fl excluded)))))"

section \<open>What the command does to the database\<close>

lemma reads_Inr: "reads P m \<Longrightarrow> m w = (Inr x, w') \<Longrightarrow> P (w_files w) x \<and> w_files w' = w_files w"
  by (drule readsD [of P m w]) auto

text \<open>The projects left out: those of the settings, and none when the settings do not read.\<close>

definition left_out :: "bytes \<Rightarrow> files \<Rightarrow> bytes list" where
  "left_out path fs = (case parse_settings (map_of fs path) of None \<Rightarrow> [] | Some m \<Rightarrow> excluded_in m)"

lemma reads_excluded: "smooth env \<Longrightarrow> ClaudeMemSettings (ce_proc env) = Inr path \<Longrightarrow>
    reads (\<lambda>fs r. r = left_out path fs) (excludedProjects env)"
  unfolding excludedProjects_def left_out_def
  by (simp, rule reads_mono [OF reads_bind [OF reads_Read reads_return]]) (auto split: option.splits)

lemma keeps_looking [keeps_intros]: "keeps w_mem (openC env p)" "keeps w_mem (worker_running env p)" "keeps w_mem (excludedProjects env)"
  unfolding openC_def worker_running_def excludedProjects_def by (auto intro!: keeps_intros split: sum.split)

lemma keeps_mem_flags [keeps_intros]: "keeps w_mem (with_flags env cmd fl args)"
  unfolding with_flags_def by (auto intro!: keeps_intros split: sum.split)

lemma backfill_run_mem:
  assumes "backfill_run env dbPath opts w = (r, w')"
  shows "w_mem w' = w_mem w \<or> w_mem w' = all_effects opts (w_mem w) \<and> \<not> bo_DryRun opts"
    and "r = Inr 0 \<Longrightarrow> \<not> bo_DryRun opts \<Longrightarrow> w_mem w' = all_effects opts (w_mem w)"
proof -
  let ?look = "if bo_Force opts then returnC False else worker_running env dbPath"
  let ?rest = "\<lambda>running. bindC (bindC (memC (Backfill (ce_sql env) running opts)) (orDie env)) (\<lambda>res.
     bindC (outC (backfill_report env dbPath opts res)) (\<lambda>_. returnC 0))"
  have k: "keeps w_mem ?look" by (intro keeps_intros)
  obtain r1 w1 where look: "?look w = (r1, w1)" by fastforce
  from keepsD [OF k look] have m1: "w_mem w1 = w_mem w" .
  have "(w_mem w' = w_mem w \<or> w_mem w' = all_effects opts (w_mem w) \<and> \<not> bo_DryRun opts)
    \<and> (r = Inr 0 \<longrightarrow> \<not> bo_DryRun opts \<longrightarrow> w_mem w' = all_effects opts (w_mem w))"
  proof (cases r1)
    case (Inl code)
    with assms look m1 show ?thesis by (auto simp: backfill_run_def bindC_def)
  next
    case (Inr running)
    with assms look have rest: "?rest running w1 = (r, w')" by (simp add: backfill_run_def bindC_def)
    obtain br kk db' where b: "Backfill (ce_sql env) running opts (w_calls w1, w_mem w1) = (br, kk, db')"
      by (metis prod_cases3)
    show ?thesis
    proof (cases br)
      case (Inl e)
      with b Backfill_at_Inl have "db' = w_mem w1" by blast
      with rest b Inl m1 show ?thesis
        by (auto simp: bindC_def memC_def orDie_def dieC_def errC_def exitC_def)
    next
      case (Inr res)
      with b Backfill_at_Inr(2) have "db' = (if bo_DryRun opts then w_mem w1 else all_effects opts (w_mem w1))" by blast
      with rest b Inr m1 show ?thesis by (auto simp: bindC_def memC_def orDie_def outC_def returnC_def)
    qed
  qed
  then show "w_mem w' = w_mem w \<or> w_mem w' = all_effects opts (w_mem w) \<and> \<not> bo_DryRun opts"
    and "r = Inr 0 \<Longrightarrow> \<not> bo_DryRun opts \<Longrightarrow> w_mem w' = all_effects opts (w_mem w)" by blast+
qed

lemma all_effects_rows: "c_rows (all_effects opts db) t = update_where (in_scope t opts db) (\<lambda>r. r\<lparr>c_synced := None\<rparr>) (c_rows db t)"
  by (simp add: all_effects_eq requeued_def)

text \<open>
  If the command changes the database at all, it requeued the scope without the projects that the settings
  leave out; and it always did when it ends with 0 and was no dry run.
\<close>

lemma runBackfill_mem:
  assumes "smooth env" "parseFlags (ce_duration env) backfill_flags args = Inr (fl, pos)" "\<not> flag_bool fl ''undo''"
    and "ClaudeMemSettings (ce_proc env) = Inr path" "runBackfill env args w = (r, w')"
  defines "opts \<equiv> backfill_opts_of fl (left_out path (w_files w))"
  shows "w_mem w' = w_mem w \<or> w_mem w' = all_effects opts (w_mem w) \<and> \<not> bo_DryRun opts"
    and "r = Inr 0 \<Longrightarrow> \<not> bo_DryRun opts \<Longrightarrow> w_mem w' = all_effects opts (w_mem w)"
proof -
  obtain dbPath where db: "ClaudeMemDB (ce_proc env) = Inr dbPath"
    using assms(4) by (cases "ClaudeMemDir (ce_proc env)") (auto simp: ClaudeMemSettings_def ClaudeMemDB_def)
  have run: "bindC (bindC (openC env dbPath) (orDie env)) (\<lambda>_. bindC (excludedProjects env)
      (\<lambda>excluded. backfill_run env dbPath (backfill_opts_of fl excluded))) w = (r, w')"
    using assms(3,5) by (simp add: runBackfill_def bind_with_flags [OF assms(2)] db bind_steps)
  obtain r1 w1 where o: "openC env dbPath w = (r1, w1)" by fastforce
  with keepsD [OF keeps_looking(1) o] readsD [OF reads_open [OF assms(1), of dbPath], of w]
  have o1: "w_mem w1 = w_mem w" "w_files w1 = w_files w" "\<exists>u. r1 = Inr u" by auto
  then obtain res where r1: "r1 = Inr res" by blast
  have "(w_mem w' = w_mem w \<or> w_mem w' = all_effects opts (w_mem w) \<and> \<not> bo_DryRun opts)
    \<and> (r = Inr 0 \<longrightarrow> \<not> bo_DryRun opts \<longrightarrow> w_mem w' = all_effects opts (w_mem w))"
  proof (cases res)
    case (Inl e)
    with run o r1 o1 show ?thesis by (auto simp: bindC_def orDie_def dieC_def errC_def exitC_def)
  next
    case (Inr u)
    obtain w2 where ex: "excludedProjects env w1 = (Inr (left_out path (w_files w)), w2)"
      using readsD [OF reads_excluded [OF assms(1,4)], of w1] o1(2) by auto
    from keepsD [OF keeps_looking(3) ex] o1(1) have m2: "w_mem w2 = w_mem w" by simp
    from run o r1 Inr ex have "backfill_run env dbPath opts w2 = (r, w')"
      by (simp add: bindC_def orDie_def returnC_def opts_def)
    from backfill_run_mem [OF this] m2 show ?thesis by simp
  qed
  then show "w_mem w' = w_mem w \<or> w_mem w' = all_effects opts (w_mem w) \<and> \<not> bo_DryRun opts"
    and "r = Inr 0 \<Longrightarrow> \<not> bo_DryRun opts \<Longrightarrow> w_mem w' = all_effects opts (w_mem w)" by blast+
qed

text \<open>A step that ends the command early ends it with a failure.\<close>

lemma exits_backfill: "exits failing (\<lambda>_. True) (runBackfill env args)"
proof -
  have die: "exits failing (\<lambda>_. True) (orDie env r)" for r :: "go_error + 'a"
    by (cases r) (simp_all add: orDie_def exits_die failing_codes exits_intros)
  have any: "exits failing (\<lambda>_. True) (openC env p)" "exits failing (\<lambda>_. True) (worker_running env p)"
    "exits failing (\<lambda>_. True) (excludedProjects env)" for p
    unfolding openC_def worker_running_def excludedProjects_def
    by (auto intro!: exits_intros exits_bind [where Q = "\<lambda>_. True"] split: sum.split)
  show ?thesis
    unfolding runBackfill_def backfill_run_def backfill_undo_def
    by (auto intro!: exits_bind [where Q = "\<lambda>_. True"] exits_flags failing_codes die any exits_intros split: prod.split)
qed

text \<open>
  C33: an excluded project stays where it is. However a backfill without \<open>--undo\<close> ends, a row of a project that the
  settings exclude is left as it was: every call goes through, nothing else touches the files, and the settings
  read. (With \<open>--undo\<close> the exclusions are not looked at.)
\<close>

theorem excluded_projects_stay:
  assumes "smooth env" "parseFlags (ce_duration env) backfill_flags args = Inr (fl, pos)" "\<not> flag_bool fl ''undo''"
    and "ClaudeMemSettings (ce_proc env) = Inr path" "parse_settings (map_of (w_files w) path) = Some m"
    and "p \<in> set (excluded_in m)" "trim_space p \<noteq> []" "i < length (c_rows (w_mem w) t)"
    and "project_expr t (w_mem w) (c_rows (w_mem w) t ! i) = Some (trim_space p)"
  shows "c_rows (w_mem (snd (run_command (runBackfill env args) w))) t ! i = c_rows (w_mem w) t ! i"
proof -
  obtain r w' where r: "runBackfill env args w = (r, w')" by fastforce
  have w': "snd (run_command (runBackfill env args) w) = w'" using r by (simp add: run_command_def split: sum.split)
  have out: "left_out path (w_files w) = excluded_in m" using assms(5) by (simp add: left_out_def)
  have "\<not> in_scope t (backfill_opts_of fl (excluded_in m)) (w_mem w) (c_rows (w_mem w) t ! i)"
    using assms(6,7,9) by (auto simp: in_scope_def filterFor_def backfill_opts_of_def list_all_iff Let_def)
  then have "c_rows (all_effects (backfill_opts_of fl (excluded_in m)) (w_mem w)) t ! i = c_rows (w_mem w) t ! i"
    using assms(8) by (simp add: all_effects_rows update_where_def)
  with runBackfill_mem(1) [OF assms(1-4) r] out show ?thesis by (auto simp: w')
qed

text \<open>
  Settings that do not read exclude nothing, and neither does a list that is written as a JSON array instead
  of a string: a successful backfill then requeues every local row of every project.
\<close>

theorem unread_exclusions_are_ignored:
  assumes "smooth env" "parseFlags (ce_duration env) backfill_flags args = Inr (fl, pos)" "\<not> flag_bool fl ''undo''"
    and "ClaudeMemSettings (ce_proc env) = Inr path"
    and "\<forall>m. parse_settings (map_of (w_files w) path) = Some m \<longrightarrow> Value m keyExcluded = []"
    and "\<not> flag_bool fl ''dry-run''" "flag_string fl ''project'' = []" "run_command (runBackfill env args) w = (0, w')"
  shows "c_rows (w_mem w') t = map (\<lambda>r. if is_local r then r\<lparr>c_synced := None\<rparr> else r) (c_rows (w_mem w) t)"
proof -
  have "runBackfill env args w \<noteq> (Inl 0, w')"
    using exits_backfill [of env args] by (auto simp: exits_def failing_def dest: spec [of _ w])
  with assms(8) have r: "runBackfill env args w = (Inr 0, w')" by (auto simp: run_command_eq)
  have "left_out path (w_files w) = []"
    using assms(5) by (auto simp: left_out_def excluded_in_def split: option.split)
  with runBackfill_mem(2) [OF assms(1-4) r refl] assms(6,7)
  show ?thesis by (simp add: backfill_opts_of_def all_effects_rows update_where_def in_scope_def filterFor_def)
qed

section \<open>A backfill that succeeds\<close>

definition succeeds :: "('s, 'a) action \<Rightarrow> bool" where
  "succeeds m \<longleftrightarrow> (\<forall>st. \<exists>x st'. m st = (Inr x, st'))"

lemma succeedsD: "succeeds m \<Longrightarrow> \<exists>x k' db'. m (k, db) = (Inr x, k', db')"
  unfolding succeeds_def by (metis prod.exhaust)

lemma succeeds_return: "succeeds (returnI x)"
  by (auto simp: succeeds_def returnI_def)

lemma succeeds_bind: "succeeds m \<Longrightarrow> (\<And>x. succeeds (f x)) \<Longrightarrow> succeeds (bindI m f)"
  unfolding succeeds_def
proof
  fix st
  assume m: "\<forall>st. \<exists>x st'. m st = (Inr x, st')" and f: "\<And>x. \<forall>st. \<exists>y st'. f x st = (Inr y, st')"
  from m obtain x st1 where "m st = (Inr x, st1)" by blast
  moreover from f obtain y st2 where "f x st1 = (Inr y, st2)" by blast
  ultimately show "\<exists>y st'. bindI m f st = (Inr y, st')" by (simp add: bindI_def)
qed

lemma succeeds_sql:
  fixes m :: "('s, 'a) action"
  assumes "\<And>k. \<not> env_fault env k"
  shows "succeeds (query env g)" "succeeds (exec env h)" "succeeds m \<Longrightarrow> succeeds (transaction env m)"
proof -
  show "succeeds (query env g)" "succeeds (exec env h)"
    using assms by (auto simp: succeeds_def query_def exec_def stmt_def)
  assume m: "succeeds m"
  show "succeeds (transaction env m)"
    unfolding succeeds_def
  proof
    fix st :: "nat \<times> 's"
    obtain k db where st: "st = (k, db)" by fastforce
    obtain x k' db' where "m (Suc k, db) = (Inr x, k', db')" using succeedsD [OF m] by blast
    then show "\<exists>x st'. transaction env m st = (Inr x, st')" using assms by (simp add: st transaction_def)
  qed
qed

lemma succeeds_tables:
  assumes "\<And>k. \<not> env_fault env k"
  shows "succeeds (backfill_tables env opts ts n)" "succeeds (measure_all env opts ts res)"
proof -
  have "succeeds (save_baseline env opts t)" for t
    using assms by (auto simp: succeeds_def save_baseline_def stmt_def Let_def)
  then show "succeeds (backfill_tables env opts ts n)"
    by (induction ts arbitrary: n) (simp_all add: succeeds_return succeeds_bind clear_baseline_def requeue_def succeeds_sql assms)
  show "succeeds (measure_all env opts ts res)"
    by (induction ts arbitrary: res) (auto simp: succeeds_return measure_table_def intro!: succeeds_bind succeeds_sql assms)
qed

lemma Backfill_succeeds:
  assumes "\<And>k. \<not> env_fault env k" "47 \<in> set (c_versions db)" "bo_Force opts \<or> \<not> running"
  shows "\<exists>res k' db'. Backfill env running opts (k, db) = (Inr res, k', db')"
proof -
  let ?res0 = "\<lparr>PerTable = (\<lambda>_. 0), br_Bytes = 0, br_Exclusions = 0\<rparr>"
  have rest: "succeeds (bindI (measure_all env opts syncTables ?res0) (\<lambda>res.
          if bo_DryRun opts then returnI res
          else bindI (query env (\<lambda>_. ())) (\<lambda>_.
               bindI (query env (\<lambda>_. ())) (\<lambda>_.
               bindI (transaction env
                   (bindI (prepare_undo env) (\<lambda>_. backfill_tables env opts syncTables 0))) (\<lambda>n.
                 returnI (res\<lparr>br_Exclusions := n\<rparr>))))))"
    unfolding prepare_undo_def
    by (intro succeeds_bind succeeds_tables succeeds_return succeeds_sql assms(1)) (auto intro!: succeeds_bind succeeds_tables succeeds_return succeeds_sql assms(1))
  show ?thesis
    using succeedsD [OF rest, of "Suc k" db] assms
    by (simp add: Backfill_def SchemaVersions_def bindI_def query_def stmt_def)
qed

section \<open>Samples\<close>

definition backfill_files :: "bytes \<Rightarrow> files" where
  "backfill_files out = [(sample_path, \<lparr>f_data = out, f_mode = private_mode, f_mtime = 5\<rparr>),
     (''d/claude-mem.db'', \<lparr>f_data = [], f_mode = private_mode, f_mtime = 5\<rparr>)]"

lemma Parse_backfill: "parseFlags dur backfill_flags [] = Inr (backfill_flags, [])"
  using flags_interleave_lemma [of dur backfill_flags "[]"] by simp

lemma sample_runs:
  "\<exists>w'. run_command (runBackfill sample_cli []) (sample_world (backfill_files out)) = (0, w')"
proof -
  let ?w = "sample_world (backfill_files out)"
  have sm: "smooth sample_cli" by (rule sample_smooth) simp
  have db: "ClaudeMemDB sample_proc = Inr ''d/claude-mem.db''"
    using sample_paths(1,4) by (simp add: ClaudeMemDB_def)
  obtain w1 where w1: "openC sample_cli ''d/claude-mem.db'' ?w = (Inr (Inr ()), w1)" "w_files w1 = backfill_files out"
    using readsD [OF reads_open [OF sm, of "''d/claude-mem.db''"], of ?w] by (auto simp: backfill_files_def sample_path_def)
  have m1: "w_mem w1 = sample_cdb" using keepsD [OF keeps_looking(1) w1(1)] by (simp add: world_of_def)
  obtain ex w2 where w2: "excludedProjects sample_cli w1 = (Inr ex, w2)"
    using readsD [OF reads_excluded [OF sm], of sample_path w1] sample_paths(2) by (auto simp: sample_duration)
  have m2: "w_mem w2 = sample_cdb" using keepsD [OF keeps_looking(3) w2] m1 by simp
  obtain run w3 where w3: "worker_running sample_cli ''d/claude-mem.db'' w2 = (Inr run, w3)"
    using readsD [OF reads_worker [OF sm], of "''d/claude-mem.db''" w2] by auto
  have m3: "w_mem w3 = sample_cdb" using keepsD [OF keeps_looking(2) w3] m2 by simp
  have alive: "\<not> WorkerRunning (ce_alive sample_cli) f" for f
    by (simp add: WorkerRunning_def ProcessAlive_def sample_cli_def split: option.split)
  have run: "\<not> run" using w3 alive by (auto simp: worker_running_def bindC_def returnC_def filesC_def split: prod.splits)
  obtain res k' db' where "Backfill quiet_env False (backfill_opts_of backfill_flags ex) (w_calls w3, sample_cdb) = (Inr res, k', db')"
    using Backfill_succeeds [of quiet_env sample_cdb "backfill_opts_of backfill_flags ex" False "w_calls w3"]
    by (auto simp: quiet_env_def sample_cdb_def)
  then obtain w' where "backfill_run sample_cli ''d/claude-mem.db'' (backfill_opts_of backfill_flags ex) w2 = (Inr 0, w')"
    using w3 run m3
    by (simp add: backfill_run_def bindC_def memC_def orDie_def outC_def returnC_def backfill_opts_of_def flag_bool_def backfill_flags_def)
  then have "runBackfill sample_cli [] ?w = (Inr 0, w')"
    using w1 w2 unfolding runBackfill_def bind_with_flags [OF Parse_backfill] sample_duration db bind_steps prod.case
    by (simp add: bindC_def orDie_def returnC_def flag_bool_def backfill_flags_def)
  then show ?thesis by (intro exI [of _ w']) (simp add: run_command_def)
qed

theorem unread_exclusions_are_ignored_witness:
  "\<exists>w'. run_command (runBackfill sample_cli []) (sample_world (backfill_files ''{'')) = (0, w')
    \<and> map c_synced (c_rows (w_mem w') Observations) = [None, None]"
proof -
  obtain w' where w': "run_command (runBackfill sample_cli []) (sample_world (backfill_files ''{'')) = (0, w')"
    using sample_runs by blast
  have "unmarshal_map ''{'' = None" by code_simp
  then have p: "parse_settings (map_of (backfill_files ''{'') sample_path) = None"
    by (simp add: backfill_files_def parse_settings_def)
  have "c_rows (w_mem w') Observations = map (\<lambda>r. if is_local r then r\<lparr>c_synced := None\<rparr> else r)
      (c_rows (w_mem (sample_world (backfill_files ''{''))) Observations)"
    by (rule unread_exclusions_are_ignored [OF sample_smooth Parse_backfill _ _ _ _ _ w', of sample_path])
      (simp_all add: flag_bool_def flag_string_def backfill_flags_def sample_paths sample_duration p)
  then have "map c_synced (c_rows (w_mem w') Observations) = [None, None]"
    by (simp add: world_of_def sample_cdb_def sample_row_def is_local_def)
  with w' show ?thesis by (intro exI conjI)
qed

lemma excluding_settings:
  obtains out m where "parse_settings (Some \<lparr>f_data = out, f_mode = private_mode, f_mtime = 5\<rparr>) = Some m"
    "excluded_in m = [''a'']"
proof -
  let ?kv = "[(keyExcluded, ''a'')]"
  have e: "literal_map []" "JsonIndent.distinct_keys []" "utf8_keys []"
    "JsonIndent.distinct_keys ?kv" "utf8_keys ?kv"
    by (simp_all add: literal_map_def JsonIndent.distinct_keys_def utf8_keys_def keyExcluded_def valid_utf8_ascii)
  from merged_text_reads [OF e] obtain out m where m: "unmarshal_map (out @ [CHR 0x0A]) = Some m"
    "\<forall>k. Value m k = (case map_of ?kv k of None \<Rightarrow> Value [] k | Some v \<Rightarrow> valid_text v)" by blast
  have v: "valid_text ''a'' = ''a''" using valid_utf8_ascii [of "''a''"] by (simp add: valid_utf8_def)
  have t: "trim_space ''a'' = ''a''" by (rule trim_space_solid) (simp_all add: solid_def)
  have "Value m keyExcluded = ''a''" using m(2) v by simp
  then have "excluded_in m = [''a'']"
    by (simp add: excluded_in_def t has_prefix_def comma_list_def split_no_sep)
  with m(1) that [of "out @ [CHR 0x0A]" m] show thesis by (simp add: parse_settings_def)
qed

theorem excluded_projects_stay_witness:
  "\<exists>out w'. run_command (runBackfill sample_cli []) (sample_world (backfill_files out)) = (0, w')
    \<and> c_rows (w_mem w') Observations ! 0 = sample_row 1 ''a''"
proof -
  obtain out m where m: "parse_settings (Some \<lparr>f_data = out, f_mode = private_mode, f_mtime = 5\<rparr>) = Some m"
    "excluded_in m = [''a'']" by (rule excluding_settings)
  let ?w = "sample_world (backfill_files out)"
  obtain w' where w': "run_command (runBackfill sample_cli []) ?w = (0, w')" using sample_runs by blast
  have t: "trim_space ''a'' = ''a''" by (rule trim_space_solid) (simp_all add: solid_def)
  have "c_rows (w_mem (snd (run_command (runBackfill sample_cli []) ?w))) Observations ! 0 = c_rows (w_mem ?w) Observations ! 0"
    by (rule excluded_projects_stay [OF sample_smooth Parse_backfill, where path = sample_path and m = m and p = "''a''"])
      (use m in \<open>simp_all add: t flag_bool_def backfill_flags_def sample_paths sample_duration backfill_files_def
          world_of_def sample_cdb_def sample_row_def project_expr_def\<close>)
  with w' have "c_rows (w_mem w') Observations ! 0 = sample_row 1 ''a''" by (simp add: world_of_def sample_cdb_def)
  with w' show ?thesis by (intro exI conjI)
qed

end
