(* ===== verification/Service.thy ===== *)
theory Service
  imports BackfillCmd "HOL-Library.Word"
begin

text \<open>
  The set-up around the hub: the flags of \<open>serve\<close>, \<open>internal/cli/service.go\<close> (the systemd unit and the
  launchd agent, written out line by line, and installing and removing them), \<open>internal/cli/lockfile.go\<close>
  (the run lock on a data directory) and \<open>internal/cli/diskfree_unix.go\<close> (free space).

  \<open>Lockfile\<close> calls itself after it removed a stale lock. Another process may put one there again and
  again, so the model counts the rounds: \<open>None\<close> is a lock that is still being tried for.
\<close>

section \<open>Surroundings\<close>

record serve_env =
  se_cli :: cli_env
  se_exe :: "go_error + bytes"
  se_goos :: bytes
  se_uid :: nat
  se_pid :: nat
  se_later :: pair_env
  se_statfs :: "(64 word \<times> int) option"
  se_listen :: "ip_addr \<times> nat \<Rightarrow> go_error option"
  se_bind_text :: "bind_error \<Rightarrow> bytes"
  se_addr_text :: "ip_addr \<times> nat \<Rightarrow> bytes"

section \<open>Flags\<close>

definition DefaultBind :: bytes where
  "DefaultBind = ''127.0.0.1:8787''"

record serveFlags =
  sf_bind :: bytes
  sf_allowCIDR :: bytes
  sf_dataDir :: bytes
  sf_allowPublic :: bool
  sf_logLevel :: bytes
  sf_logFormat :: bytes
  sf_minFree :: int
  sf_noMDNS :: bool
  sf_adverName :: bytes
  sf_printUnit :: bool
  sf_install :: bool
  sf_uninstall :: bool
  sf_recordDir :: bytes

definition serve_flags :: flag_set where
  "serve_flags =
     [(''bind'', VString DefaultBind), (''allow-cidr'', VString []), (''data-dir'', VString []),
      (''insecure-public-bind'', VBool False), (''log-level'', VString ''info''), (''log-format'', VString ''text''),
      (''min-free-bytes'', VInt64 (2 ^ 30)), (''no-mdns'', VBool False), (''advertise-name'', VString []),
      (''print-unit'', VBool False), (''install-service'', VBool False), (''uninstall-service'', VBool False),
      (''record'', VString [])]"

definition serveFlags_of :: "flag_set \<Rightarrow> serveFlags" where
  "serveFlags_of fl =
     \<lparr>sf_bind = flag_string fl ''bind'', sf_allowCIDR = flag_string fl ''allow-cidr'', sf_dataDir = flag_string fl ''data-dir'',
      sf_allowPublic = flag_bool fl ''insecure-public-bind'', sf_logLevel = flag_string fl ''log-level'',
      sf_logFormat = flag_string fl ''log-format'', sf_minFree = flag_int fl ''min-free-bytes'',
      sf_noMDNS = flag_bool fl ''no-mdns'', sf_adverName = flag_string fl ''advertise-name'',
      sf_printUnit = flag_bool fl ''print-unit'', sf_install = flag_bool fl ''install-service'',
      sf_uninstall = flag_bool fl ''uninstall-service'', sf_recordDir = flag_string fl ''record''\<rparr>"

section \<open>service.go\<close>

definition lines_text :: "bytes list \<Rightarrow> bytes" where
  "lines_text ls = concat (map (\<lambda>l. l @ nl) ls)"

definition exec_start :: "bytes \<Rightarrow> bytes \<Rightarrow> bytes \<Rightarrow> bytes \<Rightarrow> bytes" where
  "exec_start exe dataDir bind allowCIDR =
     ''ExecStart='' @ exe @ '' serve --data-dir '' @ dataDir @ '' --bind '' @ bind
     @ (if allowCIDR \<noteq> [] then '' --allow-cidr '' @ allowCIDR else [])"

definition unit_head :: "bytes list" where
  "unit_head =
     [''[Unit]'', ''Description=cmemlan '' @ dash @ '' self-hosted LAN sync hub for claude-mem'',
      ''After=network-online.target'', ''Wants=network-online.target'', [], ''[Service]'', ''Type=simple'']"

definition unit_tail :: "bytes \<Rightarrow> bytes list" where
  "unit_tail dataDir =
     [''Restart=on-failure'', ''RestartSec=5'', [], ''# The hub only ever needs its own directory.'',
      ''NoNewPrivileges=yes'', ''PrivateTmp=yes'', ''ProtectSystem=strict'', ''ProtectHome=read-only'',
      ''ReadWritePaths='' @ dataDir, ''CapabilityBoundingSet='', ''RestrictAddressFamilies=AF_INET AF_INET6'',
      ''RestrictNamespaces=yes'', ''LockPersonality=yes'', ''MemoryDenyWriteExecute=yes'',
      ''SystemCallFilter=@system-service'', ''SystemCallArchitectures=native'', ''MemoryMax=512M'', [],
      ''[Install]'', ''WantedBy=default.target'']"

definition serviceUnit :: "bytes \<Rightarrow> bytes \<Rightarrow> bytes \<Rightarrow> bytes \<Rightarrow> bytes" where
  "serviceUnit exe dataDir bind allowCIDR =
     lines_text (unit_head @ [exec_start exe dataDir bind allowCIDR] @ unit_tail dataDir)"

definition string_tag :: "bytes \<Rightarrow> bytes" where
  "string_tag s = ''<string>'' @ s @ ''</string>''"

definition launchdPlist :: "bytes \<Rightarrow> bytes \<Rightarrow> bytes \<Rightarrow> bytes \<Rightarrow> bytes" where
  \<open>launchdPlist exe dataDir bind allowCIDR =
     lines_text
       [''<?xml version="1.0" encoding="UTF-8"?>'',
        ''<!DOCTYPE plist PUBLIC "-//Apple//DTD PLIST 1.0//EN" "http://www.apple.com/DTDs/PropertyList-1.0.dtd">'',
        ''<plist version="1.0">'', ''<dict>'',
        ''  <key>Label</key><string>dev.andrhamm.cmemlan</string>'',
        ''  <key>ProgramArguments</key>'', ''  <array>'',
        ''    '' @ string_tag exe @ string_tag ''serve'',
        ''    '' @ string_tag ''--data-dir'' @ string_tag dataDir,
        ''    '' @ string_tag ''--bind'' @ string_tag bind
          @ (if allowCIDR \<noteq> [] then nl @ ''    '' @ string_tag ''--allow-cidr'' @ string_tag allowCIDR else []),
        ''  </array>'', ''  <key>RunAtLoad</key><true/>'', ''  <key>KeepAlive</key><true/>'',
        ''  <key>StandardErrorPath</key><string>'' @ dataDir @ ''/cmemlan.log</string>'', ''</dict>'', ''</plist>'']\<close>

definition userConfigDir :: "proc_env \<Rightarrow> bytes" where
  "userConfigDir e =
     (let v = pv_getenv e ''XDG_CONFIG_HOME'' in
      if v \<noteq> [] then v
      else case UserHomeDir e of Inl _ \<Rightarrow> ''.config'' | Inr home \<Rightarrow> path_join [home, ''.config''])"

text \<open>\<open>0o644\<close>, the mode of a unit.\<close>

definition unit_mode :: nat where
  "unit_mode = 0x1A4"

text \<open>The part that both systems share: removing the file, whose absence is no error, and writing it.\<close>

definition service_remove :: "cli_env \<Rightarrow> bytes \<Rightarrow> nat command" where
  "service_remove env path =
     bindC (filesC (Remove (ce_os env) path)) (\<lambda>r.
       case r of
         Inl e \<Rightarrow> if e = ErrNotExist then bindC (outC (''service removed'' @ nl)) (\<lambda>_. returnC 0) else dieC (ce_text env e)
       | Inr _ \<Rightarrow> bindC (outC (''service removed'' @ nl)) (\<lambda>_. returnC 0))"

definition service_write :: "cli_env \<Rightarrow> bytes \<Rightarrow> bytes \<Rightarrow> unit command" where
  "service_write env path text =
     bindC (bindC (filesC (MkdirAll (ce_os env) (path_dir path))) (orDie env)) (\<lambda>_.
       bindC (filesC (WriteFile (ce_os env) path text unit_mode)) (orDie env))"

definition runService_linux :: "serve_env \<Rightarrow> serveFlags \<Rightarrow> bytes \<Rightarrow> bytes \<Rightarrow> nat command" where
  "runService_linux env f dataDir exe =
     (let cli = se_cli env; unit = serviceUnit exe dataDir (sf_bind f) (sf_allowCIDR f);
          path = path_join [userConfigDir (ce_proc cli), ''systemd'', ''user'', ''cmemlan.service''] in
      if sf_printUnit f then bindC (outC unit) (\<lambda>_. returnC 0)
      else if sf_uninstall f then service_remove cli path
      else
        bindC (service_write cli path unit) (\<lambda>_.
        bindC (case ce_exec cli [] [''loginctl'', ''enable-linger''] of
                 (out, None) \<Rightarrow> returnC ()
               | (out, Some e) \<Rightarrow> errC (''cmemlan: could not enable lingering ('' @ ce_text cli e @ '': '' @ trim_space out @ '')'' @ nl
                   @ ''The hub will stop when you log out. Run: loginctl enable-linger'' @ nl)) (\<lambda>_.
          case ce_exec cli [] [''systemctl'', ''--user'', ''enable'', ''--now'', ''cmemlan.service''] of
            (out, Some e) \<Rightarrow> bindC (errC (''cmemlan: starting the service: '' @ ce_text cli e @ '': '' @ out @ nl)) (\<lambda>_. exitC 1)
          | (out, None) \<Rightarrow> bindC (outC (''service installed and started ('' @ path @ '')'' @ nl)) (\<lambda>_. returnC 0))))"

definition runService_darwin :: "serve_env \<Rightarrow> serveFlags \<Rightarrow> bytes \<Rightarrow> bytes \<Rightarrow> nat command" where
  "runService_darwin env f dataDir exe =
     (let cli = se_cli env; plist = launchdPlist exe dataDir (sf_bind f) (sf_allowCIDR f) in
      if sf_printUnit f then bindC (outC plist) (\<lambda>_. returnC 0)
      else
        bindC (orDie cli (UserHomeDir (ce_proc cli))) (\<lambda>home.
          let path = path_join [home, ''Library'', ''LaunchAgents'', ''dev.andrhamm.cmemlan.plist''] in
          if sf_uninstall f then service_remove cli path
          else
            bindC (service_write cli path plist) (\<lambda>_.
              case ce_exec cli [] [''launchctl'', ''bootstrap'', ''gui/'' @ format_nat (se_uid env), path] of
                (out, Some e) \<Rightarrow> bindC (errC (''cmemlan: bootstrapping the agent: '' @ ce_text cli e @ '': '' @ out @ nl)) (\<lambda>_. exitC 1)
              | (out, None) \<Rightarrow> bindC (outC (''agent installed and started ('' @ path @ '')'' @ nl)) (\<lambda>_. returnC 0))))"

text \<open>Commands whose result is not looked at (\<open>systemctl disable\<close>, \<open>daemon-reload\<close>, \<open>launchctl bootout\<close>) change nothing here.\<close>

definition runService :: "serve_env \<Rightarrow> serveFlags \<Rightarrow> bytes \<Rightarrow> nat command" where
  "runService env f dataDir =
     (case se_exe env of
        Inl e \<Rightarrow> bindC (errC (''cmemlan: locating this binary: '' @ ce_text (se_cli env) e @ nl)) (\<lambda>_. exitC 1)
      | Inr exe \<Rightarrow>
          (case pv_goos (ce_proc (se_cli env)) of
             Linux \<Rightarrow> runService_linux env f dataDir exe
           | Darwin \<Rightarrow> runService_darwin env f dataDir exe
           | _ \<Rightarrow> bindC (errC (''cmemlan: service installation is not supported on '' @ se_goos env @ nl)) (\<lambda>_. exitC 1)))"

section \<open>lockfile.go\<close>

definition LockFile :: bytes where
  "LockFile = ''serve.lock''"

definition ErrExist :: go_error where
  "ErrExist = OtherError ''file exists''"

text \<open>\<open>OpenFile\<close> with \<open>O_CREATE|O_EXCL\<close>.\<close>

definition OpenExcl :: "os_env \<Rightarrow> bytes \<Rightarrow> (files, unit) action" where
  "OpenExcl env path =
     os_call env (\<lambda>now fs. if map_of fs path = None then (Inr (), put_file path [] private_mode now fs) else (Inl ErrExist, fs)) untorn"

definition pid_text :: "nat \<Rightarrow> bytes" where
  "pid_text pid = format_nat pid @ nl"

text \<open>Writing the process id into the fresh lock, which goes again when that fails.\<close>

definition lock_write :: "os_env \<Rightarrow> bytes \<Rightarrow> nat \<Rightarrow> (files, unit) action" where
  "lock_write env path pid =
     bindI (tryI (FdWrite env path (pid_text pid))) (\<lambda>r. case r of
       Inl e \<Rightarrow> bindI (tryI (Remove env path)) (\<lambda>_. failI e)
     | Inr _ \<Rightarrow> returnI ())"

text \<open>Signal 0 to a process id; \<open>alive\<close> is its answer, and a missing permission counts as alive.\<close>

definition processAlive :: "(int \<Rightarrow> bool) \<Rightarrow> int \<Rightarrow> bool" where
  "processAlive alive pid = (if pid \<le> 0 then False else alive pid)"

text \<open>The lock exists: a live owner is an error, any other lock is removed.\<close>

definition lock_break :: "os_env \<Rightarrow> (int \<Rightarrow> bool) \<Rightarrow> bytes \<Rightarrow> (files, unit) action" where
  "lock_break env alive path =
     bindI (tryI (ReadFile env path)) (\<lambda>r. case r of
       Inl e \<Rightarrow> failI (OtherError ''cmemlan: reading the existing lock'')
     | Inr owner \<Rightarrow>
         (case Atoi (trim_space owner) of
            Some pid \<Rightarrow>
              if processAlive alive pid then failI (OtherError ''cmemlan: another serve process is already using the directory'')
              else bindI (tryI (Remove env path)) (\<lambda>r. case r of
                Inl e \<Rightarrow> failI (OtherError ''cmemlan: clearing a stale lock'') | Inr _ \<Rightarrow> returnI ())
          | None \<Rightarrow>
              bindI (tryI (Remove env path)) (\<lambda>r. case r of
                Inl e \<Rightarrow> failI (OtherError ''cmemlan: clearing a stale lock'') | Inr _ \<Rightarrow> returnI ())))"

fun Lockfile :: "nat \<Rightarrow> os_env \<Rightarrow> (int \<Rightarrow> bool) \<Rightarrow> nat \<Rightarrow> bytes \<Rightarrow> (files, unit option) action" where
  "Lockfile 0 env alive pid dir = returnI None"
| "Lockfile (Suc n) env alive pid dir =
     bindI (MkdirAll env dir) (\<lambda>_.
     bindI (tryI (OpenExcl env (path_join [dir, LockFile]))) (\<lambda>r. case r of
       Inr _ \<Rightarrow> bindI (lock_write env (path_join [dir, LockFile]) pid) (\<lambda>_. returnI (Some ()))
     | Inl e \<Rightarrow>
         if e \<noteq> ErrExist then failI e
         else bindI (lock_break env alive (path_join [dir, LockFile])) (\<lambda>_. Lockfile n env alive pid dir)))"

section \<open>diskfree\<close>

text \<open>
  \<open>freeBytes\<close> on Unix: the blocks that are available, as 64 bits, and the size of a block. The product
  is computed in 64 bits.
\<close>

definition MaxInt64 :: int where
  "MaxInt64 = 2 ^ 63 - 1"

definition freeBytes :: "(64 word \<times> int) option \<Rightarrow> go_error + int" where
  "freeBytes statfs =
     (case statfs of
        None \<Rightarrow> Inl (OtherError ''statfs'')
      | Some (bavail, bsize) \<Rightarrow>
          if bsize \<le> 0 then Inl (OtherError ''cmemlan: filesystem reported a non-positive block size'')
          else
            let free = bavail * word_of_int bsize :: 64 word in
            if uint free > MaxInt64 then Inr MaxInt64 else Inr (uint free))"

end
