(* ===== verification/Serve.thy ===== *)
theory Serve
  imports Service PairCmd
begin

text \<open>
  \<open>internal/cli/serve.go\<close>: the order in which the hub is started, from the flags to the listener, and what
  is undone when it ends. How long the hub runs is the surroundings' choice: \<open>served\<close> says how serving the
  started hub ended, with an error or by a signal; it may depend on the machine at the moment the hub begins to serve.

  The lemmas: a hub that begins to serve is guarded by the bind check, the peer filter, the lock and the
  key (the property is stated for the whole program in \<open>Run\<close>). The theorems: the run lock is taken exactly when no live process holds it; the installed unit carries three of
  the flags it was installed with, so a hub that needs another does not come up.
\<close>

section \<open>Starting\<close>

text \<open>What is handed to the HTTP server: the hub, the address, and who may connect.\<close>

record running =
  rn_server :: server
  rn_store :: store
  rn_addr :: "ip_addr \<times> nat"
  rn_prefixes :: "ip_prefix list"
  rn_dir :: bytes

definition public_bind_hint :: bytes where
  "public_bind_hint = nl @ ''Bind a specific LAN or Tailscale address instead, for example:'' @ nl
     @ ''  cmemlan serve --bind 192.168.1.10:8787'' @ nl @ nl
     @ ''If you genuinely intend to expose this hub, pass --insecure-public-bind.'' @ nl"

definition serve_bind :: "serve_env \<Rightarrow> serveFlags \<Rightarrow> (ip_addr \<times> nat) command" where
  "serve_bind env f =
     (case ClassifyBind (sf_bind f) (sf_allowPublic f) of
        Inr addr \<Rightarrow> returnC addr
      | Inl e \<Rightarrow>
          bindC (errC (''cmemlan: '' @ se_bind_text env e @ nl)) (\<lambda>_.
          bindC (if e = ErrPublicBind then errC public_bind_hint else returnC ()) (\<lambda>_. exitC 1)))"

definition require_cidr_text :: bytes where
  "require_cidr_text = ''cmemlan: CMEMLAN_ALLOW_CIDR is required in this environment'' @ nl @ nl
     @ ''This container binds every interface, so the peer allowlist is the only thing'' @ nl
     @ ''restricting who can reach your memory. Set it to your LAN, for example:'' @ nl
     @ ''  -e CMEMLAN_ALLOW_CIDR=192.168.1.0/24'' @ nl"

definition serve_peers :: "serve_env \<Rightarrow> serveFlags \<Rightarrow> ip_prefix list command" where
  "serve_peers env f =
     (let getenv = pv_getenv (ce_proc (se_cli env));
          allowCIDR = cmp (sf_allowCIDR f) (getenv ''CMEMLAN_ALLOW_CIDR'') in
      if allowCIDR = [] \<and> getenv ''CMEMLAN_REQUIRE_ALLOW_CIDR'' = ''1''
      then bindC (errC require_cidr_text) (\<lambda>_. exitC 1)
      else case ParseCIDRList allowCIDR of
        None \<Rightarrow> dieC (ce_text (se_cli env) (OtherError ''invalid CIDR''))
      | Some prefixes \<Rightarrow> returnC prefixes)"

definition free_bytes_hook :: "serve_env \<Rightarrow> int option option" where
  "free_bytes_hook env = Some (case freeBytes (se_statfs env) of Inl _ \<Rightarrow> None | Inr n \<Rightarrow> Some n)"

definition hub_options :: "serve_env \<Rightarrow> serveFlags \<Rightarrow> store \<Rightarrow> keys \<Rightarrow> options" where
  "hub_options env f st keys =
     \<lparr>opt_UserID = st_userID st, opt_Auth = Some (StaticToken_Verify (st_userID st) (PSK keys)),
      opt_MaxRequestBytes = 0, opt_MaxResponseBytes = 0, opt_MaxOpsPerPush = 0, opt_MaxInFlight = 0,
      opt_MinFreeBytes = sf_minFree f, opt_FreeBytes = free_bytes_hook env, opt_AllowedHosts = [], opt_WebSocketReady = False\<rparr>"

definition hub_server :: "serve_env \<Rightarrow> serveFlags \<Rightarrow> store \<Rightarrow> keys \<Rightarrow> server" where
  "hub_server env f st keys =
     (New (hub_options env f st keys) (ce_printable (se_cli env)))
       \<lparr>srv_pair := Some (\<lambda>c. FileWindow_Redeem (se_later env, c)), srv_recording := (sf_recordDir f \<noteq> [])\<rparr>"

text \<open>Opening the store and the key. The recorder's directory is prepared by \<open>recorder\<close>.\<close>

definition serve_open :: "serve_env \<Rightarrow> (bytes \<Rightarrow> unit command) \<Rightarrow> serveFlags \<Rightarrow> bytes \<Rightarrow> (store \<times> keys) command" where
  "serve_open env recorder f dataDir =
     (let cli = se_cli env in
      bindC (open_store cli dataDir) (\<lambda>st.
      bindC (bindC (pairC dataDir (LoadOrCreate (ce_pair cli))) (orDieP cli)) (\<lambda>keys.
      bindC (if sf_recordDir f \<noteq> []
             then bindC (recorder (sf_recordDir f)) (\<lambda>_.
               outC (''capturing traffic to '' @ sf_recordDir f @ '' (contains real memory content)'' @ nl))
             else returnC ()) (\<lambda>_. returnC (st, keys)))))"

definition advertisement :: "serveFlags \<Rightarrow> ip_addr \<times> nat \<Rightarrow> discover_config" where
  "advertisement f addr =
     \<lparr>cfg_Enabled = (\<not> sf_noMDNS f), cfg_InstanceName = sf_adverName f, cfg_Port = snd addr, cfg_BindAddr = Some (fst addr)\<rparr>"

definition serve_banner :: "serve_env \<Rightarrow> serveFlags \<Rightarrow> ip_addr \<times> nat \<Rightarrow> store \<Rightarrow> keys \<Rightarrow> bytes" where
  "serve_banner env f addr st keys =
     ''hub listening on '' @ se_addr_text env addr @ nl @ ''hub id      '' @ st_userID st @ nl
     @ ''fingerprint '' @ Fingerprint keys @ nl @ nl @ ''Pair another machine with:'' @ nl @ ''  cmemlan pair'' @ nl
     @ (if ShouldAdvertise (advertisement f addr) then ''advertising over mDNS as '' @ ServiceType @ nl else [])"

text \<open>With the lock held: store, key, listener; then the hub serves until \<open>served\<close> says how it ended.\<close>

definition serve_start :: "serve_env \<Rightarrow> (bytes \<Rightarrow> unit command) \<Rightarrow> serveFlags \<Rightarrow> bytes \<Rightarrow> ip_addr \<times> nat \<Rightarrow> ip_prefix list \<Rightarrow> running command" where
  "serve_start env recorder f dataDir addr prefixes =
     bindC (serve_open env recorder f dataDir) (\<lambda>(st, keys).
       case se_listen env addr of
         Some e \<Rightarrow> bindC (errC (''cmemlan: listening on '' @ se_addr_text env addr @ '': '' @ ce_text (se_cli env) e @ nl)) (\<lambda>_. exitC 1)
       | None \<Rightarrow>
           bindC (outC (serve_banner env f addr st keys)) (\<lambda>_.
             returnC \<lparr>rn_server = hub_server env f st keys, rn_store = st, rn_addr = addr, rn_prefixes = prefixes, rn_dir = dataDir\<rparr>))"

definition serve_until :: "serve_env \<Rightarrow> (running \<Rightarrow> world \<Rightarrow> go_error option) \<Rightarrow> running \<Rightarrow> nat command" where
  "serve_until env served h = (\<lambda>w.
     case served h w of
       Some e \<Rightarrow> dieC (ce_text (se_cli env) e) w
     | None \<Rightarrow> returnC 0 w)"

text \<open>A deferred call: it is made however the body ends, and its result is dropped.\<close>

definition finallyC :: "'a command \<Rightarrow> 'b command \<Rightarrow> 'a command" where
  "finallyC body cleanup = (\<lambda>w. case body w of (r, w1) \<Rightarrow> (r, snd (cleanup w1)))"

definition serve_locked :: "serve_env \<Rightarrow> (running \<Rightarrow> world \<Rightarrow> go_error option) \<Rightarrow> (bytes \<Rightarrow> unit command) \<Rightarrow> serveFlags \<Rightarrow> bytes
    \<Rightarrow> ip_addr \<times> nat \<Rightarrow> ip_prefix list \<Rightarrow> nat command" where
  "serve_locked env served recorder f dataDir addr prefixes =
     finallyC
       (bindC (serve_start env recorder f dataDir addr prefixes) (serve_until env served))
       (filesC (Remove (ce_os (se_cli env)) (path_join [dataDir, LockFile])))"

text \<open>\<open>None\<close>: after \<open>rounds\<close> rounds the lock is still being tried for.\<close>

definition serve_checked :: "nat \<Rightarrow> serve_env \<Rightarrow> (running \<Rightarrow> world \<Rightarrow> go_error option) \<Rightarrow> (bytes \<Rightarrow> unit command) \<Rightarrow> serveFlags \<Rightarrow> bytes
    \<Rightarrow> nat option command" where
  "serve_checked rounds env served recorder f dataDir =
     bindC (serve_bind env f) (\<lambda>addr.
     bindC (serve_peers env f) (\<lambda>prefixes.
     bindC (bindC (filesC (Lockfile rounds (ce_os (se_cli env)) (ce_alive (se_cli env)) (se_pid env) dataDir)) (orDie (se_cli env))) (\<lambda>r.
       case r of
         None \<Rightarrow> returnC None
       | Some _ \<Rightarrow> bindC (serve_locked env served recorder f dataDir addr prefixes) (\<lambda>code. returnC (Some code)))))"

definition runServe :: "nat \<Rightarrow> serve_env \<Rightarrow> (running \<Rightarrow> world \<Rightarrow> go_error option) \<Rightarrow> (bytes \<Rightarrow> unit command) \<Rightarrow> bytes list
    \<Rightarrow> nat option command" where
  "runServe rounds env served recorder args =
     bindC (with_flags (se_cli env) ''serve'' serve_flags args) (\<lambda>(fl, _).
       let f = serveFlags_of fl in
       bindC (orDie (se_cli env) (dataDirFor (se_cli env) (sf_dataDir f))) (\<lambda>dataDir.
         if sf_printUnit f \<or> sf_install f \<or> sf_uninstall f
         then bindC (runService env f dataDir) (\<lambda>code. returnC (Some code))
         else serve_checked rounds env served recorder f dataDir))"

section \<open>Free space\<close>

text \<open>
  C36: Free space is never negative, never above the largest \<open>int64\<close>, and never more than there is; it is the
  product clamped as long as the product fits 64 bits, and a smaller number beyond.
\<close>

theorem free_bytes_bounds:
  assumes "freeBytes (Some (bavail, bsize)) = Inr n" "bsize < 2 ^ 64"
  shows "0 \<le> n \<and> n \<le> MaxInt64 \<and> n \<le> uint bavail * bsize
    \<and> (uint bavail * bsize < 2 ^ 64 \<longrightarrow> n = min (uint bavail * bsize) MaxInt64)"
proof -
  have pos: "0 < bsize" using assms(1) by (auto simp: freeBytes_def split: if_splits)
  have b: "uint (word_of_int bsize :: 64 word) = bsize"
    using pos assms(2) by (simp add: uint_word_of_int take_bit_int_eq_self)
  let ?free = "bavail * word_of_int bsize :: 64 word"
  have free: "uint ?free = (uint bavail * bsize) mod 2 ^ 64"
    by (simp add: uint_word_arith_bintrs(3) b take_bit_eq_mod)
  have nonneg: "0 \<le> uint bavail * bsize" using pos by simp
  have le: "uint ?free \<le> uint bavail * bsize" unfolding free using nonneg by (simp add: zmod_le_nonneg_dividend)
  have n: "n = min (uint ?free) MaxInt64" using assms(1) pos by (auto simp: freeBytes_def Let_def split: if_splits)
  have "uint ?free = uint bavail * bsize" if "uint bavail * bsize < 2 ^ 64"
    unfolding free using that nonneg by simp
  with n le show ?thesis by (auto simp: MaxInt64_def)
qed

theorem free_bytes_bounds_witness:
  "freeBytes (Some (1000, 4096)) = Inr 4096000 \<and> (4096000 :: int) \<le> MaxInt64"
proof -
  have f: "freeBytes (Some (1000, 4096)) = Inr 4096000" by (simp add: freeBytes_def MaxInt64_def Let_def)
  from free_bytes_bounds [OF f] f show ?thesis by simp
qed

section \<open>What the unit carries\<close>

text \<open>The words of the unit's command line: systemd splits it at spaces.\<close>

definition unit_words :: "bytes \<Rightarrow> bytes \<Rightarrow> bytes \<Rightarrow> bytes \<Rightarrow> bytes list" where
  "unit_words exe dataDir bind allowCIDR =
     split_on CHR '' '' (drop (length ''ExecStart='') (exec_start exe dataDir bind allowCIDR))"

definition unit_args :: "bytes \<Rightarrow> bytes \<Rightarrow> bytes \<Rightarrow> arg list" where
  "unit_args dataDir bind allowCIDR =
     [Setting ''data-dir'' dataDir, Setting ''bind'' bind] @ (if allowCIDR \<noteq> [] then [Setting ''allow-cidr'' allowCIDR] else [])"

lemma unit_words_eq:
  assumes "\<forall>s \<in> {exe, dataDir, bind, allowCIDR}. CHR '' '' \<notin> set s"
  shows "unit_words exe dataDir bind allowCIDR = exe # ''serve'' # concat (map spell (unit_args dataDir bind allowCIDR))"
proof -
  let ?ws = "exe # ''serve'' # concat (map spell (unit_args dataDir bind allowCIDR))"
  have "drop (length ''ExecStart='') (exec_start exe dataDir bind allowCIDR) = join_with CHR '' '' ?ws"
    by (simp add: exec_start_def unit_args_def)
  moreover have "split_on CHR '' '' (join_with CHR '' '' ?ws) = ?ws"
    using assms by (intro split_join) (cases "allowCIDR = []"; auto simp: unit_args_def)+
  ultimately show ?thesis by (simp add: unit_words_def)
qed

lemma parse_unit_args:
  "\<exists>fl. parseFlags dur serve_flags (concat (map spell (unit_args dataDir bind allowCIDR))) = Inr (fl, [])
    \<and> serveFlags_of fl = (serveFlags_of serve_flags)\<lparr>sf_dataDir := dataDir, sf_bind := bind, sf_allowCIDR := allowCIDR\<rparr>"
proof -
  have ok: "list_all (arg_ok dur serve_flags) (unit_args dataDir bind allowCIDR)"
    by (simp add: unit_args_def serve_flags_def good_name_def)
  show ?thesis
    using flags_interleave_lemma [OF ok]
    by (simp add: unit_args_def serveFlags_of_def flag_string_def flag_bool_def flag_int_def map_of_set_flag serve_flags_def)
qed

text \<open>
  The unit is a round trip for three flags and loses the others. When no part has a space in it, the words
  of the command line are the binary, \<open>serve\<close>, and arguments that the hub parses back to the data directory,
  the bind address and the peer ranges it was installed with; every other flag comes back with its default,
  whatever it was given as.
\<close>

theorem unit_carries_three_flags:
  assumes "\<forall>s \<in> {exe, dataDir, sf_bind f, sf_allowCIDR f}. CHR '' '' \<notin> set s"
  shows "\<exists>args fl. unit_words exe dataDir (sf_bind f) (sf_allowCIDR f) = exe # ''serve'' # args
    \<and> parseFlags dur serve_flags args = Inr (fl, [])
    \<and> serveFlags_of fl = (serveFlags_of serve_flags)\<lparr>sf_dataDir := dataDir, sf_bind := sf_bind f, sf_allowCIDR := sf_allowCIDR f\<rparr>"
  using unit_words_eq [OF assms] parse_unit_args by blast

theorem unit_carries_three_flags_witness:
  "\<exists>args fl. unit_words ''/bin/cmemlan'' ''/d'' DefaultBind ''10.0.0.0/8'' = ''/bin/cmemlan'' # ''serve'' # args
    \<and> parseFlags (\<lambda>_. None) serve_flags args = Inr (fl, [])
    \<and> serveFlags_of fl = (serveFlags_of serve_flags)\<lparr>sf_dataDir := ''/d'', sf_bind := DefaultBind, sf_allowCIDR := ''10.0.0.0/8''\<rparr>"
  using unit_carries_three_flags [of "''/bin/cmemlan''" "''/d''" "(serveFlags_of serve_flags)\<lparr>sf_bind := DefaultBind, sf_allowCIDR := ''10.0.0.0/8''\<rparr>"]
  by (simp add: DefaultBind_def)

section \<open>A hub installed with the override\<close>

lemma serve_flags_defaults:
  "serveFlags_of serve_flags = \<lparr>sf_bind = DefaultBind, sf_allowCIDR = [], sf_dataDir = [], sf_allowPublic = False,
     sf_logLevel = ''info'', sf_logFormat = ''text'', sf_minFree = 2 ^ 30, sf_noMDNS = False, sf_adverName = [],
     sf_printUnit = False, sf_install = False, sf_uninstall = False, sf_recordDir = []\<rparr>"
  by (simp add: serveFlags_of_def serve_flags_def flag_string_def flag_bool_def flag_int_def)

lemma public_bind_stops:
  assumes "ClassifyBind (sf_bind f) (sf_allowPublic f) = Inl e"
  shows "\<exists>w'. serve_checked rounds env served recorder f dataDir w = (Inl 1, w') \<and> w_files w' = w_files w \<and> w_dirs w' = w_dirs w"
  using assms by (auto simp: serve_checked_def serve_bind_def bindC_def errC_def exitC_def returnC_def)

text \<open>
  C37: A hub that is exposed on purpose does not survive being installed. It runs with the override, and its
  unit is written; but the unit leaves the override out, and the hub that systemd starts from it refuses the
  address: it exits with 1 before it touched a file.
\<close>

theorem installed_unit_refuses_public_bind:
  assumes "ClassifyBind (sf_bind f) (sf_allowPublic f) = Inr addr" "ClassifyBind (sf_bind f) False = Inl ErrPublicBind"
    and "\<forall>s \<in> {exe, dataDir, sf_bind f, sf_allowCIDR f}. CHR '' '' \<notin> set s"
    and "dataDirFor (se_cli env) dataDir = Inr dir"
  shows "\<exists>args w'. unit_words exe dataDir (sf_bind f) (sf_allowCIDR f) = exe # ''serve'' # args
    \<and> runServe rounds env served recorder args w = (Inl 1, w') \<and> w_files w' = w_files w \<and> w_dirs w' = w_dirs w"
proof -
  let ?args = "concat (map spell (unit_args dataDir (sf_bind f) (sf_allowCIDR f)))"
  obtain fl where fl: "parseFlags (ce_duration (se_cli env)) serve_flags ?args = Inr (fl, [])"
    and g: "serveFlags_of fl = (serveFlags_of serve_flags)\<lparr>sf_dataDir := dataDir, sf_bind := sf_bind f, sf_allowCIDR := sf_allowCIDR f\<rparr>"
    using parse_unit_args by blast
  have "ClassifyBind (sf_bind (serveFlags_of fl)) (sf_allowPublic (serveFlags_of fl)) = Inl ErrPublicBind"
    using assms(2) by (simp add: g serve_flags_defaults)
  from public_bind_stops [OF this] obtain w' where
    w': "serve_checked rounds env served recorder (serveFlags_of fl) dir w = (Inl 1, w')" "w_files w' = w_files w" "w_dirs w' = w_dirs w"
    by blast
  have "runServe rounds env served recorder ?args w = (Inl 1, w')"
    unfolding runServe_def bind_with_flags [OF fl] prod.case Let_def
    using w'(1) assms(4) by (simp add: g serve_flags_defaults bind_steps)
  with unit_words_eq [OF assms(3)] w'(2,3) show ?thesis by blast
qed

definition sample_serve :: serve_env where
  "sample_serve =
     \<lparr>se_cli = sample_cli, se_exe = Inr ''/bin/cmemlan'', se_goos = ''linux'', se_uid = 1000, se_pid = 7,
      se_later = good_files 5, se_statfs = Some (1000, 4096), se_listen = (\<lambda>_. None),
      se_bind_text = (\<lambda>_. ''bind''), se_addr_text = (\<lambda>_. DefaultBind)\<rparr>"

lemma wildcard_bind:
  "ClassifyBind ''0.0.0.0:8787'' allowPublic = (if allowPublic then Inr (V4 0, 8787) else Inl ErrPublicBind)"
proof -
  have "SplitHostPort ''0.0.0.0:8787'' = Some (''0.0.0.0'', ''8787'')" by code_simp
  moreover have "trim_space ''0.0.0.0'' \<noteq> []"
    by (subst trim_space_solid) (simp_all add: solid_def)
  moreover have "ParseAddr (trim_brackets ''0.0.0.0'') = Some (V4 0)"
    by (simp add: trim_brackets_def Let_def ParseAddr_def parse_v4_def split_on.simps parse_octet_def parse_uint_def
        is_digit_val digit_val_def isCanonicalDecimal_def)
  moreover have "parse_port ''8787'' = Some 8787"
    by (simp add: parse_port_def parse_uint_def is_digit_val digit_val_def)
  moreover have "IsUnspecified (V4 0)" by (simp add: IsUnspecified_def)
  ultimately show ?thesis by (simp add: ClassifyBind_def Let_def)
qed

theorem installed_unit_refuses_public_bind_witness:
  "\<exists>args w'. unit_words ''/bin/cmemlan'' ''/d'' ''0.0.0.0:8787'' [] = ''/bin/cmemlan'' # ''serve'' # args
    \<and> runServe 2 sample_serve (\<lambda>_ _. None) (\<lambda>_. returnC ()) args (world_of [] sample_cdb \<lparr>hd_db = new_db, hd_pair = paired_dir\<rparr>)
        = (Inl 1, w') \<and> w_files w' = []"
proof -
  let ?f = "(serveFlags_of serve_flags)\<lparr>sf_bind := ''0.0.0.0:8787'', sf_allowPublic := True\<rparr>"
  have public: "\<exists>addr. ClassifyBind (sf_bind ?f) (sf_allowPublic ?f) = Inr addr" "ClassifyBind (sf_bind ?f) False = Inl ErrPublicBind"
    by (simp_all add: serve_flags_defaults wildcard_bind)
  have dir: "dataDirFor (se_cli sample_serve) ''/d'' = Inr ''/d''" by (simp add: sample_serve_def)
  from public(1) obtain addr where "ClassifyBind (sf_bind ?f) (sf_allowPublic ?f) = Inr addr" ..
  from installed_unit_refuses_public_bind [OF this public(2) _ dir, of "''/bin/cmemlan''"] show ?thesis
    by (fastforce simp: serve_flags_defaults world_of_def)
qed

section \<open>Only guarded hubs run\<close>

text \<open>
  What a hub has when it begins to serve, on a machine in state \<open>w\<close>: an address the bind check accepted, peers, the
  run lock of its data directory with its own process id, and the id, the epoch and the key that are stored in that
  directory.
\<close>

definition guarded :: "serve_env \<Rightarrow> serveFlags \<Rightarrow> bytes \<Rightarrow> running \<Rightarrow> world \<Rightarrow> bool" where
  "guarded env f dataDir h w \<longleftrightarrow>
     (let getenv = pv_getenv (ce_proc (se_cli env)); allowCIDR = cmp (sf_allowCIDR f) (getenv ''CMEMLAN_ALLOW_CIDR'') in
      ClassifyBind (sf_bind f) (sf_allowPublic f) = Inr (rn_addr h)
      \<and> (\<not> sf_allowPublic f \<longrightarrow> isLocalish (fst (rn_addr h)) \<and> \<not> IsUnspecified (fst (rn_addr h)))
      \<and> ParseCIDRList allowCIDR = Some (rn_prefixes h) \<and> rn_prefixes h \<noteq> []
      \<and> (getenv ''CMEMLAN_REQUIRE_ALLOW_CIDR'' = ''1'' \<longrightarrow> allowCIDR \<noteq> [])
      \<and> rn_dir h = dataDir
      \<and> map_option f_data (map_of (w_files w) (path_join [dataDir, LockFile])) = Some (pid_text (se_pid env))
      \<and> map_option snd (find_meta (st_userID (rn_store h)) (hd_db (w_dirs w dataDir))) = Some (DecString (st_epoch (rn_store h)))
      \<and> opt_UserID (srv_opts (rn_server h)) = st_userID (rn_store h)
      \<and> (\<exists>stored. pd_key (hd_pair (w_dirs w dataDir)) = Some stored
          \<and> opt_Auth (srv_opts (rn_server h)) = Some (StaticToken_Verify (st_userID (rn_store h)) (trim_space stored))))"

lemma bindC_at: "(\<And>x w'. m w = (Inr x, w') \<Longrightarrow> f x w' = g x w') \<Longrightarrow> bindC m f w = bindC m g w"
  by (auto simp: bindC_def split: prod.splits sum.splits)

lemma ClassifyBind_local: "ClassifyBind bind False = Inr (a, n) \<Longrightarrow> isLocalish a \<and> \<not> IsUnspecified a"
  by (auto simp: ClassifyBind_def Let_def split: if_splits option.splits)

lemma ParseCIDRList_some: "ParseCIDRList s = Some ps \<Longrightarrow> ps \<noteq> []"
  by (auto simp: ParseCIDRList_def Let_def split: option.splits if_splits)

text \<open>The lock that was taken holds the process id, whatever failed on the way.\<close>

lemma lock_write_held:
  assumes "os_other env = (\<lambda>_ fs. fs)" "map_of fs p \<noteq> None" "lock_write env p pid (k, fs) = (Inr (), k', fs')"
  shows "map_option f_data (map_of fs' p) = Some (pid_text pid)"
proof -
  obtain r k1 fs1 where w: "FdWrite env p (pid_text pid) (k, fs) = (r, k1, fs1)" by (metis surj_pair)
  show ?thesis
  proof (cases r)
    case (Inl e)
    with w assms(3) show ?thesis by (auto simp: lock_write_def bindI_def tryI_def failI_def split: prod.splits sum.splits)
  next
    case (Inr u)
    with w assms(3) have "fs' = fs1" by (simp add: lock_write_def bindI_def tryI_def returnI_def)
    with w Inr assms(1,2) show ?thesis by (auto simp: FdWrite_def io_simps on_open_def update_conv')
  qed
qed

lemma Lockfile_held:
  assumes "undisturbed cli" "Lockfile rounds (ce_os cli) alive pid dir (k, fs) = (Inr (Some ()), k', fs')"
  shows "map_option f_data (map_of fs' (path_join [dir, LockFile])) = Some (pid_text pid)"
  using assms(2)
proof (induction rounds arbitrary: k fs)
  case 0
  then show ?case by (simp add: returnI_def)
next
  case (Suc n)
  let ?p = "path_join [dir, LockFile]" and ?os = "ce_os cli"
  have alone: "os_other ?os = (\<lambda>_ fs. fs)" using assms(1) by (simp add: undisturbed_def)
  from Suc.prems obtain k1 fs1 r k2 fs2 where "OpenExcl ?os ?p (k1, fs1) = (r, k2, fs2)"
    and rest: "(case r of Inr _ \<Rightarrow> bindI (lock_write ?os ?p pid) (\<lambda>_. returnI (Some ()))
      | Inl e \<Rightarrow> if e \<noteq> ErrExist then failI e else bindI (lock_break ?os alive ?p) (\<lambda>_. Lockfile n ?os alive pid dir)) (k2, fs2)
        = (Inr (Some ()), k', fs')"
    by (auto simp: io_simps bindI_Inr)
  show ?case
  proof (cases r)
    case (Inl e)
    with rest obtain k3 fs3 where "Lockfile n ?os alive pid dir (k3, fs3) = (Inr (Some ()), k', fs')"
      by (auto simp: bindI_Inr failI_def split: if_splits)
    then show ?thesis by (rule Suc.IH)
  next
    case (Inr u)
    with \<open>OpenExcl ?os ?p (k1, fs1) = (r, k2, fs2)\<close> alone have "map_of fs2 ?p \<noteq> None"
      by (auto simp: OpenExcl_def io_simps split: if_splits)
    moreover have "lock_write ?os ?p pid (k2, fs2) = (Inr (), k', fs')"
      using rest Inr by (auto simp: bindI_Inr returnI_def)
    ultimately show ?thesis by (rule lock_write_held [OF alone])
  qed
qed

lemma LoadOrCreate_stored:
  assumes "LoadOrCreate env dir = (Inr ks, dir')"
  shows "\<exists>stored. pd_key dir' = Some stored \<and> PSK ks = trim_space stored"
  using assms
  by (auto simp: LoadOrCreate_def newSecret_def Let_def trim_key split: if_splits option.splits)

lemma serve_start_guarded:
  assumes "keeps w_files (recorder (sf_recordDir f))" "keeps w_dirs (recorder (sf_recordDir f))" "rand_ok (ce_sql (se_cli env))"
    and "serve_bind env f w0 = (Inr addr, w1)" "serve_peers env f w1 = (Inr prefixes, w2)"
    and "map_option f_data (map_of (w_files w) (path_join [dataDir, LockFile])) = Some (pid_text (se_pid env))"
    and "serve_start env recorder f dataDir addr prefixes w = (Inr h, w')"
  shows "guarded env f dataDir h w'"
proof -
  let ?cli = "se_cli env"
  have b: "ClassifyBind (sf_bind f) (sf_allowPublic f) = Inr addr"
    using assms(4) by (auto simp: serve_bind_def bindC_def errC_def exitC_def returnC_def split: sum.splits if_splits)
  have p: "ParseCIDRList (cmp (sf_allowCIDR f) (pv_getenv (ce_proc ?cli) ''CMEMLAN_ALLOW_CIDR'')) = Some prefixes"
    and r: "pv_getenv (ce_proc ?cli) ''CMEMLAN_REQUIRE_ALLOW_CIDR'' = ''1''
      \<longrightarrow> cmp (sf_allowCIDR f) (pv_getenv (ce_proc ?cli) ''CMEMLAN_ALLOW_CIDR'') \<noteq> []"
    using assms(5) by (auto simp: serve_peers_def Let_def bindC_def errC_def exitC_def returnC_def dieC_def split: option.splits if_splits)
  obtain st keys w3 where o: "serve_open env recorder f dataDir w = (Inr (st, keys), w3)"
    and h: "h = \<lparr>rn_server = hub_server env f st keys, rn_store = st, rn_addr = addr, rn_prefixes = prefixes, rn_dir = dataDir\<rparr>"
    and w': "w_files w' = w_files w3" "w_dirs w' = w_dirs w3"
    using assms(7)
    by (auto simp: serve_start_def cli_simps exitC_def returnC_def split: prod.splits option.splits)
  from o obtain k db w4 pd w5 where op: "Open (ce_sql ?cli) (ce_journal ?cli) (w_calls w, hd_db (w_dirs w dataDir)) = (Inr st, k, db)"
    and w4: "w4 = w\<lparr>w_calls := k, w_dirs := (w_dirs w)(dataDir := (w_dirs w dataDir)\<lparr>hd_db := db\<rparr>)\<rparr>"
    and lk: "LoadOrCreate (ce_pair ?cli) (hd_pair (w_dirs w4 dataDir)) = (Inr keys, pd)"
    and w5: "w5 = w4\<lparr>w_dirs := (w_dirs w4)(dataDir := (w_dirs w4 dataDir)\<lparr>hd_pair := pd\<rparr>)\<rparr>"
    and rec: "(if sf_recordDir f \<noteq> [] then bindC (recorder (sf_recordDir f)) (\<lambda>_.
        outC (''capturing traffic to '' @ sf_recordDir f @ '' (contains real memory content)'' @ nl)) else returnC ()) w5 = (Inr (), w3)"
    unfolding serve_open_def open_store_def Let_def by (auto simp: cli_simps returnC_def)
  have "w_files w3 = w_files w5" "w_dirs w3 = w_dirs w5"
    using rec keepsD [OF assms(1)] keepsD [OF assms(2)] by (auto simp: cli_simps returnC_def split: if_splits)
  with w' w4 w5 have files: "w_files w' = w_files w" and dirs: "hd_db (w_dirs w' dataDir) = db" "hd_pair (w_dirs w' dataDir) = pd"
    by simp_all
  moreover have "isLocalish (fst addr) \<and> \<not> IsUnspecified (fst addr)" if "\<not> sf_allowPublic f"
    using ClassifyBind_local [of "sf_bind f" "fst addr" "snd addr"] b that by simp
  moreover note Open_meta [OF op assms(3)]
  moreover obtain stored where "pd_key pd = Some stored" "PSK keys = trim_space stored" using LoadOrCreate_stored [OF lk] by blast
  ultimately show ?thesis
    using b p r ParseCIDRList_some [OF p] assms(6)
    by (simp add: h guarded_def Let_def hub_server_def hub_options_def New_def withDefaults_def)
qed

text \<open>So how serving ends matters only for guarded hubs, whatever the recorder does elsewhere.\<close>

lemma serve_checked_guarded:
  assumes "undisturbed (se_cli env)" "rand_ok (ce_sql (se_cli env))"
    and "keeps w_files (recorder (sf_recordDir f))" "keeps w_dirs (recorder (sf_recordDir f))"
    and "\<And>h w. guarded env f dataDir h w \<Longrightarrow> served h w = served' h w"
  shows "serve_checked rounds env served recorder f dataDir w = serve_checked rounds env served' recorder f dataDir w"
  unfolding serve_checked_def
proof (intro bindC_at)
  let ?lock = "bindC (filesC (Lockfile rounds (ce_os (se_cli env)) (ce_alive (se_cli env)) (se_pid env) dataDir)) (orDie (se_cli env))"
  fix addr w1 prefixes w2 r w3
  assume bind: "serve_bind env f w = (Inr addr, w1)" and peers: "serve_peers env f w1 = (Inr prefixes, w2)"
    and lock: "?lock w2 = (Inr r, w3)"
  show "(case r of None \<Rightarrow> returnC None
      | Some _ \<Rightarrow> bindC (serve_locked env served recorder f dataDir addr prefixes) (\<lambda>code. returnC (Some code))) w3
    = (case r of None \<Rightarrow> returnC None
      | Some _ \<Rightarrow> bindC (serve_locked env served' recorder f dataDir addr prefixes) (\<lambda>code. returnC (Some code))) w3"
  proof (cases r)
    case (Some u)
    with lock have held: "map_option f_data (map_of (w_files w3) (path_join [dataDir, LockFile])) = Some (pid_text (se_pid env))"
      by (auto simp: cli_simps dest: Lockfile_held [OF assms(1)])
    have "bindC (serve_start env recorder f dataDir addr prefixes) (serve_until env served) w3
      = bindC (serve_start env recorder f dataDir addr prefixes) (serve_until env served') w3"
      using assms(5) [OF serve_start_guarded [of recorder f, OF assms(3,4,2) bind peers held]] by (intro bindC_at) (simp add: serve_until_def)
    then have "serve_locked env served recorder f dataDir addr prefixes w3 = serve_locked env served' recorder f dataDir addr prefixes w3"
      by (simp add: serve_locked_def finallyC_def)
    then show ?thesis using Some by (simp add: bindC_def)
  qed simp
qed

section \<open>The run lock\<close>

text \<open>A lock whose content is the id of a live process.\<close>

definition live_lock :: "(int \<Rightarrow> bool) \<Rightarrow> file_info option \<Rightarrow> bool" where
  "live_lock alive lock \<longleftrightarrow> (\<exists>f pid. lock = Some f \<and> Atoi (trim_space (f_data f)) = Some pid \<and> processAlive alive pid)"

text \<open>
  C35: The lock decides, and at once. When nothing else touches the directory, two rounds are enough: a lock with
  the id of a live process, whichever process that is, makes \<open>Lockfile\<close> fail and stays; in every other case, a
  lock that is missing, stale, or not a number, the lock is taken with this process's id, and no other file changes.
\<close>

theorem lock_taken_iff_no_live_owner:
  assumes "smooth cli" "2 \<le> rounds"
  shows "\<exists>k' fs'. Lockfile rounds (ce_os cli) alive pid dir (k, fs) =
      (if live_lock alive (map_of fs (path_join [dir, LockFile]))
       then Inl (OtherError ''cmemlan: another serve process is already using the directory'') else Inr (Some ()), k', fs')
    \<and> (if live_lock alive (map_of fs (path_join [dir, LockFile])) then fs' = fs
       else map_option f_data (map_of fs' (path_join [dir, LockFile])) = Some (pid_text pid)
         \<and> (\<forall>q. q \<noteq> path_join [dir, LockFile] \<longrightarrow> map_of fs' q = map_of fs q))"
proof -
  let ?p = "path_join [dir, LockFile]" and ?os = "ce_os cli"
  note sm = smooth_call [OF assms(1)]
  obtain n where n: "rounds = Suc (Suc n)" using assms(2) by (metis Suc_le_D numeral_2_eq_2 Suc_le_mono)
  have free: "\<exists>k' fs'. Lockfile (Suc m) ?os alive pid dir (k, fs) = (Inr (Some ()), k', fs')
      \<and> map_option f_data (map_of fs' ?p) = Some (pid_text pid) \<and> (\<forall>q. q \<noteq> ?p \<longrightarrow> map_of fs' q = map_of fs q)"
    if "map_of fs ?p = None" for m k fs
    using that
    by (auto simp: bindI_def tryI_def MkdirAll_def OpenExcl_def lock_write_def FdWrite_def sm returnI_def on_open_same)
  show ?thesis
  proof (cases "map_of fs ?p")
    case None
    with free [OF None, of "Suc n" k] show ?thesis by (simp add: n live_lock_def)
  next
    case (Some f)
    have round: "Lockfile rounds ?os alive pid dir (k, fs) =
        bindI (lock_break ?os alive ?p) (\<lambda>_. Lockfile (Suc n) ?os alive pid dir) (Suc (Suc k), fs)"
      using Some by (simp add: n bindI_def tryI_def MkdirAll_def OpenExcl_def sm)
    show ?thesis
    proof (cases "live_lock alive (map_of fs ?p)")
      case True
      with Some show ?thesis unfolding round
        by (auto simp: live_lock_def lock_break_def bindI_def tryI_def ReadFile_def look_up_def sm failI_def)
    next
      case False
      let ?fs = "AList.delete ?p fs"
      have "lock_break ?os alive ?p (Suc (Suc k), fs) = (Inr (), Suc (Suc (Suc (Suc k))), ?fs)"
        using Some False
        by (auto simp: live_lock_def lock_break_def bindI_def tryI_def ReadFile_def Remove_def look_up_def sm returnI_def split: option.split)
      moreover have "map_of ?fs ?p = None" by (simp add: map_of_delete)
      ultimately show ?thesis
        using free [of ?fs n "Suc (Suc (Suc (Suc k)))"] False unfolding round
        by (auto simp: bindI_def map_of_delete)
    qed
  qed
qed

theorem lock_taken_iff_no_live_owner_witness:
  "\<exists>fs'. snd (snd (Lockfile 2 (ce_os sample_cli) (\<lambda>_. False) 7 ''/d''
      (0, [(''/d/serve.lock'', \<lparr>f_data = ''123'', f_mode = private_mode, f_mtime = 5\<rparr>)]))) = fs'
    \<and> map_option f_data (map_of fs' ''/d/serve.lock'') = Some (pid_text 7)"
proof -
  have path: "path_join [''/d'', LockFile] = ''/d/serve.lock''" by (simp add: LockFile_def) code_simp
  show ?thesis
    using lock_taken_iff_no_live_owner [OF sample_smooth [OF refl] order_refl, of "\<lambda>_. False"
        7 "''/d''" 0
        "[(''/d/serve.lock'', \<lparr>f_data = ''123'', f_mode = private_mode, f_mtime = 5\<rparr>)]"]
    by (auto simp: path live_lock_def processAlive_def)
qed

end
