(* ===== verification/Fixtures.thy ===== *)
theory Fixtures
  imports Service
begin

text \<open>
  \<open>internal/cli/fixtures.go\<close>: scrubbing captured traffic, down to the bytes. A capture is decoded level by
  level (the exchange, its bodies, their operations, the body of each operation, its payload), each level is
  rewritten and printed again. The payload is decoded into the values \<open>encoding/json\<close> makes of it; what it
  prints for the number a literal stands for, or that it is out of the range of \<open>float64\<close>, is the argument
  \<open>number\<close>. A Go map that may be nil is an option.

  \<open>ScrubProps\<close> holds the theorems.
\<close>

section \<open>JSON values\<close>

datatype json =
    JNull
  | JBool bool
  | JNumber bytes
  | JString bytes
  | JArray "json list"
  | JObject "(bytes \<times> json) list"

text \<open>The members of a Go map: a later one replaces an earlier one of the same key.\<close>

definition last_members :: "(bytes \<times> 'v) list \<Rightarrow> (bytes \<times> 'v) list" where
  "last_members kvs = foldl (\<lambda>m (k, v). AList.update k v m) [] kvs"

lemma read_value_short: "read_value s = Some (v, r) \<Longrightarrow> length v + length r \<le> length s"
  using read_value_split [of s v r] skip_space_length [of s] by (metis length_append)

lemma skip_space_short: "skip_space s = t \<Longrightarrow> length t \<le> length s"
  using skip_space_length by blast

lemma elements_shorter: "elements first s = Some vs \<Longrightarrow> v \<in> set vs \<Longrightarrow> length v \<le> length s"
proof (induction first s arbitrary: vs rule: elements.induct)
  case (1 first s)
  show ?case
  proof (cases "skip_space s")
    case Nil
    with 1(2) show ?thesis by (simp add: elements.simps)
  next
    case (Cons c cs)
    show ?thesis
    proof (cases "c = CHR '']''")
      case True
      with Cons 1(2,3) show ?thesis by (simp add: elements.simps)
    next
      case c: False
      from 1(2) Cons c obtain w r ws where r: "read_value (if first then c # cs else cs) = Some (w, r)"
        and ws: "elements False r = Some ws" "vs = w # ws" "first \<or> c = CHR '',''"
        by (subst (asm) elements.simps) (auto split: option.splits prod.splits if_splits)
      have "length w + length r \<le> length s"
        using read_value_short [OF r] skip_space_short [OF Cons] by (auto split: if_splits)
      then show ?thesis
        using 1(3) ws(2) 1(1) [OF Cons c r refl _ ws(1)] ws(3) by auto
    qed
  qed
qed

lemma members_shorter: "members first s = Some kvs \<Longrightarrow> (k, v) \<in> set kvs \<Longrightarrow> length v \<le> length s"
proof (induction first s arbitrary: kvs rule: members.induct)
  case (1 first s)
  show ?case
  proof (cases "skip_space s")
    case Nil
    with 1(2) show ?thesis by (simp add: members.simps)
  next
    case (Cons c cs)
    show ?thesis
    proof (cases "c = CHR ''}''")
      case True
      with Cons 1(2,3) show ?thesis by (simp add: members.simps)
    next
      case c: False
      from 1(2) Cons c obtain k0 r1 d ds w r2 key ws where r: "read_value (if first then c # cs else cs) = Some (k0, r1)"
        and d: "skip_space r1 = d # ds" and w: "read_value ds = Some (w, r2)" and sep: "first \<or> c = CHR '',''" "d = CHR '':''"
        and key: "json_unquote k0 = Some key" and ws: "members False r2 = Some ws" "kvs = (key, w) # ws"
        by (subst (asm) members.simps) (auto split: option.splits prod.splits if_splits list.splits)
      have "length w + length r2 \<le> length s"
        using read_value_short [OF r] read_value_short [OF w] skip_space_short [OF Cons] skip_space_short [OF d]
        by (auto split: if_splits)
      then show ?thesis
        using 1(3) ws(2) 1(1) [OF Cons c r refl d w refl _ key ws(1)] sep by auto
    qed
  qed
qed

function decode_any :: "(bytes \<Rightarrow> bytes option) \<Rightarrow> bytes \<Rightarrow> json option" where
  "decode_any number v =
     (case v of
        [] \<Rightarrow> None
      | c # cs \<Rightarrow>
          if c = CHR ''{'' then
            (case members True cs of
               None \<Rightarrow> None
             | Some kvs \<Rightarrow>
                 map_option (\<lambda>xs. JObject (last_members (zip (map fst kvs) xs))) (those (map (\<lambda>kv. decode_any number (snd kv)) kvs)))
          else if c = CHR ''['' then
            (case elements True cs of
               None \<Rightarrow> None
             | Some vs \<Rightarrow> map_option JArray (those (map (decode_any number) vs)))
          else if c = CHR 0x22 then map_option JString (json_unquote v)
          else if c = CHR ''n'' then Some JNull
          else if c = CHR ''t'' then Some (JBool True)
          else if c = CHR ''f'' then Some (JBool False)
          else map_option JNumber (number v))"
  by pat_completeness auto
termination
  by (relation "measure (\<lambda>(number, v). length v)") (auto dest: elements_shorter members_shorter simp: less_Suc_eq_le)

declare decode_any.simps [simp del]

text \<open>\<open>json.Unmarshal\<close> into \<open>any\<close>, and \<open>json.Marshal\<close> of what came out.\<close>

definition unmarshal_any :: "(bytes \<Rightarrow> bytes option) \<Rightarrow> bytes \<Rightarrow> json option" where
  "unmarshal_any number raw = Option.bind (whole_value raw) (decode_any number)"

fun encode_any :: "json \<Rightarrow> bytes" where
  "encode_any JNull = ''null''"
| "encode_any (JBool b) = (if b then ''true'' else ''false'')"
| "encode_any (JNumber t) = t"
| "encode_any (JString s) = marshal_string s"
| "encode_any (JArray vs) = ''['' @ join_with CHR '','' (map encode_any vs) @ '']''"
| "encode_any (JObject kvs) =
     ''{'' @ join_with CHR '','' (map (\<lambda>(k, t). marshal_string k @ '':'' @ t)
       (sort_key fst (map (\<lambda>(k, v). (k, encode_any v)) kvs))) @ ''}''"

section \<open>Synthetic content\<close>

definition lorem_words :: "bytes list" where
  "lorem_words = [''lorem'', ''ipsum'', ''dolor'', ''sit'', ''amet'', ''consectetur'']"

text \<open>The loop of \<open>lorem\<close>: the length to reach, the number of the next word, and what was written.\<close>

function lorem_loop :: "nat \<Rightarrow> nat \<Rightarrow> bytes \<Rightarrow> bytes" where
  "lorem_loop n i b =
     (if length b < n then
        let b1 = b @ take (n - length b) (lorem_words ! (i mod length lorem_words)) in
        lorem_loop n (Suc i) (if length b1 < n then b1 @ '' '' else b1)
      else b)"
  by pat_completeness auto
termination
proof (relation "measure (\<lambda>(n, i, b). n - length b)", goal_cases)
  case 1
  then show ?case by simp
next
  case (2 n i b b1)
  have "i mod length lorem_words < length lorem_words" by (simp add: lorem_words_def)
  then have "lorem_words ! (i mod length lorem_words) \<noteq> []"
    using nth_mem [of "i mod length lorem_words" lorem_words] by (auto simp: lorem_words_def)
  with 2 show ?case by (cases "lorem_words ! (i mod length lorem_words)") auto
qed

declare lorem_loop.simps [simp del]

definition lorem :: "bytes \<Rightarrow> bytes" where
  "lorem s = (if s = [] then [] else take (length s) (lorem_loop (length s) 0 []))"

fun replaceStrings :: "json \<Rightarrow> json" where
  "replaceStrings (JString s) = JString (lorem s)"
| "replaceStrings (JArray vs) = JArray (map replaceStrings vs)"
| "replaceStrings (JObject kvs) = JObject (map (\<lambda>(k, v). (k, replaceStrings v)) kvs)"
| "replaceStrings v = v"

text \<open>Digests are ASCII, so lower case is that of ASCII.\<close>

definition ascii_lower :: "char \<Rightarrow> char" where
  "ascii_lower c = (if CHR ''A'' \<le> c \<and> c \<le> CHR ''Z'' then char_of (of_char c + (32 :: nat)) else c)"

definition hex_of_digest :: "bytes \<Rightarrow> bytes" where
  "hex_of_digest digest =
     (let hex = take 32 (filter (\<lambda>r. (CHR ''0'' \<le> r \<and> r \<le> CHR ''9'') \<or> (CHR ''a'' \<le> r \<and> r \<le> CHR ''f''))
        (map ascii_lower digest)) in
      hex @ replicate (32 - length hex) CHR ''0'')"

definition slice :: "nat \<Rightarrow> nat \<Rightarrow> bytes \<Rightarrow> bytes" where
  "slice i j s = take (j - i) (drop i s)"

definition anonymiseIdentifier :: "bytes \<Rightarrow> bytes \<Rightarrow> bytes" where
  "anonymiseIdentifier key value =
     (if key = ''id'' then
        (if CHR '':'' \<in> set value then takeWhile (\<lambda>c. c \<noteq> CHR '':'') value @ '':'' @ Digest (''fixture:'' @ value)
         else Digest (''fixture:'' @ value))
      else
        let s = hex_of_digest (Digest (''fixture-device:'' @ value)) in
        slice 0 8 s @ ''-'' @ slice 8 12 s @ ''-'' @ slice 12 16 s @ ''-'' @ slice 16 20 s @ ''-'' @ slice 20 32 s)"

section \<open>Maps that may be nil\<close>

definition unmarshal_go_map :: "bytes \<Rightarrow> raw_map option option" where
  "unmarshal_go_map b =
     (case whole_value b of
        None \<Rightarrow> None
      | Some v \<Rightarrow>
          if hd v = CHR ''{'' then map_option (\<lambda>kvs. Some (map_of_members kvs)) (members True (tl v))
          else if hd v = CHR ''n'' then Some None
          else None)"

definition marshal_go_map :: "raw_map option \<Rightarrow> bytes option" where
  "marshal_go_map m = (case m of None \<Rightarrow> Some ''null'' | Some kvs \<Rightarrow> marshal_map kvs)"

definition lookup_go :: "raw_map option \<Rightarrow> bytes \<Rightarrow> bytes option" where
  "lookup_go m k = (case m of None \<Rightarrow> None | Some kvs \<Rightarrow> map_of kvs k)"

text \<open>Assigning to a key that the map was found to have.\<close>

definition assign :: "bytes \<Rightarrow> bytes \<Rightarrow> raw_map option \<Rightarrow> raw_map option" where
  "assign k v m = map_option (AList.update k v) m"

definition marshal_error :: go_error where
  "marshal_error = OtherError ''json: error calling MarshalJSON''"

section \<open>Scrubbing\<close>

text \<open>The payload of an operation's body, unless it is \<open>null\<close> or does not decode.\<close>

definition scrub_payload :: "(bytes \<Rightarrow> bytes option) \<Rightarrow> raw_map option \<Rightarrow> raw_map option" where
  "scrub_payload number doc =
     (case lookup_go doc ''payload'' of
        None \<Rightarrow> doc
      | Some payload \<Rightarrow>
          if payload = ''null'' then doc
          else case unmarshal_any number payload of
            None \<Rightarrow> doc
          | Some decoded \<Rightarrow>
              let b = encode_any (replaceStrings decoded) in
              assign ''payload_sha256'' (marshal_string (Digest b)) (assign ''payload'' b doc))"

definition scrub_identifier :: "bytes \<Rightarrow> raw_map option \<Rightarrow> raw_map option" where
  "scrub_identifier k doc =
     (case lookup_go doc k of
        None \<Rightarrow> doc
      | Some raw \<Rightarrow>
          (case unmarshal_string raw of
             None \<Rightarrow> doc
           | Some s \<Rightarrow> if s = [] then doc else assign k (marshal_string (anonymiseIdentifier k s)) doc))"

definition synthesiseBody :: "(bytes \<Rightarrow> bytes option) \<Rightarrow> bytes \<Rightarrow> go_error + bytes" where
  "synthesiseBody number body =
     (case unmarshal_go_map body of
        None \<Rightarrow> Inl (OtherError ''op body is not JSON'')
      | Some doc \<Rightarrow>
          of_option marshal_error
            (marshal_go_map (scrub_identifier ''id'' (scrub_identifier ''origin_device_id'' (scrub_payload number doc)))))"

definition scrub_op :: "(bytes \<Rightarrow> bytes option) \<Rightarrow> raw_map option \<Rightarrow> go_error + raw_map option" where
  "scrub_op number op =
     (case lookup_go op ''body'' of
        None \<Rightarrow> Inr op
      | Some bodyRaw \<Rightarrow>
          (case unmarshal_string bodyRaw of
             None \<Rightarrow> Inr op
           | Some body \<Rightarrow>
               (case synthesiseBody number body of
                  Inl e \<Rightarrow> Inl e
                | Inr synthetic \<Rightarrow>
                    Inr (assign ''operation_sha256'' (marshal_string (Digest synthetic)) (assign ''body'' (marshal_string synthetic) op)))))"

fun scrub_ops :: "(bytes \<Rightarrow> bytes option) \<Rightarrow> raw_map option list \<Rightarrow> go_error + raw_map option list" where
  "scrub_ops number [] = Inr []"
| "scrub_ops number (op # ops) =
     (case scrub_op number op of
        Inl e \<Rightarrow> Inl e
      | Inr op' \<Rightarrow>
          (case scrub_ops number ops of Inl e \<Rightarrow> Inl e | Inr ops' \<Rightarrow> Inr (op' # ops')))"

text \<open>The operations of an envelope, as a slice that may be nil.\<close>

definition unmarshal_ops :: "bytes \<Rightarrow> raw_map option list option option" where
  "unmarshal_ops raw =
     (case whole_value raw of
        None \<Rightarrow> None
      | Some v \<Rightarrow>
          if hd v = CHR ''['' then
            (case elements True (tl v) of
               None \<Rightarrow> None
             | Some vs \<Rightarrow> map_option Some (those (map unmarshal_go_map vs)))
          else if hd v = CHR ''n'' then Some None
          else None)"

definition marshal_ops :: "raw_map option list option \<Rightarrow> bytes option" where
  "marshal_ops ops =
     (case ops of
        None \<Rightarrow> Some ''null''
      | Some ms \<Rightarrow> map_option (\<lambda>ts. ''['' @ join_with CHR '','' ts @ '']'') (those (map marshal_go_map ms)))"

definition scrub_slice :: "(bytes \<Rightarrow> bytes option) \<Rightarrow> raw_map option list option \<Rightarrow> go_error + raw_map option list option" where
  "scrub_slice number ops =
     (case ops of
        None \<Rightarrow> Inr None
      | Some ms \<Rightarrow> (case scrub_ops number ms of Inl e \<Rightarrow> Inl e | Inr ms' \<Rightarrow> Inr (Some ms')))"

definition scrubBodies :: "(bytes \<Rightarrow> bytes option) \<Rightarrow> bytes \<Rightarrow> go_error + bytes" where
  "scrubBodies number payload =
     (case unmarshal_go_map payload of
        None \<Rightarrow> Inr payload
      | Some envelope \<Rightarrow>
          (case Option.bind (lookup_go envelope ''ops'') unmarshal_ops of
             None \<Rightarrow> Inr payload
           | Some ops \<Rightarrow>
               (case scrub_slice number ops of
                  Inl e \<Rightarrow> Inl e
                | Inr ops' \<Rightarrow>
                    (case marshal_ops ops' of
                       None \<Rightarrow> Inl marshal_error
                     | Some newOps \<Rightarrow> of_option marshal_error (marshal_go_map (assign ''ops'' newOps envelope))))))"

section \<open>Secret shapes\<close>

definition secret_names :: "bytes list" where
  "secret_names = [''token'', ''psk'', ''key'', ''secret'', ''password'']"

definition re_space :: "char \<Rightarrow> bool" where
  "re_space c \<longleftrightarrow> c \<in> {CHR 0x09, CHR 0x0A, CHR 0x0C, CHR 0x0D, CHR '' ''}"

definition re_word :: "char \<Rightarrow> bool" where
  "re_word c \<longleftrightarrow> (CHR ''A'' \<le> c \<and> c \<le> CHR ''Z'') \<or> (CHR ''a'' \<le> c \<and> c \<le> CHR ''z'')
     \<or> (CHR ''0'' \<le> c \<and> c \<le> CHR ''9'') \<or> c = CHR ''_''"

definition opaque_char :: "char \<Rightarrow> bool" where
  "opaque_char c \<longleftrightarrow> re_word c \<or> c \<in> {CHR ''+'', CHR ''/'', CHR ''='', CHR ''-''}"

text \<open>\<open>secretLike\<close> at the start of a text. No repetition can run over the byte that has to follow it.\<close>

definition secret_value :: "bytes \<Rightarrow> bool" where
  "secret_value s =
     (case dropWhile re_space s of
        [] \<Rightarrow> False
      | c # r \<Rightarrow>
          c = CHR '':'' \<and>
          (case dropWhile re_space r of
             [] \<Rightarrow> False
           | q # v \<Rightarrow>
               q = CHR 0x22 \<and> 16 \<le> length (takeWhile opaque_char v) \<and> has_prefix [CHR 0x22] (dropWhile opaque_char v)))"

definition secretLike :: "bytes \<Rightarrow> bool" where
  "secretLike s =
     list_ex (\<lambda>name. let f = [CHR 0x22] @ name @ [CHR 0x22] in has_prefix f s \<and> secret_value (drop (length f) s)) secret_names"

definition code_shape :: "(char \<Rightarrow> bool) list" where
  "code_shape =
     (let ds = [is_digit, is_digit, is_digit] in ds @ [(=) CHR ''-''] @ ds @ [(=) CHR ''-''] @ ds)"

text \<open>\<open>codeLike\<close> at the start of a text; \<open>after_word\<close>: the byte before it is one of a word.\<close>

definition codeLike :: "bool \<Rightarrow> bytes \<Rightarrow> bool" where
  "codeLike after_word s \<longleftrightarrow>
     \<not> after_word \<and> length code_shape \<le> length s \<and> list_all2 (\<lambda>p c. p c) code_shape (take (length code_shape) s)
     \<and> (case drop (length code_shape) s of [] \<Rightarrow> True | c # _ \<Rightarrow> \<not> re_word c)"

fun find_anywhere :: "(bool \<Rightarrow> bytes \<Rightarrow> bool) \<Rightarrow> bool \<Rightarrow> bytes \<Rightarrow> bool" where
  "find_anywhere re after_word [] = re after_word []"
| "find_anywhere re after_word (c # cs) = (re after_word (c # cs) \<or> find_anywhere re (re_word c) cs)"

definition findSecretShapes :: "bytes \<Rightarrow> bytes" where
  "findSecretShapes b =
     (if find_anywhere (\<lambda>_. secretLike) False b then ''a credential-shaped field''
      else if find_anywhere codeLike False b then ''a pairing code''
      else [])"

section \<open>An exchange\<close>

definition stringField :: "raw_map option \<Rightarrow> bytes \<Rightarrow> bytes" where
  "stringField doc key =
     (case lookup_go doc key of
        None \<Rightarrow> []
      | Some raw \<Rightarrow> (case unmarshal_string raw of None \<Rightarrow> [] | Some s \<Rightarrow> s))"

definition MarshalIndent_go :: "raw_map option \<Rightarrow> go_error + bytes" where
  "MarshalIndent_go doc =
     of_option marshal_error (case doc of None \<Rightarrow> Some ''null'' | Some kvs \<Rightarrow> MarshalIndent ''  '' kvs)"

text \<open>\<open>json.Unmarshal\<close> into a map of strings.\<close>

definition unmarshal_string_map :: "bytes \<Rightarrow> (bytes \<times> bytes) list option option" where
  "unmarshal_string_map raw =
     (case whole_value raw of
        None \<Rightarrow> None
      | Some v \<Rightarrow>
          if hd v = CHR ''{'' then
            (case members True (tl v) of
               None \<Rightarrow> None
             | Some kvs \<Rightarrow>
                 map_option (\<lambda>xs. Some (last_members (zip (map fst kvs) xs))) (those (map (\<lambda>kv. string_element (snd kv)) kvs)))
          else if hd v = CHR ''n'' then Some None
          else None)"

definition credential_headers :: "bytes list" where
  "credential_headers = [''Authorization'', ''X-User-Id'', ''X-Device-Id'', ''X-Device-Name'']"

definition redacted :: "(bytes \<times> bytes) list \<Rightarrow> (bytes \<times> bytes) list" where
  "redacted headers = map (\<lambda>(k, v). (k, if k \<in> set credential_headers then ''REDACTED'' else v)) headers"

definition marshal_string_map :: "(bytes \<times> bytes) list option \<Rightarrow> bytes" where
  "marshal_string_map m = (case m of None \<Rightarrow> ''null'' | Some kvs \<Rightarrow> encode_any (JObject (map (\<lambda>(k, v). (k, JString v)) kvs)))"

definition scrub_headers :: "raw_map option \<Rightarrow> raw_map option" where
  "scrub_headers doc =
     (case Option.bind (lookup_go doc ''headers'') unmarshal_string_map of
        None \<Rightarrow> doc
      | Some headers \<Rightarrow> assign ''headers'' (marshal_string_map (map_option redacted headers)) doc)"

definition scrub_pair :: "raw_map option \<Rightarrow> raw_map option" where
  \<open>scrub_pair doc =
     assign ''response'' ''{"token":"REDACTED","user_id":"REDACTED"}'' (assign ''request'' ''{"code":"REDACTED"}'' doc)\<close>

definition scrub_field :: "(bytes \<Rightarrow> bytes option) \<Rightarrow> bytes \<Rightarrow> raw_map option \<Rightarrow> go_error + raw_map option" where
  "scrub_field number name doc =
     (case lookup_go doc name of
        None \<Rightarrow> Inr doc
      | Some body \<Rightarrow>
          (case scrubBodies number body of Inl e \<Rightarrow> Inl e | Inr scrubbed \<Rightarrow> Inr (assign name scrubbed doc)))"

definition emit_exchange :: "raw_map option \<Rightarrow> go_error + bytes" where
  "emit_exchange doc =
     (case MarshalIndent_go doc of
        Inl e \<Rightarrow> Inl e
      | Inr out \<Rightarrow>
          let leak = findSecretShapes out in
          if leak \<noteq> [] then Inl (OtherError (''refusing to emit a fixture containing '' @ leak
            @ ''; this capture has a shape the scrubber does not understand, so it must not be committed''))
          else Inr out)"

definition ScrubExchange :: "(bytes \<Rightarrow> bytes option) \<Rightarrow> bytes \<Rightarrow> go_error + bytes" where
  "ScrubExchange number raw =
     (case unmarshal_go_map raw of
        None \<Rightarrow> Inl (OtherError ''not a capture file'')
      | Some doc0 \<Rightarrow>
          let doc = scrub_headers doc0 in
          if stringField doc ''path'' = ''/pair'' then MarshalIndent_go (scrub_pair doc)
          else
            (case scrub_field number ''request'' doc of
               Inl e \<Rightarrow> Inl e
             | Inr doc1 \<Rightarrow>
                 (case scrub_field number ''response'' doc1 of
                    Inl e \<Rightarrow> Inl e
                  | Inr doc2 \<Rightarrow> emit_exchange doc2)))"

section \<open>The command\<close>

definition path_base :: "bytes \<Rightarrow> bytes" where
  "path_base path =
     (if path = [] then ''.''
      else
        let p = rev (dropWhile (\<lambda>c. c = CHR ''/'') (rev path)) in
        if p = [] then ''/'' else rev (takeWhile (\<lambda>c. c \<noteq> CHR ''/'') (rev p)))"

definition scrub_flags :: flag_set where
  "scrub_flags = [(''in'', VString []), (''out'', VString ''testdata/fixtures'')]"

definition fixtures_usage :: bytes where
  "fixtures_usage = ''usage: cmemlan fixtures scrub --in <dir> --out <dir>'' @ nl"

definition scrub_file :: "cli_env \<Rightarrow> (bytes \<Rightarrow> bytes option) \<Rightarrow> bytes \<Rightarrow> bytes \<Rightarrow> unit command" where
  "scrub_file env number out path =
     bindC (bindC (filesC (ReadFile (ce_os env) path)) (orDie env)) (\<lambda>raw.
       case ScrubExchange number raw of
         Inl e \<Rightarrow> dieC (path_base path @ '': '' @ ce_text env e)
       | Inr scrubbed \<Rightarrow>
           let dst = path_join [out, path_base path] in
           bindC (bindC (filesC (WriteFile (ce_os env) dst scrubbed unit_mode)) (orDie env)) (\<lambda>_.
             outC (''scrubbed '' @ dst @ nl)))"

fun scrub_files :: "cli_env \<Rightarrow> (bytes \<Rightarrow> bytes option) \<Rightarrow> bytes \<Rightarrow> bytes list \<Rightarrow> unit command" where
  "scrub_files env number out [] = returnC ()"
| "scrub_files env number out (path # paths) = bindC (scrub_file env number out path) (\<lambda>_. scrub_files env number out paths)"

text \<open>\<open>Glob\<close> for a directory whose name has none of the characters it gives a meaning to.\<close>

definition captures :: "cli_env \<Rightarrow> bytes \<Rightarrow> (go_error + bytes list) command" where
  "captures env dir =
     filesC (os_call (ce_os env) (\<lambda>now fs. (Inr (glob_within (butlast (path_join [dir, ''*''])) ''.json'' fs), fs)) untorn)"

definition runFixtures :: "cli_env \<Rightarrow> (bytes \<Rightarrow> bytes option) \<Rightarrow> bytes list \<Rightarrow> nat command" where
  "runFixtures env number args =
     (if args = [] \<or> hd args \<noteq> ''scrub'' then bindC (errC fixtures_usage) (\<lambda>_. returnC 2)
      else
        bindC (with_flags env ''fixtures scrub'' scrub_flags (tl args)) (\<lambda>(fl, _).
          if flag_string fl ''in'' = [] then bindC (errC (''cmemlan: --in is required'' @ nl)) (\<lambda>_. returnC 2)
          else
            bindC (captures env (flag_string fl ''in'')) (\<lambda>found.
              let entries = (case found of Inl _ \<Rightarrow> [] | Inr ps \<Rightarrow> ps) in
              if entries = [] then bindC (errC (''cmemlan: no captures found in '' @ flag_string fl ''in'' @ nl)) (\<lambda>_. exitC 1)
              else
                bindC (bindC (filesC (MkdirAll (ce_os env) (flag_string fl ''out''))) (orDie env)) (\<lambda>_.
                bindC (scrub_files env number (flag_string fl ''out'') entries) (\<lambda>_.
                bindC (outC (nl @ format_nat (length entries) @ '' fixtures written to '' @ flag_string fl ''out'' @ nl
                  @ ''Review them before committing: only scrubbed fixtures belong in the repository.'' @ nl)) (\<lambda>_. returnC 0))))))"

end
