(* ===== verification/Recorder.thy ===== *)
theory Recorder
  imports Fixtures PairCmd
begin

text \<open>
  \<open>internal/hub/record.go\<close>: capturing traffic. \<open>NewRecorder\<close> prepares the directory and refuses one
  inside a git work tree, which it looks for upwards; an exchange is printed with the fields of its struct
  in order, and written to a numbered file. What capturing does to the request is \<open>record_request\<close> in
  \<open>Hub\<close>.

  The walk upwards ends because the parent of a rooted path is shorter. The theorem at the end says what a
  recorder that was made tells about the directories above it.
\<close>

section \<open>The parent of a path\<close>

text \<open>The length of a path made of these parts, plus one.\<close>

definition parts_size :: "bytes list \<Rightarrow> nat" where
  "parts_size ps = sum_list (map (\<lambda>p. Suc (length p)) ps)"

lemma join_length: "ps \<noteq> [] \<Longrightarrow> Suc (length (join_with sep ps)) = parts_size ps"
  by (induction ps rule: join_with.induct) (simp_all add: parts_size_def)

lemma clean_parts_size: "parts_size (clean_parts rooted ps out) \<le> parts_size (filter (\<lambda>p. p \<noteq> []) ps) + parts_size out"
proof (induction rooted ps out rule: clean_parts.induct)
  case (1 rooted out)
  then show ?case by (simp add: parts_size_def rev_map [symmetric])
next
  case (2 rooted p ps out)
  then show ?case by (cases out) (auto simp: parts_size_def)
qed

lemma split_rooted: "is_rooted p \<Longrightarrow> \<exists>ps. split_on CHR ''/'' p = [] # ps \<and> parts_size ps = length p"
proof -
  assume "is_rooted p"
  then obtain cs where p: "p = CHR ''/'' # cs" by (auto simp: is_rooted_def neq_Nil_conv)
  then have "split_on CHR ''/'' p = [] # split_on CHR ''/'' cs" by simp
  moreover have "parts_size (split_on CHR ''/'' cs) = length p"
    using join_length [OF split_on_nonempty, of "CHR ''/''" "CHR ''/''" cs] by (simp add: join_split p)
  ultimately show ?thesis by blast
qed

lemma filter_size: "parts_size (filter P ps) \<le> parts_size ps"
  by (induction ps) (auto simp: parts_size_def)

lemma clean_length:
  assumes "is_rooted p" "split_on CHR ''/'' p = [] # ps"
  shows "length (path_clean p) \<le> max 1 (parts_size (filter (\<lambda>p. p \<noteq> []) ps))"
proof -
  let ?out = "clean_parts True (split_on CHR ''/'' p) []"
  have "parts_size ?out \<le> parts_size (filter (\<lambda>p. p \<noteq> []) ps)"
    using clean_parts_size [of True "split_on CHR ''/'' p" "[]"] assms(2) by (simp add: parts_size_def)
  moreover have "length (path_clean p) = max 1 (parts_size ?out)"
    using assms(1) join_length [of ?out "CHR ''/''"] by (cases "?out = []") (auto simp: path_clean_def Let_def parts_size_def)
  ultimately show ?thesis by simp
qed

lemma split_snoc: "split_on sep (u @ [sep]) = split_on sep u @ [[]]"
  by (induction u) (auto split: list.splits)

lemma clean_rooted: "is_rooted t \<Longrightarrow> is_rooted (path_clean t)"
  by (simp add: path_clean_def Let_def is_rooted_def)

lemma parent_split:
  assumes "is_rooted p"
  obtains u w where "p = u @ ''/'' @ w" "path_dir p = path_clean (u @ ''/'')" "is_rooted (u @ ''/'')"
proof -
  have slash: "CHR ''/'' \<in> set (rev p)" using assms by (cases p) (auto simp: is_rooted_def)
  then obtain w u where w: "rev p = w @ CHR ''/'' # u" "CHR ''/'' \<notin> set w" by (meson split_list_first)
  then have "dropWhile (\<lambda>c. c \<noteq> CHR ''/'') (rev p) = CHR ''/'' # u" by (auto simp: dropWhile_append)
  then have dir: "path_dir p = path_clean (rev u @ ''/'')" by (simp add: path_dir_def)
  have p: "p = rev u @ ''/'' @ rev w" using arg_cong [OF w(1), of rev] by simp
  then have "is_rooted (rev u @ ''/'')" using assms by (cases "rev u") (auto simp: is_rooted_def)
  with p dir that show thesis by blast
qed

lemma parent_rooted: "is_rooted p \<Longrightarrow> is_rooted (path_dir p)"
  by (erule parent_split) (simp add: clean_rooted)

lemma parent_shorter:
  assumes "is_rooted p" "path_dir p \<noteq> p"
  shows "length (path_dir p) < length p"
proof -
  obtain u w where p: "p = u @ ''/'' @ w" and dir: "path_dir p = path_clean (u @ ''/'')" and root: "is_rooted (u @ ''/'')"
    using parent_split [OF assms(1)] .
  show ?thesis
  proof (cases "u = []")
    case True
    then have "path_clean (u @ ''/'') = ''/''" by (simp add: path_clean_def is_rooted_def)
    with dir assms(2) p True show ?thesis by (cases w) auto
  next
    case False
    then have "is_rooted u" using root by (auto simp: is_rooted_def)
    then obtain ps where ps: "split_on CHR ''/'' u = [] # ps" "parts_size ps = length u" using split_rooted by blast
    then have "split_on CHR ''/'' (u @ ''/'') = [] # (ps @ [[]])" by (simp add: split_snoc)
    from clean_length [OF root this] have "length (path_clean (u @ ''/'')) \<le> max 1 (parts_size (filter (\<lambda>p. p \<noteq> []) ps))" by simp
    also have "\<dots> \<le> length u" using filter_size [of "\<lambda>p. p \<noteq> []" ps] ps(2) False by (cases u) auto
    finally show ?thesis using dir p by simp
  qed
qed

section \<open>NewRecorder\<close>

record recorder =
  rec_dir :: bytes
  rec_n :: nat

text \<open>\<open>filepath.Abs\<close>: the working directory is the surroundings'.\<close>

definition path_abs :: "go_error + bytes \<Rightarrow> bytes \<Rightarrow> go_error + bytes" where
  "path_abs cwd path =
     (if is_rooted path then Inr (path_clean path)
      else case cwd of Inl e \<Rightarrow> Inl e | Inr wd \<Rightarrow> Inr (path_join [wd, path]))"

text \<open>The loop of \<open>insideGitWorkTree\<close>. An absolute path is rooted, so the second test never ends it early.\<close>

function git_root :: "os_env \<Rightarrow> bytes \<Rightarrow> (files, bytes option) action" where
  "git_root env dir =
     bindI (tryI (Stat env (path_join [dir, ''.git'']))) (\<lambda>r. case r of
       Inr _ \<Rightarrow> returnI (Some dir)
     | Inl _ \<Rightarrow> if path_dir dir = dir \<or> \<not> is_rooted dir then returnI None else git_root env (path_dir dir))"
  by pat_completeness auto
termination
  by (relation "measure (\<lambda>(env, dir). length dir)") (auto intro: parent_shorter)

declare git_root.simps [simp del]

text \<open>\<open>insideGitWorkTree\<close>: the root, if there is one.\<close>

definition insideGitWorkTree :: "os_env \<Rightarrow> go_error + bytes \<Rightarrow> bytes \<Rightarrow> (files, bytes option) action" where
  "insideGitWorkTree env cwd dir =
     (case path_abs cwd dir of Inl _ \<Rightarrow> returnI None | Inr d \<Rightarrow> git_root env d)"

text \<open>The modes of directories are not in the model, so \<open>Chmod\<close> of one is a call that may fail.\<close>

definition NewRecorder :: "os_env \<Rightarrow> proc_env \<Rightarrow> go_error + bytes \<Rightarrow> bytes \<Rightarrow> (files, recorder) action" where
  "NewRecorder env proc cwd dir =
     bindI (tryI (MkdirAll env dir)) (\<lambda>r. case r of
       Inl e \<Rightarrow> failI (OtherError ''hub: creating the capture directory'')
     | Inr _ \<Rightarrow>
         bindI (os_call env (\<lambda>now fs. (Inr (), fs)) untorn) (\<lambda>_.
         bindI (insideGitWorkTree env cwd dir) (\<lambda>root.
           if root \<noteq> None \<and> pv_getenv proc ''CMEMLAN_RECORD_IN_REPO'' \<noteq> ''1''
           then failI (OtherError (''hub: refusing to capture inside the git work tree at '' @ the root))
           else returnI \<lparr>rec_dir = dir, rec_n = 0\<rparr>)))"

section \<open>Exchanges\<close>

text \<open>An empty request or response is left out of the file.\<close>

record exchange =
  ex_method :: bytes
  ex_path :: bytes
  ex_query :: bytes
  ex_headers :: "(bytes \<times> bytes) list"
  ex_request :: bytes
  ex_status :: nat
  ex_response :: bytes

definition exchange_fields :: "exchange \<Rightarrow> raw_map" where
  "exchange_fields e =
     [(''method'', marshal_string (ex_method e)), (''path'', marshal_string (ex_path e)), (''query'', marshal_string (ex_query e)),
      (''headers'', marshal_string_map (Some (ex_headers e)))]
     @ (if ex_request e \<noteq> [] then [(''request'', ex_request e)] else [])
     @ [(''status'', format_nat (ex_status e))]
     @ (if ex_response e \<noteq> [] then [(''response'', ex_response e)] else [])"

definition marshal_exchange :: "exchange \<Rightarrow> bytes option" where
  "marshal_exchange e =
     (case marshal_members True (exchange_fields e) of None \<Rightarrow> None | Some t \<Rightarrow> Indent ''  '' (''{'' @ t @ ''}''))"

definition padded :: "nat \<Rightarrow> bytes" where
  "padded n = replicate (4 - length (format_nat n)) CHR ''0'' @ format_nat n"

definition Recorder_write :: "os_env \<Rightarrow> recorder \<Rightarrow> exchange \<Rightarrow> (files, recorder) action" where
  "Recorder_write env r e =
     (let r' = r\<lparr>rec_n := rec_n r + 1\<rparr>; name = path_join [rec_dir r, ''exchange-'' @ padded (rec_n r') @ ''.json''] in
      case marshal_exchange e of
        None \<Rightarrow> returnI r'
      | Some b \<Rightarrow> bindI (tryI (WriteFile env name b private_mode)) (\<lambda>_. returnI r'))"

definition captured_names :: "bytes list" where
  "captured_names = [''Authorization'', ''X-User-Id'', ''X-Device-Id'', ''X-Device-Name'', ''Content-Type'']"

text \<open>\<open>json.Valid\<close>, and the body that is captured when it is.\<close>

definition valid_or_none :: "bytes \<Rightarrow> bytes" where
  "valid_or_none b = (if whole_value b = None then [] else b)"

text \<open>The exchange of a request, as it was sent, with its answer.\<close>

definition captured :: "server \<Rightarrow> request \<Rightarrow> bytes \<Rightarrow> response \<Rightarrow> exchange" where
  "captured s r rawQuery resp =
     \<lparr>ex_method = rq_method r, ex_path = rq_path r, ex_query = rawQuery,
      ex_headers = map (\<lambda>k. (k, header_of r k)) (filter (\<lambda>k. header_of r k \<noteq> []) captured_names),
      ex_request = valid_or_none (take (nat (opt_MaxRequestBytes (srv_opts s))) (rq_body r)),
      ex_status = resp_status resp, ex_response = valid_or_none (resp_body resp)\<rparr>"

definition record_exchange :: "os_env \<Rightarrow> recorder \<Rightarrow> server \<Rightarrow> handler \<Rightarrow> req_ctx \<Rightarrow> request \<Rightarrow> bytes \<Rightarrow> hub_state
    \<Rightarrow> (response \<times> hub_state) \<times> (files, recorder) action" where
  "record_exchange env rc s next_handler ctx r rawQuery st =
     (let (resp, st') = record_request s next_handler ctx r st in
      ((resp, st'), Recorder_write env rc (captured s r rawQuery resp)))"

section \<open>Outside work trees\<close>

lemma parents_of_root: "path_dir dir = dir \<Longrightarrow> (path_dir ^^ n) dir = dir"
  by (induction n) auto

lemma git_root_finds:
  assumes "smooth cli" "is_rooted dir"
  shows "\<exists>k' root. git_root (ce_os cli) dir (k, fs) = (Inr root, k', fs)
    \<and> (root = None \<longleftrightarrow> (\<forall>n. map_of fs (path_join [(path_dir ^^ n) dir, ''.git'']) = None))"
  using assms(2)
proof (induction "ce_os cli" dir arbitrary: k rule: git_root.induct)
  case (1 dir)
  note sm = smooth_call [OF assms(1)]
  let ?here = "map_of fs (path_join [dir, ''.git''])"
  have step: "git_root (ce_os cli) dir (k, fs) =
      (if ?here \<noteq> None then (Inr (Some dir), Suc k, fs)
       else if path_dir dir = dir then (Inr None, Suc k, fs) else git_root (ce_os cli) (path_dir dir) (Suc k, fs))"
    using 1(2) by (subst git_root.simps) (auto simp: bindI_def tryI_def Stat_def look_up_def sm returnI_def)
  have unfold: "(\<forall>n. P ((path_dir ^^ n) dir)) \<longleftrightarrow> P dir \<and> (\<forall>n. P ((path_dir ^^ n) (path_dir dir)))" for P
    by (metis (no_types, lifting) funpow_0 funpow_swap1 funpow_simps_right(2) not0_implies_Suc comp_apply)
  consider "?here \<noteq> None" | "?here = None" "path_dir dir = dir" | "?here = None" "path_dir dir \<noteq> dir" by blast
  then show ?case
  proof cases
    case 1
    then have "\<not> (\<forall>n. map_of fs (path_join [(path_dir ^^ n) dir, ''.git'']) = None)" by (metis funpow_0)
    with 1 show ?thesis unfolding step by auto
  next
    case 2
    then show ?thesis unfolding step by (simp add: parents_of_root)
  next
    case 3
    then have up: "\<not> (path_dir dir = dir \<or> \<not> is_rooted dir)" using 1(2) by simp
    from 3 1(1) [OF up parent_rooted [OF 1(2)], of "Suc k"]
    show ?thesis unfolding step unfold [of "\<lambda>d. map_of fs (path_join [d, ''.git'']) = None"] by simp
  qed
qed

text \<open>
  No capture lands in a work tree unasked. Without the override, a recorder is made only for a directory such
  that neither it nor any directory above it, up to the root, has a \<open>.git\<close> entry; and it is made in every
  such directory.
\<close>

theorem recorder_outside_work_trees:
  assumes "smooth cli" "pv_getenv proc ''CMEMLAN_RECORD_IN_REPO'' \<noteq> ''1''" "path_abs cwd dir = Inr abs_dir" "is_rooted abs_dir"
  shows "(\<exists>k' fs'. NewRecorder (ce_os cli) proc cwd dir (k, fs) = (Inr \<lparr>rec_dir = dir, rec_n = 0\<rparr>, k', fs'))
    \<longleftrightarrow> (\<forall>n. map_of fs (path_join [(path_dir ^^ n) abs_dir, ''.git'']) = None)"
proof -
  note sm = smooth_call [OF assms(1)]
  obtain k' root where r: "git_root (ce_os cli) abs_dir (Suc (Suc k), fs) = (Inr root, k', fs)"
    "root = None \<longleftrightarrow> (\<forall>n. map_of fs (path_join [(path_dir ^^ n) abs_dir, ''.git'']) = None)"
    using git_root_finds [OF assms(1,4), of "Suc (Suc k)" fs] by (elim exE conjE) (rule that)
  have mk: "tryI (MkdirAll (ce_os cli) dir) (k, fs) = (Inr (Inr ()), Suc k, fs)" by (simp add: tryI_def MkdirAll_def sm)
  have chmod: "os_call (ce_os cli) (\<lambda>now fs. (Inr (), fs)) untorn (Suc k, fs) = (Inr (), Suc (Suc k), fs)" by (simp add: sm)
  have inside: "insideGitWorkTree (ce_os cli) cwd dir (Suc (Suc k), fs) = (Inr root, k', fs)"
    using r(1) assms(3) by (simp add: insideGitWorkTree_def)
  have "NewRecorder (ce_os cli) proc cwd dir (k, fs) =
      (if root = None then (Inr \<lparr>rec_dir = dir, rec_n = 0\<rparr>, k', fs)
       else (Inl (OtherError (''hub: refusing to capture inside the git work tree at '' @ the root)), k', fs))"
    using assms(2)
    by (simp add: NewRecorder_def bindI_def mk chmod inside returnI_def failI_def)
  with r(2) show ?thesis by auto
qed

end
