(* ===== verification/Run.thy ===== *)
theory Run
  imports Serve Recorder
begin

text \<open>
  \<open>internal/cli/cli.go\<close> and \<open>cmd/cmemlan/main.go\<close>: the dispatch over the modelled commands. What the flag
  package needs, the surroundings and the rounds of the run lock are arguments; the recorder of \<open>serve\<close>
  is that of \<open>Recorder\<close>.

  The theorems: whatever the command line, the exit code is 0, 1 or 2, and 2 is for the command line alone:
  nothing but the terminal was touched; and no hub serves but a guarded one.
\<close>

section \<open>Dispatch\<close>

definition usage :: bytes where
  \<open>usage = ''cmemlan '' @ dash @ '' self-hosted LAN sync for claude-mem'' @ nl @ nl
     @ lines_text
         [''Usage:'', ''  cmemlan <command> [flags]'', [], ''Hub commands:'', ''  serve          run the hub'',
          ''  pair           open a pairing window and print a code'',
          ''  devices        list devices that have contacted this hub'',
          ''  revoke <id>    deny a device further access'', ''  rotate-token   replace the pre-shared key'', [],
          ''Client commands:'', ''  connect [url]  point this machine's claude-mem at a hub'',
          ''  backfill       queue existing memories for upload'', ''  status         show sync state'',
          ''  doctor         diagnose sync problems'', [], ''  version        print the version'', [],
          ''Run "cmemlan <command> -h" for command flags.'']\<close>

definition start_recorder :: "serve_env \<Rightarrow> go_error + bytes \<Rightarrow> bytes \<Rightarrow> unit command" where
  "start_recorder env cwd dir =
     (let cli = se_cli env in
      bindC (bindC (filesC (NewRecorder (ce_os cli) (ce_proc cli) cwd dir)) (orDie cli)) (\<lambda>_. returnC ()))"

text \<open>A command that ends has an exit code.\<close>

definition ended :: "nat command \<Rightarrow> nat option command" where
  "ended m = bindC m (\<lambda>code. returnC (Some code))"

definition Run :: "nat \<Rightarrow> serve_env \<Rightarrow> go_error + bytes \<Rightarrow> (running \<Rightarrow> world \<Rightarrow> go_error option) \<Rightarrow> (bytes \<Rightarrow> bytes option)
    \<Rightarrow> bytes list \<Rightarrow> nat option command" where
  "Run rounds env cwd served number args =
     (let cli = se_cli env in
      case args of
        [] \<Rightarrow> ended (bindC (errC usage) (\<lambda>_. returnC 2))
      | cmd # rest \<Rightarrow>
          if cmd \<in> {''version'', ''-v'', ''--version''}
          then ended (bindC (outC (buildinfo_String (ce_version cli) @ nl)) (\<lambda>_. returnC 0))
          else if cmd \<in> {''help'', ''-h'', ''--help''} then ended (bindC (outC usage) (\<lambda>_. returnC 0))
          else if cmd = ''serve'' then runServe rounds env served (start_recorder env cwd) rest
          else if cmd = ''pair'' then ended (runPair cli rest)
          else if cmd = ''devices'' then ended (runDevices cli rest)
          else if cmd = ''revoke'' then ended (runRevoke cli rest)
          else if cmd = ''rotate-token'' then ended (runRotateToken cli rest)
          else if cmd = ''connect'' then ended (runConnect cli rest)
          else if cmd = ''backfill'' then ended (runBackfill cli rest)
          else if cmd = ''status'' then ended (runStatus cli rest)
          else if cmd = ''doctor'' then ended (runDoctor cli rest)
          else if cmd = ''fixtures'' then ended (runFixtures cli number rest)
          else ended (bindC (errC (''cmemlan: unknown command '' @ Quote (ce_printable cli) cmd @ nl @ nl @ usage)) (\<lambda>_. returnC 2)))"

text \<open>\<open>main\<close>: the process's arguments without the program's name, and no override of the data directory or the hub client.\<close>

definition main :: "nat \<Rightarrow> serve_env \<Rightarrow> go_error + bytes \<Rightarrow> (running \<Rightarrow> world \<Rightarrow> go_error option) \<Rightarrow> (bytes \<Rightarrow> bytes option)
    \<Rightarrow> bytes list \<Rightarrow> nat option command" where
  "main rounds env cwd served number argv =
     Run rounds (env\<lparr>se_cli := (se_cli env)\<lparr>ce_data_dir := [], ce_hub := None\<rparr>\<rparr>) cwd served number (tl argv)"

section \<open>Working commands\<close>

text \<open>Past the command line a command ends with 0 or 1.\<close>

definition worked :: "nat \<Rightarrow> bool" where
  "worked code \<longleftrightarrow> code = 0 \<or> code = 1"

lemma worked_codes [simp]: "worked 0" "worked 1" "worked (Suc 0)"
  by (simp_all add: worked_def)

abbreviation works :: "('a \<Rightarrow> bool) \<Rightarrow> 'a command \<Rightarrow> bool" where
  "works \<equiv> exits worked"

lemma works_die: "works Q (dieC s)"
  by (rule exits_die) simp

lemma works_step:
  "works (\<lambda>_. True) (storeC dir a)" "works (\<lambda>_. True) (pairC dir b)"
  by (simp_all add: exits_def storeC_def pairC_def split: prod.splits)

lemma works_orDie: "works (\<lambda>_. True) (orDie env r)"
  by (cases r) (simp_all add: orDie_def works_die exits_intros)

lemma works_orDieP: "works (\<lambda>_. True) (orDieP env r)"
  by (cases r) (simp_all add: orDieP_def works_die exits_intros)

lemmas works_intros = exits_bind [where Q = "\<lambda>_. True"] exits_intros(1-4) works_step works_orDie works_orDieP works_die
  exits_intros(5,6)

named_theorems works_parts \<open>the parts of the commands\<close>

lemma works_helpers [works_parts]:
  "works (\<lambda>_. True) (open_store env dir)" "works (\<lambda>_. True) (openC env p)" "works (\<lambda>_. True) (worker_running env p)"
  "works (\<lambda>_. True) (shadowingKeys env p)" "works (\<lambda>_. True) (doctor_read env)" "works (\<lambda>_. True) (excludedProjects env)"
  unfolding open_store_def openC_def worker_running_def shadowingKeys_def doctor_read_def excludedProjects_def
  by (auto intro!: works_intros split: sum.split)

lemma works_database [works_parts]:
  "works (\<lambda>_. True) (status_database env)" "works (\<lambda>_. True) (doctor_shadow env)" "works (\<lambda>_. True) (doctor_database env p)"
  unfolding status_database_def doctor_shadow_def doctor_database_def
  by (auto intro!: works_intros works_parts split: sum.split)

lemma works_doctor [works_parts]: "works worked (doctor_checks env p)"
  unfolding doctor_checks_def doctor_verdict_def
  by (auto intro!: works_intros works_parts split: prod.split)

lemma works_restart [works_parts]: "works (\<lambda>_. True) (connect_restart env)"
  unfolding connect_restart_def restartWorker_def findWorkerScripts_def
  by (auto simp: Let_def intro!: works_intros split: sum.split prod.split option.split)

lemma works_write [works_parts]: "works worked (connect_write env fl path url token user)"
  unfolding connect_write_def connect_report_def
  by (auto intro!: works_intros works_parts)

lemma works_undo [works_parts]: "works worked (connect_undo env path)" "works worked (backfill_undo env)"
  unfolding connect_undo_def backfill_undo_def by (auto intro!: works_intros)

lemma works_backfill [works_parts]: "works worked (backfill_run env p opts)"
  unfolding backfill_run_def by (auto intro!: works_intros works_parts)

lemma works_service [works_parts]: "works worked (runService env f dir)"
  unfolding runService_def runService_linux_def runService_darwin_def service_remove_def service_write_def
  by (auto simp: Let_def intro!: works_intros split: sum.split prod.split option.split goos.split)

lemma works_scrub [works_parts]: "works (\<lambda>_. True) (scrub_files env number out paths)"
proof (induction paths)
  case (Cons path paths)
  have "works (\<lambda>_. True) (scrub_file env number out path)"
    unfolding scrub_file_def by (auto simp: Let_def intro!: works_intros split: sum.split)
  with Cons show ?case by (auto intro!: works_intros)
qed (simp add: exits_intros)

section \<open>Tidy commands\<close>

text \<open>What a command can change, the terminal and the count of calls aside.\<close>

definition kept_state :: "world \<Rightarrow> files \<times> (bytes \<Rightarrow> hub_dir) \<times> cdb" where
  "kept_state w = (w_files w, w_dirs w, w_mem w)"

text \<open>
  A command is tidy when its exit code is 0 or 1, or 2 with nothing changed; \<open>g\<close> reads the code off the value
  a command goes on with.
\<close>

definition code_of :: "('a \<Rightarrow> nat option) \<Rightarrow> nat + 'a \<Rightarrow> nat option" where
  "code_of g r = (case r of Inl code \<Rightarrow> Some code | Inr x \<Rightarrow> g x)"

definition tidy :: "('a \<Rightarrow> nat option) \<Rightarrow> 'a command \<Rightarrow> bool" where
  "tidy g m \<longleftrightarrow>
     (\<forall>w r w' code. m w = (r, w') \<longrightarrow> code_of g r = Some code \<longrightarrow> worked code \<or> (code = 2 \<and> kept_state w' = kept_state w))"

lemma tidyD: "tidy g m \<Longrightarrow> m w = (r, w') \<Longrightarrow> code_of g r = Some code \<Longrightarrow> worked code \<or> (code = 2 \<and> kept_state w' = kept_state w)"
  unfolding tidy_def by blast

lemma exitsD: "exits P Q m \<Longrightarrow> m w = (r, w') \<Longrightarrow> (case r of Inl code \<Rightarrow> P code | Inr x \<Rightarrow> Q x)"
  unfolding exits_def by (metis fst_conv)

lemma tidy_works:
  assumes "works (\<lambda>x. pred_option worked (g x)) m"
  shows "tidy g m"
  unfolding tidy_def
proof (intro allI impI disjI1)
  fix w r w' code
  assume m: "m w = (r, w')" and "code_of g r = Some code"
  with exitsD [OF assms m] show "worked code" by (cases r) (auto simp: code_of_def)
qed

lemma tidy_nat: "works worked m \<Longrightarrow> tidy Some m"
  by (rule tidy_works) simp

lemma tidy_bind:
  assumes "keeps kept_state m" "exits (\<lambda>code. code \<le> 2) Q m" "\<And>x. Q x \<Longrightarrow> tidy g (f x)"
  shows "tidy g (bindC m f)"
  unfolding tidy_def
proof (intro allI impI)
  fix w r w' code
  assume run: "bindC m f w = (r, w')" and code: "code_of g r = Some code"
  obtain r1 w1 where m: "m w = (r1, w1)" by fastforce
  have kept: "kept_state w1 = kept_state w" using keepsD [OF assms(1) m] .
  show "worked code \<or> (code = 2 \<and> kept_state w' = kept_state w)"
  proof (cases r1)
    case (Inl c)
    then have "r = Inl c" "w' = w1" using run m by (simp_all add: bindC_def)
    moreover have "c \<le> 2" using exitsD [OF assms(2) m] Inl by simp
    ultimately show ?thesis using code kept by (auto simp: code_of_def worked_def)
  next
    case (Inr x)
    then have "f x w1 = (r, w')" using run m by (simp add: bindC_def)
    moreover have "Q x" using exitsD [OF assms(2) m] Inr by simp
    ultimately show ?thesis using tidyD [OF assms(3) _ code] kept by metis
  qed
qed

lemma keeps_terminal: "keeps kept_state (outC s)" "keeps kept_state (errC s)" "keeps kept_state (orDie env r)" "keeps kept_state (with_flags cli cmd fl args)"
  "keeps kept_state (dieC t)"
  by (simp_all add: keeps_def kept_state_def outC_def errC_def orDie_def dieC_def with_flags_def bindC_def exitC_def returnC_def
      split: sum.split)

lemma tidy_flags: "(\<And>fl pos. tidy g (f (fl, pos))) \<Longrightarrow> tidy g (bindC (with_flags env cmd fl args) f)"
  by (rule tidy_bind [OF keeps_terminal(4) exits_flags]) auto

lemma tidy_orDie: "(\<And>x. tidy g (f x)) \<Longrightarrow> tidy g (bindC (orDie env r) f)"
  by (rule tidy_bind [OF keeps_terminal(3) exits_orDie]) auto

lemma tidy_print: "tidy g (f ()) \<Longrightarrow> tidy g (bindC (outC s) f)" "tidy g (f ()) \<Longrightarrow> tidy g (bindC (errC s) f)"
  by (rule tidy_bind [OF keeps_terminal(1) exits_intros(1)], simp, rule tidy_bind [OF keeps_terminal(2) exits_intros(2)], simp)

lemma tidy_two: "tidy g (exitC 2)" "tidy Some (returnC 2)"
  by (simp_all add: tidy_def code_of_def exitC_def returnC_def)

lemma tidy_ended: "tidy Some m \<Longrightarrow> tidy id (ended m)"
  unfolding tidy_def ended_def bindC_def returnC_def
  by (auto simp: code_of_def split: prod.splits sum.splits)

section \<open>Every command is tidy\<close>

lemma tidy_pair: "tidy Some (runPair env args)"
  unfolding runPair_def by (rule tidy_flags, rule tidy_nat) (auto intro!: works_intros split: prod.split)

lemma tidy_devices: "tidy Some (runDevices env args)"
  unfolding runDevices_def by (rule tidy_flags, rule tidy_nat) (auto intro!: works_intros works_parts split: prod.split)

lemma tidy_if: "(b \<Longrightarrow> tidy g m) \<Longrightarrow> (\<not> b \<Longrightarrow> tidy g m') \<Longrightarrow> tidy g (if b then m else m')"
  by simp

lemma tidy_usage: "tidy g (bindC (errC s) (\<lambda>_. exitC 2))" "tidy Some (bindC (errC s) (\<lambda>_. returnC 2))"
  by (intro tidy_print(2) tidy_two)+

lemma tidy_revoke: "tidy Some (runRevoke env args)"
  unfolding runRevoke_def
  by (rule tidy_flags, unfold prod.case, rule tidy_if [OF tidy_usage(1)], rule tidy_nat) (auto intro!: works_intros works_parts)

lemma tidy_rotate: "tidy Some (runRotateToken env args)"
  unfolding runRotateToken_def by (rule tidy_flags, rule tidy_nat) (auto intro!: works_intros split: prod.split)

lemma tidy_backfill: "tidy Some (runBackfill env args)"
  unfolding runBackfill_def by (rule tidy_flags, rule tidy_nat) (auto intro!: works_intros works_parts split: prod.split)

lemma tidy_status: "tidy Some (runStatus env args)"
  unfolding runStatus_def
  by (rule tidy_flags, rule tidy_nat) (auto simp: Let_def intro!: works_intros works_parts split: sum.split)

lemma tidy_doctor: "tidy Some (runDoctor env args)"
  unfolding runDoctor_def
  by (rule tidy_flags, rule tidy_nat) (auto simp: Let_def intro!: works_intros works_parts split: sum.split)

lemma tidy_connect: "tidy Some (runConnect env args)"
  unfolding runConnect_def
proof (rule tidy_flags, unfold prod.case, rule tidy_orDie, rule tidy_if)
  fix fl pos path
  show "tidy Some (connect_undo env path)" by (rule tidy_nat) (rule works_parts)
  have url: "keeps kept_state (connect_url env code pos)" "exits (\<lambda>code. code \<le> 2) (\<lambda>_. True) (connect_url env code pos)" for code
    unfolding connect_url_def discoverHub_def
    by (auto intro!: keeps_intros keeps_terminal exits_intros exits_bind [where Q = "\<lambda>_. True"] exits_die split: list.split sum.split
        simp: orDie_def)
  have cred: "keeps kept_state (connect_credentials env fl u)" "exits (\<lambda>code. code \<le> 2) (\<lambda>_. True) (connect_credentials env fl u)" for u
    unfolding connect_credentials_def
    by (auto intro!: keeps_intros keeps_terminal exits_intros exits_bind [where Q = "\<lambda>_. True"] exits_die split: sum.split
        simp: orDie_def)
  show "tidy Some (bindC (connect_url env (flag_string fl ''code'') pos) (connect_to env fl path))"
  proof (rule tidy_bind [OF url])
    fix u
    show "tidy Some (connect_to env fl path u)"
      unfolding connect_to_def
      by (rule tidy_if [OF tidy_usage(1)], rule tidy_bind [OF cred])
        (auto simp: Let_def intro!: tidy_nat works_intros works_parts split: prod.split)
  qed
qed

lemma tidy_fixtures: "tidy Some (runFixtures env number args)"
  unfolding runFixtures_def
proof (rule tidy_if [OF tidy_usage(2)], rule tidy_flags, unfold prod.case, rule tidy_if [OF tidy_usage(2)], rule tidy_nat)
  fix fl
  show "works worked (bindC (captures env (flag_string fl ''in'')) (\<lambda>found.
      let entries = (case found of Inl _ \<Rightarrow> [] | Inr ps \<Rightarrow> ps) in
      if entries = [] then bindC (errC (''cmemlan: no captures found in '' @ flag_string fl ''in'' @ nl)) (\<lambda>_. exitC 1)
      else
        bindC (bindC (filesC (MkdirAll (ce_os env) (flag_string fl ''out''))) (orDie env)) (\<lambda>_.
        bindC (scrub_files env number (flag_string fl ''out'') entries) (\<lambda>_.
        bindC (outC (nl @ format_nat (length entries) @ '' fixtures written to '' @ flag_string fl ''out'' @ nl
          @ ''Review them before committing: only scrubbed fixtures belong in the repository.'' @ nl)) (\<lambda>_. returnC 0)))))"
    unfolding captures_def by (auto simp: Let_def intro!: works_intros works_parts split: sum.split)
qed

lemma works_finally: "works Q m \<Longrightarrow> works Q (finallyC m c)"
  unfolding exits_def finallyC_def by (simp add: case_prod_unfold)

lemma works_start [works_parts]:
  "works (\<lambda>_. True) (start_recorder env cwd dir)" "works (\<lambda>_. True) (serve_bind env f)" "works (\<lambda>_. True) (serve_peers env f)"
  unfolding start_recorder_def serve_bind_def serve_peers_def
  by (auto simp: Let_def intro!: works_intros split: sum.split option.split)

lemma works_until: "works worked (serve_until env served h)"
proof -
  have "works worked (dieC s)" "works worked (returnC 0)" for s by (auto intro!: works_intros)
  then show ?thesis unfolding exits_def serve_until_def by (simp split: option.split)
qed

lemma works_serve [works_parts]: "works (pred_option worked) (serve_checked rounds env served (start_recorder env cwd) f dir)"
proof -
  have "works (\<lambda>_. True) (serve_open env (start_recorder env cwd) f dir)"
    unfolding serve_open_def by (auto simp: Let_def intro!: works_intros works_parts)
  then have start: "works (\<lambda>_. True) (serve_start env (start_recorder env cwd) f dir addr prefixes)" for addr prefixes
    unfolding serve_start_def by (auto intro!: works_intros split: prod.split option.split)
  have "works worked (bindC (serve_start env (start_recorder env cwd) f dir addr prefixes) (serve_until env served))" for addr prefixes
    by (rule exits_bind [OF start]) (rule works_until)
  then have "works worked (serve_locked env served (start_recorder env cwd) f dir addr prefixes)" for addr prefixes
    unfolding serve_locked_def by (rule works_finally)
  then have "works (pred_option worked) (bindC (serve_locked env served (start_recorder env cwd) f dir addr prefixes) (\<lambda>code. returnC (Some code)))"
    for addr prefixes
    by (rule exits_bind) (simp add: exits_intros)
  then show ?thesis
    unfolding serve_checked_def by (auto intro!: works_intros works_parts split: option.split)
qed

lemma tidy_serve: "tidy id (runServe rounds env served (start_recorder env cwd) args)"
proof -
  have service: "works (pred_option worked) (bindC (runService env f dir) (\<lambda>code. returnC (Some code)))" for f dir
    by (rule exits_bind [OF works_service]) (simp add: exits_intros)
  show ?thesis
    unfolding runServe_def Let_def
    by (rule tidy_flags, unfold prod.case, rule tidy_orDie, rule tidy_if; rule tidy_works) (simp_all add: service works_serve)
qed

lemma tidy_Run: "tidy id (Run rounds env cwd served number args)"
proof -
  have shown: "tidy Some (bindC (outC t) (\<lambda>_. returnC 0))" for t by (rule tidy_nat) (auto intro!: works_intros)
  note rules = tidy_if tidy_serve tidy_ended shown tidy_pair tidy_devices tidy_revoke tidy_rotate tidy_connect tidy_backfill
    tidy_status tidy_doctor tidy_fixtures tidy_usage(2)
  show ?thesis unfolding Run_def Let_def by (cases args; simp only: list.case; intro rules)
qed

text \<open>
  C40: Exit codes mean what the documentation of the commands says. Whatever the command line, the surroundings
  and the failures, the program ends with 0, 1 or 2; and when it ends with 2, a complaint about the command
  line, no file, no data directory of a hub and no database was touched.
\<close>

theorem exit_two_touches_nothing:
  assumes "Run rounds env cwd served number args w = (r, w')" "r = Inl code \<or> r = Inr (Some code)"
  shows "code \<le> 2 \<and> (code = 2 \<longrightarrow> w_files w' = w_files w \<and> w_dirs w' = w_dirs w \<and> w_mem w' = w_mem w)"
proof -
  have "code_of id r = Some code" using assms(2) by (auto simp: code_of_def)
  from tidyD [OF tidy_Run assms(1) this] show ?thesis by (auto simp: worked_def kept_state_def)
qed

theorem exit_two_touches_nothing_witness:
  "\<exists>w'. Run 2 sample_serve (Inr ''/'') (\<lambda>_ _. None) Some [''fixtures''] (world_of [] sample_cdb \<lparr>hd_db = new_db, hd_pair = paired_dir\<rparr>)
      = (Inr (Some 2), w') \<and> w_files w' = [] \<and> w_mem w' = sample_cdb"
proof -
  let ?w = "world_of [] sample_cdb \<lparr>hd_db = new_db, hd_pair = paired_dir\<rparr>"
  let ?w' = "?w\<lparr>w_err := w_err ?w @ fixtures_usage\<rparr>"
  have run: "Run 2 sample_serve (Inr ''/'') (\<lambda>_ _. None) Some [''fixtures''] ?w = (Inr (Some 2), ?w')"
    by (simp add: Run_def ended_def runFixtures_def bindC_def errC_def returnC_def)
  from exit_two_touches_nothing [OF run, of 2] run show ?thesis by (simp add: world_of_def)
qed

section \<open>Only guarded hubs serve\<close>

text \<open>An action on the files that changes none of them.\<close>

definition calm :: "(files, 'a) action \<Rightarrow> bool" where
  "calm m \<longleftrightarrow> (\<forall>st. snd (snd (m st)) = snd st)"

lemma calmD: "calm m \<Longrightarrow> m (k, fs) = (r, k', fs') \<Longrightarrow> fs' = fs"
  by (metis calm_def snd_conv)

lemma calm_simple: "calm (returnI x)" "calm (failI e)"
  by (simp_all add: calm_def returnI_def failI_def)

lemma calm_bind: "calm m \<Longrightarrow> (\<And>x. calm (f x)) \<Longrightarrow> calm (bindI m f)"
  by (auto simp: calm_def bindI_def split: prod.splits sum.splits) (metis snd_conv)+

lemma calm_try: "calm m \<Longrightarrow> calm (tryI m)"
  by (auto simp: calm_def tryI_def split: prod.splits) (metis snd_conv)

lemma calm_call: "os_other env = (\<lambda>_ fs. fs) \<Longrightarrow> (\<And>now fs. snd (f now fs) = fs) \<Longrightarrow> calm (os_call env f untorn)"
  by (auto simp: calm_def os_call_def untorn_def Let_def split: prod.splits fault.splits) (metis snd_conv)+

lemma calm_git_root: "os_other env = (\<lambda>_ fs. fs) \<Longrightarrow> calm (git_root env dir)"
proof (induction env dir rule: git_root.induct)
  case (1 env dir)
  have "calm (tryI (Stat env (path_join [dir, ''.git''])))"
    unfolding Stat_def by (intro calm_try calm_call) (simp_all add: 1)
  then show ?case
    unfolding git_root.simps [of env dir] by (rule calm_bind) (use 1 in \<open>auto simp: calm_simple split: sum.split\<close>)
qed

lemma calm_recorder: "os_other env = (\<lambda>_ fs. fs) \<Longrightarrow> calm (NewRecorder env proc cwd dir)"
  unfolding NewRecorder_def MkdirAll_def insideGitWorkTree_def
  by (auto intro!: calm_bind calm_try calm_call calm_git_root simp: calm_simple split: sum.split)

text \<open>Making a recorder leaves the files and the hub's directories as they are.\<close>

lemma keeps_start_recorder:
  assumes "undisturbed (se_cli env)"
  shows "keeps w_files (start_recorder env cwd dir)" "keeps w_dirs (start_recorder env cwd dir)"
proof -
  have "calm (NewRecorder (ce_os (se_cli env)) (ce_proc (se_cli env)) cwd dir)"
    using assms by (intro calm_recorder) (simp add: undisturbed_def)
  then have "keeps w_files (filesC (NewRecorder (ce_os (se_cli env)) (ce_proc (se_cli env)) cwd dir))"
    by (auto simp: keeps_def filesC_def calm_def split: prod.splits) (metis snd_conv)
  then show "keeps w_files (start_recorder env cwd dir)" "keeps w_dirs (start_recorder env cwd dir)"
    unfolding start_recorder_def Let_def by (intro keeps_intros; assumption)+
qed

text \<open>
  C34: no other hub ever serves. What happens once \<open>serve\<close> has a hub serving matters only for guarded hubs, and a hub
  is guarded if at the moment it begins to serve: its address passed the bind check (a local one without the override);
  its peers are a non-empty list of ranges (the given one, where the environment requires that); the run lock of its data
  directory holds the id of this process; and the id and the epoch it serves and the key it checks requests against
  are those stored in this directory. Any call may fail; no other program touches the files while it starts.
\<close>

theorem only_guarded_hubs_serve:
  assumes "parseFlags (ce_duration (se_cli env)) serve_flags args = Inr (fl, pos)"
    and "dataDirFor (se_cli env) (sf_dataDir (serveFlags_of fl)) = Inr dataDir"
    and "undisturbed (se_cli env)" "rand_ok (ce_sql (se_cli env))"
    and "\<And>h w. guarded env (serveFlags_of fl) dataDir h w \<Longrightarrow> served h w = served' h w"
  shows "Run rounds env cwd served number (''serve'' # args) w = Run rounds env cwd served' number (''serve'' # args) w"
proof -
  have "serve_checked rounds env served (start_recorder env cwd) (serveFlags_of fl) dataDir w
      = serve_checked rounds env served' (start_recorder env cwd) (serveFlags_of fl) dataDir w"
    by (rule serve_checked_guarded [OF assms(3,4) keeps_start_recorder [OF assms(3)] assms(5)])
  then show ?thesis
    by (simp add: Run_def Let_def runServe_def bind_with_flags [OF assms(1)] assms(2) bind_steps)
qed

theorem only_guarded_hubs_serve_witness:
  "Run 2 sample_serve (Inr ''/'') (\<lambda>h w. if map_of (w_files w) ''/d/serve.lock'' = None then Some os_error else None) Some [''serve'']
      (world_of [] sample_cdb \<lparr>hd_db = new_db, hd_pair = paired_dir\<rparr>)
    = Run 2 sample_serve (Inr ''/'') (\<lambda>_ _. None) Some [''serve''] (world_of [] sample_cdb \<lparr>hd_db = new_db, hd_pair = paired_dir\<rparr>)"
proof (rule only_guarded_hubs_serve)
  show "parseFlags (ce_duration (se_cli sample_serve)) serve_flags [] = Inr (serve_flags, [])"
    using flags_interleave_lemma [of "ce_duration (se_cli sample_serve)" serve_flags "[]"] by simp
  show "dataDirFor (se_cli sample_serve) (sf_dataDir (serveFlags_of serve_flags)) = Inr ''/d''" by (simp add: sample_serve_def)
  show "undisturbed (se_cli sample_serve)" using sample_smooth [OF refl] by (simp add: sample_serve_def smooth_def)
  show "rand_ok (ce_sql (se_cli sample_serve))" by (simp add: sample_serve_def)
  have path: "path_join [''/d'', LockFile] = ''/d/serve.lock''" by (simp add: LockFile_def) code_simp
  show "(if map_of (w_files w) ''/d/serve.lock'' = None then Some os_error else None) = None"
    if "guarded sample_serve (serveFlags_of serve_flags) ''/d'' h w" for h w
    using that by (auto simp: guarded_def Let_def path)
qed

end
