(* ===== verification/ScrubProps.thy ===== *)
theory ScrubProps
  imports Fixtures "HOL-Library.Multiset"
begin

text \<open>
  What a scrubbed capture can tell. Two captures are alike when they differ only in what must not be
  published: the values of the credential headers, the bodies of a pairing exchange, and the strings of
  the payloads up to their lengths. The relation follows the levels of the capture; at each level two Go
  maps agree outside the keys that may differ.
\<close>

section \<open>Maps that agree\<close>

definition agree :: "bytes set \<Rightarrow> (bytes \<times> 'v) list \<Rightarrow> (bytes \<times> 'v) list \<Rightarrow> bool" where
  "agree K d d' \<longleftrightarrow> (\<forall>k. k \<notin> K \<longrightarrow> map_of d k = map_of d' k)"

definition maps_agree :: "bytes set \<Rightarrow> raw_map option \<Rightarrow> raw_map option \<Rightarrow> bool" where
  "maps_agree K = rel_option (\<lambda>d d'. distinct (map fst d) \<and> distinct (map fst d') \<and> agree K d d')"

lemma sorted_members:
  assumes "distinct (map fst d)" "distinct (map fst d')" "map_of d = map_of d'"
  shows "sort_key fst d = sort_key fst (d' :: (bytes \<times> 'v) list)"
proof -
  have "set d = set d'" using map_of_eq_Some_iff [OF assms(1)] map_of_eq_Some_iff [OF assms(2)] assms(3) by auto
  then have "mset d = mset d'"
    using assms(1,2) by (simp add: set_eq_iff_mset_eq_distinct [symmetric] distinct_map)
  moreover have "inj_on fst (set d)" using assms(1) by (simp add: distinct_map)
  ultimately show ?thesis
    by (intro sort_key_inj_key_eq) (simp_all)
qed

lemma agree_refl [simp]: "agree K d d"
  by (simp add: agree_def)

lemma maps_agree_lookup: "maps_agree K m m' \<Longrightarrow> k \<notin> K \<Longrightarrow> lookup_go m k = lookup_go m' k"
  by (cases m; cases m') (auto simp: maps_agree_def agree_def lookup_go_def)

lemma maps_agree_assign: "maps_agree K m m' \<Longrightarrow> K - {k} \<subseteq> L \<Longrightarrow> maps_agree L (assign k v m) (assign k v m')"
  by (cases m; cases m') (auto simp: maps_agree_def agree_def assign_def update_conv' distinct_update)

lemma maps_agree_marshal: "maps_agree {} m m' \<Longrightarrow> marshal_go_map m = marshal_go_map m'"
proof (cases m; cases m')
  fix d d'
  assume "maps_agree {} m m'" "m = Some d" "m' = Some d'"
  then have "sort_key fst d = sort_key fst d'" by (intro sorted_members) (auto simp: maps_agree_def agree_def)
  with \<open>m = Some d\<close> \<open>m' = Some d'\<close> show "marshal_go_map m = marshal_go_map m'"
    by (simp only: marshal_go_map_def marshal_map_def option.case)
qed (simp_all add: maps_agree_def)

lemma maps_agree_indent: "maps_agree {} m m' \<Longrightarrow> MarshalIndent_go m = MarshalIndent_go m'"
  using maps_agree_marshal [of m m']
  by (cases m; cases m') (auto simp: maps_agree_def marshal_go_map_def MarshalIndent_go_def MarshalIndent_def)

lemma distinct_go_map: "unmarshal_go_map b = Some (Some d) \<Longrightarrow> distinct (map fst d)"
  using distinct_map_of_members by (auto simp: unmarshal_go_map_def JsonIndent.distinct_keys_def split: option.splits if_splits)

lemma maps_agree_same: "unmarshal_go_map b = Some m \<Longrightarrow> maps_agree K m m"
  using distinct_go_map [of b] by (cases m) (auto simp: maps_agree_def)

lemma maps_agree_mono: "maps_agree K m m' \<Longrightarrow> K \<subseteq> L \<Longrightarrow> maps_agree L m m'"
  unfolding maps_agree_def by (erule option.rel_mono_strong) (auto simp: agree_def)

lemma agree_drop: "agree (insert k K) d d' \<Longrightarrow> map_of d k = map_of d' k \<Longrightarrow> agree K d d'"
  unfolding agree_def by (metis insert_iff)

lemma maps_agree_drop: "maps_agree (insert k K) m m' \<Longrightarrow> lookup_go m k = lookup_go m' k \<Longrightarrow> maps_agree K m m'"
  by (cases m; cases m') (auto simp: maps_agree_def lookup_go_def intro: agree_drop)

section \<open>Alike payloads\<close>

text \<open>The same value up to the bytes of its strings.\<close>

inductive alike :: "json \<Rightarrow> json \<Rightarrow> bool" where
  alike_same: "alike v v"
| alike_string: "length s = length t \<Longrightarrow> alike (JString s) (JString t)"
| alike_array: "list_all2 alike vs ws \<Longrightarrow> alike (JArray vs) (JArray ws)"
| alike_object: "map fst kvs = map fst lws \<Longrightarrow> list_all2 alike (map snd kvs) (map snd lws) \<Longrightarrow> alike (JObject kvs) (JObject lws)"

lemma lorem_length_only: "length s = length t \<Longrightarrow> lorem s = lorem t"
  by (cases s; cases t) (simp_all add: lorem_def)

lemma map_snd_zip: "map (\<lambda>(k, v). (k, f v)) kvs = zip (map fst kvs) (map f (map snd kvs))"
  by (induction kvs) auto

lemma list_all2_map_eq: "list_all2 (\<lambda>x y. R x y \<and> f x = f y) xs ys \<Longrightarrow> map f xs = map f ys"
  by (induction rule: list_all2_induct) auto

lemma alike_replaced: "alike v w \<Longrightarrow> replaceStrings v = replaceStrings w"
proof (induction rule: alike.induct)
  case (alike_object kvs lws)
  then show ?case using list_all2_map_eq [of alike replaceStrings "map snd kvs" "map snd lws"]
    by (simp add: map_snd_zip del: map_map)
qed (auto dest: lorem_length_only list_all2_map_eq)

definition body_alike :: "(bytes \<Rightarrow> bytes option) \<Rightarrow> bytes \<Rightarrow> bytes \<Rightarrow> bool" where
  "body_alike number b b' \<longleftrightarrow> b = b' \<or>
     (\<exists>d d' p p' v w. unmarshal_go_map b = Some (Some d) \<and> unmarshal_go_map b' = Some (Some d')
        \<and> agree {''payload'', ''payload_sha256''} d d' \<and> map_of d ''payload'' = Some p \<and> map_of d' ''payload'' = Some p'
        \<and> p \<noteq> ''null'' \<and> p' \<noteq> ''null'' \<and> unmarshal_any number p = Some v \<and> unmarshal_any number p' = Some w \<and> alike v w)"

lemma scrub_identifier_agree: "maps_agree {} m m' \<Longrightarrow> maps_agree {} (scrub_identifier k m) (scrub_identifier k m')"
  using maps_agree_lookup [of "{}" m m' k] maps_agree_assign [of "{}" m m' k "{}"]
  by (auto simp: scrub_identifier_def split: option.split)

lemma synthesise_alike: "body_alike number b b' \<Longrightarrow> synthesiseBody number b = synthesiseBody number b'"
proof (cases "b = b'")
  case False
  assume "body_alike number b b'"
  with False obtain d d' p p' v w where u: "unmarshal_go_map b = Some (Some d)" "unmarshal_go_map b' = Some (Some d')"
    and a: "agree {''payload'', ''payload_sha256''} d d'" and p: "map_of d ''payload'' = Some p" "map_of d' ''payload'' = Some p'"
      "p \<noteq> ''null''" "p' \<noteq> ''null''" "unmarshal_any number p = Some v" "unmarshal_any number p' = Some w" and "alike v w"
    unfolding body_alike_def by blast
  have "maps_agree {''payload'', ''payload_sha256''} (Some d) (Some d')"
    using a distinct_go_map [OF u(1)] distinct_go_map [OF u(2)] by (simp add: maps_agree_def)
  from maps_agree_assign [OF maps_agree_assign [OF this]]
  have "maps_agree {} (assign ''payload_sha256'' h (assign ''payload'' t (Some d)))
      (assign ''payload_sha256'' h (assign ''payload'' t (Some d')))" for h t
    by blast
  then have "maps_agree {} (scrub_payload number (Some d)) (scrub_payload number (Some d'))"
    using p alike_replaced [OF \<open>alike v w\<close>] by (simp add: scrub_payload_def lookup_go_def Let_def)
  from maps_agree_marshal [OF scrub_identifier_agree [OF scrub_identifier_agree [OF this]]] show ?thesis
    using u by (simp add: synthesiseBody_def)
qed simp

section \<open>Alike operations and bodies\<close>

definition op_alike :: "(bytes \<Rightarrow> bytes option) \<Rightarrow> raw_map option \<Rightarrow> raw_map option \<Rightarrow> bool" where
  "op_alike number o1 o2 \<longleftrightarrow> o1 = o2 \<or>
     (\<exists>r r' b b'. maps_agree {''body'', ''operation_sha256''} o1 o2 \<and> lookup_go o1 ''body'' = Some r \<and> lookup_go o2 ''body'' = Some r'
        \<and> unmarshal_string r = Some b \<and> unmarshal_string r' = Some b' \<and> body_alike number b b')"

definition payload_alike :: "(bytes \<Rightarrow> bytes option) \<Rightarrow> bytes \<Rightarrow> bytes \<Rightarrow> bool" where
  "payload_alike number q q' \<longleftrightarrow> q = q' \<or>
     (\<exists>e e' r r' os os'. unmarshal_go_map q = Some e \<and> unmarshal_go_map q' = Some e' \<and> maps_agree {''ops''} e e'
        \<and> lookup_go e ''ops'' = Some r \<and> lookup_go e' ''ops'' = Some r' \<and> unmarshal_ops r = Some (Some os)
        \<and> unmarshal_ops r' = Some (Some os') \<and> list_all2 (op_alike number) os os')"

text \<open>Results that print the same: an operation as it was, or one whose maps agree everywhere.\<close>

definition prints_same :: "raw_map option \<Rightarrow> raw_map option \<Rightarrow> bool" where
  "prints_same m m' \<longleftrightarrow> m = m' \<or> maps_agree {} m m'"

lemma prints_same_marshal: "prints_same m m' \<Longrightarrow> marshal_go_map m = marshal_go_map m'"
  unfolding prints_same_def using maps_agree_marshal by blast

lemma scrub_op_alike: "op_alike number o1 o2 \<Longrightarrow> rel_sum (=) prints_same (scrub_op number o1) (scrub_op number o2)"
proof (cases "o1 = o2")
  case True
  then show ?thesis by (cases "scrub_op number o2") (simp_all add: prints_same_def)
next
  case False
  assume "op_alike number o1 o2"
  with False obtain r r' b b' where a: "maps_agree {''body'', ''operation_sha256''} o1 o2"
    and r: "lookup_go o1 ''body'' = Some r" "lookup_go o2 ''body'' = Some r'" "unmarshal_string r = Some b" "unmarshal_string r' = Some b'"
    and b: "body_alike number b b'"
    unfolding op_alike_def by blast
  from maps_agree_assign [OF maps_agree_assign [OF a]]
  have "maps_agree {} (assign ''operation_sha256'' h (assign ''body'' t o1)) (assign ''operation_sha256'' h (assign ''body'' t o2))" for h t
    by blast
  then show ?thesis
    using r synthesise_alike [OF b] by (cases "synthesiseBody number b'") (simp_all add: scrub_op_def prints_same_def)
qed

lemma scrub_ops_alike:
  "list_all2 (op_alike number) os os' \<Longrightarrow> rel_sum (=) (list_all2 prints_same) (scrub_ops number os) (scrub_ops number os')"
proof (induction rule: list_all2_induct)
  case (Cons o1 os o2 os')
  then show ?case using scrub_op_alike [OF Cons(1)]
    by (auto split: sum.split elim!: rel_sum.cases)
qed simp

lemma marshal_ops_same: "list_all2 prints_same ms ms' \<Longrightarrow> marshal_ops (Some ms) = marshal_ops (Some ms')"
proof -
  assume "list_all2 prints_same ms ms'"
  then have "list_all2 (\<lambda>m m'. prints_same m m' \<and> marshal_go_map m = marshal_go_map m') ms ms'"
    by (rule list_all2_mono) (simp add: prints_same_marshal)
  then show ?thesis unfolding marshal_ops_def by (simp only: option.case list_all2_map_eq)
qed

lemma scrub_bodies_alike: "payload_alike number q q' \<Longrightarrow> scrubBodies number q = scrubBodies number q'"
proof (cases "q = q'")
  case False
  assume "payload_alike number q q'"
  with False obtain e e' r r' os os' where u: "unmarshal_go_map q = Some e" "unmarshal_go_map q' = Some e'"
    and a: "maps_agree {''ops''} e e'" and r: "lookup_go e ''ops'' = Some r" "lookup_go e' ''ops'' = Some r'"
      "unmarshal_ops r = Some (Some os)" "unmarshal_ops r' = Some (Some os')" and os: "list_all2 (op_alike number) os os'"
    unfolding payload_alike_def by blast
  from maps_agree_assign [OF a] have "maps_agree {} (assign ''ops'' t e) (assign ''ops'' t e')" for t by blast
  then have "marshal_go_map (assign ''ops'' t e) = marshal_go_map (assign ''ops'' t e')" for t
    by (rule maps_agree_marshal)
  with scrub_ops_alike [OF os] marshal_ops_same show ?thesis
    by (auto simp: scrubBodies_def u r scrub_slice_def elim!: rel_sum.cases split: option.split)
qed simp

section \<open>Alike captures\<close>

definition headers_alike :: "bytes \<Rightarrow> bytes \<Rightarrow> bool" where
  "headers_alike h h' \<longleftrightarrow> h = h' \<or>
     (\<exists>hs hs'. unmarshal_string_map h = Some (Some hs) \<and> unmarshal_string_map h' = Some (Some hs')
        \<and> set (map fst hs) = set (map fst hs') \<and> agree (set credential_headers) hs hs')"

definition exchange_alike :: "(bytes \<Rightarrow> bytes option) \<Rightarrow> bytes \<Rightarrow> bytes \<Rightarrow> bool" where
  "exchange_alike number raw raw' \<longleftrightarrow>
     (\<exists>d d'. unmarshal_go_map raw = Some d \<and> unmarshal_go_map raw' = Some d'
        \<and> maps_agree {''headers'', ''request'', ''response''} d d'
        \<and> rel_option headers_alike (lookup_go d ''headers'') (lookup_go d' ''headers'')
        \<and> (stringField d ''path'' = ''/pair''
           \<or> (\<forall>name \<in> {''request'', ''response''}. rel_option (payload_alike number) (lookup_go d name) (lookup_go d' name))))"

lemma distinct_last_members: "distinct (map fst (last_members kvs))"
proof -
  have "distinct (map fst m) \<Longrightarrow> distinct (map fst (foldl (\<lambda>m (k, v). AList.update k v m) m kvs))" for m
    by (induction kvs arbitrary: m) (auto simp: distinct_update)
  from this [of "[]"] show ?thesis by (simp add: last_members_def)
qed

lemma distinct_string_map: "unmarshal_string_map h = Some (Some hs) \<Longrightarrow> distinct (map fst hs)"
  by (auto simp: unmarshal_string_map_def distinct_last_members split: option.splits if_splits)

lemma redacted_map_of: "map_of (redacted hs) k = map_option (\<lambda>v. if k \<in> set credential_headers then ''REDACTED'' else v) (map_of hs k)"
  by (induction hs) (auto simp: redacted_def)

lemma fst_redacted: "map fst (redacted hs) = map fst hs"
  by (simp add: redacted_def case_prod_unfold)

lemma redacted_alike:
  assumes "distinct (map fst hs)" "distinct (map fst hs')" "set (map fst hs) = set (map fst hs')"
    and "agree (set credential_headers) hs hs'"
  shows "marshal_string_map (Some (redacted hs)) = marshal_string_map (Some (redacted hs'))"
proof -
  let ?text = "\<lambda>hs. map (\<lambda>(k, v). (k, encode_any v)) (map (\<lambda>(k, v). (k, JString v)) (redacted hs))"
  have keys: "map fst (?text hs) = map fst hs" for hs using fst_redacted [of hs] by (simp add: case_prod_unfold comp_def)
  have "map_of (redacted hs) k = map_of (redacted hs') k" for k
  proof (cases "k \<in> set credential_headers")
    case True
    have "map_of hs k = None \<longleftrightarrow> map_of hs' k = None" using assms(3) by (simp add: map_of_eq_None_iff)
    with True show ?thesis by (cases "map_of hs k"; cases "map_of hs' k") (simp_all add: redacted_map_of)
  qed (use assms(4) in \<open>simp add: redacted_map_of agree_def\<close>)
  then have "map_of (?text hs) = map_of (?text hs')" by (simp add: map_of_map fun_eq_iff del: map_map)
  then have "sort_key fst (?text hs) = sort_key fst (?text hs')"
    by (intro sorted_members) (simp_all only: keys assms)
  then show ?thesis by (simp only: marshal_string_map_def option.case encode_any.simps)
qed

lemma stringField_agree: "maps_agree K m m' \<Longrightarrow> k \<notin> K \<Longrightarrow> stringField m k = stringField m' k"
  by (simp add: stringField_def maps_agree_lookup)

lemma scrub_headers_alike:
  assumes "maps_agree (insert ''headers'' K) d d'" "rel_option headers_alike (lookup_go d ''headers'') (lookup_go d' ''headers'')"
  shows "maps_agree K (scrub_headers d) (scrub_headers d')"
proof (cases "lookup_go d ''headers''")
  case None
  with assms show ?thesis using maps_agree_drop [OF assms(1)] by (simp add: scrub_headers_def)
next
  case (Some h)
  with assms(2) obtain h' where h': "lookup_go d' ''headers'' = Some h'" "headers_alike h h'" by (auto elim: option.rel_cases)
  have set_both: "maps_agree K (assign ''headers'' t d) (assign ''headers'' t d')" for t
    by (rule maps_agree_assign [OF assms(1)]) auto
  show ?thesis
  proof (cases "h = h'")
    case True
    then show ?thesis
      using Some h' set_both maps_agree_drop [OF assms(1)] by (cases "unmarshal_string_map h'") (simp_all add: scrub_headers_def)
  next
    case False
    with h'(2) obtain hs hs' where hs: "unmarshal_string_map h = Some (Some hs)" "unmarshal_string_map h' = Some (Some hs')"
      "set (map fst hs) = set (map fst hs')" "agree (set credential_headers) hs hs'"
      unfolding headers_alike_def by blast
    have "marshal_string_map (Some (redacted hs)) = marshal_string_map (Some (redacted hs'))"
      by (rule redacted_alike [OF distinct_string_map [OF hs(1)] distinct_string_map [OF hs(2)] hs(3,4)])
    with Some h'(1) hs(1,2) set_both show ?thesis by (simp add: scrub_headers_def)
  qed
qed

lemma scrub_field_alike:
  assumes "maps_agree (insert name K) d d'" "rel_option (payload_alike number) (lookup_go d name) (lookup_go d' name)"
  shows "rel_sum (=) (maps_agree K) (scrub_field number name d) (scrub_field number name d')"
proof (cases "lookup_go d name")
  case None
  with assms show ?thesis using maps_agree_drop [OF assms(1)] by (simp add: scrub_field_def)
next
  case (Some q)
  with assms(2) obtain q' where q': "lookup_go d' name = Some q'" "payload_alike number q q'" by (auto elim: option.rel_cases)
  have "maps_agree K (assign name t d) (assign name t d')" for t by (rule maps_agree_assign [OF assms(1)]) auto
  with Some q'(1) scrub_bodies_alike [OF q'(2)] show ?thesis
    by (cases "scrubBodies number q'") (simp_all add: scrub_field_def)
qed

lemma headers_keep_others: "k \<noteq> ''headers'' \<Longrightarrow> lookup_go (scrub_headers d) k = lookup_go d k"
  by (cases d) (auto simp: scrub_headers_def lookup_go_def assign_def update_conv' split: option.split)

lemma field_keeps_others: "scrub_field number name d = Inr d1 \<Longrightarrow> k \<noteq> name \<Longrightarrow> lookup_go d1 k = lookup_go d k"
  by (cases d) (auto simp: scrub_field_def lookup_go_def assign_def update_conv' split: option.splits sum.splits)

text \<open>
  C38: What is published does not depend on what must not be. Two alike captures, which may differ in the values of
  the four credential headers, in the whole bodies of a pairing exchange, and in the words of every payload
  as long as their lengths are the same, are scrubbed to the same bytes, or are refused for the same reason.
\<close>

theorem scrubbed_capture_hides_words:
  assumes "exchange_alike number raw raw'"
  shows "ScrubExchange number raw = ScrubExchange number raw'"
proof -
  obtain d d' where u: "unmarshal_go_map raw = Some d" "unmarshal_go_map raw' = Some d'"
    and a: "maps_agree {''headers'', ''request'', ''response''} d d'"
    and h: "rel_option headers_alike (lookup_go d ''headers'') (lookup_go d' ''headers'')"
    and b: "stringField d ''path'' = ''/pair''
           \<or> (\<forall>name \<in> {''request'', ''response''}. rel_option (payload_alike number) (lookup_go d name) (lookup_go d' name))"
    using assms unfolding exchange_alike_def by blast
  let ?d = "scrub_headers d" and ?d' = "scrub_headers d'"
  have a1: "maps_agree {''request'', ''response''} ?d ?d'" by (rule scrub_headers_alike [OF a h])
  have path: "stringField ?d ''path'' = stringField ?d' ''path''" "stringField ?d ''path'' = stringField d ''path''"
    using stringField_agree [OF a1, of "''path''"] by (simp_all add: stringField_def headers_keep_others)
  show ?thesis
  proof (cases "stringField d ''path'' = ''/pair''")
    case True
    from maps_agree_assign [OF maps_agree_assign [OF a1]] have "maps_agree {} (scrub_pair ?d) (scrub_pair ?d')"
      unfolding scrub_pair_def by blast
    with True path maps_agree_indent show ?thesis by (simp add: ScrubExchange_def u Let_def)
  next
    case False
    with b have "rel_option (payload_alike number) (lookup_go ?d ''request'') (lookup_go ?d' ''request'')"
      and resp: "rel_option (payload_alike number) (lookup_go ?d ''response'') (lookup_go ?d' ''response'')"
      by (simp_all add: headers_keep_others)
    from scrub_field_alike [OF a1 this(1)]
    have f1: "rel_sum (=) (maps_agree {''response''}) (scrub_field number ''request'' ?d) (scrub_field number ''request'' ?d')" .
    show ?thesis
    proof (cases "scrub_field number ''request'' ?d")
      case (Inl e)
      with f1 have "scrub_field number ''request'' ?d' = Inl e" by (auto elim: rel_sum.cases)
      with Inl False path show ?thesis by (simp add: ScrubExchange_def u Let_def)
    next
      case (Inr d1)
      with f1 obtain d1' where d1': "scrub_field number ''request'' ?d' = Inr d1'" "maps_agree {''response''} d1 d1'"
        by (auto elim: rel_sum.cases)
      have "rel_option (payload_alike number) (lookup_go d1 ''response'') (lookup_go d1' ''response'')"
        using resp by (simp add: field_keeps_others [OF Inr] field_keeps_others [OF d1'(1)])
      from scrub_field_alike [OF d1'(2) this]
      have f2: "rel_sum (=) (maps_agree {}) (scrub_field number ''response'' d1) (scrub_field number ''response'' d1')" .
      have "emit_exchange x = emit_exchange y" if "maps_agree {} x y" for x y
        using maps_agree_indent [OF that] by (simp add: emit_exchange_def)
      with f2 Inr d1'(1) False path show ?thesis
        by (auto simp: ScrubExchange_def u Let_def elim!: rel_sum.cases)
    qed
  qed
qed

text \<open>A captured push of one operation with one word.\<close>

definition sample_payload :: "bytes \<Rightarrow> bytes" where
  \<open>sample_payload words = ''["'' @ words @ ''"]''\<close>

definition sample_body :: "bytes \<Rightarrow> bytes" where
  \<open>sample_body words = ''{"payload":'' @ sample_payload words @ ''}''\<close>

definition sample_ops :: "bytes \<Rightarrow> bytes" where
  \<open>sample_ops words = ''[{"body":'' @ marshal_string (sample_body words) @ ''}]''\<close>

definition sample_push :: "bytes \<Rightarrow> bytes" where
  \<open>sample_push words = ''{"ops":'' @ sample_ops words @ ''}''\<close>

definition sample_headers :: "bytes \<Rightarrow> bytes" where
  \<open>sample_headers key = ''{"Authorization":"'' @ key @ ''"}''\<close>

definition sample_capture :: "bytes \<Rightarrow> bytes \<Rightarrow> bytes" where
  \<open>sample_capture key words = ''{"headers":'' @ sample_headers key @ '',"request":'' @ sample_push words @ ''}''\<close>

lemma sample_capture_reads:
  "unmarshal_go_map (sample_capture ''a'' ''ab'') = Some (Some [(''headers'', sample_headers ''a''), (''request'', sample_push ''ab'')])"
  "unmarshal_go_map (sample_capture ''b'' ''xy'') = Some (Some [(''headers'', sample_headers ''b''), (''request'', sample_push ''xy'')])"
  by code_simp+

lemma sample_headers_reads:
  "unmarshal_string_map (sample_headers ''a'') = Some (Some [(''Authorization'', ''a'')])"
  "unmarshal_string_map (sample_headers ''b'') = Some (Some [(''Authorization'', ''b'')])"
  by code_simp+

lemma sample_push_reads:
  "unmarshal_go_map (sample_push ''ab'') = Some (Some [(''ops'', sample_ops ''ab'')])"
  "unmarshal_go_map (sample_push ''xy'') = Some (Some [(''ops'', sample_ops ''xy'')])"
  by code_simp+

lemma sample_ops_reads:
  "unmarshal_ops (sample_ops ''ab'') = Some (Some [Some [(''body'', marshal_string (sample_body ''ab''))]])"
  "unmarshal_ops (sample_ops ''xy'') = Some (Some [Some [(''body'', marshal_string (sample_body ''xy''))]])"
  by code_simp+

lemma sample_body_reads:
  "unmarshal_string (marshal_string (sample_body ''ab'')) = Some (sample_body ''ab'')"
  "unmarshal_string (marshal_string (sample_body ''xy'')) = Some (sample_body ''xy'')"
  "unmarshal_go_map (sample_body ''ab'') = Some (Some [(''payload'', sample_payload ''ab'')])"
  "unmarshal_go_map (sample_body ''xy'') = Some (Some [(''payload'', sample_payload ''xy'')])"
  by code_simp+

lemma sample_payload_reads:
  "unmarshal_any Some (sample_payload ''ab'') = Some (JArray [JString ''ab''])"
  "unmarshal_any Some (sample_payload ''xy'') = Some (JArray [JString ''xy''])"
  by code_simp+

theorem scrubbed_capture_hides_words_witness:
  "ScrubExchange Some (sample_capture ''a'' ''ab'') = ScrubExchange Some (sample_capture ''b'' ''xy'')"
proof (rule scrubbed_capture_hides_words)
  have "alike (JArray [JString ''ab'']) (JArray [JString ''xy''])" by (auto intro!: alike.intros)
  then have "body_alike Some (sample_body ''ab'') (sample_body ''xy'')"
    by (auto simp: body_alike_def sample_body_reads sample_payload_reads agree_def)
      (simp_all add: sample_payload_def)
  then have "list_all2 (op_alike Some) [Some [(''body'', marshal_string (sample_body ''ab''))]] [Some [(''body'', marshal_string (sample_body ''xy''))]]"
    by (auto simp: op_alike_def sample_body_reads maps_agree_def agree_def lookup_go_def)
  then have "payload_alike Some (sample_push ''ab'') (sample_push ''xy'')"
    by (auto simp: payload_alike_def sample_push_reads sample_ops_reads maps_agree_def agree_def lookup_go_def)
  moreover have "headers_alike (sample_headers ''a'') (sample_headers ''b'')"
    by (simp add: headers_alike_def sample_headers_reads agree_def credential_headers_def)
  ultimately show "exchange_alike Some (sample_capture ''a'' ''ab'') (sample_capture ''b'' ''xy'')"
    unfolding exchange_alike_def sample_capture_reads
    by (intro exI conjI refl) (auto simp: maps_agree_def agree_def lookup_go_def)
qed

section \<open>The shape is kept\<close>

lemma lorem_loop_length: "length b \<le> n \<Longrightarrow> length (lorem_loop n i b) = n"
proof (induction n i b rule: lorem_loop.induct)
  case (1 n i b)
  show ?case
  proof (cases "length b < n")
    case True
    let ?b1 = "b @ take (n - length b) (lorem_words ! (i mod length lorem_words))"
    have "length (if length ?b1 < n then ?b1 @ '' '' else ?b1) \<le> n" using True by auto
    with 1(1) [OF True refl] True show ?thesis by (subst lorem_loop.simps) (simp only: Let_def if_True)
  next
    case False
    with 1(2) show ?thesis by (subst lorem_loop.simps) simp
  qed
qed

lemma lorem_length: "length (lorem s) = length s"
  using lorem_loop_length [of "[]" "length s" 0] by (simp add: lorem_def)

text \<open>
  The filler keeps the shape: a scrubbed payload has the arrays, keys, numbers and string lengths of the
  original, and scrubbing it again changes nothing.
\<close>

theorem scrubbing_keeps_shape: "alike v (replaceStrings v) \<and> replaceStrings (replaceStrings v) = replaceStrings v"
proof -
  have "alike v (replaceStrings v)"
  proof (induction v)
    case (JArray vs)
    then show ?case by (auto intro!: alike_array simp: list_all2_map2 list_all2_same)
  next
    case (JObject kvs)
    have "list_all2 alike (map snd kvs) (map snd (map (\<lambda>(k, v). (k, replaceStrings v)) kvs))"
      using JObject by (auto simp: list_all2_map1 list_all2_map2 list_all2_same)
    then show ?case by (auto intro!: alike_object simp: case_prod_unfold)
  qed (auto intro: alike.intros simp: lorem_length)
  then show ?thesis using alike_replaced by metis
qed

section \<open>What was read can be printed\<close>

text \<open>Compacting goes through whatever the scanner accepted, so the values of a decoded map print again.\<close>

lemma or_empty_step:
  "scan_step st stk c = (opc, st', stk') \<Longrightarrow> st = BeginValueOrEmpty \<longrightarrow> stk \<noteq> [] \<Longrightarrow> st' = BeginValueOrEmpty \<longrightarrow> stk' \<noteq> []"
  by (cases st; cases stk) (auto simp: begin_value_def begin_string_def num_0_def num_exp_def expect_def end_value_def
      end_top_def push_state_def pop_state_def is_space_def is_digit_def is_hex_def split: if_splits parse_state.splits)

lemma scan_end_complete:
  "fst (scan_step st stk c) = ScanEnd \<Longrightarrow> st = BeginValueOrEmpty \<longrightarrow> stk \<noteq> [] \<Longrightarrow> scan_complete st stk"
  by (cases st; cases stk) (auto simp: scan_complete_def begin_value_def begin_string_def num_0_def num_exp_def expect_def end_value_def
      end_top_def push_state_def pop_state_def is_space_def is_digit_def is_hex_def split: if_splits parse_state.splits)

lemma scan_bracket_complete:
  "scan_step st stk c = (opc, st', []) \<Longrightarrow> opc = ScanEndObject \<or> opc = ScanEndArray \<Longrightarrow> scan_complete st' []"
  by (cases st; cases stk) (auto simp: scan_complete_def begin_value_def begin_string_def num_0_def num_exp_def expect_def end_value_def
      end_top_def push_state_def pop_state_def is_space_def is_digit_def is_hex_def split: if_splits parse_state.splits)

lemma scanned_compacts:
  "scan_text st stk s = Some (w, r) \<Longrightarrow> st = BeginValueOrEmpty \<longrightarrow> stk \<noteq> [] \<Longrightarrow> compact_loop d st stk w \<noteq> None"
proof (induction st stk s arbitrary: w d rule: scan_text.induct)
  case (1 st stk)
  then show ?case by (auto simp: scan_complete_def split: if_splits)
next
  case (2 st stk c cs)
  obtain opc st' stk' where step: "scan_step st stk c = (opc, st', stk')" by (cases "scan_step st stk c")
  obtain out d' where o: "(if d > 0 then ([], d - 1) else compact_byte opc c (tl w)) = (out, d')" by (metis surj_pair)
  note inv = or_empty_step [OF step "2.prems"(2)]
  show ?case
  proof (cases "opc = ScanEnd")
    case True
    with 2 step have "w = []" by simp
    with True step scan_end_complete [of st stk c] "2.prems"(2) show ?thesis by simp
  next
    case open1: False
    show ?thesis
    proof (cases "(opc = ScanEndObject \<or> opc = ScanEndArray) \<and> stk' = []")
      case True
      with 2(2) step open1 have "w = [c]" "opc \<noteq> ScanError" by (auto split: if_splits)
      moreover have "scan_complete st' stk'" using True step scan_bracket_complete by blast
      ultimately show ?thesis using step open1 by (simp split: prod.split)
    next
      case False
      with 2(2) step open1 obtain w' where w': "scan_text st' stk' cs = Some (w', r)" "w = c # w'" "opc \<noteq> ScanError"
        by (auto split: if_splits)
      have "compact_loop d' st' stk' w' \<noteq> None" by (rule "2.IH" [OF step [symmetric] refl w'(3) open1 False w'(1) inv])
      moreover have "compact_loop d st stk w = map_option ((@) out) (compact_loop d' st' stk' w')"
        using step w'(2,3) open1 o by (cases "d > 0") (simp_all add: case_prod_unfold)
      ultimately show ?thesis by simp
    qed
  qed
qed

lemma compact_skip_space: "compact_loop 0 BeginValue [] w \<noteq> None \<Longrightarrow> compact_loop 0 BeginValue [] (skip_space w) \<noteq> None"
proof (induction w)
  case (Cons c w)
  show ?case
  proof (cases "is_space c")
    case True
    then have "scan_step BeginValue [] c = (ScanSkipSpace, BeginValue, [])" "compact_byte ScanSkipSpace c w = ([], 0)"
      by (auto simp: begin_value_def compact_byte_def is_space_def)
    with Cons True show ?thesis by (simp add: skip_space_def)
  next
    case False
    with Cons.prems show ?thesis by (simp add: skip_space_def)
  qed
qed (simp add: skip_space_def)

lemma read_compacts: "read_value s = Some (v, r) \<Longrightarrow> Compact v \<noteq> None"
  unfolding read_value_def Compact_def using compact_skip_space scanned_compacts by fastforce

lemma members_compact_all: "members first s = Some kvs \<Longrightarrow> (k, v) \<in> set kvs \<Longrightarrow> Compact v \<noteq> None"
proof (induction first s arbitrary: kvs rule: members.induct)
  case (1 first s)
  show ?case
  proof (cases "skip_space s")
    case Nil
    with 1(2) show ?thesis by (simp add: members.simps)
  next
    case (Cons c cs)
    show ?thesis
    proof (cases "c = CHR ''}''")
      case True
      with Cons 1(2,3) show ?thesis by (simp add: members.simps)
    next
      case c: False
      from 1(2) Cons c obtain k0 r1 d ds w r2 key ws where r: "read_value (if first then c # cs else cs) = Some (k0, r1)"
        and d: "skip_space r1 = d # ds" and w: "read_value ds = Some (w, r2)" and sep: "first \<or> c = CHR '',''" "d = CHR '':''"
        and key: "json_unquote k0 = Some key" and ws: "members False r2 = Some ws" "kvs = (key, w) # ws"
        by (subst (asm) members.simps) (auto split: option.splits prod.splits if_splits list.splits)
      show ?thesis
        using 1(3) ws(2) 1(1) [OF Cons c r refl d w refl _ key ws(1)] sep read_compacts [OF w] by auto
    qed
  qed
qed

definition printable_map :: "raw_map \<Rightarrow> bool" where
  "printable_map d \<longleftrightarrow> (\<forall>k v. map_of d k = Some v \<longrightarrow> Compact v \<noteq> None)"

lemma decoded_printable:
  assumes "unmarshal_go_map b = Some (Some d)"
  shows "printable_map d"
proof -
  from assms obtain v kvs where m: "members True (tl v) = Some kvs" and d: "d = map_of_members kvs"
    by (auto simp: unmarshal_go_map_def split: option.splits if_splits)
  have "(k, x) \<in> set kvs" if "map_of d k = Some x" for k x
    using that map_of_SomeD [of "rev kvs" k x] by (simp add: d map_of_members_eq)
  then show ?thesis using members_compact_all [OF m] by (fastforce simp: printable_map_def)
qed

lemma printable_update: "printable_map d \<Longrightarrow> Compact v \<noteq> None \<Longrightarrow> printable_map (AList.update k v d)"
  by (simp add: printable_map_def update_conv')

lemma marshal_members_printed:
  "\<forall>(k, v) \<in> set kvs. Compact v \<noteq> None \<Longrightarrow> \<exists>t. marshal_members first kvs = Some t
    \<and> (\<forall>k v. (k, v) \<in> set kvs \<longrightarrow> (\<exists>q pre post. Compact v = Some q \<and> t = pre @ marshal_string k @ '':'' @ q @ post))"
proof (induction kvs arbitrary: first)
  case (Cons kv kvs)
  obtain k v where kv: "kv = (k, v)" by (cases kv)
  from Cons.prems kv obtain q where q: "Compact v = Some q" by auto
  from Cons obtain t where t: "marshal_members False kvs = Some t"
    "\<And>k v. (k, v) \<in> set kvs \<Longrightarrow> \<exists>q pre post. Compact v = Some q \<and> t = pre @ marshal_string k @ '':'' @ q @ post" by force
  let ?sep = "if first then [] else '',''"
  let ?t = "(?sep @ marshal_string k @ '':'' @ q) @ t"
  have "\<exists>q' pre post. Compact v' = Some q' \<and> ?t = pre @ marshal_string k' @ '':'' @ q' @ post"
    if in_set: "(k', v') \<in> set (kv # kvs)" for k' v'
  proof (cases "(k', v') = kv")
    case True
    then show ?thesis using q kv by (intro exI [of _ q] exI [of _ ?sep] exI [of _ t]) (simp del: append.simps)
  next
    case False
    with in_set kv have "(k', v') \<in> set kvs" by auto
    from t(2) [OF this] obtain q' pre post where "Compact v' = Some q'" "t = pre @ marshal_string k' @ '':'' @ q' @ post" by blast
    then show ?thesis
      by (intro exI [of _ q'] exI [of _ "(?sep @ marshal_string k @ '':'' @ q) @ pre"] exI [of _ post]) (simp del: append.simps)
  qed
  moreover have "marshal_members first (kv # kvs) = Some ?t" using q t(1) by (simp add: kv)
  ultimately show ?case by blast
qed simp

lemma marshal_map_printed:
  assumes "printable_map d" "distinct (map fst d)" "map_of d k = Some v"
  shows "\<exists>out q pre post. marshal_map d = Some out \<and> Compact v = Some q \<and> out = pre @ marshal_string k @ '':'' @ q @ post"
proof -
  have "\<forall>(k, v) \<in> set (sort_key fst d). Compact v \<noteq> None" using assms(1,2) by (auto simp: printable_map_def)
  from marshal_members_printed [OF this, of True] assms(3) obtain t q pre post where
    t: "marshal_members True (sort_key fst d) = Some t" "Compact v = Some q" "t = pre @ marshal_string k @ '':'' @ q @ post"
    by (metis map_of_SomeD set_sort)
  let ?out = "''{'' @ t @ ''}''"
  have "?out = (''{'' @ pre) @ marshal_string k @ '':'' @ q @ (post @ ''}'')" using t(3) by simp
  with t(1,2) show ?thesis unfolding marshal_map_def by (intro exI [of _ ?out] exI [of _ q] exI conjI) (simp, assumption, assumption)
qed

section \<open>A payload that does not decode\<close>

lemma identifier_only:
  assumes "printable_map d" "distinct (map fst d)"
  shows "\<exists>d'. scrub_identifier i (Some d) = Some d' \<and> printable_map d' \<and> distinct (map fst d')
    \<and> (\<forall>k. k \<noteq> i \<longrightarrow> map_of d' k = map_of d k)"
  using assms Compact_literal [OF is_literal_marshal]
  by (auto simp: scrub_identifier_def lookup_go_def assign_def update_conv' distinct_update printable_update split: option.split)

lemma identifiers_only:
  assumes "printable_map d" "distinct (map fst d)"
  shows "\<exists>d'. scrub_identifier ''id'' (scrub_identifier ''origin_device_id'' (Some d)) = Some d' \<and> printable_map d' \<and> distinct (map fst d')
    \<and> (\<forall>k. k \<notin> {''id'', ''origin_device_id''} \<longrightarrow> map_of d' k = map_of d k)"
proof -
  obtain d1 where d1: "scrub_identifier ''origin_device_id'' (Some d) = Some d1" "printable_map d1" "distinct (map fst d1)"
    "\<forall>k. k \<noteq> ''origin_device_id'' \<longrightarrow> map_of d1 k = map_of d k" using identifier_only [OF assms] by blast
  obtain d2 where "scrub_identifier ''id'' (Some d1) = Some d2" "printable_map d2" "distinct (map fst d2)"
    "\<forall>k. k \<noteq> ''id'' \<longrightarrow> map_of d2 k = map_of d1 k" using identifier_only [OF d1(2,3)] by blast
  with d1(4) show ?thesis unfolding d1(1) by (intro exI [of _ d2]) simp
qed

text \<open>
  C39: The filler depends on the decoder. When the payload of an operation has a number that \<open>float64\<close> cannot
  hold, decoding it fails; the scrubbing succeeds nevertheless, and the text it returns carries the payload as it was,
  every word of it, compacted as every raw value is: only the two identifiers are replaced. The hub accepts such
  payloads, since it never decodes them.
\<close>

theorem undecoded_payload_is_published:
  assumes "unmarshal_go_map body = Some (Some d)" "map_of d ''payload'' = Some p" "unmarshal_any number p = None"
  shows "\<exists>out d' q pre post. synthesiseBody number body = Inr out \<and> marshal_map d' = Some out
    \<and> (\<forall>k. k \<notin> {''id'', ''origin_device_id''} \<longrightarrow> map_of d' k = map_of d k)
    \<and> Compact p = Some q \<and> out = pre @ marshal_string ''payload'' @ '':'' @ q @ post"
proof -
  have "scrub_payload number (Some d) = Some d" using assms(2,3) by (simp add: scrub_payload_def lookup_go_def)
  moreover obtain d' where d': "scrub_identifier ''id'' (scrub_identifier ''origin_device_id'' (Some d)) = Some d'"
    "printable_map d'" "distinct (map fst d')" "\<forall>k. k \<notin> {''id'', ''origin_device_id''} \<longrightarrow> map_of d' k = map_of d k"
    using identifiers_only [OF decoded_printable [OF assms(1)] distinct_go_map [OF assms(1)]] by blast
  ultimately have syn: "synthesiseBody number body = of_option marshal_error (marshal_map d')"
    by (simp only: synthesiseBody_def assms(1) option.case marshal_go_map_def)
  have "map_of d' ''payload'' = Some p" using d'(4) assms(2) by simp
  from marshal_map_printed [OF d'(2,3) this] obtain out q pre post where
    "marshal_map d' = Some out" "Compact p = Some q" "out = pre @ marshal_string ''payload'' @ '':'' @ q @ post" by blast
  moreover from this(1) syn have "synthesiseBody number body = Inr out" by (simp add: of_option_def)
  ultimately show ?thesis using d'(4) by blast
qed

definition finite_numbers :: "bytes \<Rightarrow> bytes option" where
  "finite_numbers t = (if t = ''1e999'' then None else Some t)"

definition overflowing_payload :: bytes where
  \<open>overflowing_payload = ''["a secret",1e999]''\<close>

definition overflowing_body :: bytes where
  \<open>overflowing_body = ''{"payload":'' @ overflowing_payload @ ''}''\<close>

lemma overflowing_reads:
  "unmarshal_go_map overflowing_body = Some (Some [(''payload'', overflowing_payload)])"
  "unmarshal_any finite_numbers overflowing_payload = None"
  by code_simp+

lemma overflowing_compact: "Compact overflowing_payload = Some overflowing_payload"
  by code_simp

theorem undecoded_payload_is_published_witness:
  "\<exists>out pre post. synthesiseBody finite_numbers overflowing_body = Inr out
    \<and> out = pre @ marshal_string ''payload'' @ '':'' @ overflowing_payload @ post"
proof -
  have "map_of [(''payload'', overflowing_payload)] ''payload'' = Some overflowing_payload" by simp
  from undecoded_payload_is_published [OF overflowing_reads(1) this overflowing_reads(2)] obtain out d' q pre post where
    "synthesiseBody finite_numbers overflowing_body = Inr out" "Compact overflowing_payload = Some q"
    "out = pre @ marshal_string ''payload'' @ '':'' @ q @ post" by (elim exE conjE)
  moreover from this(2) overflowing_compact have "q = overflowing_payload" by (simp only: option.inject)
  ultimately show ?thesis by blast
qed

end
