(* ===== verification/Spec2Isabelle.thy ===== *)
theory Spec2Isabelle
  imports EndToEnd DecJson PairLock PairFiles ClientDb Bind DigestNull Settings ConnectProps Run ScrubProps
begin

text \<open>
  A verification development for \<open>cmemlan\<close>, a hub that replicates the memory of claude-mem clients
  over a local network: devices push operations to the hub, the hub numbers them in one log, and every
  device pulls the log in pages. The same program is the command line around the hub and on the clients.

  \<^bold>\<open>Parts of the program and their theories.\<close>

  \<^item> \<open>internal/proto\<close>: decimals (\<open>Dec\<close>, \<open>DecJson\<close>), digests (\<open>Digest\<close>; \<open>DigestNull\<close> evaluates the digest of
    the null payload), unquoting of the body literal (\<open>Unquote\<close>), the operation wrapper (\<open>Wrapper\<close>),
    emitting (\<open>Emit\<close>), rejection reasons (\<open>Errors\<close>).
  \<^item> \<open>internal/store\<close>: tables, statements, transactions and migration (\<open>Db\<close>), devices (\<open>Devices\<close>),
    pushing (\<open>Push\<close>), paging (\<open>Changes\<close>, over the contract of \<open>Paging\<close>), opening and epochs (\<open>Store\<close>).
  \<^item> \<open>internal/hub\<close>: requests, middleware, handlers and routing (\<open>Hub\<close>, with its lemmas in \<open>HubProps\<close>),
    bind addresses and the peer filter (\<open>Bind\<close>), the recorder (\<open>Recorder\<close>).
  \<^item> \<open>internal/pair\<close>: key, codes and windows on the contents of a directory (\<open>Pair\<close>), the same functions on
    files (\<open>PairFiles\<close>), the lock file as a step relation (\<open>PairLock\<close>).
  \<^item> \<open>internal/clientdb\<close>: queue counts, backfill and undo on claude-mem's own database (\<open>ClientDb\<close>).
  \<^item> \<open>internal/settings\<close>, \<open>internal/paths\<close>, \<open>internal/discover\<close>, \<open>internal/logging\<close>, \<open>internal/buildinfo\<close>:
    \<open>Settings\<close>, \<open>Paths\<close>, \<open>Discover\<close>, \<open>Logging\<close>, and for the last one \<open>Health\<close>.
  \<^item> \<open>internal/cli\<close> and \<open>cmd/cmemlan\<close>: flags (\<open>Flags\<close>), the world a command acts on (\<open>Cli\<close>), the hub's commands
    \<open>pair\<close>, \<open>devices\<close>, \<open>revoke\<close>, \<open>rotate-token\<close> (\<open>PairCmd\<close>), the requests of a client (\<open>HubClient\<close>), \<open>connect\<close>
    and the worker (\<open>Connect\<close>, \<open>ConnectProps\<close>), \<open>status\<close> and \<open>doctor\<close> (\<open>Health\<close>), \<open>backfill\<close> (\<open>BackfillCmd\<close>), the
    service files, the run lock and free space (\<open>Service\<close>), \<open>serve\<close> (\<open>Serve\<close>), \<open>fixtures\<close> (\<open>Fixtures\<close>,
    \<open>ScrubProps\<close>), the dispatch (\<open>Run\<close>).
  \<^item> What the code uses of Go's library, written out: UTF-8 (\<open>Utf8\<close>), \<open>strings\<close> (\<open>Strings\<close>), the scanner and the
    string decoding of \<open>encoding/json\<close> (\<open>Json\<close>), decoding into structs (\<open>JsonStruct\<close>), printing (\<open>JsonPrint\<close>) and
    its round trips (\<open>JsonIndent\<close>, \<open>JsonCompact\<close>), \<open>net\<close> and \<open>net/netip\<close> (\<open>Net\<close>, \<open>Netip\<close>), \<open>os\<close> (\<open>FileSys\<close>).
  \<^item> Compositions: runs of the hub with its devices (\<open>Replication\<close>), requests from bytes to log and back
    (\<open>EndToEnd\<close>), a client command against the hub's handlers (\<open>HubClient\<close>, \<open>ConnectProps\<close>, \<open>Health\<close>), a hub
    command while a hub runs (\<open>PairCmd\<close>), a unit that is installed and started (\<open>Serve\<close>).

  \<^bold>\<open>How the code is read.\<close> A Go byte slice or string is a list of bytes (\<open>bytes\<close>), a \<open>uint64\<close> a 64-bit
  word, an \<open>int64\<close> an \<open>int\<close> with its range stated where it matters, an error a value of a sum type. A
  database is a record of tables, the files of a machine are bytes, mode and time by path; an operation on
  either is a function from that state and a call counter to a result, the counter and the state
  (\<open>Db.action\<close>). \<open>env_fault\<close> decides which calls into SQLite fail; \<open>os_fault\<close> which calls into the file system
  are refused or break off after some bytes, and \<open>os_other\<close> what other programs do to the files between any two
  calls. So a theorem about an operation covers every pattern of failures and of interference. A command
  is an action on the world (\<open>Cli.world\<close>: output, files, claude-mem's database, the hub's data directories),
  which ends with an exit code. The clock, random bytes, the table of printable runes, the answers of
  the network, the texts of errors, times and durations are arguments.

  \<^bold>\<open>What the lemmas show.\<close> The abstract log (\<open>Push.spec_push\<close>) is the specification of the store:
  \<open>Push\<close> refines it, a failed push changes nothing, \<open>Changes\<close> reads consecutive stretches of it, paging
  (interpretation \<open>store_log\<close> of the contract \<open>paged_log\<close>) delivers all of it, and in every run each device
  holds a prefix of it; one that keeps pulling catches up. The hub keeps the store consistent under every sequence of requests, only
  admitted requests act, every response is well-formed, and a body comes out byte for byte as it went
  in. Pairing windows are budgeted (contract \<open>pair_exchanger\<close>, interpreted for the window in memory
  and for the window file), and redeeming on files is redeeming on their contents, with failures read off the calls. Settings survive an
  update, a failed update leaves the file. \<open>connect\<close> trusts only a verified key; a paired machine ends up with the
  hub's key. A hub that begins to serve has passed the bind check, has peers, holds the run lock and checks the stored key. A
  scrubbed capture does not depend on the words of the payloads. Exit codes mean what they say.
  The remaining groups treat the parsers and printers: round trips, equivalence with the library's decoder.
  Some theorems describe where the code does less than it means to (an interrupted repair of the store, a key
  rotated under a running hub, a first key written in part, an installed unit that refuses its address);
  they are stated for the code as it is.

  \<^bold>\<open>Bounds and fuel.\<close> Loops over bytes are recursive functions with termination proofs. The run lock
  (\<open>Service.Lockfile\<close>) is retried as long as stale files keep appearing, so its model counts the rounds it is given
  and returns \<open>None\<close> when they are used up; \<open>Serve\<close> proves that two are enough when nothing else touches the directory. The waiting
  in \<open>FileWindow.lock\<close> is the step relation of \<open>PairLock\<close>. \<open>Paging.drain\<close>, a client that asks for page after page,
  takes fuel, and is proved to finish with one more request than there are entries.

  \<^bold>\<open>Simplifications.\<close> Directories and symbolic links are not represented: creating a directory can only fail.
  A glob pattern is a prefix and a star, for directory names without the characters Glob gives a meaning to.
  The commands use \<open>Pair\<close>'s view of the hub's data directory, in which a failed write of the key leaves nothing; \<open>PairFiles\<close>
  shows that opening and redeeming a window on files behave as in that view when the key is there, and what a first
  key written in part leads to. Printing and reading a
  \<open>float64\<close> is the argument \<open>number\<close> of the scrubber. The raw query of a captured request is an argument beside the
  parsed one. How serving ends is an argument of \<open>serve\<close>,
  which sees the hub and the machine at the moment it begins.

  \<^bold>\<open>Not modelled.\<close> What a log line says (\<open>Logging\<close> models levels and formats); the connection string, the tuning and the closing of
  database handles, and the setters and hooks that only tests use; the timeouts of \<open>http.Server\<close>, its graceful
  shutdown and cancellation (a request that is cut off is a call that fails); \<open>recoverPanics\<close> (no function of the
  model panics); mutexes inside a process (one operation runs at a time); the timing of \<open>crypto/subtle\<close>; the
  mDNS library (its answers are arguments); \<open>diskfree_other.go\<close>, which only returns an error.
\<close>

end
